(* ===== verification/Engine.thy ===== *)
theory Engine
  imports Prelude
begin

text \<open>
  The chess rules engine of the browser client (Chess-Frontend/src/engine/chessEngine.js):
  boards, raw and legal moves, check detection, replay of a recorded move log, FEN text and
  UCI moves. A square is a pair of integers (row 0 is the eighth rank, column 0 the a-file),
  as in the source. The lemmas characterise the generated moves by declarative movement
  rules, bound them by the board, and state what a legal move guarantees.
\<close>

section \<open>Data\<close>

text \<open>A piece is the two-letter string of the source, e.g. ''wP''; an empty cell is null.\<close>

datatype pcolor = White | Black
datatype ptype = Pawn | Knight | Bishop | Rook | Queen | King
datatype piece = Piece (pcol: pcolor) (pkind: ptype)

type_synonym board = "piece option list list"
type_synonym square = "int \<times> int"

record castling =
  wK :: bool
  wQ :: bool
  bK :: bool
  bQ :: bool

definition FILES :: string where
  "FILES = ''abcdefgh''"

fun opp :: "pcolor \<Rightarrow> pcolor" where
  "opp White = Black"
| "opp Black = White"

lemma opp_opp [simp]: "opp (opp c) = c"
  by (cases c) auto

lemma opp_neq [simp]: "opp c \<noteq> c" "c \<noteq> opp c"
  by (cases c; simp)+

lemma neq_opp: "c \<noteq> d \<longleftrightarrow> c = opp d"
  by (cases c; cases d) auto

definition back_rank :: "ptype list" where
  "back_rank = [Rook, Knight, Bishop, Queen, King, Bishop, Knight, Rook]"

definition initBoard :: board where
  "initBoard =
     [map (\<lambda>p. Some (Piece Black p)) back_rank, replicate 8 (Some (Piece Black Pawn)),
      replicate 8 None, replicate 8 None, replicate 8 None, replicate 8 None,
      replicate 8 (Some (Piece White Pawn)), map (\<lambda>p. Some (Piece White p)) back_rank]"

definition pc :: "piece option \<Rightarrow> pcolor option" where
  "pc p = map_option pcol p"

definition pt :: "piece option \<Rightarrow> ptype option" where
  "pt p = map_option pkind p"

definition inB :: "int \<Rightarrow> int \<Rightarrow> bool" where
  "inB r c \<longleftrightarrow> r \<ge> 0 \<and> r < 8 \<and> c \<ge> 0 \<and> c < 8"

text \<open>
  \<open>board[r][c]\<close> and \<open>board[r][c] = v\<close>. The engine reads and writes squares of the board
  only; outside it a read is null and a write has no effect on the board.
\<close>

definition cell :: "board \<Rightarrow> int \<Rightarrow> int \<Rightarrow> piece option" where
  "cell b r c =
     (if 0 \<le> r \<and> nat r < length b \<and> 0 \<le> c \<and> nat c < length (b ! nat r)
      then b ! nat r ! nat c else None)"

definition put :: "board \<Rightarrow> int \<Rightarrow> int \<Rightarrow> piece option \<Rightarrow> board" where
  "put b r c v =
     (if 0 \<le> r \<and> nat r < length b \<and> 0 \<le> c \<and> nat c < length (b ! nat r)
      then b[nat r := (b ! nat r)[nat c := v]] else b)"

text \<open>Well-formed boards: eight rows of eight cells.\<close>

definition wf_board :: "board \<Rightarrow> bool" where
  "wf_board b \<longleftrightarrow> length b = 8 \<and> (\<forall>row \<in> set b. length row = 8)"

lemma wf_board_length: "wf_board b \<Longrightarrow> length b = 8"
  by (simp add: wf_board_def)

lemma wf_board_row: "wf_board b \<Longrightarrow> i < 8 \<Longrightarrow> length (b ! i) = 8"
  by (simp add: wf_board_def)

lemma wf_initBoard [simp]: "wf_board initBoard"
  by (simp add: wf_board_def initBoard_def back_rank_def)

lemma wf_put [simp]: "wf_board b \<Longrightarrow> wf_board (put b r c v)"
  by (force simp: wf_board_def put_def all_set_conv_all_nth nth_list_update)

lemma cell_wf: "wf_board b \<Longrightarrow> inB r c \<Longrightarrow> cell b r c = b ! nat r ! nat c"
  by (auto simp: cell_def inB_def wf_board_def)

lemma cell_put:
  assumes "wf_board b" and "inB r c"
  shows "cell (put b r c v) r' c' = (if r' = r \<and> c' = c then v else cell b r' c')"
proof -
  have len: "length b = 8" "nat r < 8" "length (b ! nat r) = 8" "nat c < 8"
    using assms by (auto simp: wf_board_def inB_def)
  show ?thesis
  proof (cases "r' = r")
    case True
    then show ?thesis
      using assms len by (auto simp: cell_def put_def inB_def nth_list_update nat_eq_iff)
  next
    case False
    then show ?thesis
      using assms len by (auto simp: cell_def put_def inB_def nth_list_update nat_eq_iff)
  qed
qed

section \<open>Move generation\<close>

text \<open>
  The loop \<open>sl(dr, dc)\<close>: it walks from the given square while it is on the board, collects
  empty squares, and stops at the first piece, which is collected when it is the
  opponent's. Eight steps leave the board in every direction (\<open>slide_mem_iff\<close> below shows
  that the bound loses nothing).
\<close>

fun slide :: "nat \<Rightarrow> board \<Rightarrow> pcolor \<Rightarrow> int \<Rightarrow> int \<Rightarrow> int \<Rightarrow> int \<Rightarrow> square list" where
  "slide 0 b op nr nc dr dc = []"
| "slide (Suc n) b op nr nc dr dc =
     (if inB nr nc then
        (case cell b nr nc of
           None \<Rightarrow> (nr, nc) # slide n b op (nr + dr) (nc + dc) dr dc
         | Some q \<Rightarrow> (if pcol q = op then [(nr, nc)] else []))
      else [])"

definition sl :: "board \<Rightarrow> pcolor \<Rightarrow> int \<Rightarrow> int \<Rightarrow> int \<Rightarrow> int \<Rightarrow> square list" where
  "sl b op r c dr dc = slide 8 b op (r + dr) (c + dc) dr dc"

definition pawn_moves :: "board \<Rightarrow> pcolor \<Rightarrow> int \<Rightarrow> int \<Rightarrow> square option \<Rightarrow> square list" where
  "pawn_moves b col r c ep =
     (let d = (case col of White \<Rightarrow> -1 | Black \<Rightarrow> 1);
          st = (case col of White \<Rightarrow> 6 | Black \<Rightarrow> 1) in
      (if inB (r + d) c \<and> cell b (r + d) c = None then
         (r + d, c) #
         (if r = st \<and> cell b (r + 2 * d) c = None then [(r + 2 * d, c)] else [])
       else []) @
      concat (map (\<lambda>dc.
        if inB (r + d) (c + dc) then
          (if pc (cell b (r + d) (c + dc)) = Some (opp col) then [(r + d, c + dc)] else []) @
          (if ep = Some (r + d, c + dc) then [(r + d, c + dc)] else [])
        else []) [-1, 1]))"

definition step_moves :: "board \<Rightarrow> pcolor \<Rightarrow> int \<Rightarrow> int \<Rightarrow> square list \<Rightarrow> square list" where
  "step_moves b col r c ds =
     concat (map (\<lambda>(dr, dc).
       if inB (r + dr) (c + dc) \<and> pc (cell b (r + dr) (c + dc)) \<noteq> Some col
       then [(r + dr, c + dc)] else []) ds)"

definition knight_dirs :: "square list" where
  "knight_dirs = [(-2, -1), (-2, 1), (-1, -2), (-1, 2), (1, -2), (1, 2), (2, -1), (2, 1)]"

definition king_dirs :: "square list" where
  "king_dirs = [(-1, -1), (-1, 0), (-1, 1), (0, -1), (0, 1), (1, -1), (1, 0), (1, 1)]"

definition bishop_dirs :: "square list" where
  "bishop_dirs = [(-1, -1), (-1, 1), (1, -1), (1, 1)]"

definition rook_dirs :: "square list" where
  "rook_dirs = [(-1, 0), (1, 0), (0, -1), (0, 1)]"

definition castle_row :: "pcolor \<Rightarrow> int" where
  "castle_row col = (case col of White \<Rightarrow> 7 | Black \<Rightarrow> 0)"

text \<open>\<open>cast[col + "K"]\<close> and \<open>cast[col + "Q"]\<close>.\<close>

definition castK :: "castling \<Rightarrow> pcolor \<Rightarrow> bool" where
  "castK k col = (case col of White \<Rightarrow> wK k | Black \<Rightarrow> bK k)"

definition castQ :: "castling \<Rightarrow> pcolor \<Rightarrow> bool" where
  "castQ k col = (case col of White \<Rightarrow> wQ k | Black \<Rightarrow> bQ k)"

definition castle_moves :: "board \<Rightarrow> pcolor \<Rightarrow> int \<Rightarrow> int \<Rightarrow> castling option \<Rightarrow> square list" where
  "castle_moves b col r c cast =
     (case cast of None \<Rightarrow> [] | Some k \<Rightarrow>
       (let row = castle_row col in
        if r = row \<and> c = 4 then
          (if castK k col \<and> cell b row 5 = None \<and> cell b row 6 = None then [(row, 6)] else []) @
          (if castQ k col \<and> cell b row 3 = None \<and> cell b row 2 = None \<and> cell b row 1 = None
           then [(row, 2)] else [])
        else []))"

definition rawMoves ::
  "board \<Rightarrow> int \<Rightarrow> int \<Rightarrow> square option \<Rightarrow> castling option \<Rightarrow> square list" where
  "rawMoves b r c ep cast =
     (case cell b r c of
        None \<Rightarrow> []
      | Some (Piece col t) \<Rightarrow>
          (if t = Pawn then pawn_moves b col r c ep else []) @
          (if t = Knight then step_moves b col r c knight_dirs else []) @
          (if t = Bishop \<or> t = Queen
           then concat (map (\<lambda>(dr, dc). sl b (opp col) r c dr dc) bishop_dirs) else []) @
          (if t = Rook \<or> t = Queen
           then concat (map (\<lambda>(dr, dc). sl b (opp col) r c dr dc) rook_dirs) else []) @
          (if t = King then step_moves b col r c king_dirs @ castle_moves b col r c cast else []))"

section \<open>Making moves, check, legal moves\<close>

definition appMv :: "board \<Rightarrow> int \<Rightarrow> int \<Rightarrow> int \<Rightarrow> int \<Rightarrow> board" where
  "appMv b fr fc tr tc = put (put b tr tc (cell b fr fc)) fr fc None"

definition all_squares :: "square list" where
  "all_squares = List.product [0..7] [0..7]"

lemma mem_all_squares [simp]: "(r, c) \<in> set all_squares \<longleftrightarrow> inB r c"
  by (auto simp: all_squares_def inB_def)

lemma list_ex_all_squares:
  "list_ex (\<lambda>(r, c). P r c) all_squares \<longleftrightarrow> (\<exists>r c. inB r c \<and> P r c)"
  by (simp only: list_ex_iff Bex_def split_paired_Ex mem_all_squares prod.case)

text \<open>The king found last by the row-by-row scan; \<open>kr === -1\<close> when there is none.\<close>

definition find_king :: "board \<Rightarrow> pcolor \<Rightarrow> square option" where
  "find_king b col =
     (case filter (\<lambda>(r, c). cell b r c = Some (Piece col King)) all_squares of
        [] \<Rightarrow> None | k # ks \<Rightarrow> Some (last (k # ks)))"

definition inChk :: "board \<Rightarrow> pcolor \<Rightarrow> bool" where
  "inChk b col =
     (case find_king b col of
        None \<Rightarrow> False
      | Some k \<Rightarrow> list_ex (\<lambda>(r, c). pc (cell b r c) = Some (opp col) \<and>
                              List.member (rawMoves b r c None None) k) all_squares)"

definition castle_rook :: "board \<Rightarrow> pcolor \<Rightarrow> int \<Rightarrow> board" where
  "castle_rook nb col tc =
     (let row = castle_row col in
      if tc = 6 then put (put nb row 5 (cell nb row 7)) row 7 None
      else put (put nb row 3 (cell nb row 0)) row 0 None)"

text \<open>
  The position \<open>nb\<close> that \<open>getLegal\<close> tests for a candidate move: the piece moved, the
  pawn taken en passant removed, the castling rook moved.
\<close>

definition try_move ::
  "board \<Rightarrow> int \<Rightarrow> int \<Rightarrow> square option \<Rightarrow> int \<Rightarrow> int \<Rightarrow> pcolor \<Rightarrow> ptype \<Rightarrow> board" where
  "try_move b r c ep tr tc col t =
     (let nb = appMv b r c tr tc;
          nb = (if t = Pawn \<and> ep = Some (tr, tc)
                then put nb (case col of White \<Rightarrow> tr + 1 | Black \<Rightarrow> tr - 1) tc None else nb)
      in if t = King \<and> \<bar>tc - c\<bar> = 2 then castle_rook nb col tc else nb)"

definition getLegal ::
  "board \<Rightarrow> int \<Rightarrow> int \<Rightarrow> square option \<Rightarrow> castling option \<Rightarrow> square list" where
  "getLegal b r c ep cast =
     (case cell b r c of
        None \<Rightarrow> []
      | Some (Piece col t) \<Rightarrow>
          filter (\<lambda>(tr, tc).
            \<not> (t = King \<and> \<bar>tc - c\<bar> = 2 \<and>
               inChk (appMv b r c (castle_row col) (if tc = 6 then 5 else 3)) col) \<and>
            \<not> inChk (try_move b r c ep tr tc col t) col)
          (rawMoves b r c ep cast))"

definition hasAny :: "board \<Rightarrow> pcolor \<Rightarrow> square option \<Rightarrow> castling option \<Rightarrow> bool" where
  "hasAny b col ep cast =
     list_ex (\<lambda>(r, c). pc (cell b r c) = Some col \<and> getLegal b r c ep cast \<noteq> []) all_squares"


section \<open>What the generated moves are\<close>

text \<open>The squares a sliding piece reaches along one direction, without a step bound.\<close>

definition ray_target :: "board \<Rightarrow> pcolor \<Rightarrow> int \<Rightarrow> int \<Rightarrow> int \<Rightarrow> int \<Rightarrow> nat \<Rightarrow> bool" where
  "ray_target b op x y dr dc k \<longleftrightarrow>
     inB (x + int k * dr) (y + int k * dc) \<and>
     (\<forall>j < k. inB (x + int j * dr) (y + int j * dc) \<and> cell b (x + int j * dr) (y + int j * dc) = None) \<and>
     pc (cell b (x + int k * dr) (y + int k * dc)) \<in> {None, Some op}"

lemma ray_target_Suc:
  "ray_target b op x y dr dc (Suc k) \<longleftrightarrow>
     inB x y \<and> cell b x y = None \<and> ray_target b op (x + dr) (y + dc) dr dc k"
  unfolding ray_target_def All_less_Suc2 by (auto simp: algebra_simps)

lemma ray_target_0:
  "ray_target b op x y dr dc 0 \<longleftrightarrow> inB x y \<and> pc (cell b x y) \<in> {None, Some op}"
  by (simp add: ray_target_def)

lemma slide_mem:
  "(p, q) \<in> set (slide n b op x y dr dc) \<longleftrightarrow>
     (\<exists>k < n. p = x + int k * dr \<and> q = y + int k * dc \<and> ray_target b op x y dr dc k)"
proof (induction n arbitrary: x y)
  case 0
  then show ?case by simp
next
  case (Suc n)
  have "(\<exists>k < Suc n. p = x + int k * dr \<and> q = y + int k * dc \<and> ray_target b op x y dr dc k) \<longleftrightarrow>
     (p = x \<and> q = y \<and> ray_target b op x y dr dc 0) \<or>
     (\<exists>k < n. p = x + dr + int k * dr \<and> q = y + dc + int k * dc \<and> ray_target b op x y dr dc (Suc k))"
    unfolding Ex_less_Suc2 by (simp add: algebra_simps)
  then show ?case
    by (auto simp: Suc.IH ray_target_Suc ray_target_0 pc_def split: option.splits)
qed

lemma ray_leaves_board:
  assumes "inB r c" and "(dr, dc) \<in> set (bishop_dirs @ rook_dirs)"
    and "inB (r + dr + int k * dr) (c + dc + int k * dc)"
  shows "k < 8"
proof -
  have "dr \<in> {-1, 0, 1}" "dc \<in> {-1, 0, 1}" "dr \<noteq> 0 \<or> dc \<noteq> 0"
    using assms(2) by (auto simp: bishop_dirs_def rook_dirs_def)
  then show ?thesis
    using assms(1,3) unfolding inB_def by auto
qed

lemma slide_mem_iff:
  assumes "inB r c" and "(dr, dc) \<in> set (bishop_dirs @ rook_dirs)"
  shows "(p, q) \<in> set (sl b op r c dr dc) \<longleftrightarrow>
    (\<exists>k. p = r + dr + int k * dr \<and> q = c + dc + int k * dc \<and>
         ray_target b op (r + dr) (c + dc) dr dc k)"
proof -
  have "k < 8" if "ray_target b op (r + dr) (c + dc) dr dc k" for k
    using ray_leaves_board [OF assms, of k] that by (simp add: ray_target_def)
  then show ?thesis
    unfolding sl_def slide_mem by blast
qed

text \<open>Movement rules, piece by piece, independent of the generator.\<close>

definition pawn_dir :: "pcolor \<Rightarrow> int" where
  "pawn_dir col = (case col of White \<Rightarrow> -1 | Black \<Rightarrow> 1)"

definition pawn_start :: "pcolor \<Rightarrow> int" where
  "pawn_start col = (case col of White \<Rightarrow> 6 | Black \<Rightarrow> 1)"

definition ray_reach :: "board \<Rightarrow> pcolor \<Rightarrow> int \<Rightarrow> int \<Rightarrow> int \<Rightarrow> int \<Rightarrow> square list \<Rightarrow> bool" where
  "ray_reach b op r c p q ds \<longleftrightarrow>
     (\<exists>(dr, dc) \<in> set ds. \<exists>k. p = r + dr + int k * dr \<and> q = c + dc + int k * dc \<and>
        ray_target b op (r + dr) (c + dc) dr dc k)"

definition pawn_rule :: "board \<Rightarrow> pcolor \<Rightarrow> int \<Rightarrow> int \<Rightarrow> square option \<Rightarrow> int \<Rightarrow> int \<Rightarrow> bool" where
  "pawn_rule b col r c ep p q \<longleftrightarrow>
     inB p q \<and>
     ((q = c \<and> p = r + pawn_dir col \<and> cell b p q = None) \<or>
      (q = c \<and> p = r + 2 * pawn_dir col \<and> r = pawn_start col \<and>
        cell b (r + pawn_dir col) c = None \<and> cell b p q = None) \<or>
      (\<bar>q - c\<bar> = 1 \<and> p = r + pawn_dir col \<and>
        (pc (cell b p q) = Some (opp col) \<or> ep = Some (p, q))))"

definition king_rule :: "board \<Rightarrow> pcolor \<Rightarrow> int \<Rightarrow> int \<Rightarrow> castling option \<Rightarrow> int \<Rightarrow> int \<Rightarrow> bool" where
  "king_rule b col r c cast p q \<longleftrightarrow>
     (inB p q \<and> max \<bar>p - r\<bar> \<bar>q - c\<bar> = 1 \<and> pc (cell b p q) \<noteq> Some col) \<or>
     (\<exists>k. cast = Some k \<and> r = castle_row col \<and> c = 4 \<and> p = r \<and>
        ((q = 6 \<and> castK k col \<and> (\<forall>x \<in> {5, 6}. cell b r x = None)) \<or>
         (q = 2 \<and> castQ k col \<and> (\<forall>x \<in> {1, 2, 3}. cell b r x = None))))"

definition move_rule ::
  "board \<Rightarrow> int \<Rightarrow> int \<Rightarrow> square option \<Rightarrow> castling option \<Rightarrow> int \<Rightarrow> int \<Rightarrow> bool" where
  "move_rule b r c ep cast p q \<longleftrightarrow>
     (case cell b r c of None \<Rightarrow> False | Some (Piece col t) \<Rightarrow>
       (case t of
          Pawn \<Rightarrow> pawn_rule b col r c ep p q
        | Knight \<Rightarrow> inB p q \<and> {\<bar>p - r\<bar>, \<bar>q - c\<bar>} = {1, 2} \<and> pc (cell b p q) \<noteq> Some col
        | Bishop \<Rightarrow> ray_reach b (opp col) r c p q bishop_dirs
        | Rook \<Rightarrow> ray_reach b (opp col) r c p q rook_dirs
        | Queen \<Rightarrow> ray_reach b (opp col) r c p q (bishop_dirs @ rook_dirs)
        | King \<Rightarrow> king_rule b col r c cast p q))"

lemma pawn_moves_mem:
  "(p, q) \<in> set (pawn_moves b col r c ep) \<longleftrightarrow>
     (let d = pawn_dir col in
      (inB (r + d) c \<and> cell b (r + d) c = None \<and> q = c \<and>
        (p = r + d \<or> r = pawn_start col \<and> cell b (r + 2 * d) c = None \<and> p = r + 2 * d)) \<or>
      (p = r + d \<and> (q = c - 1 \<or> q = c + 1) \<and> inB p q \<and>
        (pc (cell b p q) = Some (opp col) \<or> ep = Some (p, q))))"
  unfolding pawn_moves_def Let_def pawn_dir_def pawn_start_def
  by (cases col) (simp_all, blast+)

lemma abs_int_numeral_cases:
  fixes x :: int
  shows "\<bar>x\<bar> = 1 \<longleftrightarrow> x = 1 \<or> x = -1" "\<bar>x\<bar> = 2 \<longleftrightarrow> x = 2 \<or> x = -2"
  by arith+

lemma pawn_moves_rule:
  assumes "inB r c"
  shows "(p, q) \<in> set (pawn_moves b col r c ep) \<longleftrightarrow> pawn_rule b col r c ep p q"
proof -
  have "\<bar>q - c\<bar> = 1 \<longleftrightarrow> q = c - 1 \<or> q = c + 1"
    by arith
  moreover have "r = pawn_start col \<Longrightarrow> inB (r + pawn_dir col) c \<and> inB (r + 2 * pawn_dir col) c"
    using assms by (cases col) (auto simp: pawn_start_def pawn_dir_def inB_def)
  ultimately show ?thesis
    unfolding pawn_moves_mem pawn_rule_def Let_def by auto
qed

lemma step_moves_mem:
  "(p, q) \<in> set (step_moves b col r c ds) \<longleftrightarrow>
     (p - r, q - c) \<in> set ds \<and> inB p q \<and> pc (cell b p q) \<noteq> Some col"
proof -
  have sub: "p = r + dr \<longleftrightarrow> dr = p - r" "q = c + dr \<longleftrightarrow> dr = q - c" for dr
    by arith+
  have "(p, q) \<in> set (step_moves b col r c ds) \<longleftrightarrow>
     (\<exists>dr dc. (dr, dc) \<in> set ds \<and> p = r + dr \<and> q = c + dc \<and> inB p q \<and> pc (cell b p q) \<noteq> Some col)"
    unfolding step_moves_def by (auto split: if_splits)
  then show ?thesis
    unfolding sub by auto
qed

lemma knight_moves_rule:
  "(p, q) \<in> set (step_moves b col r c knight_dirs) \<longleftrightarrow>
     inB p q \<and> {\<bar>p - r\<bar>, \<bar>q - c\<bar>} = {1, 2} \<and> pc (cell b p q) \<noteq> Some col"
proof -
  have "(x, y) \<in> set knight_dirs \<longleftrightarrow> {\<bar>x\<bar>, \<bar>y\<bar>} = {1, 2}" for x y :: int
    unfolding doubleton_eq_iff abs_int_numeral_cases knight_dirs_def by auto
  then show ?thesis
    unfolding step_moves_mem by blast
qed

lemma king_moves_rule:
  assumes "inB r c"
  shows "(p, q) \<in> set (step_moves b col r c king_dirs @ castle_moves b col r c cast) \<longleftrightarrow>
     king_rule b col r c cast p q"
proof -
  have "(x, y) \<in> set king_dirs \<longleftrightarrow> max \<bar>x\<bar> \<bar>y\<bar> = 1" for x y :: int
  proof -
    have "max \<bar>x\<bar> \<bar>y\<bar> = 1 \<longleftrightarrow> x \<in> {-1, 0, 1} \<and> y \<in> {-1, 0, 1} \<and> (x \<noteq> 0 \<or> y \<noteq> 0)"
      by (simp add: max_def abs_if; presburger)
    then show ?thesis
      by (auto simp: king_dirs_def)
  qed
  moreover have "(p, q) \<in> set (castle_moves b col r c cast) \<longleftrightarrow>
     (\<exists>k. cast = Some k \<and> r = castle_row col \<and> c = 4 \<and> p = r \<and>
        ((q = 6 \<and> castK k col \<and> (\<forall>x \<in> {5, 6}. cell b r x = None)) \<or>
         (q = 2 \<and> castQ k col \<and> (\<forall>x \<in> {1, 2, 3}. cell b r x = None))))"
    by (cases cast) (auto simp: castle_moves_def Let_def)
  ultimately show ?thesis
    unfolding king_rule_def by (auto simp: step_moves_mem)
qed

lemma slide_moves_rule:
  assumes "inB r c" and "set ds \<subseteq> set (bishop_dirs @ rook_dirs)"
  shows "(p, q) \<in> set (concat (map (\<lambda>(dr, dc). sl b op r c dr dc) ds)) \<longleftrightarrow> ray_reach b op r c p q ds"
proof -
  have "(p, q) \<in> set (sl b op r c dr dc) \<longleftrightarrow>
    (\<exists>k. p = r + dr + int k * dr \<and> q = c + dc + int k * dc \<and> ray_target b op (r + dr) (c + dc) dr dc k)"
    if "(dr, dc) \<in> set ds" for dr dc
    using that assms slide_mem_iff [OF assms(1), of dr dc] by blast
  moreover have "(p, q) \<in> set (concat (map (\<lambda>(dr, dc). sl b op r c dr dc) ds)) \<longleftrightarrow>
      (\<exists>dr dc. (dr, dc) \<in> set ds \<and> (p, q) \<in> set (sl b op r c dr dc))"
    by auto
  moreover have "ray_reach b op r c p q ds \<longleftrightarrow>
      (\<exists>dr dc. (dr, dc) \<in> set ds \<and> (\<exists>k. p = r + dr + int k * dr \<and> q = c + dc + int k * dc \<and>
         ray_target b op (r + dr) (c + dc) dr dc k))"
    unfolding ray_reach_def by fastforce
  ultimately show ?thesis by metis
qed

lemma ray_reach_append:
  "ray_reach b op r c p q (ds @ es) \<longleftrightarrow> ray_reach b op r c p q ds \<or> ray_reach b op r c p q es"
  unfolding ray_reach_def by (simp add: bex_Un)

lemma rawMoves_rules:
  assumes "inB r c"
  shows "(p, q) \<in> set (rawMoves b r c ep cast) \<longleftrightarrow> move_rule b r c ep cast p q"
proof (cases "cell b r c")
  case None
  then show ?thesis by (simp add: rawMoves_def move_rule_def)
next
  case (Some pi)
  obtain col t where pi: "pi = Piece col t" by (cases pi)
  note rules = pawn_moves_rule [OF assms] knight_moves_rule king_moves_rule [OF assms]
    slide_moves_rule [OF assms, of bishop_dirs] slide_moves_rule [OF assms, of rook_dirs]
  show ?thesis
    unfolding rawMoves_def move_rule_def Some pi
    by (cases t) (use rules in \<open>simp_all add: ray_reach_append del: set_concat\<close>)
qed

text \<open>
  C1. The move generator \<open>rawMoves\<close> produces exactly the moves of the declarative movement
  rules: pawn steps, double steps and captures, knight jumps, rays of bishops, rooks and
  queens up to and including the first piece of the other colour, king steps and castling
  over empty squares with the right still held.
\<close>

theorem rawMoves_iff_move_rule:
  assumes "inB r c"
  shows "(p, q) \<in> set (rawMoves b r c ep cast) \<longleftrightarrow> move_rule b r c ep cast p q"
  using assms by (rule rawMoves_rules)

theorem rawMoves_iff_move_rule_witness:
  "(5, 2) \<in> set (rawMoves initBoard 7 1 None None) \<longleftrightarrow> move_rule initBoard 7 1 None None 5 2"
  by (rule rawMoves_iff_move_rule) (simp add: inB_def)

section \<open>What raw and legal moves guarantee\<close>

lemma rawMoves_member: "(p, q) \<in> set (rawMoves b r c ep cast) \<Longrightarrow> \<exists>col t. cell b r c = Some (Piece col t)"
  by (cases "cell b r c") (auto simp: rawMoves_def intro: piece.exhaust)

lemma ray_target_end:
  "ray_target b op x y dr dc k \<Longrightarrow>
     inB (x + int k * dr) (y + int k * dc) \<and> pc (cell b (x + int k * dr) (y + int k * dc)) \<noteq> Some (opp op)"
  by (auto simp: ray_target_def)

lemma ray_reach_end:
  "ray_reach b (opp col) r c p q ds \<Longrightarrow> inB p q \<and> pc (cell b p q) \<noteq> Some col"
  unfolding ray_reach_def by (auto dest!: ray_target_end)

lemma pawn_rule_end:
  "pawn_rule b col r c ep p q \<Longrightarrow> (\<And>p q. ep = Some (p, q) \<Longrightarrow> cell b p q = None) \<Longrightarrow>
     inB p q \<and> pc (cell b p q) \<noteq> Some col"
  by (auto simp: pawn_rule_def pc_def)

lemma castle_row_inB [simp]: "inB (castle_row col) q \<longleftrightarrow> 0 \<le> q \<and> q < 8"
  by (cases col) (auto simp: castle_row_def inB_def)

lemma king_rule_end:
  "king_rule b col r c cast p q \<Longrightarrow> inB p q \<and> pc (cell b p q) \<noteq> Some col"
  by (auto simp: king_rule_def pc_def)

text \<open>
  Every generated move stays on the board and never lands on a piece of the mover's own
  colour, castling and en passant included (the en passant square being empty, which the
  game state keeps).
\<close>

theorem rawMoves_target:
  assumes "inB r c" and "cell b r c = Some (Piece col t)"
    and "\<And>p q. ep = Some (p, q) \<Longrightarrow> cell b p q = None"
    and "(p, q) \<in> set (rawMoves b r c ep cast)"
  shows "inB p q \<and> pc (cell b p q) \<noteq> Some col"
proof -
  have "move_rule b r c ep cast p q"
    using assms(1,4) by (simp add: rawMoves_rules)
  then show ?thesis
    using assms(2,3) by (cases t) (auto simp: move_rule_def dest: ray_reach_end pawn_rule_end king_rule_end)
qed

theorem rawMoves_target_witness:
  "inB 4 4 \<and> pc (cell initBoard 4 4) \<noteq> Some White"
  by (rule rawMoves_target [of 6 4 initBoard White Pawn None 4 4 None])
    (simp_all add: inB_def rawMoves_def cell_def initBoard_def back_rank_def pawn_moves_def Let_def)

text \<open>The square of a piece is attacked when a piece of the other colour may move to it.\<close>

definition attacked :: "board \<Rightarrow> pcolor \<Rightarrow> square \<Rightarrow> bool" where
  "attacked b col k \<longleftrightarrow>
     (\<exists>r c. inB r c \<and> pc (cell b r c) = Some (opp col) \<and> move_rule b r c None None (fst k) (snd k))"

definition one_king :: "board \<Rightarrow> pcolor \<Rightarrow> square \<Rightarrow> bool" where
  "one_king b col k \<longleftrightarrow>
     (\<forall>r c. inB r c \<and> cell b r c = Some (Piece col King) \<longleftrightarrow> (r, c) = k)"

lemma find_king_one:
  assumes "one_king b col k"
  shows "find_king b col = Some k"
proof -
  let ?ks = "filter (\<lambda>(r, c). cell b r c = Some (Piece col King)) all_squares"
  have "x \<in> set ?ks \<longleftrightarrow> x = k" for x
    using assms by (cases x) (simp add: one_king_def)
  then have "set ?ks = {k}" by blast
  then have "?ks \<noteq> []" by (metis insert_not_empty list.set(1))
  moreover from this \<open>set ?ks = {k}\<close> have "last ?ks = k"
    using last_in_set by blast
  ultimately show ?thesis
    by (auto simp: find_king_def split: list.splits)
qed

lemma inChk_attacked:
  assumes "find_king b col = Some k"
  shows "inChk b col \<longleftrightarrow> attacked b col k"
  using assms by (cases k) (simp add: inChk_def attacked_def list_ex_all_squares rawMoves_rules cong: conj_cong)

text \<open>
  C2. \<open>inChk\<close> is the rule of check: with one king of the colour on the board, it holds
  exactly when some piece of the other colour may move to the king's square.
\<close>

theorem inChk_iff_attacked:
  assumes "one_king b col k"
  shows "inChk b col \<longleftrightarrow> attacked b col k"
  using find_king_one [OF assms] by (rule inChk_attacked)

lemma list_all_squares: "list_all (\<lambda>(r, c). P r c) all_squares \<Longrightarrow> inB r c \<Longrightarrow> P r c"
  using mem_all_squares [of r c] by (force simp: list_all_iff simp del: mem_all_squares)

text \<open>The white king on e1 of the initial position is not attacked.\<close>

theorem inChk_iff_attacked_witness:
  "inChk initBoard White \<longleftrightarrow> attacked initBoard White (7, 4)"
proof (rule inChk_iff_attacked)
  have "list_all (\<lambda>(r, c). (cell initBoard r c = Some (Piece White King)) = ((r, c) = (7, 4))) all_squares"
    by code_simp
  from list_all_squares [OF this] show "one_king initBoard White (7, 4)"
    unfolding one_king_def by (auto simp: inB_def)
qed

lemma getLegal_mem:
  "(p, q) \<in> set (getLegal b r c ep cast) \<longleftrightarrow>
     (\<exists>col t. cell b r c = Some (Piece col t) \<and> (p, q) \<in> set (rawMoves b r c ep cast) \<and>
        \<not> inChk (try_move b r c ep p q col t) col \<and>
        \<not> (t = King \<and> \<bar>q - c\<bar> = 2 \<and>
           inChk (appMv b r c (castle_row col) (if q = 6 then 5 else 3)) col))"
  by (cases "cell b r c") (auto simp: getLegal_def split: piece.splits)

lemma wf_appMv [simp]: "wf_board b \<Longrightarrow> wf_board (appMv b r c p q)"
  by (simp add: appMv_def)

lemma cell_appMv:
  assumes "wf_board b" and "inB r c" and "inB p q"
  shows "cell (appMv b r c p q) x y =
    (if x = r \<and> y = c then None else if x = p \<and> y = q then cell b r c else cell b x y)"
  using assms by (simp add: appMv_def cell_put)

lemma one_king_put:
  assumes "wf_board b" and "one_king b col k" and "(r, c) \<noteq> k" and "v \<noteq> Some (Piece col King)"
  shows "one_king (put b r c v) col k"
proof (cases "inB r c")
  case True
  then show ?thesis
    using assms unfolding one_king_def by (auto simp: cell_put)
next
  case False
  then have "put b r c v = b"
    using assms(1) by (auto simp: put_def inB_def wf_board_def)
  with assms show ?thesis by simp
qed

lemma one_king_appMv:
  assumes "wf_board b" and "one_king b col k" and "inB r c" and "inB p q"
    and "cell b r c = Some (Piece col t)" and "pc (cell b p q) \<noteq> Some col"
  shows "one_king (appMv b r c p q) col (if t = King then (p, q) else k)"
proof -
  have k: "inB x y \<and> cell b x y = Some (Piece col King) \<longleftrightarrow> (x, y) = k" for x y
    using assms(2) by (simp add: one_king_def)
  have ne: "(p, q) \<noteq> (r, c)" "(p, q) \<noteq> k"
    using assms(5,6) k [of p q] by (auto simp: pc_def)
  have "t = King \<longleftrightarrow> (r, c) = k"
    using k [of r c] assms(3,5) by simp
  with ne k assms(4) show ?thesis
    unfolding one_king_def
    by (auto simp: cell_appMv [OF assms(1,3,4)] assms(5))
qed

text \<open>
  What the game state keeps about the en passant square for the side to move: it is empty and
  the pawn to be taken stands behind it.
\<close>

definition ep_victim :: "pcolor \<Rightarrow> int \<Rightarrow> int" where
  "ep_victim col p = (case col of White \<Rightarrow> p + 1 | Black \<Rightarrow> p - 1)"

definition ep_ok :: "board \<Rightarrow> pcolor \<Rightarrow> square option \<Rightarrow> bool" where
  "ep_ok b col ep \<longleftrightarrow>
     (\<forall>p q. ep = Some (p, q) \<longrightarrow> cell b p q = None \<and>
        cell b (ep_victim col p) q = Some (Piece (opp col) Pawn))"

lemma king_two_steps:
  assumes "king_rule b col r c cast p q" and "\<bar>q - c\<bar> = 2"
  shows "r = castle_row col" "c = 4" "p = castle_row col"
    "q = 6 \<and> cell b r 5 = None \<or> q = 2 \<and> cell b r 3 = None"
  using assms by (auto simp: king_rule_def)

lemma one_king_castle_rook:
  assumes "wf_board b" and "one_king b col (castle_row col, q)" and "q = 6 \<or> q = 2"
  shows "one_king (castle_rook b col q) col (castle_row col, q)"
proof -
  have rook: "cell b (castle_row col) y \<noteq> Some (Piece col King)" if "y = 7 \<or> y = 0" for y
  proof -
    have "inB (castle_row col) y \<and> cell b (castle_row col) y = Some (Piece col King)
        \<longleftrightarrow> (castle_row col, y) = (castle_row col, q)"
      using assms(2) unfolding one_king_def by blast
    then show ?thesis
      using that assms(3) by auto
  qed
  show ?thesis
    unfolding castle_rook_def Let_def
    using assms rook by (auto intro!: one_king_put)
qed

lemma one_king_try_move:
  assumes "wf_board b" and "one_king b col k" and "inB r c" and "cell b r c = Some (Piece col t)"
    and ep: "ep_ok b col ep" and mv: "(p, q) \<in> set (rawMoves b r c ep cast)"
  shows "one_king (try_move b r c ep p q col t) col (if t = King then (p, q) else k)"
proof -
  have rule: "move_rule b r c ep cast p q"
    using mv assms(3) by (simp add: rawMoves_rules)
  then have tgt: "inB p q" "pc (cell b p q) \<noteq> Some col"
    using assms(4) ep by (cases t; auto simp: move_rule_def ep_ok_def dest: ray_reach_end pawn_rule_end king_rule_end)+
  let ?nb = "appMv b r c p q"
  have nb: "one_king ?nb col (if t = King then (p, q) else k)" "wf_board ?nb"
    using one_king_appMv [OF assms(1,2,3) tgt(1) assms(4) tgt(2)] assms(1) by simp_all
  show ?thesis
  proof (cases "t = Pawn \<and> ep = Some (p, q)")
    case True
    then have "cell b (ep_victim col p) q = Some (Piece (opp col) Pawn)"
      using ep by (simp add: ep_ok_def)
    then have "(ep_victim col p, q) \<noteq> k"
      using assms(2) by (force simp: one_king_def)
    then have "one_king (put ?nb (ep_victim col p) q None) col k"
      using nb True by (intro one_king_put) auto
    then show ?thesis
      using True by (simp add: try_move_def ep_victim_def)
  next
    case False
    show ?thesis
    proof (cases "t = King \<and> \<bar>q - c\<bar> = 2")
      case True
      then have "king_rule b col r c cast p q"
        using rule assms(4) by (simp add: move_rule_def)
      from king_two_steps [OF this] True nb show ?thesis
        by (auto simp: try_move_def intro!: one_king_castle_rook)
    next
      case False
      with \<open>\<not> (t = Pawn \<and> ep = Some (p, q))\<close> nb show ?thesis
        by (auto simp: try_move_def)
    qed
  qed
qed

text \<open>
  C3. A legal move never leaves the mover's king attacked: in the position after the move,
  with the pawn taken en passant removed and the castling rook moved, there is still exactly
  one king of the mover and no piece of the other colour may move to its square.
\<close>

theorem getLegal_king_safe:
  assumes "wf_board b" and "one_king b col k" and "inB r c" and "cell b r c = Some (Piece col t)"
    and "ep_ok b col ep" and "(p, q) \<in> set (getLegal b r c ep cast)"
  shows "\<exists>k'. one_king (try_move b r c ep p q col t) col k' \<and>
              \<not> attacked (try_move b r c ep p q col t) col k'"
proof -
  have raw: "(p, q) \<in> set (rawMoves b r c ep cast)" and safe: "\<not> inChk (try_move b r c ep p q col t) col"
    using assms(4,6) by (auto simp: getLegal_mem)
  from one_king_try_move [OF assms(1-5) raw] safe show ?thesis
    by (metis find_king_one inChk_attacked)
qed

theorem getLegal_king_safe_witness:
  "\<exists>k'. one_king (try_move initBoard 6 4 None 4 4 White Pawn) White k' \<and>
        \<not> attacked (try_move initBoard 6 4 None 4 4 White Pawn) White k'"
proof (rule getLegal_king_safe)
  show "one_king initBoard White (7, 4)"
  proof -
    have "list_all (\<lambda>(r, c). (cell initBoard r c = Some (Piece White King)) = ((r, c) = (7, 4))) all_squares"
      by code_simp
    then have "\<forall>x \<in> set all_squares. (\<lambda>(r, c). (cell initBoard r c = Some (Piece White King)) = ((r, c) = (7, 4))) x"
      by (simp add: list_all_iff)
    then show ?thesis
      unfolding one_king_def by (auto simp: inB_def)
  qed
  show "(4, 4) \<in> set (getLegal initBoard 6 4 None None)"
    by code_simp
  show "cell initBoard 6 4 = Some (Piece White Pawn)"
    by code_simp
qed (simp_all add: ep_ok_def inB_def)

text \<open>
  The engine lets a king castle out of check: it tests the square the king crosses and the
  square it reaches, not the square it leaves. In the position below the white king on e1 is
  in check from the rook on e8, and castling king-side is still legal.
\<close>

definition checked_castle_board :: board where
  "checked_castle_board =
     put (put (put (put (replicate 8 (replicate 8 None)) 7 4 (Some (Piece White King)))
       7 7 (Some (Piece White Rook))) 0 4 (Some (Piece Black Rook))) 0 0 (Some (Piece Black King))"

text \<open>
  \<open>getLegal\<close> accepts castling while the king is in check, against the rules of chess.
\<close>

theorem castling_out_of_check_allowed:
  "inChk checked_castle_board White \<and>
   (7, 6) \<in> set (getLegal checked_castle_board 7 4 None (Some \<lparr>wK = True, wQ = False, bK = False, bQ = False\<rparr>))"
  by code_simp

end
