(* ===== verification/MoveText.thy ===== *)
theory MoveText
  imports Engine
begin

text \<open>
  Text forms of squares, moves and positions: the algebraic names of squares
  (\<open>squareToRC\<close>, \<open>sq\<close>), UCI moves of the Stockfish engine (\<open>parseUciMove\<close>) and FEN positions
  (\<open>boardToFEN\<close> of engine/chessEngine.js, the parser \<open>loadFEN\<close> of hooks/useChessGame.js).
  The main result is that \<open>loadFEN\<close> reads back what \<open>boardToFEN\<close> writes.
\<close>

section \<open>Squares\<close>

text \<open>
  \<open>squareToRC\<close>: the row is NaN (None here) when the second character is no digit; the column
  is -1 when the file letter is unknown.
\<close>

definition squareToRC :: "string \<Rightarrow> int option \<times> int" where
  "squareToRC s =
     (case s of
        [] \<Rightarrow> (None, -1)
      | f # rest \<Rightarrow>
          ((case rest of [] \<Rightarrow> None | d # _ \<Rightarrow> map_option (\<lambda>k. 8 - int k) (digit_val d)),
           (case index_of FILES f of None \<Rightarrow> -1 | Some i \<Rightarrow> int i)))"

text \<open>\<open>sq(r, c) = FILES[c] + (8 - r)\<close> for a square of the board.\<close>

definition sq :: "int \<Rightarrow> int \<Rightarrow> string" where
  "sq r c = FILES ! nat c # show_nat (nat (8 - r))"

lemma rank_digit [simp]: "inB r c \<Longrightarrow> show_nat (nat (8 - r)) = [digit_char (nat (8 - r))]"
  by (rule show_nat_small) (auto simp: inB_def)

text \<open>The pair of coordinates when both are usable as board indices.\<close>

definition rc_of :: "int option \<times> int \<Rightarrow> square option" where
  "rc_of p = (case p of (None, _) \<Rightarrow> None | (Some r, c) \<Rightarrow> if inB r c then Some (r, c) else None)"

lemma length_FILES [simp]: "length FILES = 8"
  by (simp add: FILES_def)

lemma distinct_FILES [simp]: "distinct FILES"
  by (simp add: FILES_def)

lemma squareToRC_sq [simp]:
  assumes "inB r c"
  shows "squareToRC (sq r c) = (Some r, c)"
proof -
  have "nat c < 8" "nat (8 - r) < 10" "int (nat (8 - r)) = 8 - r" "int (nat c) = c"
    using assms by (auto simp: inB_def)
  then show ?thesis
    by (simp add: squareToRC_def sq_def index_of_nth)
qed

lemma rc_of_sq [simp]: "inB r c \<Longrightarrow> rc_of (squareToRC (sq r c)) = Some (r, c)"
  by (simp add: rc_of_def)

section \<open>UCI moves\<close>

record uci_move =
  um_from :: string
  um_to :: string
  um_promotion :: "ptype option"

text \<open>
  The promotion field is null without a fifth character and undefined (falsy as well) for an
  unknown one.
\<close>

definition promoMap :: "char \<Rightarrow> ptype option" where
  "promoMap c =
     (if c = CHR ''q'' then Some Queen else if c = CHR ''r'' then Some Rook
      else if c = CHR ''b'' then Some Bishop else if c = CHR ''n'' then Some Knight else None)"

definition parseUciMove :: "string \<Rightarrow> uci_move option" where
  "parseUciMove uci =
     (if length uci < 4 then None
      else Some \<lparr>um_from = take 2 uci, um_to = take 2 (drop 2 uci),
                 um_promotion = (if length uci > 4 then promoMap (uci ! 4) else None)\<rparr>)"

lemma length_sq [simp]: "inB r c \<Longrightarrow> length (sq r c) = 2"
  by (simp add: sq_def)

lemma parseUciMove_squares:
  assumes "inB r c" and "inB r' c'"
  shows "parseUciMove (sq r c @ sq r' c' @ p) =
    Some \<lparr>um_from = sq r c, um_to = sq r' c', um_promotion = (case p of [] \<Rightarrow> None | x # _ \<Rightarrow> promoMap x)\<rparr>"
  using assms by (auto simp: parseUciMove_def nth_append split: list.splits)

section \<open>FEN\<close>

fun letter :: "ptype \<Rightarrow> char" where
  "letter Pawn = CHR ''P''"
| "letter Knight = CHR ''N''"
| "letter Bishop = CHR ''B''"
| "letter Rook = CHR ''R''"
| "letter Queen = CHR ''Q''"
| "letter King = CHR ''K''"

definition fen_char :: "piece \<Rightarrow> char" where
  "fen_char p = (case pcol p of White \<Rightarrow> letter (pkind p) | Black \<Rightarrow> to_lower_char (letter (pkind p)))"

text \<open>One rank: runs of empty cells are written as their length.\<close>

fun fen_row :: "piece option list \<Rightarrow> nat \<Rightarrow> string" where
  "fen_row [] e = (if e > 0 then show_nat e else [])"
| "fen_row (None # ps) e = fen_row ps (Suc e)"
| "fen_row (Some p # ps) e = (if e > 0 then show_nat e else []) @ fen_char p # fen_row ps 0"

definition fen_castling :: "castling option \<Rightarrow> string" where
  "fen_castling cast =
     (let s = (case cast of None \<Rightarrow> [] | Some k \<Rightarrow>
         (if wK k then ''K'' else []) @ (if wQ k then ''Q'' else []) @
         (if bK k then ''k'' else []) @ (if bQ k then ''q'' else []))
      in if s = [] then ''-'' else s)"

definition fen_ep :: "square option \<Rightarrow> string" where
  "fen_ep ep = (case ep of None \<Rightarrow> ''-'' | Some (r, c) \<Rightarrow> sq r c)"

definition turn_text :: "pcolor \<Rightarrow> string" where
  "turn_text t = (case t of White \<Rightarrow> ''w'' | Black \<Rightarrow> ''b'')"

definition boardToFEN ::
  "board \<Rightarrow> pcolor \<Rightarrow> castling option \<Rightarrow> square option \<Rightarrow> string list \<Rightarrow> string" where
  "boardToFEN b turn cast ep hist =
     join_with '' '' [join_with ''/'' (map (\<lambda>row. fen_row row 0) b), turn_text turn,
       fen_castling cast, fen_ep ep, ''0'', show_nat (length hist div 2 + 1)]"

text \<open>
  The parser of \<open>loadFEN\<close>. A digit stands for that many empty cells, any other symbol for a
  piece, white when it equals its own upper case. The source keeps an unknown letter as a
  piece of unknown kind; the model answers None for it, as for the inputs the source rejects
  with an exception (fewer than four fields, a board that is not 8 by 8).
\<close>

definition kind_of_char :: "char \<Rightarrow> ptype option" where
  "kind_of_char c = find (\<lambda>t. letter t = c) [Pawn, Knight, Bishop, Rook, Queen, King]"

definition symbol_cells :: "char \<Rightarrow> piece option list option" where
  "symbol_cells s =
     (case digit_val s of
        Some n \<Rightarrow> Some (replicate n None)
      | None \<Rightarrow> map_option (\<lambda>t. [Some (Piece (if s = to_upper_char s then White else Black) t)])
                  (kind_of_char (to_upper_char s)))"

fun parse_rank :: "string \<Rightarrow> piece option list option" where
  "parse_rank [] = Some []"
| "parse_rank (s # ss) =
     (case symbol_cells s of None \<Rightarrow> None | Some cs \<Rightarrow> map_option ((@) cs) (parse_rank ss))"

fun all_some :: "'a option list \<Rightarrow> 'a list option" where
  "all_some [] = Some []"
| "all_some (None # xs) = None"
| "all_some (Some x # xs) = map_option (Cons x) (all_some xs)"

lemma all_some_map: "(\<And>x. x \<in> set xs \<Longrightarrow> f x = Some (g x)) \<Longrightarrow> all_some (map f xs) = Some (map g xs)"
  by (induction xs) auto

definition parse_placement :: "string \<Rightarrow> board option" where
  "parse_placement s =
     (case all_some (map parse_rank (split_on (CHR ''/'') s)) of
        None \<Rightarrow> None
      | Some b \<Rightarrow> if length b = 8 \<and> list_all (\<lambda>row. length row = 8) b then Some b else None)"

definition parse_turn :: "string \<Rightarrow> pcolor option" where
  "parse_turn s = (if s = ''w'' then Some White else if s = ''b'' then Some Black else None)"

definition parse_castling :: "string \<Rightarrow> castling" where
  "parse_castling s =
     \<lparr>wK = CHR ''K'' \<in> set s, wQ = CHR ''Q'' \<in> set s, bK = CHR ''k'' \<in> set s, bQ = CHR ''q'' \<in> set s\<rparr>"

definition parse_ep :: "string \<Rightarrow> square option" where
  "parse_ep s = (if s = ''-'' then None else rc_of (squareToRC s))"

definition parseFEN :: "string \<Rightarrow> (board \<times> pcolor \<times> castling \<times> square option) option" where
  "parseFEN fen =
     (case split_on (CHR '' '') fen of
        placement # activeColor # castl # enPassant # _ \<Rightarrow>
          (case (parse_placement placement, parse_turn activeColor) of
             (Some b, Some t) \<Rightarrow> Some (b, t, parse_castling castl, parse_ep enPassant)
           | _ \<Rightarrow> None)
      | _ \<Rightarrow> None)"

section \<open>Reading back what was written\<close>

lemma symbol_cells_digit [simp]: "n < 10 \<Longrightarrow> symbol_cells (digit_char n) = Some (replicate n None)"
  by (simp add: symbol_cells_def)

lemma symbol_cells_fen_char [simp]: "symbol_cells (fen_char p) = Some [Some p]"
proof (cases p)
  case (Piece c t)
  have "list_all (\<lambda>c. list_all (\<lambda>t. symbol_cells (fen_char (Piece c t)) = Some [Some (Piece c t)])
      [Pawn, Knight, Bishop, Rook, Queen, King]) [White, Black]"
    by code_simp
  with Piece show ?thesis
    by (cases c; cases t) simp_all
qed

lemma parse_rank_fen_row:
  "e + length row < 10 \<Longrightarrow> parse_rank (fen_row row e) = Some (replicate e None @ row)"
proof (induction row e rule: fen_row.induct)
  case (2 ps e)
  then have "parse_rank (fen_row ps (Suc e)) = Some (replicate (Suc e) None @ ps)"
    by simp
  then show ?case
    by (simp add: replicate_append_same [symmetric])
qed auto

lemma fen_char_not_sep: "fen_char p \<noteq> CHR ''/''" "fen_char p \<noteq> CHR '' ''"
proof -
  obtain c t where p: "p = Piece c t" by (cases p)
  have "list_all (\<lambda>c. list_all (\<lambda>t. fen_char (Piece c t) \<notin> {CHR ''/'', CHR '' ''})
      [Pawn, Knight, Bishop, Rook, Queen, King]) [White, Black]"
    by code_simp
  then show "fen_char p \<noteq> CHR ''/''" "fen_char p \<noteq> CHR '' ''"
    unfolding p by (cases c; cases t; simp)+
qed

lemma digit_not_sep: "is_digit c \<Longrightarrow> c \<noteq> CHR ''/'' \<and> c \<noteq> CHR '' ''"
  by (auto simp: is_digit_def digits_def)

lemma show_nat_not_sep [simp]: "CHR ''/'' \<notin> set (show_nat n)" "CHR '' '' \<notin> set (show_nat n)"
  using show_nat_digits [of n] digit_not_sep by blast+

lemma fen_row_not_sep: "CHR ''/'' \<notin> set (fen_row row e)" "CHR '' '' \<notin> set (fen_row row e)"
  by (induction row e rule: fen_row.induct) (auto simp: fen_char_not_sep [symmetric])

lemma parse_placement_fen:
  assumes "wf_board b"
  shows "parse_placement (join_with ''/'' (map (\<lambda>row. fen_row row 0) b)) = Some b"
proof -
  have "b \<noteq> []" using assms by (auto simp: wf_board_def)
  then have "split_on (CHR ''/'') (join_with ''/'' (map (\<lambda>row. fen_row row 0) b)) = map (\<lambda>row. fen_row row 0) b"
    by (intro split_on_join) (auto simp: fen_row_not_sep)
  moreover have "all_some (map parse_rank (map (\<lambda>row. fen_row row 0) b)) = Some (map (\<lambda>row. row) b)"
    unfolding map_map by (rule all_some_map) (use assms in \<open>simp add: parse_rank_fen_row wf_board_def\<close>)
  ultimately show ?thesis
    using assms by (simp add: parse_placement_def wf_board_def list_all_iff)
qed

lemma parse_turn_text [simp]: "parse_turn (turn_text t) = Some t"
  by (cases t) (simp_all add: parse_turn_def turn_text_def)

lemma parse_castling_fen [simp]: "parse_castling (fen_castling (Some k)) = k"
  by (cases k) (simp add: parse_castling_def fen_castling_def Let_def)

lemma sq_no_dash: "inB r c \<Longrightarrow> sq r c \<noteq> ''-''"
  by (simp add: sq_def)

lemma parse_ep_fen:
  "(\<And>r c. ep = Some (r, c) \<Longrightarrow> inB r c) \<Longrightarrow> parse_ep (fen_ep ep) = ep"
  by (auto simp: parse_ep_def fen_ep_def sq_no_dash rc_of_def split: option.splits)

lemma sq_no_space: "inB r c \<Longrightarrow> CHR '' '' \<notin> set (sq r c)"
proof -
  assume "inB r c"
  then have "FILES ! nat c \<in> set FILES"
    by (intro nth_mem) (auto simp: inB_def)
  then have "FILES ! nat c \<noteq> CHR '' ''"
    by (auto simp: FILES_def)
  then show ?thesis
    using show_nat_not_sep(2) [of "nat (8 - r)"] by (auto simp: sq_def simp del: rank_digit)
qed

lemma fen_fields_no_space:
  "CHR '' '' \<notin> set (join_with ''/'' (map (\<lambda>row. fen_row row 0) b))"
  "CHR '' '' \<notin> set (turn_text t)"
  "CHR '' '' \<notin> set (fen_castling cast)"
  using set_join_with [of "''/''" "map (\<lambda>row. fen_row row 0) b"] fen_row_not_sep(2)
  by (auto simp: turn_text_def fen_castling_def Let_def split: pcolor.splits option.splits)

lemma fen_ep_no_space: "(\<And>r c. ep = Some (r, c) \<Longrightarrow> inB r c) \<Longrightarrow> CHR '' '' \<notin> set (fen_ep ep)"
  by (auto simp: fen_ep_def sq_no_space split: option.splits)

lemma split_boardToFEN:
  assumes "\<And>r c. ep = Some (r, c) \<Longrightarrow> inB r c"
  shows "split_on (CHR '' '') (boardToFEN b t cast ep hist) =
    [join_with ''/'' (map (\<lambda>row. fen_row row 0) b), turn_text t, fen_castling cast, fen_ep ep, ''0'',
     show_nat (length hist div 2 + 1)]"
  unfolding boardToFEN_def
  by (rule split_on_join) (use fen_fields_no_space fen_ep_no_space [OF assms] in auto)

text \<open>
  C5. A position written by \<open>boardToFEN\<close> is read back by the parser of \<open>loadFEN\<close>: board, side
  to move, castling rights and en passant square are the same.
\<close>

theorem parseFEN_boardToFEN:
  assumes "wf_board b" and "\<And>r c. ep = Some (r, c) \<Longrightarrow> inB r c"
  shows "parseFEN (boardToFEN b t (Some k) ep hist) = Some (b, t, k, ep)"
  using assms by (simp add: parseFEN_def split_boardToFEN parse_placement_fen parse_ep_fen)

theorem parseFEN_boardToFEN_witness:
  "parseFEN (boardToFEN initBoard White (Some \<lparr>wK = True, wQ = True, bK = True, bQ = False\<rparr>) (Some (2, 4)) [])
     = Some (initBoard, White, \<lparr>wK = True, wQ = True, bK = True, bQ = False\<rparr>, Some (2, 4))"
  by (rule parseFEN_boardToFEN) (auto simp: inB_def)

end
