(* ===== verification/Position.thy ===== *)
theory Position
  imports MoveText
begin

text \<open>
  The board-level part of \<open>applyMove\<close> (hooks/useChessGame.js lines 114-155): the board after
  a move with its castling rook, en passant capture and promotion, the captured piece and the
  castling rights that are left. The lemmas show that a legal move of \<open>getLegal\<close> leads from a
  sound position to a sound position: one king each, the side that just moved not in check,
  every castling right backed by a king and a rook that never moved, and a right en passant
  square.
\<close>

section \<open>The effect of a move\<close>

definition clear_right :: "pcolor \<Rightarrow> bool \<Rightarrow> castling \<Rightarrow> castling" where
  "clear_right col kingSide k =
     (case (col, kingSide) of
        (White, True) \<Rightarrow> k\<lparr>wK := False\<rparr> | (White, False) \<Rightarrow> k\<lparr>wQ := False\<rparr>
      | (Black, True) \<Rightarrow> k\<lparr>bK := False\<rparr> | (Black, False) \<Rightarrow> k\<lparr>bQ := False\<rparr>)"

text \<open>The rights lost because a rook leaves, or anything reaches, a corner.\<close>

definition clear_corner :: "int \<Rightarrow> int \<Rightarrow> castling \<Rightarrow> castling" where
  "clear_corner r c k =
     (if r = 7 \<and> c = 7 then k\<lparr>wK := False\<rparr>
      else if r = 7 \<and> c = 0 then k\<lparr>wQ := False\<rparr>
      else if r = 0 \<and> c = 7 then k\<lparr>bK := False\<rparr>
      else if r = 0 \<and> c = 0 then k\<lparr>bQ := False\<rparr> else k)"

definition new_rights :: "castling \<Rightarrow> pcolor \<Rightarrow> ptype \<Rightarrow> int \<Rightarrow> int \<Rightarrow> int \<Rightarrow> int \<Rightarrow> castling" where
  "new_rights k col t fr fc tr tc =
     (let k = (if t = King then clear_right col False (clear_right col True k) else k);
          k = (if t = Rook then clear_corner fr fc k else k)
      in clear_corner tr tc k)"

text \<open>The board after the move, and what was captured (\<open>cp = cap0 || epCap\<close>).\<close>

definition moved_board ::
  "board \<Rightarrow> int \<Rightarrow> int \<Rightarrow> int \<Rightarrow> int \<Rightarrow> square option \<Rightarrow> pcolor \<Rightarrow> ptype \<Rightarrow> board" where
  "moved_board b fr fc tr tc ep col t =
     (let nb = appMv b fr fc tr tc;
          nb = (if t = King \<and> \<bar>tc - fc\<bar> = 2 then castle_rook nb col tc else nb)
      in if t = Pawn \<and> ep = Some (tr, tc) then put nb (ep_victim col tr) tc None else nb)"

definition captured_by ::
  "board \<Rightarrow> int \<Rightarrow> int \<Rightarrow> int \<Rightarrow> int \<Rightarrow> square option \<Rightarrow> pcolor \<Rightarrow> ptype \<Rightarrow> piece option" where
  "captured_by b fr fc tr tc ep col t =
     (case cell b tr tc of
        Some q \<Rightarrow> Some q
      | None \<Rightarrow> if t = Pawn \<and> ep = Some (tr, tc)
                then cell (appMv b fr fc tr tc) (ep_victim col tr) tc else None)"

text \<open>\<open>nb[tr][tc] = col + opts.promotion\<close>, and the same assignment in \<open>doPromo\<close>.\<close>

definition promoted :: "board \<Rightarrow> int \<Rightarrow> int \<Rightarrow> pcolor \<Rightarrow> ptype option \<Rightarrow> board" where
  "promoted nb tr tc col p = (case p of None \<Rightarrow> nb | Some k \<Rightarrow> put nb tr tc (Some (Piece col k)))"

lemma wf_castle_rook [simp]: "wf_board b \<Longrightarrow> wf_board (castle_rook b col tc)"
  by (simp add: castle_rook_def Let_def)

lemma wf_moved_board [simp]: "wf_board b \<Longrightarrow> wf_board (moved_board b fr fc tr tc ep col t)"
  by (simp add: moved_board_def Let_def)

lemma wf_promoted [simp]: "wf_board b \<Longrightarrow> wf_board (promoted b tr tc col p)"
  by (simp add: promoted_def split: option.split)

lemma pc_pt_Some [simp]: "pc (Some (Piece c t)) = Some c" "pt (Some (Piece c t)) = Some t"
  by (simp_all add: pc_def pt_def)

lemma promoted_None [simp]: "promoted nb tr tc col None = nb"
  by (simp add: promoted_def)

section \<open>Legal moves\<close>

lemma pc_Some_iff: "pc p = Some col \<longleftrightarrow> (\<exists>t. p = Some (Piece col t))"
proof (cases p)
  case (Some q)
  then show ?thesis by (cases q) auto
qed (simp add: pc_def)

lemma cell_Some_inB: "wf_board b \<Longrightarrow> pc (cell b r c) = Some col \<Longrightarrow> inB r c"
  by (auto simp: cell_def inB_def wf_board_def pc_def all_set_conv_all_nth split: if_splits)

text \<open>The en passant square belongs to the side to move and the pawn to take stands behind it.\<close>

definition ep_inv :: "board \<Rightarrow> pcolor \<Rightarrow> square option \<Rightarrow> bool" where
  "ep_inv b turn ep \<longleftrightarrow>
     (\<forall>p q. ep = Some (p, q) \<longrightarrow> inB p q \<and> p = (case turn of White \<Rightarrow> 2 | Black \<Rightarrow> 5) \<and>
        cell b p q = None \<and> cell b (ep_victim turn p) q = Some (Piece (opp turn) Pawn))"

lemma ep_inv_ok: "ep_inv b turn ep \<Longrightarrow> ep_ok b turn ep"
  by (auto simp: ep_inv_def ep_ok_def)

lemma legal_raw:
  "(tr, tc) \<in> set (getLegal b fr fc ep cast) \<Longrightarrow> (tr, tc) \<in> set (rawMoves b fr fc ep cast)"
  by (auto simp: getLegal_mem)

lemma legal_target:
  assumes "inB fr fc" and "cell b fr fc = Some (Piece col t)" and "ep_inv b col ep"
    and "(tr, tc) \<in> set (getLegal b fr fc ep cast)"
  shows "inB tr tc" "pc (cell b tr tc) \<noteq> Some col" "(tr, tc) \<noteq> (fr, fc)"
proof -
  have "move_rule b fr fc ep cast tr tc"
    using legal_raw [OF assms(4)] assms(1) by (simp add: rawMoves_rules)
  then show "inB tr tc" "pc (cell b tr tc) \<noteq> Some col"
    using assms(2,3) by (cases t; auto simp: move_rule_def ep_inv_def
        dest: ray_reach_end pawn_rule_end king_rule_end)+
  then show "(tr, tc) \<noteq> (fr, fc)"
    using assms(2) by (auto simp: pc_def)
qed

lemma legal_pawn:
  assumes "inB fr fc" and "cell b fr fc = Some (Piece col Pawn)"
    and "(tr, tc) \<in> set (getLegal b fr fc ep cast)"
  shows "pawn_rule b col fr fc ep tr tc"
  using legal_raw [OF assms(3)] assms(1,2) by (simp add: rawMoves_rules move_rule_def)

text \<open>A pawn reaches the en passant square only by a capturing step.\<close>

lemma pawn_ep_diagonal:
  assumes "pawn_rule b col fr fc (Some (tr, tc)) tr tc" and "ep_inv b col (Some (tr, tc))"
    and "cell b fr fc = Some (Piece col Pawn)"
  shows "fc \<noteq> tc"
  using assms by (cases col) (auto simp: pawn_rule_def ep_inv_def pawn_dir_def pawn_start_def ep_victim_def)

lemma captured_by_ep:
  assumes "wf_board b" and "inB fr fc" and "inB tr tc" and "ep_inv b col ep" and "ep = Some (tr, tc)"
    and "cell b fr fc = Some (Piece col Pawn)"
  shows "captured_by b fr fc tr tc ep col Pawn = Some (Piece (opp col) Pawn)"
proof -
  have v: "cell b (ep_victim col tr) tc = Some (Piece (opp col) Pawn)" "cell b tr tc = None"
    using assms(4,5) by (auto simp: ep_inv_def)
  moreover have "(ep_victim col tr, tc) \<noteq> (fr, fc)" "(ep_victim col tr, tc) \<noteq> (tr, tc)"
    using v assms(6) by auto
  ultimately show ?thesis
    using assms(5) by (auto simp: captured_by_def cell_appMv [OF assms(1-3)])
qed

lemma ep_capture_iff:
  assumes "wf_board b" and "inB fr fc" and "cell b fr fc = Some (Piece col Pawn)" and "ep_inv b col ep"
    and "(tr, tc) \<in> set (getLegal b fr fc ep cast)"
  shows "fc \<noteq> tc \<and> captured_by b fr fc tr tc ep col Pawn \<noteq> None \<and> cell b tr tc = None \<longleftrightarrow> ep = Some (tr, tc)"
proof -
  have rule: "pawn_rule b col fr fc ep tr tc" and on: "inB tr tc"
    using legal_pawn [OF assms(2,3,5)] legal_target [OF assms(2,3,4,5)] by auto
  show ?thesis
  proof
    assume "fc \<noteq> tc \<and> captured_by b fr fc tr tc ep col Pawn \<noteq> None \<and> cell b tr tc = None"
    then show "ep = Some (tr, tc)"
      using rule by (auto simp: pawn_rule_def pc_def)
  next
    assume ep: "ep = Some (tr, tc)"
    then show "fc \<noteq> tc \<and> captured_by b fr fc tr tc ep col Pawn \<noteq> None \<and> cell b tr tc = None"
      using pawn_ep_diagonal [of b col fr fc tr tc] rule assms(3,4)
        captured_by_ep [OF assms(1,2) on assms(4) ep assms(3)] by (auto simp: ep_inv_def)
  qed
qed

text \<open>The en passant square a double step leaves behind is right for the other side.\<close>

lemma moved_ep_inv:
  assumes "wf_board b" and "inB fr fc" and "cell b fr fc = Some (Piece col t)" and "ep_inv b col ep"
    and "(tr, tc) \<in> set (getLegal b fr fc ep cast)" and "t = Pawn" and "\<bar>tr - fr\<bar> = 2"
  shows "ep_inv (moved_board b fr fc tr tc ep col t) (opp col) (Some ((fr + tr) div 2, tc))"
proof -
  have rule: "pawn_rule b col fr fc ep tr tc" and on: "inB tr tc"
    using legal_pawn [OF assms(2) _ assms(5)] legal_target [OF assms(2-5)] assms(3,6) by auto
  have d: "tc = fc" "tr = fr + 2 * pawn_dir col" "fr = pawn_start col" "cell b (fr + pawn_dir col) fc = None"
      "cell b tr tc = None"
    using rule assms(7) by (cases col; auto simp: pawn_rule_def pawn_dir_def)+
  have noep: "ep \<noteq> Some (tr, tc)"
    using d assms(4) by (cases col) (auto simp: ep_inv_def pawn_dir_def pawn_start_def)
  show ?thesis
    using d assms(1-3,6) on noep
    by (cases col) (auto simp: ep_inv_def moved_board_def cell_appMv pawn_dir_def pawn_start_def inB_def ep_victim_def)
qed

lemma pawn_no_double_promotion:
  assumes "pawn_rule b col fr fc ep tr tc" and "tr = 0 \<or> tr = 7"
  shows "\<bar>tr - fr\<bar> \<noteq> 2"
  using assms by (cases col) (auto simp: pawn_rule_def pawn_dir_def pawn_start_def)

section \<open>Sound positions\<close>

text \<open>A castling right stands for a king and a rook on their home squares.\<close>

definition rights_ok :: "board \<Rightarrow> castling \<Rightarrow> bool" where
  "rights_ok b k \<longleftrightarrow>
     (\<forall>col. (castK k col \<longrightarrow> cell b (castle_row col) 4 = Some (Piece col King) \<and>
                            cell b (castle_row col) 7 = Some (Piece col Rook)) \<and>
            (castQ k col \<longrightarrow> cell b (castle_row col) 4 = Some (Piece col King) \<and>
                            cell b (castle_row col) 0 = Some (Piece col Rook)))"

text \<open>One king each, and the side that is not to move is not in check.\<close>

definition position_inv :: "board \<Rightarrow> pcolor \<Rightarrow> castling \<Rightarrow> bool" where
  "position_inv b turn k \<longleftrightarrow>
     (\<forall>col. \<exists>q. one_king b col q) \<and> \<not> inChk b (opp turn) \<and> rights_ok b k"

lemma moved_board_try_move: "moved_board b fr fc tr tc ep col t = try_move b fr fc ep tr tc col t"
  by (cases t) (simp_all add: moved_board_def try_move_def ep_victim_def Let_def)

lemma castling_step:
  assumes "inB fr fc" and "cell b fr fc = Some (Piece col King)" and "\<bar>tc - fc\<bar> = 2"
    and "(tr, tc) \<in> set (rawMoves b fr fc ep cast)"
  shows "fr = castle_row col" "tr = castle_row col" "fc = 4" "tc = 6 \<or> tc = 2"
    "\<exists>k. cast = Some k \<and> (tc = 6 \<longrightarrow> castK k col) \<and> (tc = 2 \<longrightarrow> castQ k col)"
proof -
  have "king_rule b col fr fc cast tr tc"
    using assms(1,2,4) by (simp add: rawMoves_rules move_rule_def)
  then show "fr = castle_row col" "tr = castle_row col" "fc = 4" "tc = 6 \<or> tc = 2"
    "\<exists>k. cast = Some k \<and> (tc = 6 \<longrightarrow> castK k col) \<and> (tc = 2 \<longrightarrow> castQ k col)"
    using assms(3) by (auto simp: king_rule_def)
qed

lemma ep_victim_inB: "ep_inv b col (Some (p, q)) \<Longrightarrow> inB (ep_victim col p) q"
  by (cases col) (auto simp: ep_inv_def ep_victim_def inB_def)

text \<open>The squares a move may change.\<close>

lemma cell_castle_rook_other:
  assumes "wf_board b" and "x \<noteq> castle_row col"
  shows "cell (castle_rook b col tc) x y = cell b x y"
  using assms by (simp add: castle_rook_def Let_def cell_put)

lemma cell_try_move_other:
  assumes "wf_board b" and "inB fr fc" and "inB tr tc" and "ep_inv b col ep"
    and "(x, y) \<noteq> (fr, fc)" and "(x, y) \<noteq> (tr, tc)"
    and "t = Pawn \<Longrightarrow> ep = Some (tr, tc) \<Longrightarrow> (x, y) \<noteq> (ep_victim col tr, tc)"
    and "t = King \<Longrightarrow> \<bar>tc - fc\<bar> = 2 \<Longrightarrow> x \<noteq> castle_row col"
  shows "cell (try_move b fr fc ep tr tc col t) x y = cell b x y"
  using assms
  by (auto simp: moved_board_try_move [symmetric] moved_board_def Let_def cell_castle_rook_other
      cell_appMv cell_put ep_victim_inB)

text \<open>A move never takes the other side's king, which would have been in check.\<close>

lemma no_king_capture:
  assumes "one_king b (opp col) k" and "\<not> inChk b (opp col)" and "inB fr fc"
    and "cell b fr fc = Some (Piece col t)" and "(tr, tc) \<in> set (rawMoves b fr fc ep cast)"
  shows "(tr, tc) \<noteq> k"
proof
  assume tk: "(tr, tc) = k"
  have "cell b tr tc = Some (Piece (opp col) King)"
    using assms(1) tk by (auto simp: one_king_def)
  moreover have "move_rule b fr fc ep cast tr tc"
    using assms(3,5) by (simp add: rawMoves_rules)
  ultimately have "move_rule b fr fc None None tr tc"
    using assms(4) by (cases t) (auto simp: move_rule_def pawn_rule_def king_rule_def)
  then have "attacked b (opp col) k"
    unfolding attacked_def using assms(3,4) tk by (intro exI [of _ fr] exI [of _ fc]) auto
  then show False
    using assms(1,2) by (simp add: inChk_attacked find_king_one)
qed

lemma one_king_other_appMv:
  assumes "wf_board b" and "one_king b (opp col) k" and "inB fr fc" and "cell b fr fc = Some (Piece col t)"
    and "(tr, tc) \<noteq> k"
  shows "one_king (appMv b fr fc tr tc) (opp col) k"
proof -
  have "(fr, fc) \<noteq> k"
    using assms(2-4) by (force simp: one_king_def)
  then show ?thesis
    unfolding appMv_def using assms by (intro one_king_put) auto
qed

lemma one_king_other_try_move:
  assumes wf: "wf_board b" and king: "one_king b (opp col) k" and "\<not> inChk b (opp col)"
    and on: "inB fr fc" and mp: "cell b fr fc = Some (Piece col t)" and ep: "ep_inv b col ep"
    and rights: "rights_ok b cast" and raw: "(tr, tc) \<in> set (rawMoves b fr fc ep (Some cast))"
  shows "one_king (try_move b fr fc ep tr tc col t) (opp col) k"
proof -
  have not_k: "(tr, tc) \<noteq> k"
    using no_king_capture [OF king assms(3) on mp raw] .
  let ?nb = "appMv b fr fc tr tc"
  have nb: "one_king ?nb (opp col) k" "wf_board ?nb"
    using one_king_other_appMv [OF wf king on mp not_k] wf by simp_all
  show ?thesis
  proof (cases "t = King \<and> \<bar>tc - fc\<bar> = 2")
    case True
    note cs = castling_step [OF on _ _ raw]
    have sqs: "fr = castle_row col" "tr = castle_row col" "fc = 4" "tc = 6 \<or> tc = 2"
      using cs(1-4) mp True by simp_all
    have rook: "cell b (castle_row col) (if tc = 6 then 7 else 0) = Some (Piece col Rook)"
      using cs(4,5) mp True rights by (fastforce simp: rights_ok_def)
    have inb: "inB tr tc"
      using sqs by auto
    have rook': "cell ?nb (castle_row col) (if tc = 6 then 7 else 0) = Some (Piece col Rook)"
      using rook sqs unfolding cell_appMv [OF wf on inb] by auto
    have free: "cell b (castle_row col) y = None" if "y = (if tc = 6 then 5 else 3)" for y
    proof -
      have "king_rule b col fr fc (Some cast) tr tc"
        using raw on mp True by (simp add: rawMoves_rules move_rule_def)
      then show ?thesis
        using sqs that True by (auto simp: king_rule_def)
    qed
    have k: "cell b (fst k) (snd k) = Some (Piece (opp col) King)"
      using king by (cases k) (auto simp: one_king_def)
    have k5: "(castle_row col, if tc = 6 then 5 else 3) \<noteq> k"
      using free k by auto
    have k7: "(castle_row col, if tc = 6 then 7 else 0) \<noteq> k"
      using rook k by auto
    have "one_king (castle_rook ?nb col tc) (opp col) k"
      unfolding castle_rook_def Let_def using nb rook' k5 k7
      by (cases "tc = 6") (auto intro!: one_king_put)
    then show ?thesis
      using True by (simp add: try_move_def Let_def)
  next
    case False
    show ?thesis
    proof (cases "t = Pawn \<and> ep = Some (tr, tc)")
      case True
      then have "cell b (ep_victim col tr) tc = Some (Piece (opp col) Pawn)"
        using ep unfolding ep_inv_def by blast
      then have "(ep_victim col tr, tc) \<noteq> k"
        using king by (force simp: one_king_def)
      then have "one_king (put ?nb (ep_victim col tr) tc None) (opp col) k"
        using nb by (intro one_king_put) auto
      then show ?thesis
        using True by (simp add: moved_board_try_move [symmetric] moved_board_def Let_def)
    next
      case no_ep: False
      show ?thesis
        unfolding moved_board_try_move [symmetric] moved_board_def Let_def using False no_ep nb by auto
    qed
  qed
qed

text \<open>Promotion replaces the pawn by another piece of its colour and disturbs no king.\<close>

lemma move_rule_same_colours:
  assumes "\<And>x y. pc (cell b' x y) = pc (cell b x y)" and "cell b' r c = cell b r c"
  shows "move_rule b' r c None None p q = move_rule b r c None None p q"
proof -
  have none: "cell b' x y = None \<longleftrightarrow> cell b x y = None" for x y
    using assms(1) [of x y] by (auto simp: pc_def)
  have ray: "ray_target b' op x y dr dc k = ray_target b op x y dr dc k" for op x y dr dc k
    by (simp add: ray_target_def assms(1) none)
  show ?thesis
    unfolding move_rule_def assms(2) ray_reach_def ray pawn_rule_def king_rule_def assms(1) none by simp
qed

lemma inChk_promote:
  assumes wf: "wf_board b" and on: "inB tr tc" and pawn: "cell b tr tc = Some (Piece col Pawn)"
    and "p \<noteq> King" and king: "one_king b col k"
  shows "one_king (put b tr tc (Some (Piece col p))) col k"
    and "inChk (put b tr tc (Some (Piece col p))) col = inChk b col"
proof -
  let ?b = "put b tr tc (Some (Piece col p))"
  have "(tr, tc) \<noteq> k"
    using king pawn by (force simp: one_king_def)
  then show k': "one_king ?b col k"
    using one_king_put [OF wf king, of tr tc "Some (Piece col p)"] assms(4) by auto
  have same: "pc (cell ?b x y) = pc (cell b x y)" for x y
    using pawn by (simp add: cell_put [OF wf on])
  have "move_rule ?b r c None None x y = move_rule b r c None None x y"
    if "pc (cell ?b r c) = Some (opp col)" for r c x y
    using that by (intro move_rule_same_colours same) (auto simp: cell_put [OF wf on])
  then have "attacked ?b col k = attacked b col k"
    unfolding attacked_def using same by metis
  then show "inChk ?b col = inChk b col"
    using k' king by (simp add: inChk_attacked find_king_one)
qed

text \<open>What is left of the castling rights after a move.\<close>

lemma new_rights_left:
  "castK (new_rights k col t fr fc tr tc) c \<Longrightarrow>
     castK k c \<and> (t = King \<longrightarrow> c \<noteq> col) \<and> (t = Rook \<longrightarrow> (fr, fc) \<noteq> (castle_row c, 7)) \<and> (tr, tc) \<noteq> (castle_row c, 7)"
  "castQ (new_rights k col t fr fc tr tc) c \<Longrightarrow>
     castQ k c \<and> (t = King \<longrightarrow> c \<noteq> col) \<and> (t = Rook \<longrightarrow> (fr, fc) \<noteq> (castle_row c, 0)) \<and> (tr, tc) \<noteq> (castle_row c, 0)"
  by (cases c; cases col;
      auto simp: new_rights_def clear_right_def clear_corner_def castK_def castQ_def castle_row_def Let_def
        split: if_splits)+

lemma rights_ok_move:
  assumes wf: "wf_board b" and ok: "rights_ok b k" and on: "inB fr fc" "inB tr tc"
    and mp: "cell b fr fc = Some (Piece col t)" and ep: "ep_inv b col ep"
    and tgt: "pc (cell b tr tc) \<noteq> Some col" and noking: "cell b tr tc \<noteq> Some (Piece (opp col) King)"
  shows "rights_ok (try_move b fr fc ep tr tc col t) (new_rights k col t fr fc tr tc)"
proof -
  have keep: "cell (try_move b fr fc ep tr tc col t) (castle_row c) y = Some (Piece c p)"
    if "cell b (castle_row c) y = Some (Piece c p)" and "(tr, tc) \<noteq> (castle_row c, y)"
      and "p \<noteq> Pawn" and "(fr, fc) \<noteq> (castle_row c, y)" and "t = King \<Longrightarrow> c \<noteq> col" for c y p
  proof -
    have "(castle_row c, y) \<noteq> (ep_victim col tr, tc)" if "ep = Some (tr, tc)"
      using that ep \<open>cell b (castle_row c) y = Some (Piece c p)\<close> \<open>p \<noteq> Pawn\<close>
      by (cases col; cases c) (auto simp: ep_inv_def ep_victim_def castle_row_def)
    moreover have "castle_row c \<noteq> castle_row col" if "t = King"
      using that \<open>t = King \<Longrightarrow> c \<noteq> col\<close> by (cases c; cases col) (auto simp: castle_row_def)
    ultimately show ?thesis
      using cell_try_move_other [OF wf on ep, of "castle_row c" y t] that by auto
  qed
  have king: "(tr, tc) \<noteq> (castle_row c, 4)" if "cell b (castle_row c) 4 = Some (Piece c King)" for c
    using that tgt noking by (cases "c = col") (auto simp: neq_opp)
  show ?thesis
    unfolding rights_ok_def
  proof (intro allI conjI impI)
    fix c
    assume a: "castK (new_rights k col t fr fc tr tc) c"
    have h: "cell b (castle_row c) 4 = Some (Piece c King)" "cell b (castle_row c) 7 = Some (Piece c Rook)"
      using new_rights_left(1) [OF a] ok by (auto simp: rights_ok_def)
    show "cell (try_move b fr fc ep tr tc col t) (castle_row c) 4 = Some (Piece c King)"
      using new_rights_left(1) [OF a] h king [OF h(1)] mp by (intro keep) auto
    show "cell (try_move b fr fc ep tr tc col t) (castle_row c) 7 = Some (Piece c Rook)"
      using new_rights_left(1) [OF a] h mp by (intro keep) auto
  next
    fix c
    assume a: "castQ (new_rights k col t fr fc tr tc) c"
    have h: "cell b (castle_row c) 4 = Some (Piece c King)" "cell b (castle_row c) 0 = Some (Piece c Rook)"
      using new_rights_left(2) [OF a] ok by (auto simp: rights_ok_def)
    show "cell (try_move b fr fc ep tr tc col t) (castle_row c) 4 = Some (Piece c King)"
      using new_rights_left(2) [OF a] h king [OF h(1)] mp by (intro keep) auto
    show "cell (try_move b fr fc ep tr tc col t) (castle_row c) 0 = Some (Piece c Rook)"
      using new_rights_left(2) [OF a] h mp by (intro keep) auto
  qed
qed

lemma position_inv_try_move:
  assumes wf: "wf_board b" and ep: "ep_inv b col ep" and pos: "position_inv b col k"
    and on: "inB fr fc" and mp: "cell b fr fc = Some (Piece col t)"
    and leg: "(tr, tc) \<in> set (getLegal b fr fc ep (Some k))"
  shows "position_inv (try_move b fr fc ep tr tc col t) (opp col) (new_rights k col t fr fc tr tc)"
proof -
  note raw = legal_raw [OF leg]
  have tgt: "inB tr tc" "pc (cell b tr tc) \<noteq> Some col"
    using legal_target [OF on mp ep leg] by simp_all
  obtain ko kc where ko: "one_king b (opp col) ko" and kc: "one_king b col kc"
    using pos by (meson position_inv_def)
  have safe: "\<not> inChk b (opp col)" and rights: "rights_ok b k"
    using pos by (auto simp: position_inv_def)
  have "cell b tr tc \<noteq> Some (Piece (opp col) King)"
    using no_king_capture [OF ko safe on mp raw] ko tgt(1) by (auto simp: one_king_def)
  then have r: "rights_ok (try_move b fr fc ep tr tc col t) (new_rights k col t fr fc tr tc)"
    by (intro rights_ok_move [OF wf rights on tgt(1) mp ep tgt(2)])
  have "\<exists>q. one_king (try_move b fr fc ep tr tc col t) c q" for c
  proof (cases "c = col")
    case True
    then show ?thesis
      using one_king_try_move [OF wf kc on mp ep_inv_ok [OF ep] raw] by blast
  next
    case False
    then show ?thesis
      using one_king_other_try_move [OF wf ko safe on mp ep rights raw] neq_opp [of c col] by metis
  qed
  moreover have "\<not> inChk (try_move b fr fc ep tr tc col t) col"
    using leg mp by (auto simp: getLegal_mem)
  ultimately show ?thesis
    using r by (simp add: position_inv_def)
qed

lemma rights_ok_put:
  assumes "rights_ok b k" and "wf_board b" and "inB r c" and "cell b r c = Some (Piece col Pawn)"
  shows "rights_ok (put b r c v) k"
  using assms(1,4) unfolding rights_ok_def cell_put [OF assms(2,3)] by auto

text \<open>A legal move, with the promotion it makes, leads from a sound position to a sound one.\<close>

lemma position_inv_move:
  assumes wf: "wf_board b" and ep: "ep_inv b col ep" and pos: "position_inv b col k"
    and on: "inB fr fc" and mp: "cell b fr fc = Some (Piece col t)"
    and leg: "(tr, tc) \<in> set (getLegal b fr fc ep (Some k))"
    and p: "p \<noteq> None \<Longrightarrow> t = Pawn \<and> p \<noteq> Some King"
  shows "position_inv (promoted (moved_board b fr fc tr tc ep col t) tr tc col p) (opp col)
    (new_rights k col t fr fc tr tc)"
proof (cases p)
  case None
  then show ?thesis
    using position_inv_try_move [OF wf ep pos on mp leg] by (simp add: moved_board_try_move)
next
  case (Some q)
  let ?b = "try_move b fr fc ep tr tc col t"
  have t: "t = Pawn" "q \<noteq> King"
    using p Some by auto
  have in_to: "inB tr tc" and ne: "(tr, tc) \<noteq> (fr, fc)"
    using legal_target [OF on mp ep leg] by simp_all
  have v: "(ep_victim col tr, tc) \<noteq> (tr, tc)"
    by (cases col) (auto simp: ep_victim_def)
  have pawn: "cell ?b tr tc = Some (Piece col Pawn)" and wf': "wf_board ?b"
    using t mp ne v wf ep ep_victim_inB [of b col tr tc] unfolding moved_board_try_move [symmetric] moved_board_def Let_def
    by (auto simp: cell_appMv [OF wf on in_to] cell_put)
  have pos': "position_inv ?b (opp col) (new_rights k col t fr fc tr tc)"
    by (rule position_inv_try_move [OF wf ep pos on mp leg])
  obtain kc ko where kc: "one_king ?b col kc" and ko: "one_king ?b (opp col) ko"
    using pos' by (meson position_inv_def)
  have "(tr, tc) \<noteq> ko"
    using ko pawn by (force simp: one_king_def)
  then have "one_king (put ?b tr tc (Some (Piece col q))) (opp col) ko"
    using one_king_put [OF wf' ko, of tr tc "Some (Piece col q)"] by auto
  then have "\<exists>x. one_king (put ?b tr tc (Some (Piece col q))) c x" for c
    using inChk_promote(1) [OF wf' in_to pawn t(2) kc] neq_opp [of c col] by metis
  then show ?thesis
    using pos' inChk_promote(2) [OF wf' in_to pawn t(2) kc] rights_ok_put [OF _ wf' in_to pawn] Some
    by (simp add: position_inv_def promoted_def moved_board_try_move)
qed

lemma position_inv_init: "position_inv initBoard White \<lparr>wK = True, wQ = True, bK = True, bQ = True\<rparr>"
proof -
  have k: "one_king initBoard c (castle_row c, 4)" for c
  proof -
    have "list_all (\<lambda>(r, q). (cell initBoard r q = Some (Piece c King)) = ((r, q) = (castle_row c, 4))) all_squares"
      if "c = White \<or> c = Black" for c
      using that by (elim disjE; hypsubst; code_simp)
    then have "list_all (\<lambda>(r, q). (cell initBoard r q = Some (Piece c King)) = ((r, q) = (castle_row c, 4))) all_squares"
      by (cases c) blast+
    then have "\<forall>x \<in> set all_squares. (\<lambda>(r, q). (cell initBoard r q = Some (Piece c King)) = ((r, q) = (castle_row c, 4))) x"
      by (simp only: list_all_iff)
    then show ?thesis
      unfolding one_king_def by (cases c) (auto simp: castle_row_def inB_def)
  qed
  have "\<not> inChk initBoard Black"
    by code_simp
  moreover have "rights_ok initBoard \<lparr>wK = True, wQ = True, bK = True, bQ = True\<rparr>"
  proof -
    have "list_all (\<lambda>c. cell initBoard (castle_row c) 4 = Some (Piece c King) \<and>
        cell initBoard (castle_row c) 7 = Some (Piece c Rook) \<and>
        cell initBoard (castle_row c) 0 = Some (Piece c Rook)) [White, Black]"
      by code_simp
    then have "cell initBoard (castle_row c) 4 = Some (Piece c King) \<and>
        cell initBoard (castle_row c) 7 = Some (Piece c Rook) \<and>
        cell initBoard (castle_row c) 0 = Some (Piece c Rook)" for c
      by (cases c) simp_all
    then show ?thesis
      by (simp add: rights_ok_def)
  qed
  ultimately show ?thesis
    using k by (auto simp: position_inv_def)
qed

end
