(* ===== verification/ChessGame.thy ===== *)
theory ChessGame
  imports Position
begin

text \<open>
  The game state of the browser client (hooks/useChessGame.js): selecting and moving pieces,
  promotion, undo, positions received from the server, end of game, and the replay of a move
  log (\<open>replayToSnapshots\<close> of engine/chessEngine.js). Each handler is a function from the
  state to the next state and the list of its effects (sounds and callbacks) in order.

  The state updates of one handler are applied in the order of the source; a value the handler
  reads is the one of the state it was rendered with, as in the source.
\<close>

section \<open>State\<close>

text \<open>
  An entry of the move log. Entries received from the server have no colour and no piece
  (undefined in the source).
\<close>

record move_entry =
  me_color :: "pcolor option"
  me_from :: string
  me_to :: string
  me_piece :: "piece option"
  me_captured :: "piece option"
  me_promotion :: "ptype option"
  me_san :: "string option"

datatype gstatus = Check | Checkmate | Stalemate | Timeout

text \<open>The fields \<open>snapshot()\<close> takes, and the whole state of the hook.\<close>

record snap =
  s_board :: board
  s_turn :: pcolor
  s_sel :: "square option"
  s_moves :: "square list"
  s_ep :: "square option"
  s_cast :: castling
  s_lastMv :: "(square \<times> square) option"
  s_status :: "gstatus option"
  s_captW :: "piece list"
  s_captB :: "piece list"
  s_hist :: "string list"
  s_moveLog :: "move_entry list"

record promo =
  pr_from :: square
  pr_to :: square
  pr_col :: pcolor
  pr_nb :: board
  pr_nt :: pcolor
  pr_nep :: "square option"
  pr_nc :: castling
  pr_captured :: "piece option"

record hook = snap +
  h_promo :: "promo option"
  h_gameStart :: "int option"
  h_past :: "snap list"

datatype effect =
    PlaySound string
  | MoveCommitted move_entry "gstatus option"
  | GameFinished nat int bool "move_entry list"

definition all_castling :: castling where
  "all_castling = \<lparr>wK = True, wQ = True, bK = True, bQ = True\<rparr>"

text \<open>The state on the first render, and \<open>reset\<close>.\<close>

definition init_hook :: hook where
  "init_hook =
     \<lparr>s_board = initBoard, s_turn = White, s_sel = None, s_moves = [], s_ep = None,
      s_cast = all_castling, s_lastMv = None, s_status = None, s_captW = [], s_captB = [],
      s_hist = [], s_moveLog = [], h_promo = None, h_gameStart = None, h_past = []\<rparr>"

definition reset_game :: "int \<Rightarrow> hook \<Rightarrow> hook" where
  "reset_game now st = init_hook\<lparr>h_gameStart := Some now\<rparr>"

definition snapshot :: "hook \<Rightarrow> snap" where
  "snapshot st =
     \<lparr>s_board = s_board st, s_turn = s_turn st, s_sel = s_sel st, s_moves = s_moves st, s_ep = s_ep st,
      s_cast = s_cast st, s_lastMv = s_lastMv st, s_status = s_status st, s_captW = s_captW st,
      s_captB = s_captB st, s_hist = s_hist st, s_moveLog = s_moveLog st\<rparr>"

definition undo :: "hook \<Rightarrow> hook" where
  "undo st =
     (if h_past st = [] \<or> h_promo st \<noteq> None then st
      else let prev = last (h_past st) in
        st\<lparr>s_board := s_board prev, s_turn := s_turn prev, s_sel := s_sel prev, s_moves := s_moves prev,
           s_ep := s_ep prev, s_cast := s_cast prev, s_lastMv := s_lastMv prev, s_status := s_status prev,
           s_captW := s_captW prev, s_captB := s_captB prev, s_hist := s_hist prev,
           s_moveLog := s_moveLog prev, h_promo := None, h_past := butlast (h_past st)\<rparr>)"

text \<open>
  \<open>loadFEN\<close> with the move history sent by the server; None where the source throws (and for
  the FEN texts outside the model, see \<open>parseFEN\<close>).
\<close>

definition loadFEN :: "int \<Rightarrow> string \<Rightarrow> move_entry list \<Rightarrow> hook \<Rightarrow> hook option" where
  "loadFEN now fen persisted st =
     (case parseFEN fen of
        None \<Rightarrow> None
      | Some (b, t, k, ep) \<Rightarrow>
          Some (st\<lparr>s_board := b, s_turn := t, s_sel := None, s_moves := [], s_cast := k, s_ep := ep,
            s_lastMv := (case persisted of [] \<Rightarrow> None | _ \<Rightarrow>
              (let m = last persisted in
               (case (rc_of (squareToRC (me_from m)), rc_of (squareToRC (me_to m))) of
                  (Some f, Some t) \<Rightarrow> Some (f, t) | _ \<Rightarrow> None))),
            s_status := None, s_captW := [], s_captB := [],
            s_hist := filter (\<lambda>s. s \<noteq> []) (concat (map (\<lambda>m. case me_san m of None \<Rightarrow> [] | Some s \<Rightarrow> [s]) persisted)),
            s_moveLog := persisted, h_promo := None, h_past := [], h_gameStart := Some now\<rparr>))"

section \<open>Moves\<close>

text \<open>\<open>note.replace(/[+#]?$/, suf)\<close>: the suffix replaces a final + or #, or is appended.\<close>

definition replace_check_suffix :: "string \<Rightarrow> string \<Rightarrow> string" where
  "replace_check_suffix note suf =
     (if note \<noteq> [] \<and> last note \<in> {CHR ''+'', CHR ''#''} then butlast note @ suf else note @ suf)"

definition status_of :: "board \<Rightarrow> pcolor \<Rightarrow> square option \<Rightarrow> castling \<Rightarrow> gstatus option" where
  "status_of nb nt nep nc =
     (let chk = inChk nb nt; any = hasAny nb nt nep (Some nc) in
      if \<not> any then Some (if chk then Checkmate else Stalemate)
      else if chk then Some Check else None)"

definition status_suffix :: "gstatus option \<Rightarrow> string" where
  "status_suffix st = (if st = Some Checkmate then ''#'' else if st = Some Check then ''+'' else '''')"

definition duration :: "int option \<Rightarrow> int \<Rightarrow> int" where
  "duration start now = (now - (case start of None \<Rightarrow> now | Some g \<Rightarrow> g)) div 1000"

definition finish ::
  "int \<Rightarrow> board \<Rightarrow> pcolor \<Rightarrow> square option \<Rightarrow> castling \<Rightarrow> string \<Rightarrow> move_entry \<Rightarrow> bool \<Rightarrow> hook
     \<Rightarrow> hook \<times> effect list" where
  "finish now nb nt nep nc note entry silent st =
     (let status = status_of nb nt nep nc;
          finalSan = replace_check_suffix note (status_suffix status);
          finalEntry = entry\<lparr>me_san := Some finalSan\<rparr>;
          log = s_moveLog st @ [finalEntry];
          st' = st\<lparr>s_board := nb, s_turn := nt, s_ep := nep, s_cast := nc, s_status := status,
                   s_hist := s_hist st @ [finalSan], s_moveLog := log, s_sel := None, s_moves := []\<rparr>
      in (st',
          [PlaySound (if status = Some Checkmate then ''checkmate''
                      else if status = Some Check then ''check''
                      else if me_captured entry \<noteq> None then ''capture'' else ''move'')] @
          (if silent then [] else [MoveCommitted finalEntry status]) @
          (if status \<in> {Some Checkmate, Some Stalemate}
           then [GameFinished (length log) (duration (h_gameStart st) now) (status = Some Checkmate) log]
           else [])))"

definition forceEnd :: "int \<Rightarrow> gstatus \<Rightarrow> hook \<Rightarrow> hook \<times> effect list" where
  "forceEnd now reason st =
     (st\<lparr>s_status := Some reason\<rparr>,
      [PlaySound ''gameEnd'',
       GameFinished (length (s_moveLog st)) (duration (h_gameStart st) now) True (s_moveLog st)])"

definition add_capture :: "pcolor \<Rightarrow> piece option \<Rightarrow> hook \<Rightarrow> hook" where
  "add_capture col cp st =
     (case cp of None \<Rightarrow> st
      | Some q \<Rightarrow> (case col of White \<Rightarrow> st\<lparr>s_captW := s_captW st @ [q]\<rparr>
                              | Black \<Rightarrow> st\<lparr>s_captB := s_captB st @ [q]\<rparr>))"

definition move_note ::
  "int \<Rightarrow> int \<Rightarrow> int \<Rightarrow> int \<Rightarrow> ptype \<Rightarrow> bool \<Rightarrow> ptype option \<Rightarrow> string" where
  "move_note fr fc tr tc t isCap promotion =
     (case promotion of
        Some p \<Rightarrow> sq tr tc @ ''='' @ [letter p]
      | None \<Rightarrow>
          if t = King \<and> \<bar>tc - fc\<bar> = 2 then (if tc = 6 then ''O-O'' else ''O-O-O'')
          else if t = Pawn then (if isCap then FILES ! nat fc # ''x'' else []) @ sq tr tc
          else letter t # (if isCap then ''x'' else []) @ sq tr tc)"

definition applyMove ::
  "int \<Rightarrow> int \<Rightarrow> int \<Rightarrow> int \<Rightarrow> int \<Rightarrow> ptype option \<Rightarrow> bool \<Rightarrow> hook \<Rightarrow> hook \<times> effect list" where
  "applyMove now fr fc tr tc promotion silent st =
     (case cell (s_board st) fr fc of
        None \<Rightarrow> (st, [])
      | Some (Piece col t) \<Rightarrow>
          let nb = moved_board (s_board st) fr fc tr tc (s_ep st) col t;
              cp = captured_by (s_board st) fr fc tr tc (s_ep st) col t;
              nc = new_rights (s_cast st) col t fr fc tr tc;
              nep = (if t = Pawn \<and> \<bar>tr - fr\<bar> = 2 then Some ((fr + tr) div 2, tc) else None);
              nt = opp col;
              st1 = add_capture col cp st in
          if t = Pawn \<and> (tr = 0 \<or> tr = 7) \<and> promotion = None then
            (st1\<lparr>s_lastMv := Some ((fr, fc), (tr, tc)),
                 h_promo := Some \<lparr>pr_from = (fr, fc), pr_to = (tr, tc), pr_col = col, pr_nb = nb,
                   pr_nt = nt, pr_nep = nep, pr_nc = nc, pr_captured = cp\<rparr>,
                 h_past := h_past st @ [snapshot st]\<rparr>, [])
          else
            let nb' = (case promotion of None \<Rightarrow> nb | Some p \<Rightarrow> put nb tr tc (Some (Piece col p))) in
            finish now nb' nt nep nc (move_note fr fc tr tc t (cp \<noteq> None) promotion)
              \<lparr>me_color = Some col, me_from = sq fr fc, me_to = sq tr tc, me_piece = Some (Piece col t),
               me_captured = cp, me_promotion = promotion, me_san = None\<rparr> silent
              (st1\<lparr>s_lastMv := Some ((fr, fc), (tr, tc)), h_past := h_past st @ [snapshot st]\<rparr>))"

text \<open>A move of the other player or of the engine; None where an unreadable square makes the source throw.\<close>

definition applyRemoteMove ::
  "int \<Rightarrow> string \<Rightarrow> string \<Rightarrow> ptype option \<Rightarrow> hook \<Rightarrow> (hook \<times> effect list) option" where
  "applyRemoteMove now from to promotion st =
     (case (rc_of (squareToRC from), rc_of (squareToRC to)) of
        (Some (fr, fc), Some (tr, tc)) \<Rightarrow> Some (applyMove now fr fc tr tc promotion True st)
      | _ \<Rightarrow> None)"

text \<open>
  The promotion dialog, shown only while a promotion is pending, calls \<open>doPromo\<close>; without
  one the source reads the fields of null and throws (None).
\<close>

definition doPromo :: "int \<Rightarrow> ptype \<Rightarrow> hook \<Rightarrow> (hook \<times> effect list) option" where
  "doPromo now t st =
     (case h_promo st of
        None \<Rightarrow> None
      | Some p \<Rightarrow>
          let (fr, fc) = pr_from p; (tr, tc) = pr_to p in
          Some (finish now (put (pr_nb p) tr tc (Some (Piece (pr_col p) t))) (pr_nt p) (pr_nep p) (pr_nc p)
            (sq tr tc @ ''='' @ [letter t])
            \<lparr>me_color = Some (pr_col p), me_from = sq fr fc, me_to = sq tr tc,
             me_piece = Some (Piece (pr_col p) Pawn), me_captured = pr_captured p,
             me_promotion = Some t, me_san = None\<rparr> False
            (st\<lparr>h_promo := None, s_lastMv := Some ((fr, fc), (tr, tc))\<rparr>)))"

definition select :: "int \<Rightarrow> int \<Rightarrow> hook \<Rightarrow> hook" where
  "select r c st =
     st\<lparr>s_sel := Some (r, c), s_moves := getLegal (s_board st) r c (s_ep st) (Some (s_cast st))\<rparr>"

definition click :: "int \<Rightarrow> int \<Rightarrow> int \<Rightarrow> hook \<Rightarrow> hook \<times> effect list" where
  "click now r c st =
     (if s_status st \<in> {Some Checkmate, Some Stalemate, Some Timeout} \<or> h_promo st \<noteq> None then (st, [])
      else
        let mine = (pc (cell (s_board st) r c) = Some (s_turn st)) in
        case s_sel st of
          Some (sr, sc) \<Rightarrow>
            if (r, c) \<in> set (s_moves st) then applyMove now sr sc r c None False st
            else if mine then (select r c st, [])
            else (st\<lparr>s_sel := None, s_moves := []\<rparr>, [])
        | None \<Rightarrow> if mine then (select r c st, []) else (st, []))"

text \<open>The king drawn as being in check.\<close>

definition ckKing :: "hook \<Rightarrow> square option" where
  "ckKing st =
     (if s_status st \<in> {Some Check, Some Checkmate} then find_king (s_board st) (s_turn st) else None)"

definition canUndo :: "hook \<Rightarrow> bool" where
  "canUndo st \<longleftrightarrow> h_past st \<noteq> [] \<and> h_promo st = None"

section \<open>Replay of a move log\<close>

text \<open>
  One step of \<open>replayToSnapshots\<close>; None where a square of the log is not on the board (the
  source then indexes a missing row) or a promotion has no piece.
\<close>

definition replay_step :: "board \<Rightarrow> move_entry \<Rightarrow> board option" where
  "replay_step b m =
     (case (rc_of (squareToRC (me_from m)), rc_of (squareToRC (me_to m))) of
        (Some (fr, fc), Some (tr, tc)) \<Rightarrow>
          let col = pc (me_piece m); type = pt (me_piece m);
              wasEmpty = (cell b tr tc = None);
              nb = appMv b fr fc tr tc;
              nb = (if type = Some King \<and> \<bar>tc - fc\<bar> = 2
                    then castle_rook nb (if col = Some White then White else Black) tc else nb);
              nb = (if type = Some Pawn \<and> fc \<noteq> tc \<and> me_captured m \<noteq> None \<and> wasEmpty
                    then put nb (ep_victim (if col = Some White then White else Black) tr) tc None else nb)
          in (case (me_promotion m, col) of
                (None, _) \<Rightarrow> Some nb
              | (Some p, Some c) \<Rightarrow> Some (put nb tr tc (Some (Piece c p)))
              | (Some p, None) \<Rightarrow> None)
      | _ \<Rightarrow> None)"

fun replay_from :: "board \<Rightarrow> move_entry list \<Rightarrow> board list option" where
  "replay_from b [] = Some []"
| "replay_from b (m # ms) =
     (case replay_step b m of None \<Rightarrow> None | Some nb \<Rightarrow> map_option (Cons nb) (replay_from nb ms))"

definition replayToSnapshots :: "move_entry list \<Rightarrow> board list option" where
  "replayToSnapshots log = map_option (Cons initBoard) (replay_from initBoard log)"

lemma replay_from_append:
  "replay_from b (ms @ [m]) =
     (case replay_from b ms of None \<Rightarrow> None
      | Some bs \<Rightarrow> map_option (\<lambda>nb. bs @ [nb]) (replay_step (last (b # bs)) m))"
  by (induction b ms rule: replay_from.induct) (auto simp: option.map_comp o_def split: option.splits)

definition replays_to :: "move_entry list \<Rightarrow> board \<Rightarrow> bool" where
  "replays_to log b \<longleftrightarrow>
     (\<exists>bs. replayToSnapshots log = Some bs \<and> length bs = Suc (length log) \<and> last bs = b)"

lemma replays_to_Nil [simp]: "replays_to [] initBoard"
  by (simp add: replays_to_def replayToSnapshots_def)

lemma replays_to_snoc:
  assumes "replays_to log b" and "replay_step b m = Some nb"
  shows "replays_to (log @ [m]) nb"
  using assms by (auto simp: replays_to_def replayToSnapshots_def replay_from_append)

section \<open>Invariant of the game state\<close>

definition turn_after :: "nat \<Rightarrow> pcolor" where
  "turn_after n = (if even n then White else Black)"

lemma turn_after_simps [simp]: "turn_after 0 = White" "turn_after (Suc n) = opp (turn_after n)"
  by (simp_all add: turn_after_def)

definition snap_inv :: "'a snap_scheme \<Rightarrow> bool" where
  "snap_inv s \<longleftrightarrow>
     wf_board (s_board s) \<and> ep_inv (s_board s) (s_turn s) (s_ep s) \<and>
     position_inv (s_board s) (s_turn s) (s_cast s) \<and>
     replays_to (s_moveLog s) (s_board s) \<and>
     turn_after (length (s_moveLog s)) = s_turn s \<and>
     s_hist s = map (\<lambda>m. the (me_san m)) (s_moveLog s) \<and>
     (\<forall>r c. s_sel s = Some (r, c) \<longrightarrow> inB r c \<and> pc (cell (s_board s) r c) = Some (s_turn s) \<and>
        s_moves s = getLegal (s_board s) r c (s_ep s) (Some (s_cast s)))"

text \<open>
  A pending promotion: the pawn move was legal in the current position and the prepared board
  is the one after that move.
\<close>

definition promo_inv :: "hook \<Rightarrow> promo \<Rightarrow> bool" where
  "promo_inv st p \<longleftrightarrow>
     (\<exists>fr fc tr tc. pr_from p = (fr, fc) \<and> pr_to p = (tr, tc) \<and>
        inB fr fc \<and> cell (s_board st) fr fc = Some (Piece (s_turn st) Pawn) \<and>
        (tr, tc) \<in> set (getLegal (s_board st) fr fc (s_ep st) (Some (s_cast st))) \<and>
        (tr = 0 \<or> tr = 7) \<and>
        pr_col p = s_turn st \<and> pr_nt p = opp (s_turn st) \<and> pr_nep p = None \<and>
        pr_nc p = new_rights (s_cast st) (s_turn st) Pawn fr fc tr tc \<and>
        pr_nb p = moved_board (s_board st) fr fc tr tc (s_ep st) (s_turn st) Pawn \<and>
        pr_captured p = captured_by (s_board st) fr fc tr tc (s_ep st) (s_turn st) Pawn)"

definition hook_inv :: "hook \<Rightarrow> bool" where
  "hook_inv st \<longleftrightarrow>
     snap_inv st \<and> (\<forall>s \<in> set (h_past st). snap_inv s) \<and>
     (\<forall>p. h_promo st = Some p \<longrightarrow> promo_inv st p)"

lemma init_hook_inv: "hook_inv init_hook"
  using position_inv_init by (simp add: hook_inv_def snap_inv_def init_hook_def ep_inv_def all_castling_def)

lemma reset_game_inv: "hook_inv (reset_game now st)"
  using init_hook_inv by (simp add: hook_inv_def snap_inv_def reset_game_def init_hook_def)

section \<open>Legal moves keep the invariant\<close>

text \<open>The entry of the log for a move, before the position is judged.\<close>

definition entry_of ::
  "board \<Rightarrow> int \<Rightarrow> int \<Rightarrow> int \<Rightarrow> int \<Rightarrow> square option \<Rightarrow> pcolor \<Rightarrow> ptype \<Rightarrow> ptype option \<Rightarrow> string option \<Rightarrow> move_entry" where
  "entry_of b fr fc tr tc ep col t p san =
     \<lparr>me_color = Some col, me_from = sq fr fc, me_to = sq tr tc, me_piece = Some (Piece col t),
      me_captured = captured_by b fr fc tr tc ep col t, me_promotion = p, me_san = san\<rparr>"

lemma replay_step_entry:
  assumes "wf_board b" and "inB fr fc" and "cell b fr fc = Some (Piece col t)" and "ep_inv b col ep"
    and "(tr, tc) \<in> set (getLegal b fr fc ep cast)"
  shows "replay_step b (entry_of b fr fc tr tc ep col t p san) =
    Some (promoted (moved_board b fr fc tr tc ep col t) tr tc col p)"
proof -
  have on: "inB tr tc"
    using legal_target [OF assms(2-5)] by simp
  have ep: "t = Pawn \<Longrightarrow>
    fc \<noteq> tc \<and> captured_by b fr fc tr tc ep col t \<noteq> None \<and> cell b tr tc = None \<longleftrightarrow> ep = Some (tr, tc)"
    using ep_capture_iff [OF assms(1,2) _ assms(4,5)] assms(3) by simp
  define c1 where "c1 = (if t = King \<and> \<bar>tc - fc\<bar> = 2 then castle_rook (appMv b fr fc tr tc) col tc
    else appMv b fr fc tr tc)"
  have moved: "moved_board b fr fc tr tc ep col t =
    (if t = Pawn \<and> ep = Some (tr, tc) then put c1 (ep_victim col tr) tc None else c1)"
    unfolding moved_board_def c1_def Let_def by simp
  obtain cap where cap: "captured_by b fr fc tr tc ep col t = cap"
    by blast
  have "replay_step b (entry_of b fr fc tr tc ep col t p san) =
    (let nb = (if t = Pawn \<and> fc \<noteq> tc \<and> captured_by b fr fc tr tc ep col t \<noteq> None \<and> cell b tr tc = None
               then put c1 (ep_victim col tr) tc None else c1)
     in Some (promoted nb tr tc col p))"
    unfolding entry_of_def cap
    by (cases p; cases col; cases "t = Pawn")
      (simp_all add: replay_step_def rc_of_def assms(2) on c1_def Let_def promoted_def)
  moreover have "(t = Pawn \<and> fc \<noteq> tc \<and> captured_by b fr fc tr tc ep col t \<noteq> None \<and> cell b tr tc = None) =
      (t = Pawn \<and> ep = Some (tr, tc))"
    using ep by blast
  ultimately show ?thesis
    unfolding moved by simp
qed

lemma replay_step_san [simp]: "replay_step b (m\<lparr>me_san := s\<rparr>) = replay_step b m"
  by (cases m) (hypsubst_thin, unfold replay_step_def move_entry.simps, rule refl)

text \<open>A move of the side to move that \<open>getLegal\<close> offers.\<close>

definition legal_move :: "hook \<Rightarrow> int \<Rightarrow> int \<Rightarrow> int \<Rightarrow> int \<Rightarrow> bool" where
  "legal_move st fr fc tr tc \<longleftrightarrow>
     inB fr fc \<and> pc (cell (s_board st) fr fc) = Some (s_turn st) \<and>
     (tr, tc) \<in> set (getLegal (s_board st) fr fc (s_ep st) (Some (s_cast st)))"

lemma finish_simps [simp]:
  "h_past (fst (finish now nb nt nep nc note entry silent st)) = h_past st"
  "h_promo (fst (finish now nb nt nep nc note entry silent st)) = h_promo st"
  "s_board (fst (finish now nb nt nep nc note entry silent st)) = nb"
  "s_turn (fst (finish now nb nt nep nc note entry silent st)) = nt"
  "s_status (fst (finish now nb nt nep nc note entry silent st)) = status_of nb nt nep nc"
  "length (s_moveLog (fst (finish now nb nt nep nc note entry silent st))) = Suc (length (s_moveLog st))"
  by (simp_all add: finish_def Let_def)

lemma finish_inv:
  assumes "replays_to (s_moveLog st) b" and "replay_step b entry = Some nb" and "wf_board nb"
    and "ep_inv nb nt nep" and "position_inv nb nt nc" and "nt = opp (turn_after (length (s_moveLog st)))"
    and "s_hist st = map (\<lambda>m. the (me_san m)) (s_moveLog st)"
  shows "snap_inv (fst (finish now nb nt nep nc note entry silent st))"
proof -
  have "replays_to (s_moveLog st @ [entry\<lparr>me_san := x\<rparr>]) nb" for x
    using replays_to_snoc [OF assms(1)] assms(2) by simp
  then show ?thesis
    using assms by (simp add: finish_def Let_def snap_inv_def)
qed

lemma snapshot_simps [simp]:
  "s_board (snapshot st) = s_board st" "s_turn (snapshot st) = s_turn st" "s_sel (snapshot st) = s_sel st"
  "s_moves (snapshot st) = s_moves st" "s_ep (snapshot st) = s_ep st" "s_cast (snapshot st) = s_cast st"
  "s_lastMv (snapshot st) = s_lastMv st" "s_status (snapshot st) = s_status st"
  "s_captW (snapshot st) = s_captW st" "s_captB (snapshot st) = s_captB st"
  "s_hist (snapshot st) = s_hist st" "s_moveLog (snapshot st) = s_moveLog st"
  by (simp_all add: snapshot_def)

lemma snap_inv_snapshot [simp]: "snap_inv (snapshot st) = snap_inv st"
  by (simp add: snap_inv_def)

text \<open>The two outcomes of \<open>applyMove\<close> for a legal move: a pending promotion or a finished move.\<close>

lemma applyMove_pending:
  assumes "cell (s_board st) fr fc = Some (Piece col Pawn)" and "tr = 0 \<or> tr = 7"
  shows "fst (applyMove now fr fc tr tc None silent st) =
    add_capture col (captured_by (s_board st) fr fc tr tc (s_ep st) col Pawn) st
      \<lparr>s_lastMv := Some ((fr, fc), (tr, tc)),
       h_promo := Some \<lparr>pr_from = (fr, fc), pr_to = (tr, tc), pr_col = col,
         pr_nb = moved_board (s_board st) fr fc tr tc (s_ep st) col Pawn, pr_nt = opp col,
         pr_nep = (if \<bar>tr - fr\<bar> = 2 then Some ((fr + tr) div 2, tc) else None),
         pr_nc = new_rights (s_cast st) col Pawn fr fc tr tc,
         pr_captured = captured_by (s_board st) fr fc tr tc (s_ep st) col Pawn\<rparr>,
       h_past := h_past st @ [snapshot st]\<rparr>"
  using assms by (simp add: applyMove_def Let_def)

lemma applyMove_finished:
  assumes "cell (s_board st) fr fc = Some (Piece col t)" and "\<not> (t = Pawn \<and> (tr = 0 \<or> tr = 7) \<and> p = None)"
  shows "applyMove now fr fc tr tc p silent st =
    finish now (promoted (moved_board (s_board st) fr fc tr tc (s_ep st) col t) tr tc col p) (opp col)
      (if t = Pawn \<and> \<bar>tr - fr\<bar> = 2 then Some ((fr + tr) div 2, tc) else None)
      (new_rights (s_cast st) col t fr fc tr tc)
      (move_note fr fc tr tc t (captured_by (s_board st) fr fc tr tc (s_ep st) col t \<noteq> None) p)
      (entry_of (s_board st) fr fc tr tc (s_ep st) col t p None) silent
      (add_capture col (captured_by (s_board st) fr fc tr tc (s_ep st) col t) st
         \<lparr>s_lastMv := Some ((fr, fc), (tr, tc)), h_past := h_past st @ [snapshot st]\<rparr>)"
  using assms by (auto simp: applyMove_def Let_def entry_of_def promoted_def split: option.split)

lemma add_capture_simps [simp]:
  "s_board (add_capture col cp st) = s_board st" "s_turn (add_capture col cp st) = s_turn st"
  "s_ep (add_capture col cp st) = s_ep st" "s_cast (add_capture col cp st) = s_cast st"
  "s_sel (add_capture col cp st) = s_sel st" "s_moves (add_capture col cp st) = s_moves st"
  "s_hist (add_capture col cp st) = s_hist st" "s_moveLog (add_capture col cp st) = s_moveLog st"
  "s_status (add_capture col cp st) = s_status st"
  "h_past (add_capture col cp st) = h_past st" "h_promo (add_capture col cp st) = h_promo st"
  "h_gameStart (add_capture col cp st) = h_gameStart st"
  by (simp_all add: add_capture_def split: option.split pcolor.split)

lemma applyMove_inv:
  assumes inv: "hook_inv st" and "h_promo st = None" and "legal_move st fr fc tr tc"
    and p: "p \<noteq> None \<Longrightarrow> pt (cell (s_board st) fr fc) = Some Pawn \<and> (tr = 0 \<or> tr = 7) \<and> p \<noteq> Some King"
  shows "hook_inv (fst (applyMove now fr fc tr tc p silent st))"
proof -
  have leg: "inB fr fc" "(tr, tc) \<in> set (getLegal (s_board st) fr fc (s_ep st) (Some (s_cast st)))"
    using assms(3) by (auto simp: legal_move_def)
  obtain t where mp: "cell (s_board st) fr fc = Some (Piece (s_turn st) t)"
    using assms(3) by (auto simp: legal_move_def pc_Some_iff)
  have si: "snap_inv st" and past: "\<forall>s \<in> set (h_past st). snap_inv s"
    using inv by (auto simp: hook_inv_def)
  have wf: "wf_board (s_board st)" and ep: "ep_inv (s_board st) (s_turn st) (s_ep st)"
    using si by (auto simp: snap_inv_def)
  show ?thesis
  proof (cases "t = Pawn \<and> (tr = 0 \<or> tr = 7) \<and> p = None")
    case True
    have "\<bar>tr - fr\<bar> \<noteq> 2"
      using pawn_no_double_promotion [OF legal_pawn [OF leg(1) _ leg(2)]] mp True by simp
    then show ?thesis
      using True mp si past leg
      by (simp add: applyMove_pending [of st fr fc "s_turn st"] hook_inv_def snap_inv_def promo_inv_def)
  next
    case False
    let ?nb = "moved_board (s_board st) fr fc tr tc (s_ep st) (s_turn st) t"
    let ?nep = "if t = Pawn \<and> \<bar>tr - fr\<bar> = 2 then Some ((fr + tr) div 2, tc) else None"
    have pos: "position_inv (promoted ?nb tr tc (s_turn st) p) (opp (s_turn st))
        (new_rights (s_cast st) (s_turn st) t fr fc tr tc)"
      using si mp p by (intro position_inv_move [OF wf ep _ leg(1) mp leg(2)]) (auto simp: snap_inv_def)
    have "p \<noteq> None \<Longrightarrow> ?nep = None"
      using pawn_no_double_promotion [OF legal_pawn [OF leg(1) _ leg(2)]] mp p by simp
    then have "ep_inv (promoted ?nb tr tc (s_turn st) p) (opp (s_turn st)) ?nep"
      using moved_ep_inv [OF wf leg(1) mp ep leg(2)]
      by (cases "t = Pawn \<and> \<bar>tr - fr\<bar> = 2"; cases p) (auto simp: ep_inv_def)
    then have "snap_inv (fst (applyMove now fr fc tr tc p silent st))"
      unfolding applyMove_finished [OF mp False]
      using replay_step_entry [OF wf leg(1) mp ep leg(2)] si wf pos
      by (intro finish_inv [where b = "s_board st"]) (auto simp: snap_inv_def)
    then show ?thesis
      using si past assms(2) by (simp add: hook_inv_def applyMove_finished [OF mp False])
  qed
qed

lemma doPromo_inv:
  assumes inv: "hook_inv st" and "doPromo now k st = Some (st', es)" and "k \<noteq> King"
  shows "hook_inv st'"
proof -
  obtain p where p: "h_promo st = Some p"
    using assms(2) by (auto simp: doPromo_def split: option.splits)
  have si: "snap_inv st" and past: "\<forall>s \<in> set (h_past st). snap_inv s" and pi: "promo_inv st p"
    using inv p by (auto simp: hook_inv_def)
  obtain fr fc tr tc where sqs: "pr_from p = (fr, fc)" "pr_to p = (tr, tc)"
    and mp: "inB fr fc" "cell (s_board st) fr fc = Some (Piece (s_turn st) Pawn)"
    and leg: "(tr, tc) \<in> set (getLegal (s_board st) fr fc (s_ep st) (Some (s_cast st)))"
    and fields: "pr_col p = s_turn st" "pr_nt p = opp (s_turn st)" "pr_nep p = None"
      "pr_nc p = new_rights (s_cast st) (s_turn st) Pawn fr fc tr tc"
      "pr_nb p = moved_board (s_board st) fr fc tr tc (s_ep st) (s_turn st) Pawn"
      "pr_captured p = captured_by (s_board st) fr fc tr tc (s_ep st) (s_turn st) Pawn"
    using pi by (auto simp: promo_inv_def)
  let ?nb = "promoted (pr_nb p) tr tc (s_turn st) (Some k)"
  let ?entry = "entry_of (s_board st) fr fc tr tc (s_ep st) (s_turn st) Pawn (Some k) None"
  let ?st = "st\<lparr>h_promo := None, s_lastMv := Some ((fr, fc), (tr, tc))\<rparr>"
  have eq: "st' = fst (finish now ?nb (opp (s_turn st)) None (pr_nc p) (sq tr tc @ ''='' @ [letter k]) ?entry False ?st)"
    using assms(2) p by (auto simp: doPromo_def sqs fields entry_of_def promoted_def)
  have wf: "wf_board (s_board st)" "ep_inv (s_board st) (s_turn st) (s_ep st)"
    using si by (auto simp: snap_inv_def)
  have "position_inv ?nb (opp (s_turn st)) (pr_nc p)"
    using si assms(3) unfolding fields
    by (intro position_inv_move [OF wf _ mp leg]) (auto simp: snap_inv_def)
  then have "snap_inv st'"
    unfolding eq using replay_step_entry [OF wf(1) mp wf(2) leg] si wf
    by (intro finish_inv [where b = "s_board st"]) (auto simp: snap_inv_def fields ep_inv_def)
  then show ?thesis
    using past unfolding hook_inv_def eq by simp
qed

lemma undo_inv: "hook_inv st \<Longrightarrow> hook_inv (undo st)"
proof -
  assume inv: "hook_inv st"
  have "h_past st \<noteq> [] \<Longrightarrow> snap_inv (last (h_past st)) \<and> (\<forall>s \<in> set (butlast (h_past st)). snap_inv s)"
    using inv by (auto simp: hook_inv_def dest: in_set_butlastD)
  then show ?thesis
    using inv unfolding hook_inv_def undo_def Let_def by (auto simp: snap_inv_def)
qed

lemma select_inv:
  "hook_inv st \<Longrightarrow> h_promo st = None \<Longrightarrow> pc (cell (s_board st) r c) = Some (s_turn st) \<Longrightarrow> inB r c \<Longrightarrow>
     hook_inv (select r c st)"
  by (simp add: hook_inv_def snap_inv_def select_def)

lemma deselect_inv: "hook_inv st \<Longrightarrow> h_promo st = None \<Longrightarrow> hook_inv (st\<lparr>s_sel := None, s_moves := []\<rparr>)"
  by (simp add: hook_inv_def snap_inv_def)

lemma click_inv:
  assumes inv: "hook_inv st"
  shows "hook_inv (fst (click now r c st))"
proof -
  have wf: "wf_board (s_board st)"
    using inv by (simp add: hook_inv_def snap_inv_def)
  have sel: "s_sel st = Some (sr, sc) \<Longrightarrow> (r, c) \<in> set (s_moves st) \<Longrightarrow> legal_move st sr sc r c" for sr sc
    using inv by (auto simp: hook_inv_def snap_inv_def legal_move_def)
  show ?thesis
    using inv sel applyMove_inv [OF inv, of _ _ r c None] select_inv [OF inv _ _ cell_Some_inB [OF wf]]
      deselect_inv [OF inv]
    by (auto simp: click_def Let_def split: option.split)
qed

section \<open>Games\<close>

text \<open>
  What can happen to the state in a game on one device. The promotion dialog offers four
  pieces (components/PromotionModal.js) and is on screen only while a promotion is pending.
\<close>

datatype local_event = Click int int int | Promote int ptype | Undo | ForceEnd int gstatus | Reset int

definition promotion_choices :: "ptype list" where
  "promotion_choices = [Queen, Rook, Bishop, Knight]"

fun local_step :: "hook \<Rightarrow> local_event \<Rightarrow> hook" where
  "local_step st (Click now r c) = fst (click now r c st)"
| "local_step st (Promote now k) =
     (if k \<in> set promotion_choices then (case doPromo now k st of None \<Rightarrow> st | Some (st', _) \<Rightarrow> st') else st)"
| "local_step st Undo = undo st"
| "local_step st (ForceEnd now reason) = fst (forceEnd now reason st)"
| "local_step st (Reset now) = reset_game now st"

lemma local_step_inv: "hook_inv st \<Longrightarrow> hook_inv (local_step st e)"
proof (cases e)
  case (Promote now k)
  then show "hook_inv st \<Longrightarrow> hook_inv (local_step st e)"
    by (auto simp: promotion_choices_def split: option.split dest: doPromo_inv)
next
  case (ForceEnd now reason)
  then show "hook_inv st \<Longrightarrow> hook_inv (local_step st e)"
    by (simp add: forceEnd_def hook_inv_def snap_inv_def promo_inv_def)
qed (auto intro: click_inv undo_inv reset_game_inv)

interpretation chess_game: invariant_machine local_step hook_inv
  by unfold_locales (rule local_step_inv)

text \<open>
  In an online game moves of the other player arrive as well. The server has checked them and
  relays only legal moves of the side to move, a promotion with its piece.
\<close>

inductive game_step :: "hook \<Rightarrow> hook \<Rightarrow> bool" where
  local: "game_step st (local_step st e)"
| remote: "legal_move st fr fc tr tc \<Longrightarrow> h_promo st = None \<Longrightarrow>
    (p \<noteq> None \<Longrightarrow> pt (cell (s_board st) fr fc) = Some Pawn \<and> (tr = 0 \<or> tr = 7) \<and> p \<noteq> Some King) \<Longrightarrow>
    applyRemoteMove now (sq fr fc) (sq tr tc) p st = Some (st', es) \<Longrightarrow> game_step st st'"

inductive_cases game_stepE: "game_step st st'"

inductive reachable :: "hook \<Rightarrow> bool" where
  start: "reachable init_hook"
| step: "reachable st \<Longrightarrow> game_step st st' \<Longrightarrow> reachable st'"

lemma legal_move_target: "hook_inv st \<Longrightarrow> legal_move st fr fc tr tc \<Longrightarrow> inB fr fc \<and> inB tr tc"
  using legal_target(1) by (fastforce simp: legal_move_def pc_Some_iff hook_inv_def snap_inv_def)

lemma game_step_inv: "game_step st st' \<Longrightarrow> hook_inv st \<Longrightarrow> hook_inv st'"
proof (induction rule: game_step.induct)
  case (local st e)
  then show ?case by (simp add: local_step_inv)
next
  case (remote st fr fc tr tc p now st' es)
  have "st' = fst (applyMove now fr fc tr tc p True st)"
    using remote.hyps(4) legal_move_target [OF remote.prems remote.hyps(1)] by (auto simp: applyRemoteMove_def rc_of_def)
  then show ?case
    using applyMove_inv [OF remote.prems remote.hyps(2,1)] remote.hyps(3) by blast
qed

lemma reachable_inv: "reachable st \<Longrightarrow> hook_inv st"
  by (induction rule: reachable.induct) (auto intro: init_hook_inv game_step_inv)


text \<open>
  C7. After any sequence of clicks, promotions, undos, clock ends and new games there is one
  king of each colour, the side that is not to move is not in check, and every castling
  right still stands for a king and a rook on their home squares.
\<close>

theorem local_game_sound:
  "let st = run_steps local_step init_hook es in
     (\<forall>col. \<exists>q. one_king (s_board st) col q) \<and> \<not> inChk (s_board st) (opp (s_turn st)) \<and>
     rights_ok (s_board st) (s_cast st)"
  using chess_game.run_inv [OF init_hook_inv, of es]
  by (simp add: Let_def hook_inv_def snap_inv_def position_inv_def)


lemma applyMove_past:
  assumes "cell (s_board st) fr fc \<noteq> None"
  shows "h_past (fst (applyMove now fr fc tr tc p silent st)) = h_past st @ [snapshot st]"
proof -
  obtain col t where mp: "cell (s_board st) fr fc = Some (Piece col t)"
    using assms by (metis not_None_eq piece.exhaust)
  show ?thesis
    by (cases "t = Pawn \<and> (tr = 0 \<or> tr = 7) \<and> p = None")
      (use mp in \<open>simp_all add: applyMove_pending applyMove_finished [OF mp]\<close>)
qed

lemma undo_last:
  assumes "h_past st = past @ [snapshot old]" and "h_promo st = None"
  shows "snapshot (undo st) = snapshot old \<and> h_past (undo st) = past"
  using assms by (simp add: undo_def snapshot_def Let_def)

lemma doPromo_past:
  "doPromo now k st = Some (st', es) \<Longrightarrow> h_past st' = h_past st \<and> h_promo st' = None"
  by (auto simp: doPromo_def finish_def Let_def split: option.splits prod.splits)

lemma click_target:
  assumes "s_sel st = Some (sr, sc)" and "(r, c) \<in> set (s_moves st)" and "h_promo st = None"
    and "s_status st \<notin> {Some Checkmate, Some Stalemate, Some Timeout}"
  shows "click now r c st = applyMove now sr sc r c None False st"
  using assms by (simp add: click_def)

text \<open>
  C8. Undo takes back exactly one move: after a click that plays a move (and, for a pawn that
  reaches the last rank, the choice of the piece) undo restores every field of the state
  before the click and the stack of earlier states.
\<close>

theorem undo_restores:
  assumes "s_sel st = Some (sr, sc)" and "(r, c) \<in> set (s_moves st)" and "h_promo st = None"
    and "s_status st \<notin> {Some Checkmate, Some Stalemate, Some Timeout}"
    and "cell (s_board st) sr sc \<noteq> None"
  shows "let st1 = fst (click now r c st) in
     (h_promo st1 = None \<longrightarrow> snapshot (undo st1) = snapshot st \<and> h_past (undo st1) = h_past st) \<and>
     (\<forall>k st2 es. doPromo now' k st1 = Some (st2, es) \<longrightarrow>
        snapshot (undo st2) = snapshot st \<and> h_past (undo st2) = h_past st)"
  using applyMove_past [OF assms(5)] click_target [OF assms(1-4)]
  by (auto simp: Let_def intro!: undo_last dest: doPromo_past)

text \<open>The first click of a game, on the king's pawn.\<close>

definition pawn_selected :: hook where
  "pawn_selected = select 6 4 init_hook"

lemma pawn_selected_facts:
  "s_sel pawn_selected = Some (6, 4)" "(4, 4) \<in> set (s_moves pawn_selected)" "h_promo pawn_selected = None"
  "s_status pawn_selected = None" "cell (s_board pawn_selected) 6 4 = Some (Piece White Pawn)"
proof -
  have "(4, 4) \<in> set (getLegal initBoard 6 4 None (Some all_castling))"
    by code_simp
  then show "(4, 4) \<in> set (s_moves pawn_selected)"
    by (simp add: pawn_selected_def select_def init_hook_def)
  have "cell initBoard 6 4 = Some (Piece White Pawn)"
    by code_simp
  then show "cell (s_board pawn_selected) 6 4 = Some (Piece White Pawn)"
    by (simp add: pawn_selected_def select_def init_hook_def)
qed (simp_all add: pawn_selected_def select_def init_hook_def)

lemma pawn_click_no_promo: "h_promo (fst (click 0 4 4 pawn_selected)) = None"
proof -
  have "\<not> (Pawn = Pawn \<and> ((4::int) = 0 \<or> (4::int) = 7) \<and> (None :: ptype option) = None)"
    by simp
  then show ?thesis
    using applyMove_finished [OF pawn_selected_facts(5), of 4 None]
      click_target [OF pawn_selected_facts(1,2,3)] pawn_selected_facts(3,4) by simp
qed

theorem undo_restores_witness:
  "let st1 = fst (click 0 4 4 pawn_selected) in
     snapshot (undo st1) = snapshot pawn_selected \<and> h_past (undo st1) = h_past pawn_selected"
  using undo_restores [where st = pawn_selected and sr = 6 and sc = 4 and now = 0 and r = 4 and c = 4] pawn_click_no_promo
  by (simp add: pawn_selected_facts Let_def)

text \<open>The side to move has a legal move.\<close>

definition can_move :: "hook \<Rightarrow> bool" where
  "can_move st \<longleftrightarrow> (\<exists>r c tr tc. legal_move st r c tr tc)"

lemma hasAny_can_move: "hasAny (s_board st) (s_turn st) (s_ep st) (Some (s_cast st)) = can_move st"
proof -
  have ne: "xs \<noteq> [] \<longleftrightarrow> (\<exists>a b. (a, b) \<in> set xs)" for xs :: "square list"
    by (cases xs) auto
  show ?thesis
    unfolding hasAny_def list_ex_all_squares can_move_def legal_move_def ne by blast
qed

lemma finish_effects:
  assumes "finish now nb nt nep nc note entry silent st = (st', es)"
  shows "s_status st' = (if can_move st' then (if inChk (s_board st') (s_turn st') then Some Check else None)
           else Some (if inChk (s_board st') (s_turn st') then Checkmate else Stalemate))"
    and "GameFinished n d w log \<in> set es \<longleftrightarrow>
           \<not> can_move st' \<and> n = length (s_moveLog st') \<and> d = duration (h_gameStart st) now \<and>
           w = inChk (s_board st') (s_turn st') \<and> log = s_moveLog st'"
    and "MoveCommitted m s \<in> set es \<longleftrightarrow> \<not> silent \<and> m = last (s_moveLog st') \<and> s = s_status st'"
proof -
  define status where "status = status_of nb nt nep nc"
  define fe where "fe = entry\<lparr>me_san := Some (replace_check_suffix note (status_suffix status))\<rparr>"
  have st': "s_board st' = nb" "s_turn st' = nt" "s_ep st' = nep" "s_cast st' = nc" "s_status st' = status"
    and log: "s_moveLog st' = s_moveLog st @ [fe]"
    using assms by (auto simp: finish_def status_def fe_def Let_def)
  obtain sound where es: "es = PlaySound sound # (if silent then [] else [MoveCommitted fe status]) @
      (if status \<in> {Some Checkmate, Some Stalemate}
       then [GameFinished (length (s_moveLog st')) (duration (h_gameStart st) now) (status = Some Checkmate) (s_moveLog st')]
       else [])"
    using assms unfolding finish_def Let_def status_def [symmetric] fe_def [symmetric] by (auto simp: log)
  have status: "status = (if can_move st' then (if inChk (s_board st') (s_turn st') then Some Check else None)
           else Some (if inChk (s_board st') (s_turn st') then Checkmate else Stalemate))"
    unfolding status_def status_of_def Let_def st'(1-4) [symmetric] hasAny_can_move by simp
  then show "s_status st' = (if can_move st' then (if inChk (s_board st') (s_turn st') then Some Check else None)
           else Some (if inChk (s_board st') (s_turn st') then Checkmate else Stalemate))"
    by (simp add: st'(5))
  show "GameFinished n d w log \<in> set es \<longleftrightarrow>
           \<not> can_move st' \<and> n = length (s_moveLog st') \<and> d = duration (h_gameStart st) now \<and>
           w = inChk (s_board st') (s_turn st') \<and> log = s_moveLog st'"
    unfolding es by (cases "can_move st'"; cases "inChk (s_board st') (s_turn st')") (auto simp: status)
  show "MoveCommitted m s \<in> set es \<longleftrightarrow> \<not> silent \<and> m = last (s_moveLog st') \<and> s = s_status st'"
    unfolding es by (auto simp: log st'(5))
qed

text \<open>
  A move that is played reports the end of the game exactly when the other side has no
  legal move, as won exactly when that side is in check, with the whole log and its length;
  and what is committed (sent to the server) is the last entry of the log with
  the status of the new position.
\<close>

theorem click_reports:
  assumes "s_sel st = Some (sr, sc)" and "(r, c) \<in> set (s_moves st)" and "h_promo st = None"
    and "s_status st \<notin> {Some Checkmate, Some Stalemate, Some Timeout}"
    and "click now r c st = (st', es)" and "h_promo st' = None" and "cell (s_board st) sr sc \<noteq> None"
  shows "(GameFinished n d w log \<in> set es \<longleftrightarrow>
            \<not> can_move st' \<and> n = length (s_moveLog st') \<and> d = duration (h_gameStart st) now \<and>
            w = inChk (s_board st') (s_turn st') \<and> log = s_moveLog st') \<and>
         (MoveCommitted m s \<in> set es \<longleftrightarrow> m = last (s_moveLog st') \<and> s = s_status st')"
proof -
  obtain col t where mp: "cell (s_board st) sr sc = Some (Piece col t)"
    using assms(7) by (metis not_None_eq piece.exhaust)
  have ap: "applyMove now sr sc r c None False st = (st', es)"
    using assms(5) click_target [OF assms(1-4)] by simp
  have "\<not> (t = Pawn \<and> (r = 0 \<or> r = 7) \<and> (None :: ptype option) = None)"
    using applyMove_pending [of st sr sc col r now c False] ap mp assms(6) by auto
  from applyMove_finished [OF mp this] ap show ?thesis
    by (simp add: finish_effects)
qed

theorem click_reports_witness:
  "\<forall>n d w log m s. (GameFinished n d w log \<in> set (snd (click 0 4 4 pawn_selected)) \<longleftrightarrow>
      \<not> can_move (fst (click 0 4 4 pawn_selected)) \<and> n = length (s_moveLog (fst (click 0 4 4 pawn_selected))) \<and>
      d = duration (h_gameStart pawn_selected) 0 \<and>
      w = inChk (s_board (fst (click 0 4 4 pawn_selected))) (s_turn (fst (click 0 4 4 pawn_selected))) \<and>
      log = s_moveLog (fst (click 0 4 4 pawn_selected))) \<and>
   (MoveCommitted m s \<in> set (snd (click 0 4 4 pawn_selected)) \<longleftrightarrow>
      m = last (s_moveLog (fst (click 0 4 4 pawn_selected))) \<and> s = s_status (fst (click 0 4 4 pawn_selected)))"
proof (intro allI, rule click_reports [where sr = 6 and sc = 4])
  show "h_promo (fst (click 0 4 4 pawn_selected)) = None"
    by (rule pawn_click_no_promo)
qed (simp_all add: pawn_selected_facts)

end
