(* ===== verification/Openings.thy ===== *)
theory Openings
  imports Prelude
begin

text \<open>
  The opening book (constants/openings.js) and \<open>detectOpening\<close>, which names the longest
  opening line the moves of the game so far begin with.
\<close>

record book_line =
  op_name :: string
  op_moves :: "string list"

abbreviation line :: "string \<Rightarrow> string list \<Rightarrow> book_line" where
  "line n ms \<equiv> \<lparr>op_name = n, op_moves = ms\<rparr>"

definition OPENINGS :: "book_line list" where
  "OPENINGS =
     [line ''Ruy Lopez'' [''e4'', ''e5'', ''Nf3'', ''Nc6'', ''Bb5''],
      line ''Italian Game'' [''e4'', ''e5'', ''Nf3'', ''Nc6'', ''Bc4''],
      line ''Sicilian Defense'' [''e4'', ''c5''],
      line ''Sicilian Najdorf'' [''e4'', ''c5'', ''Nf3'', ''d6'', ''d4'', ''cxd4'', ''Nxd4'', ''Nf6'', ''Nc3'', ''a6''],
      line ''French Defense'' [''e4'', ''e6''],
      line ''Caro-Kann Defense'' [''e4'', ''c6''],
      line ''Pirc Defense'' [''e4'', ''d6''],
      line ''Scandinavian Defense'' [''e4'', ''d5''],
      line (''Alekhine'' @ [CHR 0x27] @ ''s Defense'') [''e4'', ''Nf6''],
      line (''King'' @ [CHR 0x27] @ ''s Gambit'') [''e4'', ''e5'', ''f4''],
      line ''Scotch Game'' [''e4'', ''e5'', ''Nf3'', ''Nc6'', ''d4''],
      line (''Petrov'' @ [CHR 0x27] @ ''s Defense'') [''e4'', ''e5'', ''Nf3'', ''Nf6''],
      line ''Vienna Game'' [''e4'', ''e5'', ''Nc3''],
      line (''Queen'' @ [CHR 0x27] @ ''s Gambit'') [''d4'', ''d5'', ''c4''],
      line (''Queen'' @ [CHR 0x27] @ ''s Gambit Declined'') [''d4'', ''d5'', ''c4'', ''e6''],
      line (''Queen'' @ [CHR 0x27] @ ''s Gambit Accepted'') [''d4'', ''d5'', ''c4'', ''dxc4''],
      line ''Slav Defense'' [''d4'', ''d5'', ''c4'', ''c6''],
      line (''King'' @ [CHR 0x27] @ ''s Indian Defense'') [''d4'', ''Nf6'', ''c4'', ''g6''],
      line ''Nimzo-Indian Defense'' [''d4'', ''Nf6'', ''c4'', ''e6'', ''Nc3'', ''Bb4''],
      line (''Gr'' @ [CHR 0xFC] @ ''nfeld Defense'') [''d4'', ''Nf6'', ''c4'', ''g6'', ''Nc3'', ''d5''],
      line ''Dutch Defense'' [''d4'', ''f5''],
      line ''English Opening'' [''c4''],
      line (''R'' @ [CHR 0xE9] @ ''ti Opening'') [''Nf3'', ''d5'', ''c4''],
      line ''London System'' [''d4'', ''d5'', ''Bf4''],
      line ''Catalan Opening'' [''d4'', ''Nf6'', ''c4'', ''e6'', ''g3'']]"

definition stripSuffix :: "string \<Rightarrow> string" where
  "stripSuffix san = (if san \<noteq> [] \<and> last san \<in> {CHR ''+'', CHR ''#''} then butlast san else san)"

text \<open>\<open>o.moves.length <= clean.length\<close> and \<open>o.moves.every((m, i) => clean[i] === m)\<close>.\<close>

definition opening_matches :: "string list \<Rightarrow> book_line \<Rightarrow> bool" where
  "opening_matches clean op \<longleftrightarrow>
     length (op_moves op) \<le> length clean \<and>
     list_all (\<lambda>i. clean ! i = op_moves op ! i) [0 ..< length (op_moves op)]"

fun best_opening :: "string list \<Rightarrow> book_line option \<Rightarrow> book_line list \<Rightarrow> book_line option" where
  "best_opening clean best [] = best"
| "best_opening clean best (op # ops) =
     best_opening clean
       (if opening_matches clean op \<and>
           (case best of None \<Rightarrow> True | Some b \<Rightarrow> length (op_moves op) > length (op_moves b))
        then Some op else best) ops"

definition detectOpening :: "string list \<Rightarrow> book_line option" where
  "detectOpening hist = best_opening (map stripSuffix hist) None OPENINGS"

lemma opening_matches_prefix: "opening_matches clean op \<longleftrightarrow> prefix (op_moves op) clean"
proof
  assume "opening_matches clean op"
  then have "take (length (op_moves op)) clean = op_moves op"
    by (intro nth_equalityI) (auto simp: opening_matches_def list_all_iff)
  then show "prefix (op_moves op) clean"
    by (metis take_is_prefix)
next
  assume "prefix (op_moves op) clean"
  then show "opening_matches clean op"
    by (auto simp: opening_matches_def list_all_iff prefix_def nth_append)
qed

lemma best_opening_spec:
  assumes "case best of None \<Rightarrow> True | Some b \<Rightarrow> opening_matches clean b"
  shows "case best_opening clean best ops of
      None \<Rightarrow> best = None \<and> (\<forall>op \<in> set ops. \<not> opening_matches clean op)
    | Some r \<Rightarrow> opening_matches clean r \<and> (r \<in> set ops \<or> best = Some r) \<and>
        (\<forall>op \<in> set ops. opening_matches clean op \<longrightarrow> length (op_moves op) \<le> length (op_moves r)) \<and>
        (\<forall>b. best = Some b \<longrightarrow> length (op_moves b) \<le> length (op_moves r))"
  using assms
proof (induction clean best ops rule: best_opening.induct)
  case (2 clean best op ops)
  let ?next = "if opening_matches clean op \<and>
      (case best of None \<Rightarrow> True | Some b \<Rightarrow> length (op_moves op) > length (op_moves b))
    then Some op else best"
  have "case ?next of None \<Rightarrow> True | Some b \<Rightarrow> opening_matches clean b"
    using "2.prems" by auto
  from "2.IH" [OF this] show ?case
    by (cases "best_opening clean ?next ops"; cases best) (auto split: if_splits)
qed (auto split: option.split)

text \<open>
  \<open>detectOpening\<close> names the longest line of the book the game begins with (check and
  mate marks aside), and nothing exactly when the game begins with no line of the book.
\<close>

theorem detectOpening_longest:
  "case detectOpening hist of
     None \<Rightarrow> (\<forall>op \<in> set OPENINGS. \<not> prefix (op_moves op) (map stripSuffix hist))
   | Some r \<Rightarrow> r \<in> set OPENINGS \<and> prefix (op_moves r) (map stripSuffix hist) \<and>
       (\<forall>op \<in> set OPENINGS. prefix (op_moves op) (map stripSuffix hist) \<longrightarrow>
          length (op_moves op) \<le> length (op_moves r))"
  using best_opening_spec [of "map stripSuffix hist" None OPENINGS]
  by (simp add: detectOpening_def opening_matches_prefix split: option.splits)

theorem detectOpening_longest_witness:
  "detectOpening [''e4'', ''c5'', ''Nf3''] = Some (line ''Sicilian Defense'' [''e4'', ''c5'']) \<and>
   line ''Sicilian Defense'' [''e4'', ''c5''] \<in> set OPENINGS"
proof -
  have "detectOpening [''e4'', ''c5'', ''Nf3''] = Some (line ''Sicilian Defense'' [''e4'', ''c5''])"
    by code_simp
  with detectOpening_longest [of "[''e4'', ''c5'', ''Nf3'']"] show ?thesis by simp
qed

end
