(* ===== verification/Database.thy ===== *)
theory Database
  imports Prelude
begin

text \<open>
  The PostgreSQL state the server keeps (the tables of Database/migrations with the columns
  the server reads) and the way the models query it: a query is a function from the database
  to a result or an error and the database afterwards, queries are chained by \<open>qbind\<close>, and
  \<open>transaction\<close> is BEGIN/COMMIT/ROLLBACK: an error inside it takes every change back. SERIAL
  ids come from counters that are not reused. CURRENT_TIMESTAMP is the time argument of the
  operation. Statements of one operation are not interleaved with those of others (row locks
  and transactions); where the code relies on no lock the component says so.
\<close>

section \<open>Tables\<close>

record user_row =
  u_id :: nat
  u_username :: string
  u_email :: string
  u_password :: string
  u_avatar :: "string option"
  u_bio :: "string option"
  u_elo :: int
  u_verified :: "int option"
  u_session :: nat
  u_created :: int

record score_row =
  s_id :: nat
  s_user :: "nat option"
  s_username :: string
  s_count :: nat
  s_duration :: int
  s_winner :: bool
  s_mode :: string
  s_game :: "nat option"
  s_played :: int

record game_row =
  g_id :: nat
  g_room :: "string option"
  g_white :: "nat option"
  g_black :: "nat option"
  g_white_name :: "string option"
  g_black_name :: "string option"
  g_mode :: string
  g_status :: string
  g_result :: "string option"
  g_winner :: "string option"
  g_fen :: string
  g_started :: int
  g_ended :: "int option"

record move_row =
  m_game :: nat
  m_number :: nat
  m_color :: string
  m_from :: string
  m_to :: string
  m_piece :: string
  m_captured :: "string option"
  m_san :: "string option"
  m_fen :: "string option"
  m_promotion :: "string option"

record award_row =
  aw_user :: nat
  aw_key :: string
  aw_at :: int

record friend_row =
  f_id :: nat
  f_requester :: nat
  f_addressee :: nat
  f_accepted :: bool
  f_created :: int

datatype tstatus = Open | InProgress | Finished

record tournament_row =
  t_id :: nat
  t_name :: string
  t_creator :: nat
  t_max :: nat
  t_status :: tstatus
  t_winner :: "nat option"
  t_created :: int
  t_started :: "int option"
  t_finished :: "int option"

record player_row =
  tp_tournament :: nat
  tp_user :: nat
  tp_joined :: int

datatype mstatus = Pending | Bye | Done

record match_row =
  tm_id :: nat
  tm_tournament :: nat
  tm_round :: nat
  tm_position :: nat
  tm_player1 :: "nat option"
  tm_player2 :: "nat option"
  tm_winner :: "nat option"
  tm_status :: mstatus

record account_token =
  at_id :: nat
  at_user :: nat
  at_purpose :: string
  at_hash :: string
  at_expires :: int
  at_consumed :: "int option"

record refresh_token =
  rt_id :: nat
  rt_user :: nat
  rt_family :: string
  rt_hash :: string
  rt_expires :: int
  rt_consumed :: "int option"
  rt_revoked :: "int option"
  rt_replaced :: "string option"

record db =
  users :: "user_row list"
  scores :: "score_row list"
  games :: "game_row list"
  moves :: "move_row list"
  achievements :: "(string \<times> string \<times> string) list"
  awards :: "award_row list"
  friendships :: "friend_row list"
  tournaments :: "tournament_row list"
  tplayers :: "player_row list"
  tmatches :: "match_row list"
  account_tokens :: "account_token list"
  refresh_tokens :: "refresh_token list"
  next_id :: nat

section \<open>Queries and transactions\<close>

text \<open>
  What a statement can fail with (the SQLSTATE classes of PostgreSQL that the schema can
  raise) and the errors the models throw themselves.
\<close>

datatype db_error =
    Unique_violation
  | Check_violation
  | Foreign_key_violation
  | Value_too_long
  | Thrown string

type_synonym 'a query = "db \<Rightarrow> (db_error, 'a) result \<times> db"

definition qreturn :: "'a \<Rightarrow> 'a query" where
  "qreturn x d = (Inr x, d)"

definition qthrow :: "db_error \<Rightarrow> 'a query" where
  "qthrow e d = (Inl e, d)"

definition qbind :: "'a query \<Rightarrow> ('a \<Rightarrow> 'b query) \<Rightarrow> 'b query" where
  "qbind q f d = (case q d of (Inl e, d') \<Rightarrow> (Inl e, d') | (Inr x, d') \<Rightarrow> f x d')"

definition qget :: "(db \<Rightarrow> 'a) \<Rightarrow> 'a query" where
  "qget f d = (Inr (f d), d)"

definition qput :: "(db \<Rightarrow> db) \<Rightarrow> unit query" where
  "qput f d = (Inr (), f d)"

text \<open>\<open>runInTransaction\<close>: the callback's changes are kept only when it returns.\<close>

definition transaction :: "'a query \<Rightarrow> 'a query" where
  "transaction q d = (case q d of (Inl e, d') \<Rightarrow> (Inl e, d) | (Inr x, d') \<Rightarrow> (Inr x, d'))"

lemma query_simps [simp]:
  "qreturn x d = (Inr x, d)" "qthrow e d = (Inl e, d)"
  "qget f d = (Inr (f d), d)" "qput g d = (Inr (), g d)"
  by (simp_all add: qreturn_def qthrow_def qget_def qput_def)

lemma qbind_Inr [simp]: "q d = (Inr x, d') \<Longrightarrow> qbind q f d = f x d'"
  by (simp add: qbind_def)

lemma qbind_Inl [simp]: "q d = (Inl e, d') \<Longrightarrow> qbind q f d = (Inl e, d')"
  by (simp add: qbind_def)

lemma qbind_qget [simp]: "qbind (qget g) f d = f (g d) d"
  by (simp add: qbind_def)

lemma qbind_qput [simp]: "qbind (qput g) f d = f () (g d)"
  by (simp add: qbind_def)

lemma qbind_if [simp]: "qbind (if b then q else r) f d = (if b then qbind q f d else qbind r f d)"
  by simp

lemma qbind_InrE:
  assumes "qbind q f d = (Inr y, d'')"
  obtains x d' where "q d = (Inr x, d')" and "f x d' = (Inr y, d'')"
  using assms by (auto simp: qbind_def split: prod.splits sum.splits)

lemma transaction_Inl: "transaction q d = (Inl e, d') \<Longrightarrow> d' = d"
  by (auto simp: transaction_def split: prod.splits sum.splits)

lemma transaction_Inr [simp]: "transaction q d = (Inr x, d') \<longleftrightarrow> q d = (Inr x, d')"
  by (auto simp: transaction_def split: prod.splits sum.splits)

text \<open>
  A query preserves a property of the database when it holds after the query whatever the
  result. The property of a sequence follows from the ones of its parts.
\<close>

definition preserves :: "(db \<Rightarrow> bool) \<Rightarrow> 'a query \<Rightarrow> bool" where
  "preserves P q \<longleftrightarrow> (\<forall>d. P d \<longrightarrow> P (snd (q d)))"

lemma preservesD: "preserves P q \<Longrightarrow> P d \<Longrightarrow> P (snd (q d))"
  by (simp add: preserves_def)

lemma preserved: "preserves P q \<Longrightarrow> q d = (r, d') \<Longrightarrow> P d \<Longrightarrow> P d'"
  by (metis preserves_def snd_conv)

named_theorems preserve \<open>queries that preserve an invariant\<close>

lemma preserves_qreturn [preserve]: "preserves P (qreturn x)"
  and preserves_qthrow [preserve]: "preserves P (qthrow e)"
  and preserves_qget [preserve]: "preserves P (qget f)"
  by (simp_all add: preserves_def)

lemma preserves_qbind [preserve]:
  "preserves P q \<Longrightarrow> (\<And>x. preserves P (f x)) \<Longrightarrow> preserves P (qbind q f)"
  unfolding preserves_def qbind_def
  by (simp split: prod.split sum.split) (metis snd_conv)

lemma preserves_transaction [preserve]: "preserves P q \<Longrightarrow> preserves P (transaction q)"
  unfolding preserves_def transaction_def
  by (simp split: prod.split sum.split) (metis snd_conv)

lemma preserves_if [preserve]: "preserves P q \<Longrightarrow> preserves P r \<Longrightarrow> preserves P (if b then q else r)"
  by simp

lemma preserves_option_case [preserve]:
  "preserves P q \<Longrightarrow> (\<And>x. preserves P (f x)) \<Longrightarrow> preserves P (case y of None \<Rightarrow> q | Some x \<Rightarrow> f x)"
  by (cases y) simp_all

lemma preserves_one_row_case [preserve]:
  "(\<And>x. preserves P (f x)) \<Longrightarrow> preserves P q \<Longrightarrow> preserves P (case xs of [x] \<Rightarrow> f x | _ \<Rightarrow> q)"
  by (auto split: list.split)

lemma preserves_qput: "(\<And>d. P d \<Longrightarrow> P (f d)) \<Longrightarrow> preserves P (qput f)"
  by (simp add: preserves_def)

text \<open>\<open>requireOne\<close> of models/Game.js: exactly one row, or an error.\<close>

definition requireOne :: "'a list \<Rightarrow> string \<Rightarrow> 'a query" where
  "requireOne rows operation =
     (case rows of [r] \<Rightarrow> qreturn r
      | _ \<Rightarrow> qthrow (Thrown (operation @ '' affected '' @ show_nat (length rows) @ '' rows'')))"

lemma requireOne_Inr [simp]: "requireOne rows op d = (Inr r, d') \<longleftrightarrow> rows = [r] \<and> d' = d"
  by (auto simp: requireOne_def split: list.splits)

lemma requireOne_one [simp]: "requireOne [r] op = qreturn r"
  by (simp add: requireOne_def)

lemma preserves_requireOne [preserve]: "preserves P (requireOne rows op)"
  by (auto simp: requireOne_def preserves_def split: list.split)

text \<open>A new SERIAL id.\<close>

definition fresh :: "nat query" where
  "fresh d = (Inr (next_id d), d\<lparr>next_id := Suc (next_id d)\<rparr>)"

lemma fresh_simps [simp]: "fresh d = (Inr (next_id d), d\<lparr>next_id := Suc (next_id d)\<rparr>)"
  by (simp add: fresh_def)

definition guard_q :: "bool \<Rightarrow> db_error \<Rightarrow> unit query" where
  "guard_q b e = (if b then qreturn () else qthrow e)"

lemma guard_q_simps [simp]: "guard_q True e = qreturn ()" "guard_q False e = qthrow e"
  by (simp_all add: guard_q_def)

lemma guard_q_Inr [simp]: "guard_q b e d = (Inr u, d') \<longleftrightarrow> b \<and> d' = d"
  by (auto simp: guard_q_def)

lemma qbind_guard [simp]: "qbind (guard_q b e) f d = (if b then f () d else (Inl e, d))"
  by (simp add: guard_q_def)

lemma preserves_guard_q [preserve]: "preserves P (guard_q b e)"
  by (simp add: guard_q_def preserves_qreturn preserves_qthrow)

text \<open>A foreign key to users; NULL is always allowed.\<close>

definition user_exists :: "db \<Rightarrow> nat \<Rightarrow> bool" where
  "user_exists d i \<longleftrightarrow> i \<in> u_id ` set (users d)"

definition user_ref :: "nat option \<Rightarrow> unit query" where
  "user_ref r d = (case r of None \<Rightarrow> (Inr (), d)
     | Some i \<Rightarrow> if user_exists d i then (Inr (), d) else (Inl Foreign_key_violation, d))"

lemma user_ref_None [simp]: "user_ref None d = (Inr (), d)"
  by (simp add: user_ref_def)

lemma qbind_user_ref [simp]:
  "qbind (user_ref r) f d =
     (if \<forall>i. r = Some i \<longrightarrow> user_exists d i then f () d else (Inl Foreign_key_violation, d))"
  by (auto simp: user_ref_def qbind_def split: option.split)

lemma preserves_user_ref [preserve]: "preserves P (user_ref r)"
  by (auto simp: preserves_def user_ref_def split: option.split)

definition empty_db :: db where
  "empty_db = \<lparr>users = [], scores = [], games = [], moves = [], achievements = [], awards = [], friendships = [],
     tournaments = [], tplayers = [], tmatches = [], account_tokens = [], refresh_tokens = [], next_id = 1\<rparr>"

end
