(* ===== verification/GameDB.thy ===== *)
theory GameDB
  imports Database
begin

text \<open>
  The game records of the server: models/Game.js, models/Move.js and the score and achievement
  rows a finished game writes (models/Score.js, models/Achievement.js), with the invariant of
  the game tables and the queries that keep it.
\<close>

section \<open>Games\<close>

definition GAME_RESULTS :: "string list" where
  "GAME_RESULTS = [''checkmate'', ''resign'', ''timeout'', ''draw'', ''disconnect'', ''process_failure'']"

text \<open>The CHECK constraints and column sizes of the games table.\<close>

definition game_checks :: "game_row \<Rightarrow> bool" where
  "game_checks g \<longleftrightarrow>
     g_mode g \<in> {''local'', ''multiplayer'', ''ai''} \<and>
     g_status g \<in> {''in_progress'', ''finished'', ''abandoned''} \<and>
     (case g_result g of None \<Rightarrow> True | Some r \<Rightarrow> List.member GAME_RESULTS r) \<and>
     (case g_winner g of None \<Rightarrow> True | Some w \<Rightarrow> w \<in> {''w'', ''b''}) \<and>
     (case g_black_name g of None \<Rightarrow> True | Some n \<Rightarrow> length n \<le> 20) \<and>
     (case g_white_name g of None \<Rightarrow> True | Some n \<Rightarrow> length n \<le> 20) \<and>
     (case g_room g of None \<Rightarrow> True | Some r \<Rightarrow> length r \<le> 12)"

text \<open>An UPDATE of games with RETURNING: the new rows, or a violated constraint and no change.\<close>

definition update_games :: "(game_row \<Rightarrow> bool) \<Rightarrow> (game_row \<Rightarrow> game_row) \<Rightarrow> game_row list query" where
  "update_games P f d =
     (let rows = map f (filter P (games d)) in
      if list_all game_checks rows then (Inr rows, d\<lparr>games := update_where P f (games d)\<rparr>)
      else (Inl Check_violation, d))"

definition start_fen :: string where
  "start_fen = ''rnbqkbnr/pppppppp/8/8/8/8/PPPPPPPP/RNBQKBNR w KQkq - 0 1''"

definition game_create :: "int \<Rightarrow> string \<Rightarrow> nat option \<Rightarrow> string \<Rightarrow> string \<Rightarrow> game_row query" where
  "game_create now roomId whiteUserId whiteUsername gameMode =
     qbind fresh (\<lambda>i.
     qbind (qget games) (\<lambda>gs.
     qbind (user_ref whiteUserId) (\<lambda>_.
       let g = \<lparr>g_id = i, g_room = Some roomId, g_white = whiteUserId, g_black = None,
                g_white_name = Some whiteUsername, g_black_name = None, g_mode = gameMode,
                g_status = ''in_progress'', g_result = None, g_winner = None, g_fen = start_fen,
                g_started = now, g_ended = None\<rparr> in
       qbind (guard_q (game_checks g) Check_violation) (\<lambda>_.
       qbind (guard_q (\<not> list_ex (\<lambda>x. g_room x = Some roomId) gs) Unique_violation) (\<lambda>_.
       qbind (qput (\<lambda>d. d\<lparr>games := games d @ [g]\<rparr>)) (\<lambda>_. requireOne [g] ''create game''))))))"

definition find_game :: "nat \<Rightarrow> db \<Rightarrow> game_row list" where
  "find_game i d = filter (\<lambda>g. g_id g = i) (games d)"

text \<open>\<open>!row.black_username\<close>: NULL or the empty string.\<close>

definition truthy :: "string option \<Rightarrow> bool" where
  "truthy x = (case x of None \<Rightarrow> False | Some s \<Rightarrow> s \<noteq> [])"

definition claimBlack :: "nat \<Rightarrow> nat option \<Rightarrow> string \<Rightarrow> game_row option query" where
  "claimBlack gameId blackUserId blackUsername =
     transaction
       (qbind (qget (find_game gameId)) (\<lambda>rows.
        qbind (requireOne rows ''lock game for join'') (\<lambda>g.
          if g_status g \<noteq> ''in_progress'' \<or> truthy (g_black_name g) then qreturn None
          else
            qbind (user_ref blackUserId) (\<lambda>_.
            qbind (update_games (\<lambda>g. g_id g = gameId \<and> g_status g = ''in_progress'' \<and> g_black_name g = None)
                     (\<lambda>g. g\<lparr>g_black := blackUserId, g_black_name := Some blackUsername\<rparr>)) (\<lambda>res.
            qbind (requireOne res ''join black player'') (\<lambda>r. qreturn (Some r)))))))"

definition joinBlackById :: "nat \<Rightarrow> nat option \<Rightarrow> string \<Rightarrow> game_row query" where
  "joinBlackById i blackUserId blackUsername =
     qbind (user_ref blackUserId) (\<lambda>_.
     qbind (update_games (\<lambda>g. g_id g = i \<and> g_status g = ''in_progress'' \<and> g_black_name g = None)
              (\<lambda>g. g\<lparr>g_black := blackUserId, g_black_name := Some blackUsername\<rparr>)) (\<lambda>res.
     requireOne res ''join black player by game id''))"

definition findByRoomId :: "string \<Rightarrow> game_row option query" where
  "findByRoomId roomId = qget (\<lambda>d. find (\<lambda>g. g_room g = Some roomId) (games d))"

definition game_findById :: "nat \<Rightarrow> game_row option query" where
  "game_findById i = qget (\<lambda>d. find (\<lambda>g. g_id g = i) (games d))"

definition joinBlack :: "string \<Rightarrow> nat option \<Rightarrow> string \<Rightarrow> game_row option query" where
  "joinBlack roomId blackUserId blackUsername =
     qbind (findByRoomId roomId) (\<lambda>found.
       case found of None \<Rightarrow> qthrow (Thrown ''Game not found for room'')
       | Some g \<Rightarrow> claimBlack (g_id g) blackUserId blackUsername)"

text \<open>The moves of a game in order, and the snapshot a room is built from.\<close>

definition moves_of :: "nat \<Rightarrow> db \<Rightarrow> move_row list" where
  "moves_of gid d = sort_key m_number (filter (\<lambda>m. m_game m = gid) (moves d))"

definition findRoomSnapshot :: "string \<Rightarrow> (game_row \<times> move_row list) option query" where
  "findRoomSnapshot roomId =
     qget (\<lambda>d. map_option (\<lambda>g. (g, moves_of (g_id g) d))
       (find (\<lambda>g. g_room g = Some roomId \<and> g_mode g = ''multiplayer'') (games d)))"

definition findRecoverable :: "(game_row \<times> move_row list) list query" where
  "findRecoverable =
     qget (\<lambda>d. map (\<lambda>g. (g, moves_of (g_id g) d))
       (sort_key g_id (filter (\<lambda>g. g_status g = ''in_progress'' \<and> g_mode g = ''multiplayer'' \<and> g_room g \<noteq> None) (games d))))"

definition updateBoardFEN :: "nat \<Rightarrow> string \<Rightarrow> game_row query" where
  "updateBoardFEN gameId fen =
     qbind (update_games (\<lambda>g. g_id g = gameId \<and> g_status g = ''in_progress'') (\<lambda>g. g\<lparr>g_fen := fen\<rparr>))
       (\<lambda>res. requireOne res ''update game board'')"

definition finish_row :: "int \<Rightarrow> nat \<Rightarrow> string \<Rightarrow> string option \<Rightarrow> game_row list query" where
  "finish_row now i res winnerColor =
     update_games (\<lambda>g. g_id g = i \<and> g_status g = ''in_progress'')
       (\<lambda>g. g\<lparr>g_status := ''finished'', g_result := Some res, g_winner := winnerColor, g_ended := Some now\<rparr>)"

definition finishById :: "int \<Rightarrow> nat \<Rightarrow> string \<Rightarrow> string option \<Rightarrow> game_row option query" where
  "finishById now i res winnerColor =
     qbind (finish_row now i res winnerColor)
       (\<lambda>rows. qreturn (case rows of [] \<Rightarrow> None | r # _ \<Rightarrow> Some r))"

definition game_finish :: "int \<Rightarrow> string \<Rightarrow> string \<Rightarrow> string option \<Rightarrow> game_row option query" where
  "game_finish now roomId res winnerColor =
     qbind (findByRoomId roomId) (\<lambda>g.
       case g of None \<Rightarrow> qreturn None | Some g \<Rightarrow> finishById now (g_id g) res winnerColor)"

definition abandonMany :: "int \<Rightarrow> nat list \<Rightarrow> nat query" where
  "abandonMany now ids =
     (if ids = [] then qreturn 0
      else qbind (update_games (\<lambda>g. List.member ids (g_id g) \<and> g_status g = ''in_progress'')
                    (\<lambda>g. g\<lparr>g_status := ''abandoned'', g_result := Some ''process_failure'', g_ended := Some now\<rparr>))
             (\<lambda>rows. qreturn (length rows)))"

definition getUserGames :: "nat \<Rightarrow> nat \<Rightarrow> game_row list query" where
  "getUserGames userId limit =
     qget (\<lambda>d. take limit (sort_key (\<lambda>g. - g_started g)
       (filter (\<lambda>g. g_white g = Some userId \<or> g_black g = Some userId) (games d))))"

section \<open>Moves\<close>

definition is_square :: "string \<Rightarrow> bool" where
  "is_square s =
     (case s of [f, r] \<Rightarrow> List.member ''abcdefgh'' f \<and> List.member ''12345678'' r | _ \<Rightarrow> False)"

definition move_checks :: "move_row \<Rightarrow> bool" where
  "move_checks m \<longleftrightarrow>
     m_color m \<in> {''w'', ''b''} \<and> is_square (m_from m) \<and> is_square (m_to m) \<and> m_number m > 0 \<and>
     length (m_piece m) \<le> 2 \<and>
     (case m_captured m of None \<Rightarrow> True | Some c \<Rightarrow> length c \<le> 2) \<and>
     (case m_san m of None \<Rightarrow> True | Some s \<Rightarrow> length s \<le> 10) \<and>
     (case m_promotion m of None \<Rightarrow> True | Some p \<Rightarrow> p \<in> {''q'', ''r'', ''b'', ''n''})"

definition insert_move :: "move_row \<Rightarrow> unit query" where
  "insert_move m =
     qbind (qget id) (\<lambda>d.
     qbind (guard_q (move_checks m) Check_violation) (\<lambda>_.
     qbind (guard_q (list_ex (\<lambda>g. g_id g = m_game m) (games d)) Foreign_key_violation) (\<lambda>_.
     qbind (guard_q (\<not> list_ex (\<lambda>x. m_game x = m_game m \<and> m_number x = m_number m) (moves d)) Unique_violation) (\<lambda>_.
     qput (\<lambda>d. d\<lparr>moves := moves d @ [m]\<rparr>)))))"

definition move_record ::
  "nat \<Rightarrow> nat \<Rightarrow> string \<Rightarrow> string \<Rightarrow> string \<Rightarrow> string \<Rightarrow> string option \<Rightarrow> string option \<Rightarrow> string option \<Rightarrow> move_row query" where
  "move_record gameId moveNumber playerColor from to piece capturedPiece san fenAfter =
     (let m = \<lparr>m_game = gameId, m_number = moveNumber, m_color = playerColor, m_from = from, m_to = to,
               m_piece = piece, m_captured = capturedPiece, m_san = san, m_fen = fenAfter, m_promotion = None\<rparr>
      in qbind (insert_move m) (\<lambda>_. qreturn m))"

definition getByGameId :: "nat \<Rightarrow> move_row list query" where
  "getByGameId gameId = qget (moves_of gameId)"

text \<open>\<open>COALESCE(MAX(move_number),0)+1\<close> over the moves of a game.\<close>

definition next_move_number :: "nat \<Rightarrow> db \<Rightarrow> nat" where
  "next_move_number gid d = Suc (foldr max (map m_number (filter (\<lambda>m. m_game m = gid) (moves d))) 0)"

section \<open>Scores and achievements\<close>

definition score_checks :: "score_row \<Rightarrow> bool" where
  "score_checks s \<longleftrightarrow> s_count s > 0 \<and> s_duration s \<ge> 0 \<and> length (s_username s) \<le> 20"

text \<open>INSERT INTO scores; with ON CONFLICT DO NOTHING the number of rows written is 0 or 1.\<close>

definition insert_score ::
  "int \<Rightarrow> nat option \<Rightarrow> string \<Rightarrow> nat \<Rightarrow> int \<Rightarrow> bool \<Rightarrow> string \<Rightarrow> nat option \<Rightarrow> nat query" where
  "insert_score now userId username cnt dur win mode gameId =
     qbind fresh (\<lambda>i.
       let s = \<lparr>s_id = i, s_user = userId, s_username = username, s_count = cnt, s_duration = dur,
                s_winner = win, s_mode = mode, s_game = gameId, s_played = now\<rparr> in
       qbind (guard_q (score_checks s) Check_violation) (\<lambda>_.
       qbind (user_ref userId) (\<lambda>_.
       qbind (qget scores) (\<lambda>ss.
         if gameId \<noteq> None \<and> userId \<noteq> None \<and> list_ex (\<lambda>x. s_game x = gameId \<and> s_user x = userId) ss
         then qreturn 0
         else qbind (qput (\<lambda>d. d\<lparr>scores := scores d @ [s]\<rparr>)) (\<lambda>_. qreturn 1)))))"

text \<open>\<open>Score.save\<close>: without the conflict clause, a second row of a game and user is an error.\<close>

definition score_save ::
  "int \<Rightarrow> nat option \<Rightarrow> string \<Rightarrow> nat \<Rightarrow> int \<Rightarrow> bool \<Rightarrow> string option \<Rightarrow> nat option \<Rightarrow> unit query" where
  "score_save now userId username cnt dur win mode gameId =
     qbind (insert_score now userId username cnt dur win
              (case mode of Some m \<Rightarrow> if m = [] then ''local'' else m | None \<Rightarrow> ''local'') gameId)
       (\<lambda>n. guard_q (n = 1) Unique_violation)"

definition count_wins :: "nat \<Rightarrow> db \<Rightarrow> nat" where
  "count_wins userId d = length (filter (\<lambda>s. s_user s = Some userId \<and> s_winner s) (scores d))"

text \<open>\<open>Achievement.awardIfNew\<close>: the key when the award is new, None when the user had it.\<close>

definition awardIfNew :: "int \<Rightarrow> nat \<Rightarrow> string \<Rightarrow> string option query" where
  "awardIfNew now userId key =
     qbind (qget id) (\<lambda>d.
       if list_ex (\<lambda>a. aw_user a = userId \<and> aw_key a = key) (awards d) then qreturn None
       else
         qbind (guard_q (user_exists d userId \<and> list_ex (\<lambda>(k, _, _). k = key) (achievements d)) Foreign_key_violation) (\<lambda>_.
         qbind (qput (\<lambda>d. d\<lparr>awards := awards d @ [\<lparr>aw_user = userId, aw_key = key, aw_at = now\<rparr>]\<rparr>)) (\<lambda>_.
         qreturn (Some key))))"

text \<open>Several awards at once (\<open>unnest\<close>, or one \<open>tryAward\<close> after the other): the new ones.\<close>

fun award_all :: "int \<Rightarrow> nat \<Rightarrow> string list \<Rightarrow> string list query" where
  "award_all now userId [] = qreturn []"
| "award_all now userId (k # ks) =
     qbind (awardIfNew now userId k) (\<lambda>r.
     qbind (award_all now userId ks) (\<lambda>rs. qreturn ((case r of None \<Rightarrow> [] | Some k \<Rightarrow> [k]) @ rs)))"

definition win_keys :: "nat \<Rightarrow> string list" where
  "win_keys wins =
     (if wins \<ge> 1 then [''first_win''] else []) @ (if wins \<ge> 5 then [''wins_5''] else []) @
     (if wins \<ge> 10 then [''wins_10''] else []) @ (if wins \<ge> 25 then [''wins_25''] else [])"

text \<open>The history a client sends with a local game: colour of the mover and captured piece code.\<close>

definition history_keys :: "(string option \<times> string option) list \<Rightarrow> string list" where
  "history_keys h =
     (case h of [] \<Rightarrow> [] | _ \<Rightarrow>
       (case fst (last h) of
          None \<Rightarrow> []
        | Some wc \<Rightarrow>
            if wc = [] then []
            else (if list_ex (\<lambda>(_, cap). case cap of Some (x # _) \<Rightarrow> [x] = wc | _ \<Rightarrow> False) h then [] else [''flawless'']) @
                 (if list_ex (\<lambda>(_, cap). cap = Some (wc @ ''Q'')) h then [''comeback''] else [])))"

definition checkAndAward ::
  "int \<Rightarrow> nat \<Rightarrow> nat \<Rightarrow> bool \<Rightarrow> (string option \<times> string option) list \<Rightarrow> string list query" where
  "checkAndAward now userId cnt winner history =
     qbind (award_all now userId [''first_game'']) (\<lambda>a.
     qbind (if winner
            then qbind (qget (count_wins userId)) (\<lambda>wins.
                   award_all now userId (win_keys wins @ (if cnt \<le> 15 then [''quick_win''] else []) @ history_keys history))
            else qreturn []) (\<lambda>b.
     qbind (award_all now userId (if cnt \<ge> 60 then [''marathon''] else [])) (\<lambda>c. qreturn (a @ b @ c))))"

definition getAllWithStatus :: "nat \<Rightarrow> (string \<times> string \<times> string \<times> int option) list query" where
  "getAllWithStatus userId =
     qget (\<lambda>d. map (\<lambda>(k, n, t). (k, n, t, map_option aw_at (find (\<lambda>a. aw_user a = userId \<and> aw_key a = k) (awards d))))
       (achievements d))"

section \<open>What the game tables keep\<close>

definition moves_in :: "db \<Rightarrow> nat \<Rightarrow> move_row list" where
  "moves_in d gid = filter (\<lambda>m. m_game m = gid) (moves d)"

text \<open>
  The moves of a game are numbered 1, 2, 3, \<dots> in the order they were recorded, the board of a
  game is the one after its last move, every move belongs to a game, and no two games share a
  room.
\<close>

definition game_inv :: "db \<Rightarrow> bool" where
  "game_inv d \<longleftrightarrow>
     distinct (map g_id (games d)) \<and> (\<forall>g \<in> set (games d). g_id g < next_id d) \<and>
     (\<forall>m \<in> set (moves d). \<exists>g \<in> set (games d). g_id g = m_game m) \<and>
     (\<forall>gid. map m_number (moves_in d gid) = [1 ..< Suc (length (moves_in d gid))]) \<and>
     (\<forall>g \<in> set (games d). Some (g_fen g) =
        (if moves_in d (g_id g) = [] then Some start_fen else m_fen (last (moves_in d (g_id g))))) \<and>
     (\<forall>g \<in> set (games d). \<forall>h \<in> set (games d). g_room g = g_room h \<and> g_room g \<noteq> None \<longrightarrow> g_id g = g_id h)"

lemma game_inv_cong:
  "games d = games d' \<Longrightarrow> moves d = moves d' \<Longrightarrow> next_id d \<le> next_id d' \<Longrightarrow> game_inv d \<Longrightarrow> game_inv d'"
  by (auto simp: game_inv_def moves_in_def dest: order_less_le_trans)

lemma game_inv_update:
  assumes "game_inv d" and "\<And>g. g_id (f g) = g_id g" and "\<And>g. g_fen (f g) = g_fen g"
    and "\<And>g. g_room (f g) \<in> {g_room g, None}"
  shows "game_inv (d\<lparr>games := update_where P f (games d)\<rparr>)"
proof -
  define h where "h = (\<lambda>g. if P g then f g else g)"
  have h: "g_id (h g) = g_id g" "g_fen (h g) = g_fen g" "g_room (h g) \<in> {g_room g, None}" for g
    using assms(2-4) by (auto simp: h_def)
  have img: "set (update_where P f (games d)) = h ` set (games d)"
    by (simp only: set_update_where h_def)
  have ids: "map g_id (update_where P f (games d)) = map g_id (games d)"
    using assms(2) by (rule map_update_where_same)
  have inv: "distinct (map g_id (games d))" "\<forall>g \<in> set (games d). g_id g < next_id d"
      "\<forall>m \<in> set (moves d). \<exists>g \<in> set (games d). g_id g = m_game m"
      "\<forall>gid. map m_number (moves_in d gid) = [1 ..< Suc (length (moves_in d gid))]"
      "\<forall>g \<in> set (games d). Some (g_fen g) =
        (if moves_in d (g_id g) = [] then Some start_fen else m_fen (last (moves_in d (g_id g))))"
      "\<forall>g \<in> set (games d). \<forall>h \<in> set (games d). g_room g = g_room h \<and> g_room g \<noteq> None \<longrightarrow> g_id g = g_id h"
    using assms(1) unfolding game_inv_def by blast+
  have mi: "moves_in (d\<lparr>games := update_where P f (games d)\<rparr>) gid = moves_in d gid" for gid
    by (simp add: moves_in_def)
  show ?thesis
    unfolding game_inv_def mi
  proof (intro conjI)
    show "distinct (map g_id (games (d\<lparr>games := update_where P f (games d)\<rparr>)))"
      using inv(1) ids by simp
    show "\<forall>g \<in> set (games (d\<lparr>games := update_where P f (games d)\<rparr>)). g_id g < next_id (d\<lparr>games := update_where P f (games d)\<rparr>)"
      using inv(2) h(1) by (simp add: img)
    show "\<forall>m \<in> set (moves (d\<lparr>games := update_where P f (games d)\<rparr>)).
        \<exists>g \<in> set (games (d\<lparr>games := update_where P f (games d)\<rparr>)). g_id g = m_game m"
      using inv(3) h(1) by (simp add: img)
    show "\<forall>gid. map m_number (moves_in d gid) = [1 ..< Suc (length (moves_in d gid))]"
      by (rule inv(4))
    show "\<forall>g \<in> set (games (d\<lparr>games := update_where P f (games d)\<rparr>)). Some (g_fen g) =
        (if moves_in d (g_id g) = [] then Some start_fen else m_fen (last (moves_in d (g_id g))))"
      using inv(5) h(1,2) by (simp add: img)
    show "\<forall>g \<in> set (games (d\<lparr>games := update_where P f (games d)\<rparr>)).
        \<forall>k \<in> set (games (d\<lparr>games := update_where P f (games d)\<rparr>)). g_room g = g_room k \<and> g_room g \<noteq> None \<longrightarrow> g_id g = g_id k"
    proof -
      have room: "g_room (h a) \<noteq> None \<Longrightarrow> g_room (h a) = g_room a" for a
        using h(3) [of a] by auto
      have "g_id (h a) = g_id (h b)"
        if "a \<in> set (games d)" "b \<in> set (games d)" "g_room (h a) = g_room (h b)" "g_room (h a) \<noteq> None" for a b
        using inv(6) that room [of a] room [of b] h(1) by metis
      note same = this
      show ?thesis
      proof (intro ballI impI)
        fix x y
        assume "x \<in> set (games (d\<lparr>games := update_where P f (games d)\<rparr>))"
          and "y \<in> set (games (d\<lparr>games := update_where P f (games d)\<rparr>))"
          and r: "g_room x = g_room y \<and> g_room x \<noteq> None"
        then obtain a b where ab: "x = h a" "y = h b" "a \<in> set (games d)" "b \<in> set (games d)"
          by (auto simp: img)
        from r show "g_id x = g_id y"
          unfolding ab by (intro same ab) blast+
      qed
    qed
  qed
qed

lemma preserves_update_games:
  assumes "\<And>g. g_id (f g) = g_id g" and "\<And>g. g_fen (f g) = g_fen g" and "\<And>g. g_room (f g) \<in> {g_room g, None}"
  shows "preserves game_inv (update_games P f)"
  using game_inv_update [OF _ assms] by (simp add: preserves_def update_games_def Let_def)

text \<open>Facts about games and moves only; the other tables and new ids do not matter to them.\<close>

definition game_local :: "(db \<Rightarrow> bool) \<Rightarrow> bool" where
  "game_local P \<longleftrightarrow>
     (\<forall>d d'. games d = games d' \<longrightarrow> moves d = moves d' \<longrightarrow> next_id d \<le> next_id d' \<longrightarrow> P d \<longrightarrow> P d')"

lemma game_local_inv [preserve]: "game_local game_inv"
  unfolding game_local_def by (blast intro: game_inv_cong)

lemma preserves_fresh [preserve]: "game_local P \<Longrightarrow> preserves P fresh"
proof -
  assume local: "game_local P"
  have "P (d\<lparr>next_id := Suc (next_id d)\<rparr>)" if "P d" for d
    by (rule local [unfolded game_local_def, rule_format, OF _ _ _ that]) simp_all
  then show "preserves P fresh"
    by (simp add: preserves_def)
qed

lemma preserves_other_tables:
  assumes "game_local P" and "\<And>d. games (f d) = games d" and "\<And>d. moves (f d) = moves d"
    and "\<And>d. next_id (f d) = next_id d"
  shows "preserves P (qput f)"
  by (rule preserves_qput, rule assms(1) [unfolded game_local_def, rule_format]) (use assms in simp_all)

lemma preserves_insert_score [preserve]: "game_local P \<Longrightarrow> preserves P (insert_score now u n c du w m g)"
  unfolding insert_score_def Let_def by (intro preserve preserves_other_tables) simp_all

lemma preserves_awardIfNew [preserve]: "game_local P \<Longrightarrow> preserves P (awardIfNew now u k)"
  unfolding awardIfNew_def by (intro preserve preserves_other_tables) simp_all

lemma preserves_award_all [preserve]: "game_local P \<Longrightarrow> preserves P (award_all now u ks)"
proof (induction now u ks rule: award_all.induct)
  case (1 now u)
  then show ?case unfolding award_all.simps by (intro preserve)
next
  case (2 now u k ks)
  then show ?case unfolding award_all.simps by (intro preserve) simp_all
qed

lemma preserves_option [preserve]:
  "(x = None \<Longrightarrow> preserves P q) \<Longrightarrow> (\<And>y. x = Some y \<Longrightarrow> preserves P (r y)) \<Longrightarrow>
     preserves P (case x of None \<Rightarrow> q | Some y \<Rightarrow> r y)"
  by (cases x) simp_all

lemma preserves_prod [preserve]: "(\<And>x y. preserves P (f x y)) \<Longrightarrow> preserves P (case p of (x, y) \<Rightarrow> f x y)"
  by (cases p) simp

lemma preserves_claimBlack [preserve]: "preserves game_inv (claimBlack gid u n)"
  unfolding claimBlack_def by (intro preserve preserves_update_games) simp_all

lemma preserves_joinBlackById [preserve]: "preserves game_inv (joinBlackById gid u n)"
  unfolding joinBlackById_def by (intro preserve preserves_update_games) simp_all

lemma preserves_abandonMany [preserve]: "preserves game_inv (abandonMany now ids)"
  unfolding abandonMany_def by (intro preserve preserves_update_games) simp_all

lemma preserves_finish_row [preserve]: "preserves game_inv (finish_row now i r w)"
  unfolding finish_row_def by (intro preserves_update_games) simp_all

lemma preserves_finishById [preserve]: "preserves game_inv (finishById now i r w)"
  unfolding finishById_def by (intro preserve)

lemma find_game_inv: "game_inv d \<Longrightarrow> m \<in> set (moves d) \<Longrightarrow> m_game m < next_id d"
  by (force simp: game_inv_def)

lemma game_inv_insert_game:
  assumes inv: "game_inv d" and g: "g_id g = next_id d" "g_fen g = start_fen" "g_room g = Some r"
    and free: "\<forall>x \<in> set (games d). g_room x \<noteq> Some r"
  shows "game_inv (d\<lparr>next_id := Suc (next_id d), games := games d @ [g]\<rparr>)"
proof -
  let ?d = "d\<lparr>next_id := Suc (next_id d), games := games d @ [g]\<rparr>"
  have mi: "moves_in ?d i = moves_in d i" for i
    by (simp add: moves_in_def)
  have new: "moves_in d (next_id d) = []"
    using find_game_inv [OF inv] by (force simp: moves_in_def filter_empty_conv)
  have inv': "distinct (map g_id (games d))" "\<forall>g \<in> set (games d). g_id g < next_id d"
      "\<forall>m \<in> set (moves d). \<exists>g \<in> set (games d). g_id g = m_game m"
      "\<forall>gid. map m_number (moves_in d gid) = [1 ..< Suc (length (moves_in d gid))]"
      "\<forall>g \<in> set (games d). Some (g_fen g) =
        (if moves_in d (g_id g) = [] then Some start_fen else m_fen (last (moves_in d (g_id g))))"
      "\<forall>g \<in> set (games d). \<forall>h \<in> set (games d). g_room g = g_room h \<and> g_room g \<noteq> None \<longrightarrow> g_id g = g_id h"
    using inv unfolding game_inv_def by blast+
  have "distinct (map g_id (games ?d)) \<and> (\<forall>g \<in> set (games ?d). g_id g < next_id ?d)"
    using inv'(1,2) g(1) by (auto simp: less_Suc_eq)
  moreover have "\<forall>m \<in> set (moves ?d). \<exists>g \<in> set (games ?d). g_id g = m_game m"
    using inv'(3) by auto
  moreover have "\<forall>h \<in> set (games ?d). Some (g_fen h) =
        (if moves_in d (g_id h) = [] then Some start_fen else m_fen (last (moves_in d (g_id h))))"
    using inv'(5) g new by auto
  moreover have "\<forall>a \<in> set (games ?d). \<forall>h \<in> set (games ?d). g_room a = g_room h \<and> g_room a \<noteq> None \<longrightarrow> g_id a = g_id h"
    using inv'(6) free g(3) by auto
  ultimately show ?thesis
    using inv'(4) unfolding game_inv_def mi by blast
qed

lemma preserves_game_create [preserve]: "preserves game_inv (game_create now roomId wu wn mode)"
  unfolding preserves_def
proof (intro allI impI)
  fix d
  assume inv: "game_inv d"
  have "game_inv (d\<lparr>next_id := Suc (next_id d)\<rparr>)"
    by (rule game_inv_cong [OF _ _ _ inv]) simp_all
  then show "game_inv (snd (game_create now roomId wu wn mode d))"
    using game_inv_insert_game [OF inv]
    by (simp add: game_create_def user_exists_def list_ex_iff Let_def)
qed

end
