(* ===== verification/Elo.thy ===== *)
theory Elo
  imports Complex_Main
begin

text \<open>
  The rating update after a rated game (utils/elo.js). Ratings are the integers of the users
  table; the expected score is a real number, the floating-point rounding of \<open>Math.pow\<close> and of
  the products is not modelled. \<open>Math.round\<close> rounds halves up.
\<close>

definition K_factor :: real where
  "K_factor = 32"

definition math_round :: "real \<Rightarrow> int" where
  "math_round x = \<lfloor>x + 1 / 2\<rfloor>"

definition expectedScore :: "int \<Rightarrow> int \<Rightarrow> real" where
  "expectedScore ratingA ratingB = 1 / (1 + 10 powr ((of_int ratingB - of_int ratingA) / 400))"

definition computeNewRatings :: "int \<Rightarrow> int \<Rightarrow> real \<Rightarrow> int \<times> int" where
  "computeNewRatings ratingA ratingB scoreA =
     (let expA = expectedScore ratingA ratingB;
          expB = 1 - expA;
          scoreB = 1 - scoreA
      in (math_round (of_int ratingA + K_factor * (scoreA - expA)),
          math_round (of_int ratingB + K_factor * (scoreB - expB))))"

lemma math_round_int: "math_round (of_int n + x) = n + math_round x"
proof -
  have "of_int n + x + 1 / 2 = of_int n + (x + 1 / 2)"
    by simp
  then show ?thesis
    unfolding math_round_def by linarith
qed

lemma math_round_neg: "math_round x + math_round (- x) \<in> {0, 1}"
  unfolding math_round_def by (simp, linarith)

lemma math_round_bounds: "0 \<le> x \<Longrightarrow> x \<le> of_int n \<Longrightarrow> 0 \<le> math_round x \<and> math_round x \<le> n"
  unfolding math_round_def by linarith

lemma math_round_neg_bounds: "x \<le> 0 \<Longrightarrow> - of_int n \<le> x \<Longrightarrow> - n \<le> math_round x \<and> math_round x \<le> 0"
  unfolding math_round_def by linarith

lemma expectedScore_bounds: "0 < expectedScore a b" "expectedScore a b < 1"
  by (simp_all add: expectedScore_def add_pos_pos)

lemma computeNewRatings_change:
  "computeNewRatings a b s =
     (a + math_round (K_factor * (s - expectedScore a b)), b + math_round (- (K_factor * (s - expectedScore a b))))"
proof -
  have "K_factor * ((1 - s) - (1 - expectedScore a b)) = - (K_factor * (s - expectedScore a b))"
    by (simp add: algebra_simps)
  then show ?thesis
    by (simp add: computeNewRatings_def Let_def math_round_int)
qed

text \<open>
  C11. The rating update is a transfer of at most 32 points: whatever the ratings and the
  score, neither rating moves by more than 32, the winner never loses points and the loser
  never gains any, and the sum of the two ratings grows by at most the one point that
  rounding both halves up can add.
\<close>

theorem elo_update:
  assumes "computeNewRatings a b s = (a', b')" and "s \<in> {0, 1 / 2, 1}"
  shows "\<bar>a' - a\<bar> \<le> 32 \<and> \<bar>b' - b\<bar> \<le> 32 \<and>
         (s = 1 \<longrightarrow> a \<le> a' \<and> b' \<le> b) \<and> (s = 0 \<longrightarrow> a' \<le> a \<and> b \<le> b') \<and>
         a' + b' - (a + b) \<in> {0, 1}"
proof -
  define x where "x = K_factor * (s - expectedScore a b)"
  have ab: "a' = a + math_round x" "b' = b + math_round (- x)"
    using assms(1) by (simp_all add: computeNewRatings_change x_def)
  have x: "- 32 \<le> x" "x \<le> 32" "s = 1 \<Longrightarrow> 0 \<le> x" "s = 0 \<Longrightarrow> x \<le> 0"
    using expectedScore_bounds [of a b] assms(2) by (auto simp: x_def K_factor_def)
  have r: "0 \<le> y \<Longrightarrow> y \<le> 32 \<Longrightarrow> 0 \<le> math_round y \<and> math_round y \<le> 32"
    "y \<le> 0 \<Longrightarrow> - 32 \<le> y \<Longrightarrow> - 32 \<le> math_round y \<and> math_round y \<le> 0" for y
    using math_round_bounds [of y 32] math_round_neg_bounds [of y 32] by simp_all
  show ?thesis
    using r [of x] r [of "- x"] x math_round_neg [of x] unfolding ab by (cases "0 \<le> x") auto
qed

theorem elo_update_witness:
  "computeNewRatings 1200 1200 1 = (1216, 1184) \<and> \<bar>1216 - (1200::int)\<bar> \<le> 32 \<and> \<bar>1184 - (1200::int)\<bar> \<le> 32 \<and>
   (1200::int) \<le> 1216 \<and> (1184::int) \<le> 1200 \<and> 1216 + 1184 - (1200 + 1200 :: int) \<in> {0, 1}"
proof -
  have "computeNewRatings 1200 1200 1 = (1216, 1184)"
    by (simp add: computeNewRatings_def expectedScore_def math_round_def K_factor_def)
  with elo_update [OF this] show ?thesis by simp
qed

end
