(* ===== verification/GameTx.thy ===== *)
theory GameTx
  imports GameDB Elo
begin

text \<open>
  The transactions of socket/gameSocket.js on the game tables: \<open>finalizeGameAtomic\<close> (end of a
  game with ratings, scores and awards), \<open>persistMoveAtomic\<close> (one validated move) and the
  rematch transaction; the rooms they read. The chess rules of the server (the chess.js
  package) are a parameter of the model. The last sections prove what the transactions keep
  and that a game is settled at most once.
\<close>

section \<open>Rooms\<close>

text \<open>
  A room of the in-memory cache (\<open>activeRooms\<close> of socket/gameSocket.js). The rules engine
  object is of the type \<open>'c\<close> of the chess library. The operation chain of the room is not a
  field: the tasks of one room run one after the other.
\<close>

record seat =
  seat_socket :: "string option"
  seat_name :: string
  seat_color :: string
  seat_user :: "nat option"

datatype room_status = Waiting | Playing | Ended

record 'c room =
  r_id :: string
  r_game :: nat
  r_players :: "seat list"
  r_chess :: 'c
  r_board :: string
  r_turn :: string
  r_status :: room_status
  r_moves :: "move_row list"
  r_created :: int
  r_recovered :: bool
  r_result :: "string option"
  r_winner :: "string option"

definition player_of :: "'c room \<Rightarrow> string \<Rightarrow> seat option" where
  "player_of room col = find (\<lambda>p. seat_color p = col) (r_players room)"

definition room_duration :: "int \<Rightarrow> 'c room \<Rightarrow> int" where
  "room_duration now room = max 0 ((now - r_created room) div 1000)"

record settlement =
  settled :: bool
  elo_white :: "(string \<times> int \<times> int) option"
  elo_black :: "(string \<times> int \<times> int) option"

definition white_score :: "string option \<Rightarrow> real" where
  "white_score winnerColor = (if winnerColor = Some ''w'' then 1 else if winnerColor = Some ''b'' then 0 else 1 / 2)"

definition set_elo :: "nat \<Rightarrow> int \<Rightarrow> nat query" where
  "set_elo i elo =
     qbind (qget (\<lambda>d. length (filter (\<lambda>u. u_id u = i) (users d)))) (\<lambda>n.
     qbind (qput (\<lambda>d. d\<lparr>users := update_where (\<lambda>u. u_id u = i) (\<lambda>u. u\<lparr>u_elo := elo\<rparr>) (users d)\<rparr>)) (\<lambda>_. qreturn n))"

text \<open>The score row and the awards of one player.\<close>

definition settle_player :: "int \<Rightarrow> 'c room \<Rightarrow> string option \<Rightarrow> seat \<Rightarrow> nat \<Rightarrow> unit query" where
  "settle_player now room winnerColor p i =
     (let won = (Some (seat_color p) = winnerColor); cnt = length (r_moves room) in
      qbind (insert_score now (Some i) (seat_name p) cnt (room_duration now room) won ''multiplayer'' (Some (r_game room))) (\<lambda>n.
      qbind (guard_q (n = 1) (Thrown ''Authoritative score insertion conflict'')) (\<lambda>_.
      qbind (qget (count_wins i)) (\<lambda>wins.
      qbind (award_all now i ([''first_game''] @
          (if won then win_keys wins @ (if cnt \<le> 15 then [''quick_win''] else []) else []) @
          (if cnt \<ge> 60 then [''marathon''] else []))) (\<lambda>_. qreturn ())))))"

text \<open>The part of the transaction after the game row has been claimed.\<close>

definition settle_finished :: "int \<Rightarrow> 'c room \<Rightarrow> string option \<Rightarrow> settlement query" where
  "settle_finished now room winnerColor =
     (case (player_of room ''w'', player_of room ''b'') of
        (Some white, Some black) \<Rightarrow>
          (case (seat_user white, seat_user black) of
             (Some wi, Some bi) \<Rightarrow>
               qbind (qget (\<lambda>d. filter (\<lambda>u. u_id u = wi \<or> u_id u = bi) (users d))) (\<lambda>rows.
               qbind (guard_q (length rows = 2) (Thrown ''ELO participants missing'')) (\<lambda>_.
               case (find (\<lambda>u. u_id u = wi) rows, find (\<lambda>u. u_id u = bi) rows) of
                 (Some wu, Some bu) \<Rightarrow>
                   (let (welo, belo) = computeNewRatings (u_elo wu) (u_elo bu) (white_score winnerColor) in
                    qbind (set_elo wi welo) (\<lambda>wn.
                    qbind (set_elo bi belo) (\<lambda>bn.
                    qbind (guard_q (wn = 1 \<and> bn = 1) (Thrown ''ELO update failed'')) (\<lambda>_.
                    qbind (settle_player now room winnerColor white wi) (\<lambda>_.
                    qbind (settle_player now room winnerColor black bi) (\<lambda>_.
                    qreturn \<lparr>settled = True, elo_white = Some (seat_name white, u_elo wu, welo),
                             elo_black = Some (seat_name black, u_elo bu, belo)\<rparr>))))))
               | _ \<Rightarrow> qthrow (Thrown ''Cannot read properties of undefined'')))
           | _ \<Rightarrow> qreturn \<lparr>settled = True, elo_white = None, elo_black = None\<rparr>)
      | _ \<Rightarrow> qreturn \<lparr>settled = True, elo_white = None, elo_black = None\<rparr>)"

definition finalizeGameAtomic :: "int \<Rightarrow> 'c room \<Rightarrow> string \<Rightarrow> string option \<Rightarrow> settlement query" where
  "finalizeGameAtomic now room res winnerColor =
     transaction
       (qbind (finish_row now (r_game room) res winnerColor) (\<lambda>finished.
          if finished = [] then qreturn \<lparr>settled = False, elo_white = None, elo_black = None\<rparr>
          else
            qbind (guard_q (length finished = 1) (Thrown ''Game finalization affected multiple rows'')) (\<lambda>_.
            settle_finished now room winnerColor)))"

section \<open>Recording a move\<close>

text \<open>
  The chess.js package as the server uses it: the constructor on a FEN text (None when it
  throws), the side to move, a move (None when it throws or returns null), the FEN text and
  the end of the game.
\<close>

record canonical =
  c_from :: string
  c_to :: string
  c_piece :: string
  c_captured :: "string option"
  c_san :: string
  c_promotion :: "string option"

record request =
  q_from :: "string option"
  q_to :: "string option"
  q_promotion :: "string option"

record 'c chess_lib =
  cl_load :: "string \<Rightarrow> 'c option"
  cl_new :: 'c
  cl_turn :: "'c \<Rightarrow> string"
  cl_move :: "'c \<Rightarrow> request \<Rightarrow> ('c \<times> canonical) option"
  cl_fen :: "'c \<Rightarrow> string"
  cl_over :: "'c \<Rightarrow> bool"
  cl_mate :: "'c \<Rightarrow> bool"

definition load_board :: "'c chess_lib \<Rightarrow> string \<Rightarrow> 'c option" where
  "load_board cl fen = (if fen = [] then Some (cl_new cl) else cl_load cl fen)"

definition other_color :: "string \<Rightarrow> string" where
  "other_color c = (if c = ''w'' then ''b'' else ''w'')"

definition move_row_of :: "nat \<Rightarrow> nat \<Rightarrow> string \<Rightarrow> canonical \<Rightarrow> string \<Rightarrow> move_row" where
  "move_row_of gid n col c fen =
     \<lparr>m_game = gid, m_number = n, m_color = col, m_from = c_from c, m_to = c_to c,
      m_piece = col @ to_upper (c_piece c),
      m_captured = map_option (\<lambda>x. other_color col @ to_upper x) (c_captured c),
      m_san = Some (c_san c), m_fen = Some fen, m_promotion = c_promotion c\<rparr>"

definition persistMoveAtomic ::
  "'c chess_lib \<Rightarrow> nat \<Rightarrow> string \<Rightarrow> request \<Rightarrow> ('c \<times> canonical \<times> move_row) option query" where
  "persistMoveAtomic cl gameId color req =
     transaction
       (qbind (qget (find_game gameId)) (\<lambda>locked.
        case locked of
          [g] \<Rightarrow>
            if g_status g \<noteq> ''in_progress'' then qthrow (Thrown ''Game is no longer active'')
            else (case load_board cl (g_fen g) of
              None \<Rightarrow> qthrow (Thrown ''Invalid FEN'')
            | Some chess \<Rightarrow>
                if cl_turn cl chess \<noteq> color then qreturn None
                else (case cl_move cl chess req of
                  None \<Rightarrow> qreturn None
                | Some (chess', canonical) \<Rightarrow>
                    let fen = cl_fen cl chess' in
                    qbind (update_games (\<lambda>g. g_id g = gameId \<and> g_status g = ''in_progress'') (\<lambda>g. g\<lparr>g_fen := fen\<rparr>)) (\<lambda>updated.
                    qbind (guard_q (length updated = 1) (Thrown ''Board update conflict'')) (\<lambda>_.
                    qbind (qget (next_move_number gameId)) (\<lambda>n.
                    let m = move_row_of gameId n color canonical fen in
                    qbind (insert_move m) (\<lambda>_. qreturn (Some (chess', canonical, m))))))))
        | _ \<Rightarrow> qthrow (Thrown ''Game is no longer active'')))"

section \<open>Invariants kept\<close>

lemma preserves_set_elo [preserve]: "game_local P \<Longrightarrow> preserves P (set_elo i elo)"
  unfolding set_elo_def by (intro preserve preserves_other_tables) simp_all

lemma preserves_settle_player [preserve]: "game_local P \<Longrightarrow> preserves P (settle_player now room w p i)"
  unfolding settle_player_def Let_def by (intro preserve)

lemma preserves_settle_finished [preserve]: "game_local P \<Longrightarrow> preserves P (settle_finished now room w)"
  unfolding settle_finished_def Let_def by (intro preserve)

lemma preserves_finalize [preserve]: "preserves game_inv (finalizeGameAtomic now room res w)"
  unfolding finalizeGameAtomic_def by (intro preserve)

section \<open>Recording a move keeps the history\<close>

lemma foldr_max_start: "foldr max xs a = max (foldr max xs 0) (a :: nat)"
  by (induction xs) auto

lemma foldr_max_upt: "foldr max [1 ..< Suc n] 0 = n"
proof (induction n)
  case (Suc n)
  have "foldr max [1 ..< Suc (Suc n)] 0 = foldr max [1 ..< Suc n] (Suc n)"
    by simp
  also have "\<dots> = Suc n"
    using foldr_max_start [of "[1 ..< Suc n]" "Suc n"] Suc.IH by simp
  finally show ?case .
qed simp

lemma next_move_number_inv:
  assumes "game_inv d"
  shows "next_move_number gid d = Suc (length (moves_in d gid))"
proof -
  have "map m_number (filter (\<lambda>m. m_game m = gid) (moves d)) = [1 ..< Suc (length (moves_in d gid))]"
    using assms by (auto simp: game_inv_def moves_in_def)
  then show ?thesis
    unfolding next_move_number_def by (simp only: foldr_max_upt)
qed

text \<open>What a recorded move does to the tables, from the branches of the transaction.\<close>

lemma persist_Some:
  assumes "persistMoveAtomic cl gid color req d = (Inr (Some (chess', c, m)), d')"
  shows "\<exists>g chess. find_game gid d = [g] \<and> g_status g = ''in_progress'' \<and> load_board cl (g_fen g) = Some chess \<and>
     cl_turn cl chess = color \<and> cl_move cl chess req = Some (chess', c) \<and>
     m = move_row_of gid (next_move_number gid d) color c (cl_fen cl chess') \<and> move_checks m \<and>
     d' = d\<lparr>games := update_where (\<lambda>g. g_id g = gid \<and> g_status g = ''in_progress'') (\<lambda>g. g\<lparr>g_fen := cl_fen cl chess'\<rparr>) (games d),
            moves := moves d @ [m]\<rparr>"
proof -
  have nm: "next_move_number gid (d\<lparr>games := gs\<rparr>) = next_move_number gid d" for gs
    by (simp add: next_move_number_def)
  show ?thesis
    using assms
    by (auto simp: persistMoveAtomic_def update_games_def insert_move_def Let_def nm qbind_def guard_q_def
        split: list.splits option.splits if_splits)
qed

lemma persist_None: "persistMoveAtomic cl gid color req d = (Inr None, d') \<Longrightarrow> d' = d"
  by (auto simp: persistMoveAtomic_def update_games_def insert_move_def Let_def qbind_def guard_q_def
        split: list.splits option.splits if_splits)

lemma persist_Inl: "persistMoveAtomic cl gid color req d = (Inl e, d') \<Longrightarrow> d' = d"
  unfolding persistMoveAtomic_def by (rule transaction_Inl)

lemma game_inv_record:
  assumes inv: "game_inv d" and g: "find_game gid d = [g]" "g_status g = ''in_progress''"
    and m: "m_game m = gid" "m_number m = Suc (length (moves_in d gid))" "m_fen m = Some fen"
  shows "game_inv (d\<lparr>games := update_where (\<lambda>g. g_id g = gid \<and> g_status g = ''in_progress'') (\<lambda>g. g\<lparr>g_fen := fen\<rparr>) (games d),
            moves := moves d @ [m]\<rparr>)"
proof -
  define f where "f = (\<lambda>g :: game_row. if g_id g = gid \<and> g_status g = ''in_progress'' then g\<lparr>g_fen := fen\<rparr> else g)"
  let ?d = "d\<lparr>games := map f (games d), moves := moves d @ [m]\<rparr>"
  have mi: "moves_in ?d i = moves_in d i @ (if i = gid then [m] else [])" for i
    using m(1) by (simp add: moves_in_def)
  have inv': "distinct (map g_id (games d))" "\<forall>g \<in> set (games d). g_id g < next_id d"
      "\<forall>m \<in> set (moves d). \<exists>g \<in> set (games d). g_id g = m_game m"
      "\<forall>gid. map m_number (moves_in d gid) = [1 ..< Suc (length (moves_in d gid))]"
      "\<forall>g \<in> set (games d). Some (g_fen g) =
        (if moves_in d (g_id g) = [] then Some start_fen else m_fen (last (moves_in d (g_id g))))"
      "\<forall>g \<in> set (games d). \<forall>h \<in> set (games d). g_room g = g_room h \<and> g_room g \<noteq> None \<longrightarrow> g_id g = g_id h"
    using inv unfolding game_inv_def by blast+
  have gin: "g \<in> set (games d)" "g_id g = gid"
    using g(1) by (auto simp: find_game_def filter_eq_Cons_iff)
  have only: "h = g" if "h \<in> set (games d)" "g_id h = gid" for h
  proof -
    have "h \<in> set (find_game gid d)"
      using that by (simp add: find_game_def)
    then show ?thesis
      using g(1) by simp
  qed
  have keep: "g_id (f h) = g_id h" "g_room (f h) = g_room h"
    "g_fen (f h) = (if g_id h = gid \<and> g_status h = ''in_progress'' then fen else g_fen h)" for h
    by (simp_all add: f_def)
  have "distinct (map g_id (games ?d))"
    using inv'(1) by (simp add: o_def keep)
  moreover have "\<forall>h \<in> set (games ?d). g_id h < next_id ?d"
    using inv'(2) by (simp add: keep)
  moreover have "\<forall>x \<in> set (moves ?d). \<exists>h \<in> set (games ?d). g_id h = m_game x"
    using inv'(3) gin m(1) by (auto simp: keep)
  moreover have "map m_number (moves_in ?d i) = [1 ..< Suc (length (moves_in ?d i))]" for i
    using inv'(4) m(2) by (simp add: mi)
  moreover have "\<forall>h \<in> set (games ?d). Some (g_fen h) =
        (if moves_in ?d (g_id h) = [] then Some start_fen else m_fen (last (moves_in ?d (g_id h))))"
    using inv'(5) only g(2) m(3) by (auto simp: mi keep)
  moreover have "\<forall>x \<in> set (games ?d). \<forall>h \<in> set (games ?d). g_room x = g_room h \<and> g_room x \<noteq> None \<longrightarrow> g_id x = g_id h"
    using inv'(6) by (simp add: keep)
  ultimately have "game_inv ?d"
    unfolding game_inv_def by blast
  then show ?thesis
    by (simp add: update_where_def f_def)
qed

lemma preserves_persist [preserve]: "preserves game_inv (persistMoveAtomic cl gid color req)"
  unfolding preserves_def
proof (intro allI impI)
  fix d
  assume inv: "game_inv d"
  obtain r d' where q: "persistMoveAtomic cl gid color req d = (r, d')"
    by (cases "persistMoveAtomic cl gid color req d")
  consider e where "r = Inl e" | "r = Inr None" | chess' c m where "r = Inr (Some (chess', c, m))"
    by (metis obj_sumE option.exhaust prod_cases3)
  then show "game_inv (snd (persistMoveAtomic cl gid color req d))"
  proof cases
    case 3
    from persist_Some [OF q [unfolded 3]] show ?thesis
      unfolding q 3 using game_inv_record [OF inv] next_move_number_inv [OF inv]
      by (auto simp: move_row_of_def)
  qed (use q inv persist_None persist_Inl in fastforce)+
qed

section \<open>The game tables as a state machine\<close>

text \<open>
  The changes the server makes to games and moves: a new room, a player taking the black seat,
  a move, the end of a game, abandoned games and the rematch transaction (the finished game
  gives its room up, the new game takes it with both seats).
\<close>

definition release_room :: "nat \<Rightarrow> game_row list query" where
  "release_room gid = update_games (\<lambda>g. g_id g = gid \<and> g_status g = ''finished'') (\<lambda>g. g\<lparr>g_room := None\<rparr>)"

definition rematch_tx ::
  "int \<Rightarrow> nat \<Rightarrow> string \<Rightarrow> nat option \<Rightarrow> string \<Rightarrow> nat option \<Rightarrow> string \<Rightarrow> game_row query" where
  "rematch_tx now oldGame roomId whiteUser whiteName blackUser blackName =
     transaction
       (qbind (release_room oldGame) (\<lambda>released.
        qbind (guard_q (length released = 1) (Thrown ''Rematch room release failed'')) (\<lambda>_.
        qbind (game_create now roomId whiteUser whiteName ''multiplayer'') (\<lambda>created.
        qbind (joinBlackById (g_id created) blackUser blackName) (\<lambda>_. qreturn created)))))"

lemma preserves_release_room [preserve]: "preserves game_inv (release_room gid)"
  unfolding release_room_def by (intro preserves_update_games) simp_all

lemma preserves_rematch_tx [preserve]: "preserves game_inv (rematch_tx now og r wu wn bu bn)"
  unfolding rematch_tx_def by (intro preserve)

datatype 'c game_event =
    CreateGame int string "nat option" string
  | ClaimBlack nat "nat option" string
  | RecordMove nat string request
  | Finalize int "'c room" string "string option"
  | Abandon int "nat list"
  | Rematch int nat string "nat option" string "nat option" string

fun game_event_step :: "'c chess_lib \<Rightarrow> db \<Rightarrow> 'c game_event \<Rightarrow> db" where
  "game_event_step cl d (CreateGame now r u n) = snd (game_create now r u n ''multiplayer'' d)"
| "game_event_step cl d (ClaimBlack gid u n) = snd (claimBlack gid u n d)"
| "game_event_step cl d (RecordMove gid col req) = snd (persistMoveAtomic cl gid col req d)"
| "game_event_step cl d (Finalize now room res w) = snd (finalizeGameAtomic now room res w d)"
| "game_event_step cl d (Abandon now ids) = snd (abandonMany now ids d)"
| "game_event_step cl d (Rematch now og r wu wn bu bn) = snd (rematch_tx now og r wu wn bu bn d)"

interpretation game_tables: invariant_machine "game_event_step cl" game_inv for cl :: "'c chess_lib"
proof
  fix d e
  assume "game_inv d"
  then show "game_inv (game_event_step cl d e)"
    by (cases e) (auto intro: preservesD preserve)
qed

lemma game_inv_no_games: "game_inv (base\<lparr>games := [], moves := []\<rparr>)"
  by (simp add: game_inv_def moves_in_def)

lemma length_filter_le_one:
  assumes "distinct (map f xs)" "\<And>x y. x \<in> set xs \<Longrightarrow> y \<in> set xs \<Longrightarrow> P x \<Longrightarrow> P y \<Longrightarrow> f x = f y"
  shows "length (filter P xs) \<le> 1"
proof (cases "filter P xs")
  case (Cons a ys)
  have "ys = []"
  proof (cases ys)
    case (Cons b zs)
    then have two: "filter P xs = a # b # zs"
      using \<open>filter P xs = a # ys\<close> by simp
    then have "{x \<in> set xs. P x} = insert a (insert b (set zs))"
      by (metis list.simps(15) set_filter)
    then have "a \<in> set xs" "P a" "b \<in> set xs" "P b"
      by blast+
    moreover have "f a \<noteq> f b"
      using distinct_map_filter [OF assms(1), of P] by (simp add: two)
    ultimately show ?thesis using assms(2) [of a b] by simp
  qed simp
  with Cons show ?thesis by simp
qed simp

text \<open>What the invariant says of the stored games.\<close>

lemma game_inv_meaning:
  assumes inv: "game_inv d"
  shows "(\<forall>gid. map m_number (moves_in d gid) = [1 ..< Suc (length (moves_in d gid))]) \<and>
     list_all (\<lambda>g. Some (g_fen g) =
        (if moves_in d (g_id g) = [] then Some start_fen else m_fen (last (moves_in d (g_id g))))) (games d) \<and>
     list_all (\<lambda>m. m_game m \<in> g_id ` set (games d)) (moves d) \<and>
     (\<forall>room. length (filter (\<lambda>g. g_room g = Some room) (games d)) \<le> 1)"
proof -
  have rooms: "length (filter (\<lambda>g. g_room g = Some room) (games d)) \<le> 1" for room
  proof (rule length_filter_le_one [of g_id])
    show "distinct (map g_id (games d))"
      using inv unfolding game_inv_def by (elim conjE)
    show "g_id g = g_id h" if "g \<in> set (games d)" "h \<in> set (games d)" "g_room g = Some room" "g_room h = Some room" for g h
    proof -
      have "\<forall>g \<in> set (games d). \<forall>h \<in> set (games d). g_room g = g_room h \<and> g_room g \<noteq> None \<longrightarrow> g_id g = g_id h"
        using inv unfolding game_inv_def by (elim conjE)
      from bspec [OF bspec [OF this that(1)] that(2)] that(3,4) show ?thesis by simp
    qed
  qed
  have stored: "list_all (\<lambda>m. m_game m \<in> g_id ` set (games d)) (moves d)"
  proof -
    have "\<forall>m \<in> set (moves d). \<exists>g \<in> set (games d). g_id g = m_game m"
      using inv unfolding game_inv_def by (elim conjE)
    then show ?thesis by (force simp: list_all_iff)
  qed
  have numbers: "map m_number (moves_in d gid) = [1 ..< Suc (length (moves_in d gid))]" for gid
    using inv unfolding game_inv_def by (elim conjE) blast
  have board: "list_all (\<lambda>g. Some (g_fen g) =
        (if moves_in d (g_id g) = [] then Some start_fen else m_fen (last (moves_in d (g_id g))))) (games d)"
    using inv unfolding game_inv_def list_all_iff by (elim conjE)
  show ?thesis
    by (intro conjI allI numbers board stored rooms)
qed

text \<open>
  Whatever sequence of rooms, joins, moves, game ends, abandoned games and rematches the
  server processes from a database without games, with any users in it and for every behaviour
  of the chess library: the moves of a game are numbered 1, 2, 3, \<dots> without gaps, the stored
  board of a game is the one after its last move (the initial one before the first), every move
  belongs to a stored game, and no two games hold the same room.
\<close>

theorem game_history_sound:
  fixes cl :: "'c chess_lib"
  shows "let d = run_steps (game_event_step cl) (base\<lparr>games := [], moves := []\<rparr>) es in
     (\<forall>gid. map m_number (moves_in d gid) = [1 ..< Suc (length (moves_in d gid))]) \<and>
     list_all (\<lambda>g. Some (g_fen g) =
        (if moves_in d (g_id g) = [] then Some start_fen else m_fen (last (moves_in d (g_id g))))) (games d) \<and>
     list_all (\<lambda>m. m_game m \<in> g_id ` set (games d)) (moves d) \<and>
     (\<forall>room. length (filter (\<lambda>g. g_room g = Some room) (games d)) \<le> 1)"
  unfolding Let_def by (rule game_inv_meaning, rule game_tables.run_inv, rule game_inv_no_games)

text \<open>A room with its creator and one joined player, used as the concrete case below.\<close>

definition demo_user :: "nat \<Rightarrow> string \<Rightarrow> user_row" where
  "demo_user i n = \<lparr>u_id = i, u_username = n, u_email = n @ ''@example.com'', u_password = [], u_avatar = None,
     u_bio = None, u_elo = 1200, u_verified = Some 0, u_session = 0, u_created = 0\<rparr>"

definition demo_db :: db where
  "demo_db = empty_db\<lparr>users := [demo_user 1 ''ann'', demo_user 2 ''bob''],
     achievements := map (\<lambda>k. (k, k, [])) [''first_game'', ''first_win'', ''quick_win'', ''marathon''], next_id := 3\<rparr>"

definition demo_game :: game_row where
  "demo_game = \<lparr>g_id = 3, g_room = Some ''ROOM123'', g_white = Some 1, g_black = Some 2, g_white_name = Some ''ann'',
     g_black_name = Some ''bob'', g_mode = ''multiplayer'', g_status = ''in_progress'', g_result = None,
     g_winner = None, g_fen = start_fen, g_started = 0, g_ended = None\<rparr>"

definition demo_room :: "move_row list \<Rightarrow> unit room" where
  "demo_room ms = \<lparr>r_id = ''ROOM123'', r_game = 3,
     r_players = [\<lparr>seat_socket = Some ''s1'', seat_name = ''ann'', seat_color = ''w'', seat_user = Some 1\<rparr>,
                  \<lparr>seat_socket = Some ''s2'', seat_name = ''bob'', seat_color = ''b'', seat_user = Some 2\<rparr>],
     r_chess = (), r_board = start_fen, r_turn = ''w'', r_status = Playing, r_moves = ms, r_created = 0,
     r_recovered = False, r_result = None, r_winner = None\<rparr>"

section \<open>The end of a game\<close>

definition no_live_game :: "nat \<Rightarrow> db \<Rightarrow> bool" where
  "no_live_game i d \<longleftrightarrow> filter (\<lambda>g. g_id g = i \<and> g_status g = ''in_progress'') (games d) = []"

lemma game_local_no_live [preserve]: "game_local (no_live_game i)"
  by (simp add: game_local_def no_live_game_def)

lemma update_where_none: "filter P xs = [] \<Longrightarrow> update_where P f xs = xs"
  by (induction xs) (auto split: if_splits)

lemma finish_row_none: "no_live_game i d \<Longrightarrow> finish_row now i res w d = (Inr [], d)"
  by (simp add: no_live_game_def finish_row_def update_games_def update_where_none)

lemma finalize_no_live:
  "no_live_game (r_game room) d \<Longrightarrow>
     finalizeGameAtomic now room res w d = (Inr \<lparr>settled = False, elo_white = None, elo_black = None\<rparr>, d)"
  by (simp add: finalizeGameAtomic_def qbind_Inr [OF finish_row_none])

lemma update_games_Inr:
  "update_games P f d = (Inr rows, d') \<Longrightarrow>
     rows = map f (filter P (games d)) \<and> d' = d\<lparr>games := update_where P f (games d)\<rparr>"
  by (auto simp: update_games_def Let_def split: if_splits)

lemma finish_row_no_live:
  assumes "finish_row now i res w d = (Inr rows, d')"
  shows "no_live_game i d'"
proof -
  let ?P = "\<lambda>g :: game_row. g_id g = i \<and> g_status g = ''in_progress''"
  let ?f = "\<lambda>g :: game_row. g\<lparr>g_status := ''finished'', g_result := Some res, g_winner := w, g_ended := Some now\<rparr>"
  have d': "games d' = update_where ?P ?f (games d)"
    using update_games_Inr [OF assms [unfolded finish_row_def]] by simp
  have "filter ?P (update_where ?P ?f xs) = []" for xs :: "game_row list"
    by (induction xs) auto
  then show ?thesis
    unfolding no_live_game_def d' by blast
qed

lemma preserves_Inr: "preserves P q \<Longrightarrow> P d \<Longrightarrow> q d = (r, d') \<Longrightarrow> P d'"
  by (metis preserves_def snd_conv)

lemma finalize_ends_live:
  assumes "finalizeGameAtomic now room res w d = (Inr s, d')"
  shows "no_live_game (r_game room) d'"
proof -
  obtain rows d1 where u: "finish_row now (r_game room) res w d = (Inr rows, d1)"
    and rest: "(if rows = [] then qreturn \<lparr>settled = False, elo_white = None, elo_black = None\<rparr>
          else qbind (guard_q (length rows = 1) (Thrown ''Game finalization affected multiple rows'')) (\<lambda>_.
            settle_finished now room w)) d1 = (Inr s, d')"
    using assms unfolding finalizeGameAtomic_def transaction_Inr by (rule qbind_InrE)
  let ?q = "if rows = [] then qreturn \<lparr>settled = False, elo_white = None, elo_black = None\<rparr>
          else qbind (guard_q (length rows = 1) (Thrown ''Game finalization affected multiple rows'')) (\<lambda>_.
            settle_finished now room w)"
  have "preserves (no_live_game (r_game room)) ?q"
    by (intro preserve)
  then show ?thesis
    using finish_row_no_live [OF u] rest by (rule preserves_Inr [of _ ?q])
qed

text \<open>
  C13. A game is settled at most once: after \<open>finalizeGameAtomic\<close> has returned for a game, every
  later finalization of the same game - by the other player, another replica or a retry, with
  any result - reports that nothing was settled and changes nothing in the database. No rating
  is ever updated twice for one game.
\<close>

theorem finalize_once:
  assumes "finalizeGameAtomic now room res w d = (Inr s, d')" and "r_game room' = r_game room"
  shows "finalizeGameAtomic now' room' res' w' d' = (Inr \<lparr>settled = False, elo_white = None, elo_black = None\<rparr>, d')"
  using finalize_ends_live [OF assms(1)] assms(2) by (intro finalize_no_live) simp

lemma demo_ratings: "computeNewRatings 1200 1200 0 = (1184, 1216)" "computeNewRatings 1200 1200 1 = (1216, 1184)"
  by (simp_all add: computeNewRatings_def expectedScore_def math_round_def K_factor_def)

definition demo_move :: move_row where
  "demo_move = \<lparr>m_game = 3, m_number = 1, m_color = ''w'', m_from = ''e2'', m_to = ''e4'', m_piece = ''wP'',
     m_captured = None, m_san = Some ''e4'', m_fen = Some start_fen, m_promotion = None\<rparr>"

definition demo_live :: db where
  "demo_live = demo_db\<lparr>games := [demo_game]\<rparr>"

lemmas demo_defs = demo_live_def demo_db_def demo_user_def demo_game_def demo_room_def demo_move_def empty_db_def

lemma demo_finalize:
  "\<exists>d'. finalizeGameAtomic 60000 (demo_room [demo_move]) ''resign'' (Some ''b'') demo_live =
     (Inr \<lparr>settled = True, elo_white = Some (''ann'', 1200, 1184), elo_black = Some (''bob'', 1200, 1216)\<rparr>, d')"
  by (simp add: demo_defs finalizeGameAtomic_def transaction_def qbind_def finish_row_def update_games_def
      game_checks_def GAME_RESULTS_def settle_finished_def player_of_def white_score_def demo_ratings set_elo_def
      settle_player_def insert_score_def score_checks_def room_duration_def guard_q_def user_ref_def user_exists_def
      awardIfNew_def win_keys_def count_wins_def Let_def)

theorem finalize_once_witness:
  "case finalizeGameAtomic 60000 (demo_room [demo_move]) ''resign'' (Some ''b'') demo_live of
     (Inl e, d') \<Rightarrow> False
   | (Inr s, d') \<Rightarrow> settled s \<and> finalizeGameAtomic 90000 (demo_room []) ''draw'' None d' =
       (Inr \<lparr>settled = False, elo_white = None, elo_black = None\<rparr>, d')"
proof -
  obtain d' where q: "finalizeGameAtomic 60000 (demo_room [demo_move]) ''resign'' (Some ''b'') demo_live =
     (Inr \<lparr>settled = True, elo_white = Some (''ann'', 1200, 1184), elo_black = Some (''bob'', 1200, 1216)\<rparr>, d')"
    using demo_finalize by blast
  have "finalizeGameAtomic 90000 (demo_room []) ''draw'' None d' =
       (Inr \<lparr>settled = False, elo_white = None, elo_black = None\<rparr>, d')"
    by (rule finalize_once [OF q]) (simp add: demo_room_def)
  with q show ?thesis by simp
qed

text \<open>Awards change no other table.\<close>

lemma awardIfNew_frame:
  assumes "\<And>d a. f (d\<lparr>awards := a\<rparr>) = f d"
  shows "preserves (\<lambda>d. f d = x) (awardIfNew now u k)"
  unfolding awardIfNew_def by (intro preserve preserves_qput) (simp add: assms)

lemma award_all_frame:
  assumes "\<And>d a. f (d\<lparr>awards := a\<rparr>) = f d"
  shows "preserves (\<lambda>d. f d = x) (award_all now u ks)"
proof (induction ks)
  case Nil
  show ?case unfolding award_all.simps by (rule preserves_qreturn)
next
  case (Cons k ks)
  then show ?case
    unfolding award_all.simps by (intro preserves_qbind preserves_qreturn awardIfNew_frame assms)
qed

lemma award_all_same:
  assumes "award_all now u ks d = (r, d')"
  shows "users d' = users d" "scores d' = scores d" "games d' = games d" "moves d' = moves d"
  using preserves_Inr [OF award_all_frame [where f = users and x = "users d"] refl assms]
    preserves_Inr [OF award_all_frame [where f = scores and x = "scores d"] refl assms]
    preserves_Inr [OF award_all_frame [where f = games and x = "games d"] refl assms]
    preserves_Inr [OF award_all_frame [where f = moves and x = "moves d"] refl assms] by simp_all

lemma insert_score_one:
  assumes "insert_score now u n c du w m g d = (Inr 1, d')"
  shows "\<exists>s. d' = d\<lparr>next_id := Suc (next_id d), scores := scores d @ [s]\<rparr> \<and> s_user s = u \<and> s_winner s = w \<and>
     s_count s = c \<and> s_duration s = du \<and> s_game s = g \<and> s_mode s = m \<and> s_username s = n \<and> c > 0"
  using assms by (auto simp: insert_score_def Let_def score_checks_def qbind_def guard_q_def user_ref_def
      split: if_splits option.splits)

text \<open>The row \<open>finalizeGameAtomic\<close> writes for a player.\<close>

definition score_of :: "int \<Rightarrow> 'c room \<Rightarrow> string option \<Rightarrow> seat \<Rightarrow> nat \<Rightarrow> score_row \<Rightarrow> bool" where
  "score_of now room winnerColor p i s \<longleftrightarrow>
     s_user s = Some i \<and> s_username s = seat_name p \<and> s_count s = length (r_moves room) \<and>
     s_duration s = room_duration now room \<and> s_mode s = ''multiplayer'' \<and> s_game s = Some (r_game room) \<and>
     s_winner s = (Some (seat_color p) = winnerColor)"

lemma settle_player_Inr:
  assumes "settle_player now room w p i d = (Inr u, d')"
  shows "\<exists>s. scores d' = scores d @ [s] \<and> score_of now room w p i s \<and> users d' = users d \<and>
     games d' = games d \<and> moves d' = moves d \<and> r_moves room \<noteq> []"
proof -
  let ?won = "Some (seat_color p) = w"
  obtain n d1 where ins: "insert_score now (Some i) (seat_name p) (length (r_moves room)) (room_duration now room) ?won
      ''multiplayer'' (Some (r_game room)) d = (Inr n, d1)"
    and r1: "qbind (guard_q (n = 1) (Thrown ''Authoritative score insertion conflict'')) (\<lambda>_.
      qbind (qget (count_wins i)) (\<lambda>wins.
      qbind (award_all now i ([''first_game''] @
          (if ?won then win_keys wins @ (if length (r_moves room) \<le> 15 then [''quick_win''] else []) else []) @
          (if length (r_moves room) \<ge> 60 then [''marathon''] else []))) (\<lambda>_. qreturn ()))) d1 = (Inr u, d')"
    using assms unfolding settle_player_def Let_def by (rule qbind_InrE)
  have n: "n = 1"
    using r1 by (simp split: if_splits)
  from r1 obtain ks x d2 where aw: "award_all now i ks d1 = (Inr x, d2)" and d': "d' = d2"
    unfolding n by (auto simp del: award_all.simps elim!: qbind_InrE)
  obtain s where s: "d1 = d\<lparr>next_id := Suc (next_id d), scores := scores d @ [s]\<rparr>" "score_of now room w p i s"
    "length (r_moves room) > 0"
    using insert_score_one [OF ins [unfolded n]] unfolding score_of_def by blast
  show ?thesis
    using award_all_same [OF aw] s by (auto simp: d' intro!: exI [of _ s])
qed

lemma settle_finished_Inr:
  assumes sf: "settle_finished now room w d1 = (Inr s, d')"
    and seats: "player_of room ''w'' = Some white" "player_of room ''b'' = Some black"
      "seat_user white = Some wi" "seat_user black = Some bi"
  shows "\<exists>wu bu we be s1 s2.
     wu \<in> set (users d1) \<and> u_id wu = wi \<and> bu \<in> set (users d1) \<and> u_id bu = bi \<and>
     computeNewRatings (u_elo wu) (u_elo bu) (white_score w) = (we, be) \<and>
     users d' = update_where (\<lambda>u. u_id u = bi) (\<lambda>u. u\<lparr>u_elo := be\<rparr>)
                  (update_where (\<lambda>u. u_id u = wi) (\<lambda>u. u\<lparr>u_elo := we\<rparr>) (users d1)) \<and>
     scores d' = scores d1 @ [s1, s2] \<and> score_of now room w white wi s1 \<and> score_of now room w black bi s2 \<and>
     games d' = games d1 \<and> r_moves room \<noteq> [] \<and>
     elo_white s = Some (seat_name white, u_elo wu, we) \<and> elo_black s = Some (seat_name black, u_elo bu, be)"
proof -
  let ?rows = "filter (\<lambda>u. u_id u = wi \<or> u_id u = bi) (users d1)"
  obtain wu bu where found: "find (\<lambda>u. u_id u = wi) ?rows = Some wu" "find (\<lambda>u. u_id u = bi) ?rows = Some bu"
    using sf by (auto simp: settle_finished_def seats Let_def split: option.splits if_splits)
  obtain we be where elo: "computeNewRatings (u_elo wu) (u_elo bu) (white_score w) = (we, be)"
    by (cases "computeNewRatings (u_elo wu) (u_elo bu) (white_score w)")
  define d2 where "d2 = d1\<lparr>users := update_where (\<lambda>u. u_id u = bi) (\<lambda>u. u\<lparr>u_elo := be\<rparr>)
                  (update_where (\<lambda>u. u_id u = wi) (\<lambda>u. u\<lparr>u_elo := we\<rparr>) (users d1))\<rparr>"
  have settle: "qbind (settle_player now room w white wi) (\<lambda>_.
      qbind (settle_player now room w black bi) (\<lambda>_.
      qreturn \<lparr>settled = True, elo_white = Some (seat_name white, u_elo wu, we),
               elo_black = Some (seat_name black, u_elo bu, be)\<rparr>)) d2 = (Inr s, d')"
    using sf found elo unfolding d2_def
    by (auto simp: settle_finished_def seats Let_def set_elo_def split: if_splits)
  then obtain u1 d3 u2 d4 where p1: "settle_player now room w white wi d2 = (Inr u1, d3)"
    and p2: "settle_player now room w black bi d3 = (Inr u2, d4)"
    and fin: "d' = d4" "s = \<lparr>settled = True, elo_white = Some (seat_name white, u_elo wu, we),
               elo_black = Some (seat_name black, u_elo bu, be)\<rparr>"
    by (auto elim!: qbind_InrE)
  from settle_player_Inr [OF p1] settle_player_Inr [OF p2] obtain s1 s2 where
    sc: "scores d3 = scores d2 @ [s1]" "score_of now room w white wi s1" "users d3 = users d2" "games d3 = games d2"
      "scores d4 = scores d3 @ [s2]" "score_of now room w black bi s2" "users d4 = users d3" "games d4 = games d3"
      "r_moves room \<noteq> []"
    by blast
  have "wu \<in> set (users d1)" "u_id wu = wi" "bu \<in> set (users d1)" "u_id bu = bi"
    using find_Some_in [OF found(1)] find_Some_in [OF found(2)] by auto
  then show ?thesis
    using elo sc fin by (intro exI [of _ wu] exI [of _ bu] exI [of _ we] exI [of _ be] exI [of _ s1] exI [of _ s2])
      (simp add: d2_def)
qed

text \<open>
  C14. What settling a two-player game does. If \<open>finalizeGameAtomic\<close> settles the game of two
  registered players, it was in progress; afterwards it is finished with the given result and
  winner, the two players' ratings - and no other column or user - are the ones of
  \<open>computeNewRatings\<close> for the score of white, exactly one score row per player was added,
  marked as won for the winner's colour only, and the result carries old and new ratings.
\<close>

theorem finalize_settles:
  assumes "finalizeGameAtomic now room res w d = (Inr s, d')" and "settled s"
    and "player_of room ''w'' = Some white" and "player_of room ''b'' = Some black"
    and "seat_user white = Some wi" and "seat_user black = Some bi"
  shows "\<exists>wu bu we be s1 s2.
     wu \<in> set (users d) \<and> u_id wu = wi \<and> bu \<in> set (users d) \<and> u_id bu = bi \<and>
     computeNewRatings (u_elo wu) (u_elo bu) (white_score w) = (we, be) \<and>
     users d' = update_where (\<lambda>u. u_id u = bi) (\<lambda>u. u\<lparr>u_elo := be\<rparr>)
                  (update_where (\<lambda>u. u_id u = wi) (\<lambda>u. u\<lparr>u_elo := we\<rparr>) (users d)) \<and>
     scores d' = scores d @ [s1, s2] \<and> score_of now room w white wi s1 \<and> score_of now room w black bi s2 \<and>
     length (filter (\<lambda>g. g_id g = r_game room \<and> g_status g = ''in_progress'') (games d)) = 1 \<and>
     games d' = update_where (\<lambda>g. g_id g = r_game room \<and> g_status g = ''in_progress'')
       (\<lambda>g. g\<lparr>g_status := ''finished'', g_result := Some res, g_winner := w, g_ended := Some now\<rparr>) (games d) \<and>
     elo_white s = Some (seat_name white, u_elo wu, we) \<and> elo_black s = Some (seat_name black, u_elo bu, be)"
proof -
  obtain rows d1 where u: "finish_row now (r_game room) res w d = (Inr rows, d1)"
    and rest: "(if rows = [] then qreturn \<lparr>settled = False, elo_white = None, elo_black = None\<rparr>
          else qbind (guard_q (length rows = 1) (Thrown ''Game finalization affected multiple rows'')) (\<lambda>_.
            settle_finished now room w)) d1 = (Inr s, d')"
    using assms(1) unfolding finalizeGameAtomic_def transaction_Inr by (rule qbind_InrE)
  have ne: "rows \<noteq> []"
    using rest assms(2) by (auto split: if_splits)
  have one: "length rows = 1" and sf: "settle_finished now room w d1 = (Inr s, d')"
    using rest ne by (auto split: if_splits)
  have d1: "d1 = d\<lparr>games := update_where (\<lambda>g. g_id g = r_game room \<and> g_status g = ''in_progress'')
       (\<lambda>g. g\<lparr>g_status := ''finished'', g_result := Some res, g_winner := w, g_ended := Some now\<rparr>) (games d)\<rparr>"
    and rows: "length (filter (\<lambda>g. g_id g = r_game room \<and> g_status g = ''in_progress'') (games d)) = 1"
    using update_games_Inr [OF u [unfolded finish_row_def]] one by simp_all
  show ?thesis
    using settle_finished_Inr [OF sf assms(3-6)] rows unfolding d1 by simp blast
qed

theorem finalize_settles_witness:
  "case finalizeGameAtomic 60000 (demo_room [demo_move]) ''resign'' (Some ''b'') demo_live of
     (Inl e, d') \<Rightarrow> False
   | (Inr s, d') \<Rightarrow> length (scores d') = 2 \<and>
       (\<exists>we be. computeNewRatings 1200 1200 (white_score (Some ''b'')) = (we, be) \<and>
          elo_white s = Some (''ann'', 1200, we) \<and> elo_black s = Some (''bob'', 1200, be))"
proof -
  let ?white = "\<lparr>seat_socket = Some ''s1'', seat_name = ''ann'', seat_color = ''w'', seat_user = Some 1\<rparr>"
  let ?black = "\<lparr>seat_socket = Some ''s2'', seat_name = ''bob'', seat_color = ''b'', seat_user = Some 2\<rparr>"
  obtain d' where q: "finalizeGameAtomic 60000 (demo_room [demo_move]) ''resign'' (Some ''b'') demo_live =
     (Inr \<lparr>settled = True, elo_white = Some (''ann'', 1200, 1184), elo_black = Some (''bob'', 1200, 1216)\<rparr>, d')"
    using demo_finalize by blast
  have "player_of (demo_room [demo_move]) ''w'' = Some ?white" "player_of (demo_room [demo_move]) ''b'' = Some ?black"
    by (simp_all add: player_of_def demo_room_def)
  note players = this
  have h: "settled \<lparr>settled = True, elo_white = Some (''ann'', 1200, 1184 :: int), elo_black = Some (''bob'', 1200, 1216 :: int)\<rparr>"
    and u: "seat_user ?white = Some 1" "seat_user ?black = Some 2"
    by simp_all
  obtain wu bu we be s1 s2 where f: "wu \<in> set (users demo_live)" "bu \<in> set (users demo_live)"
      "computeNewRatings (u_elo wu) (u_elo bu) (white_score (Some ''b'')) = (we, be)" "scores d' = scores demo_live @ [s1, s2]"
      "elo_white \<lparr>settled = True, elo_white = Some (''ann'', 1200, 1184), elo_black = Some (''bob'', 1200, 1216)\<rparr> =
         Some (seat_name ?white, u_elo wu, we)"
      "elo_black \<lparr>settled = True, elo_white = Some (''ann'', 1200, 1184), elo_black = Some (''bob'', 1200, 1216)\<rparr> =
         Some (seat_name ?black, u_elo bu, be)"
    using finalize_settles [OF q h players u] by blast
  then have "u_elo wu = 1200" "u_elo bu = 1200" "we = 1184" "be = 1216"
    by simp_all
  with q f show ?thesis
    by (simp add: demo_live_def demo_db_def empty_db_def)
qed

text \<open>
  A game of two registered players that has no move yet cannot be ended: the score rows
  would have \<open>moves = 0\<close>, which the scores table refuses (CHECK moves > 0), so the whole
  transaction fails and nothing changes. Resigning or leaving before the first move therefore
  answers with an error and the game stays in progress.
\<close>

theorem finalize_without_moves_fails:
  assumes "\<not> no_live_game (r_game room) d" and "r_moves room = []"
    and "player_of room ''w'' = Some white" and "player_of room ''b'' = Some black"
    and "seat_user white = Some wi" and "seat_user black = Some bi"
  shows "\<exists>e. finalizeGameAtomic now room res w d = (Inl e, d)"
proof -
  have "False" if fin: "finalizeGameAtomic now room res w d = (Inr s, d')" for s d'
  proof -
    obtain rows d1 where u: "finish_row now (r_game room) res w d = (Inr rows, d1)"
      and rest: "(if rows = [] then qreturn \<lparr>settled = False, elo_white = None, elo_black = None\<rparr>
            else qbind (guard_q (length rows = 1) (Thrown ''Game finalization affected multiple rows'')) (\<lambda>_.
              settle_finished now room w)) d1 = (Inr s, d')"
      using fin unfolding finalizeGameAtomic_def transaction_Inr by (rule qbind_InrE)
    have "rows \<noteq> []"
      using update_games_Inr [OF u [unfolded finish_row_def]] assms(1) by (auto simp: no_live_game_def)
    then have "settle_finished now room w d1 = (Inr s, d')"
      using rest by (auto split: if_splits)
    from settle_finished_Inr [OF this assms(3-6)] assms(2) show False by blast
  qed
  then show ?thesis
  proof (cases "finalizeGameAtomic now room res w d")
    case (Pair r d')
    then show ?thesis
    proof (cases r)
      case (Inl e)
      then have "d' = d"
        using Pair unfolding finalizeGameAtomic_def by (intro transaction_Inl) simp
      then show ?thesis
        using Pair Inl by blast
    qed (use \<open>\<And>s d'. finalizeGameAtomic now room res w d = (Inr s, d') \<Longrightarrow> False\<close> in blast)
  qed
qed

theorem finalize_without_moves_fails_witness:
  "\<exists>e. finalizeGameAtomic 60000 (demo_room []) ''resign'' (Some ''b'') demo_live = (Inl e, demo_live)"
  by (rule finalize_without_moves_fails [where
        white = "\<lparr>seat_socket = Some ''s1'', seat_name = ''ann'', seat_color = ''w'', seat_user = Some 1\<rparr>" and wi = 1 and
        black = "\<lparr>seat_socket = Some ''s2'', seat_name = ''bob'', seat_color = ''b'', seat_user = Some 2\<rparr>" and bi = 2])
    (simp_all add: demo_room_def player_of_def no_live_game_def demo_live_def demo_game_def)

section \<open>The black seat\<close>

fun claim_results :: "nat \<Rightarrow> (nat option \<times> string) list \<Rightarrow> db \<Rightarrow> (db_error, game_row option) result list" where
  "claim_results gid [] d = []"
| "claim_results gid ((u, n) # ps) d =
     (let (r, d') = claimBlack gid u n d in r # claim_results gid ps d')"

definition seat_won :: "(db_error, game_row option) result \<Rightarrow> bool" where
  "seat_won r = (case r of Inr (Some g) \<Rightarrow> True | _ \<Rightarrow> False)"

definition black_taken :: "nat \<Rightarrow> db \<Rightarrow> bool" where
  "black_taken gid d \<longleftrightarrow> (\<forall>g \<in> set (games d). g_id g = gid \<longrightarrow> g_black_name g \<noteq> None)"

lemma claimBlack_Some:
  assumes "claimBlack gid u n d = (Inr (Some r), d')"
  shows "\<not> black_taken gid d" "black_taken gid d'" "g_black r = u" "g_black_name r = Some n" "g_id r = gid"
proof -
  let ?P = "\<lambda>g :: game_row. g_id g = gid \<and> g_status g = ''in_progress'' \<and> g_black_name g = None"
  let ?f = "\<lambda>g :: game_row. g\<lparr>g_black := u, g_black_name := Some n\<rparr>"
  obtain g where g: "find_game gid d = [g]" "g_status g = ''in_progress''"
    and upd: "update_games ?P ?f d = (Inr [r], d')"
    using assms unfolding claimBlack_def transaction_Inr
    by (auto elim!: qbind_InrE split: if_splits)
  note up = update_games_Inr [OF upd]
  have d': "games d' = update_where ?P ?f (games d)" and r: "[r] = map ?f (filter ?P (games d))"
    using up by simp_all
  then obtain x where x: "filter ?P (games d) = [x]" "r = ?f x"
    by (auto simp: Cons_eq_map_conv)
  have xp: "x \<in> set (games d)" "?P x"
    using x(1) by (auto simp: filter_eq_Cons_iff)
  then show "\<not> black_taken gid d"
    by (auto simp: black_taken_def)
  show "g_black r = u" "g_black_name r = Some n" "g_id r = gid"
    using x(2) xp by simp_all
  have "y = g" if "y \<in> set (games d)" "g_id y = gid" for y
  proof -
    have "y \<in> set (find_game gid d)"
      using that by (simp add: find_game_def)
    then show ?thesis using g(1) by simp
  qed
  then have "x = g" and only: "\<And>y. y \<in> set (games d) \<Longrightarrow> g_id y = gid \<Longrightarrow> ?P y"
    using xp by metis+
  show "black_taken gid d'"
    unfolding black_taken_def
  proof (intro ballI impI)
    fix y'
    assume "y' \<in> set (games d')" and y'id: "g_id y' = gid"
    then obtain y where y: "y \<in> set (games d)" "y' = (if ?P y then ?f y else y)"
      unfolding d' set_update_where by blast
    then have "g_id y = gid"
      using y'id by (simp split: if_splits)
    then have "?P y"
      by (rule only [OF y(1)])
    then show "g_black_name y' \<noteq> None"
      by (simp add: y(2))
  qed
qed

lemma claimBlack_other:
  "claimBlack gid u n d = (r, d') \<Longrightarrow> \<not> seat_won r \<Longrightarrow> d' = d"
  by (auto simp: claimBlack_def transaction_def qbind_def seat_won_def requireOne_def update_games_def Let_def
      user_ref_def split: prod.splits sum.splits option.splits if_splits list.splits)

lemma claims_after_taken: "black_taken gid d \<Longrightarrow> filter seat_won (claim_results gid ps d) = []"
proof (induction gid ps d rule: claim_results.induct)
  case (2 gid u n ps d)
  obtain r d' where c: "claimBlack gid u n d = (r, d')"
    by (cases "claimBlack gid u n d")
  have "\<not> seat_won r"
    using claimBlack_Some(1) [of gid u n d _ d'] c "2.prems" by (auto simp: seat_won_def split: sum.splits option.splits)
  then show ?case
    using "2.IH" [OF c [symmetric] refl] "2.prems" claimBlack_other [OF c] c by simp
qed simp

text \<open>
  However many players try to take the black seat of a game, one after the other in any
  order and on any replica, at most one of the claims is given the seat.
\<close>

theorem one_black_player:
  "length (filter seat_won (claim_results gid ps d)) \<le> 1"
proof (induction gid ps d rule: claim_results.induct)
  case (2 gid u n ps d)
  obtain r d' where c: "claimBlack gid u n d = (r, d')"
    by (cases "claimBlack gid u n d")
  show ?case
  proof (cases "seat_won r")
    case True
    then obtain g where "r = Inr (Some g)"
      by (auto simp: seat_won_def split: sum.splits option.splits)
    then have "filter seat_won (claim_results gid ps d') = []"
      using claimBlack_Some(2) c by (intro claims_after_taken) blast
    then show ?thesis
      using c by simp
  next
    case False
    then show ?thesis
      using "2.IH" [OF c [symmetric] refl] c by simp
  qed
qed simp

section \<open>One move\<close>

text \<open>
  C17. Recording a move. A refused move changes nothing. A recorded move was legal for the
  side to move in the stored board of a game in progress - not in the board of the room cache -
  and afterwards the game has one more move, with the next number, the text and the capture
  the rules engine reported, and its stored board is the one after the move.
\<close>

theorem persist_move_effect:
  assumes "game_inv d" and "persistMoveAtomic cl gid color req d = (Inr r, d')"
  shows "case r of
      None \<Rightarrow> d' = d
    | Some (chess', c, m) \<Rightarrow>
        (\<exists>g chess. find_game gid d = [g] \<and> g_status g = ''in_progress'' \<and>
           load_board cl (g_fen g) = Some chess \<and> cl_turn cl chess = color \<and>
           cl_move cl chess req = Some (chess', c) \<and>
           m = move_row_of gid (Suc (length (moves_in d gid))) color c (cl_fen cl chess') \<and>
           moves_in d' gid = moves_in d gid @ [m] \<and>
           find_game gid d' = [g\<lparr>g_fen := cl_fen cl chess'\<rparr>])"
proof (cases r)
  case None
  then show ?thesis
    using persist_None assms(2) by simp
next
  case (Some res)
  obtain chess' c m where res: "res = (chess', c, m)"
    by (cases res)
  from persist_Some [OF assms(2) [unfolded Some res]] obtain g chess where
    f: "find_game gid d = [g]" "g_status g = ''in_progress''" "load_board cl (g_fen g) = Some chess"
      "cl_turn cl chess = color" "cl_move cl chess req = Some (chess', c)"
      "m = move_row_of gid (next_move_number gid d) color c (cl_fen cl chess')"
    and d': "d' = d\<lparr>games := update_where (\<lambda>g. g_id g = gid \<and> g_status g = ''in_progress'')
        (\<lambda>g. g\<lparr>g_fen := cl_fen cl chess'\<rparr>) (games d), moves := moves d @ [m]\<rparr>"
    by blast
  have ids: "filter (\<lambda>g. g_id g = gid) (update_where (\<lambda>g. g_id g = gid \<and> g_status g = ''in_progress'')
        (\<lambda>g. g\<lparr>g_fen := fen\<rparr>) gs) =
      update_where (\<lambda>g. g_status g = ''in_progress'') (\<lambda>g. g\<lparr>g_fen := fen\<rparr>) (filter (\<lambda>g. g_id g = gid) gs)"
    for fen and gs :: "game_row list"
    by (induction gs) auto
  have "find_game gid d' = [g\<lparr>g_fen := cl_fen cl chess'\<rparr>]"
    using f(1,2) by (simp add: find_game_def d' ids)
  moreover have "moves_in d' gid = moves_in d gid @ [m]"
    by (simp add: moves_in_def d' f(6) move_row_of_def)
  ultimately show ?thesis
    using f next_move_number_inv [OF assms(1)] by (simp add: Some res)
qed

text \<open>A rules engine that counts half-moves and accepts every move with two squares.\<close>

definition counting_lib :: "nat chess_lib" where
  "counting_lib = \<lparr>cl_load = (\<lambda>fen. if fen = start_fen then Some 0 else nat_of_digits 0 fen), cl_new = 0,
     cl_turn = (\<lambda>n. if even n then ''w'' else ''b''),
     cl_move = (\<lambda>n q. case (q_from q, q_to q) of
        (Some f, Some t) \<Rightarrow> Some (Suc n, \<lparr>c_from = f, c_to = t, c_piece = ''p'', c_captured = None, c_san = t,
          c_promotion = None\<rparr>) | _ \<Rightarrow> None),
     cl_fen = show_nat, cl_over = (\<lambda>n. n > 100), cl_mate = (\<lambda>n. False)\<rparr>"

lemma demo_live_inv: "game_inv (demo_live\<lparr>next_id := 4\<rparr>)"
  by (simp add: game_inv_def demo_defs moves_in_def)

definition demo_canonical :: canonical where
  "demo_canonical = \<lparr>c_from = ''e2'', c_to = ''e4'', c_piece = ''p'', c_captured = None, c_san = ''e4'', c_promotion = None\<rparr>"

definition demo_request :: request where
  "demo_request = \<lparr>q_from = Some ''e2'', q_to = Some ''e4'', q_promotion = None\<rparr>"

lemma demo_persist:
  "\<exists>d'. persistMoveAtomic counting_lib 3 ''w'' demo_request (demo_live\<lparr>next_id := 4\<rparr>) =
      (Inr (Some (1, demo_canonical, move_row_of 3 1 ''w'' demo_canonical (show_nat 1))), d') \<and>
      moves d' = [move_row_of 3 1 ''w'' demo_canonical (show_nat 1)]"
proof -
  have "start_fen \<noteq> []"
    by (simp add: start_fen_def)
  moreover have "move_checks (move_row_of 3 1 ''w'' demo_canonical (show_nat 1))"
    by code_simp
  ultimately show ?thesis
    by (simp add: persistMoveAtomic_def demo_defs find_game_def load_board_def counting_lib_def update_games_def
        game_checks_def insert_move_def next_move_number_def guard_q_def transaction_def Let_def move_row_of_def qbind_def
        demo_request_def demo_canonical_def)
qed

theorem persist_move_effect_witness:
  "case persistMoveAtomic counting_lib 3 ''w'' demo_request (demo_live\<lparr>next_id := 4\<rparr>) of
     (Inr (Some (n, c, m)), d') \<Rightarrow> moves_in d' 3 = [m] \<and> m_number m = 1 \<and> m_san m = Some ''e4''
   | _ \<Rightarrow> False"
proof -
  let ?m = "move_row_of 3 1 ''w'' demo_canonical (show_nat 1)"
  obtain d' where q: "persistMoveAtomic counting_lib 3 ''w'' demo_request (demo_live\<lparr>next_id := 4\<rparr>) =
      (Inr (Some (1, demo_canonical, ?m)), d')"
    using demo_persist by blast
  from persist_move_effect [OF demo_live_inv q]
  have "moves_in d' 3 = moves_in (demo_live\<lparr>next_id := 4\<rparr>) 3 @ [?m]"
    by auto
  moreover have "moves_in (demo_live\<lparr>next_id := 4\<rparr>) 3 = []"
    by (simp add: demo_defs moves_in_def)
  ultimately show ?thesis
    unfolding q by (simp add: move_row_of_def demo_canonical_def)
qed

end
