(* ===== verification/RematchVotes.thy ===== *)
theory RematchVotes
  imports Prelude
begin

text \<open>
  Rematch votes (services/rematchVotes.js): the in-memory backend of a single server and the
  backend on a shared Redis store, both behind one interface, the locale \<open>vote_store\<close>. The Redis
  server is a parameter of the backend (its set commands, each of which may fail); the
  instance at the end has the documented behaviour of SADD, SREM, SCARD and DEL.
\<close>

section \<open>Keys\<close>

datatype vote_error = Bad_game | Bad_user | Unavailable

definition KEY_PREFIX :: string where
  "KEY_PREFIX = ''rematch:''"

definition REMATCH_TTL_SECONDS :: nat where
  "REMATCH_TTL_SECONDS = 3600"

definition keyForGame :: "int \<Rightarrow> (vote_error, string) result" where
  "keyForGame gameId = (if gameId \<le> 0 then Inl Bad_game else Inr (KEY_PREFIX @ show_nat (nat gameId)))"

definition assertUserId :: "int \<Rightarrow> (vote_error, unit) result" where
  "assertUserId userId = (if userId \<le> 0 then Inl Bad_user else Inr ())"

lemma keyForGame_inj: "keyForGame g = Inr k \<Longrightarrow> keyForGame h = Inr k \<Longrightarrow> g = h"
  by (auto simp: keyForGame_def eq_nat_nat_iff split: if_splits)

section \<open>The interface\<close>

text \<open>
  What the game server relies on: adding a vote answers with the number of distinct voters of
  that game; removing and clearing are best effort and touch no other game.
\<close>

locale vote_store =
  fixes add :: "int \<Rightarrow> int \<Rightarrow> 's \<Rightarrow> (vote_error, nat) result \<times> 's"
    and remove :: "int \<Rightarrow> int \<Rightarrow> 's \<Rightarrow> bool \<times> 's"
    and clear :: "int \<Rightarrow> 's \<Rightarrow> bool \<times> 's"
    and voters :: "'s \<Rightarrow> int \<Rightarrow> int set"
    and ok :: "'s \<Rightarrow> bool"
  assumes add_ok: "ok s \<Longrightarrow> add g u s = (Inr n, s') \<Longrightarrow>
      ok s' \<and> voters s' g = insert u (voters s g) \<and> n = card (voters s' g) \<and> (\<forall>h. h \<noteq> g \<longrightarrow> voters s' h = voters s h)"
    and add_failed: "ok s \<Longrightarrow> add g u s = (Inl e, s') \<Longrightarrow>
      ok s' \<and> voters s' g \<subseteq> insert u (voters s g) \<and> (\<forall>h. h \<noteq> g \<longrightarrow> voters s' h = voters s h)"
    and remove_ok: "ok s \<Longrightarrow> remove g u s = (b, s') \<Longrightarrow>
      ok s' \<and> voters s' g \<subseteq> voters s g \<and> (b \<longrightarrow> voters s' g = voters s g - {u}) \<and> (\<forall>h. h \<noteq> g \<longrightarrow> voters s' h = voters s h)"
    and clear_ok: "ok s \<Longrightarrow> clear g s = (b, s') \<Longrightarrow>
      ok s' \<and> voters s' g \<subseteq> voters s g \<and> (b \<longrightarrow> voters s' g = {}) \<and> (\<forall>h. h \<noteq> g \<longrightarrow> voters s' h = voters s h)"
    and finite_voters: "ok s \<Longrightarrow> finite (voters s g)"
begin

text \<open>A count of two or more means two different voters; a repeated vote adds nothing.\<close>

lemma quorum_two_voters:
  assumes "ok s" and "add g u s = (Inr n, s')" and "n \<ge> 2"
  shows "\<exists>v \<in> voters s g. v \<noteq> u"
proof (rule ccontr)
  assume "\<not> ?thesis"
  then have "voters s' g \<subseteq> {u}"
    using add_ok [OF assms(1,2)] by blast
  then have "card (voters s' g) \<le> 1"
    using card_mono [of "{u}" "voters s' g"] by simp
  then show False
    using add_ok [OF assms(1,2)] assms(3) by simp
qed

lemma repeated_vote:
  assumes "ok s" and "u \<in> voters s g" and "add g u s = (Inr n, s')"
  shows "n = card (voters s g)"
  using add_ok [OF assms(1,3)] assms(2) by (simp add: insert_absorb)

end

section \<open>The local backend\<close>

type_synonym local_votes = "string \<Rightarrow> int list option"

definition local_add :: "int \<Rightarrow> int \<Rightarrow> local_votes \<Rightarrow> (vote_error, nat) result \<times> local_votes" where
  "local_add gameId userId votes =
     (case keyForGame gameId of
        Inl e \<Rightarrow> (Inl e, votes)
      | Inr key \<Rightarrow>
          (case assertUserId userId of
             Inl e \<Rightarrow> (Inl e, votes)
           | Inr _ \<Rightarrow>
               let s = List.insert userId (case votes key of None \<Rightarrow> [] | Some s \<Rightarrow> s)
               in (Inr (length s), votes(key := Some s))))"

definition local_remove :: "int \<Rightarrow> int \<Rightarrow> local_votes \<Rightarrow> bool \<times> local_votes" where
  "local_remove gameId userId votes =
     (case keyForGame gameId of
        Inl e \<Rightarrow> (False, votes)
      | Inr key \<Rightarrow> (True, case votes key of None \<Rightarrow> votes | Some s \<Rightarrow> votes(key := Some (remove1 userId s))))"

definition local_clear :: "int \<Rightarrow> local_votes \<Rightarrow> bool \<times> local_votes" where
  "local_clear gameId votes =
     (case keyForGame gameId of Inl e \<Rightarrow> (False, votes) | Inr key \<Rightarrow> (True, votes(key := None)))"

definition local_voters :: "local_votes \<Rightarrow> int \<Rightarrow> int set" where
  "local_voters votes g =
     (case keyForGame g of Inl e \<Rightarrow> {} | Inr key \<Rightarrow> (case votes key of None \<Rightarrow> {} | Some s \<Rightarrow> set s))"

definition local_ok :: "local_votes \<Rightarrow> bool" where
  "local_ok votes \<longleftrightarrow> (\<forall>k s. votes k = Some s \<longrightarrow> distinct s)"

lemma local_voters_other:
  "keyForGame g = Inr key \<Longrightarrow> h \<noteq> g \<Longrightarrow> local_voters (votes(key := x)) h = local_voters votes h"
  using keyForGame_inj by (auto simp: local_voters_def split: sum.split)

interpretation local_votes: vote_store local_add local_remove local_clear local_voters local_ok
proof
  fix s g u n s' e b
  assume ok: "local_ok s"
  show "local_add g u s = (Inr n, s') \<Longrightarrow> local_ok s' \<and> local_voters s' g = insert u (local_voters s g) \<and>
      n = card (local_voters s' g) \<and> (\<forall>h. h \<noteq> g \<longrightarrow> local_voters s' h = local_voters s h)"
    using ok
    by (cases "keyForGame g"; cases "assertUserId u")
      (auto simp: local_add_def Let_def local_ok_def local_voters_other distinct_card [symmetric] simp del: List.insert_def
        split: option.splits if_splits, auto simp: local_voters_def distinct_card split: option.splits if_splits)
  show "local_add g u s = (Inl e, s') \<Longrightarrow> local_ok s' \<and> local_voters s' g \<subseteq> insert u (local_voters s g) \<and>
      (\<forall>h. h \<noteq> g \<longrightarrow> local_voters s' h = local_voters s h)"
    using ok by (auto simp: local_add_def Let_def split: sum.splits)
  show "local_remove g u s = (b, s') \<Longrightarrow> local_ok s' \<and> local_voters s' g \<subseteq> local_voters s g \<and>
      (b \<longrightarrow> local_voters s' g = local_voters s g - {u}) \<and> (\<forall>h. h \<noteq> g \<longrightarrow> local_voters s' h = local_voters s h)"
    using ok
    by (cases "keyForGame g")
      (auto simp: local_remove_def local_ok_def local_voters_other set_remove1_eq split: option.splits,
       auto simp: local_voters_def set_remove1_eq split: option.splits if_splits)
  show "local_clear g s = (b, s') \<Longrightarrow> local_ok s' \<and> local_voters s' g \<subseteq> local_voters s g \<and>
      (b \<longrightarrow> local_voters s' g = {}) \<and> (\<forall>h. h \<noteq> g \<longrightarrow> local_voters s' h = local_voters s h)"
    using ok
    by (cases "keyForGame g")
      (auto simp: local_clear_def local_ok_def local_voters_other split: if_splits, auto simp: local_voters_def)
  show "finite (local_voters s g)"
    by (auto simp: local_voters_def split: sum.split option.split)
qed

section \<open>The Redis backend\<close>

text \<open>
  The commands of the store client; each reports whether the server executed it. A failed
  command may or may not have reached the server, so the state is returned either way.
\<close>

record 's redis_client =
  rc_sadd :: "string \<Rightarrow> string \<Rightarrow> 's \<Rightarrow> bool \<times> 's"
  rc_expire :: "string \<Rightarrow> nat \<Rightarrow> 's \<Rightarrow> bool \<times> 's"
  rc_scard :: "string \<Rightarrow> 's \<Rightarrow> nat option \<times> 's"
  rc_srem :: "string \<Rightarrow> string \<Rightarrow> 's \<Rightarrow> bool \<times> 's"
  rc_del :: "string \<Rightarrow> 's \<Rightarrow> bool \<times> 's"

definition redis_add :: "'s redis_client \<Rightarrow> int \<Rightarrow> int \<Rightarrow> 's \<Rightarrow> (vote_error, nat) result \<times> 's" where
  "redis_add R gameId userId s =
     (case keyForGame gameId of
        Inl e \<Rightarrow> (Inl e, s)
      | Inr key \<Rightarrow>
          (case assertUserId userId of
             Inl e \<Rightarrow> (Inl e, s)
           | Inr _ \<Rightarrow>
               let (added, s1) = rc_sadd R key (show_nat (nat userId)) s in
               if \<not> added then (Inl Unavailable, s1)
               else let (expires, s2) = rc_expire R key REMATCH_TTL_SECONDS s1 in
                 if \<not> expires then (Inl Unavailable, s2)
                 else (case rc_scard R key s2 of
                         (None, s3) \<Rightarrow> (Inl Unavailable, s3)
                       | (Some n, s3) \<Rightarrow> (Inr n, s3))))"

definition redis_remove :: "'s redis_client \<Rightarrow> int \<Rightarrow> int \<Rightarrow> 's \<Rightarrow> bool \<times> 's" where
  "redis_remove R gameId userId s =
     (case keyForGame gameId of
        Inl e \<Rightarrow> (False, s)
      | Inr key \<Rightarrow>
          (case assertUserId userId of
             Inl e \<Rightarrow> (False, s)
           | Inr _ \<Rightarrow> rc_srem R key (show_nat (nat userId)) s))"

definition redis_clear :: "'s redis_client \<Rightarrow> int \<Rightarrow> 's \<Rightarrow> bool \<times> 's" where
  "redis_clear R gameId s =
     (case keyForGame gameId of Inl e \<Rightarrow> (False, s) | Inr key \<Rightarrow> rc_del R key s)"

text \<open>
  The documented behaviour of the set commands on a server that is reachable for the first
  \<open>up\<close> commands: a set of members per key, SADD and SREM idempotent, SCARD the number of
  members, DEL the empty set. EXPIRE only starts the clock.
\<close>

record set_server =
  members :: "string \<Rightarrow> string list"
  up :: nat

definition serve :: "(set_server \<Rightarrow> set_server) \<Rightarrow> set_server \<Rightarrow> bool \<times> set_server" where
  "serve f s = (if up s = 0 then (False, s) else (True, (f s)\<lparr>up := up s - 1\<rparr>))"

definition set_redis :: "set_server redis_client" where
  "set_redis =
     \<lparr>rc_sadd = (\<lambda>k m. serve (\<lambda>s. s\<lparr>members := (members s)(k := List.insert m (members s k))\<rparr>)),
      rc_expire = (\<lambda>k t. serve (\<lambda>s. s)),
      rc_scard = (\<lambda>k s. let (b, s') = serve (\<lambda>s. s) s in (if b then Some (length (members s k)) else None, s')),
      rc_srem = (\<lambda>k m. serve (\<lambda>s. s\<lparr>members := (members s)(k := remove1 m (members s k))\<rparr>)),
      rc_del = (\<lambda>k. serve (\<lambda>s. s\<lparr>members := (members s)(k := [])\<rparr>))\<rparr>"

definition set_ok :: "set_server \<Rightarrow> bool" where
  "set_ok s \<longleftrightarrow> (\<forall>k. distinct (members s k) \<and> (\<forall>m \<in> set (members s k). \<exists>u > 0. m = show_nat (nat u)))"

definition set_voters :: "set_server \<Rightarrow> int \<Rightarrow> int set" where
  "set_voters s g =
     (case keyForGame g of Inl e \<Rightarrow> {} | Inr key \<Rightarrow> {u. u > 0 \<and> show_nat (nat u) \<in> set (members s key)})"

lemma show_user_inj: "inj_on (\<lambda>u. show_nat (nat u)) {u. u > 0}"
  by (auto simp: inj_on_def eq_nat_nat_iff)

lemma card_set_voters:
  assumes "set_ok s" and "keyForGame g = Inr key"
  shows "finite (set_voters s g)" "card (set_voters s g) = length (members s key)"
proof -
  have img: "(\<lambda>u. show_nat (nat u)) ` set_voters s g = set (members s key)"
    using assms by (force simp: set_voters_def set_ok_def)
  have inj: "inj_on (\<lambda>u. show_nat (nat u)) (set_voters s g)"
    using assms(2) by (intro inj_on_subset [OF show_user_inj]) (auto simp: set_voters_def)
  show "finite (set_voters s g)"
    using finite_imageD [OF _ inj] img by simp
  have "card (set_voters s g) = card (set (members s key))"
    using card_image [OF inj] img by simp
  then show "card (set_voters s g) = length (members s key)"
    using assms(1) by (simp add: set_ok_def distinct_card)
qed

lemma set_voters_key:
  "keyForGame g = Inr key \<Longrightarrow> set_voters s g = {u. u > 0 \<and> show_nat (nat u) \<in> set (members s key)}"
  by (simp add: set_voters_def)

lemma set_voters_other:
  "keyForGame g = Inr key \<Longrightarrow> h \<noteq> g \<Longrightarrow> (\<And>k. k \<noteq> key \<Longrightarrow> members s' k = members s k) \<Longrightarrow> set_voters s' h = set_voters s h"
  using keyForGame_inj by (auto simp: set_voters_def split: sum.split) metis+

text \<open>The three kinds of states a command sequence of one operation can leave behind.\<close>

lemma redis_add_states:
  assumes "redis_add set_redis g u s = (r, s')"
  shows "(members s' = members s \<and> (\<exists>e. r = Inl e)) \<or>
    (\<exists>key. keyForGame g = Inr key \<and> u > 0 \<and>
       members s' = (members s)(key := List.insert (show_nat (nat u)) (members s key)) \<and>
       (\<forall>n. r = Inr n \<longrightarrow> n = length (members s' key)))"
  using assms
  by (auto simp: redis_add_def set_redis_def serve_def assertUserId_def Let_def split: sum.splits if_splits prod.splits)

lemma set_ok_insert:
  "set_ok s \<Longrightarrow> u > 0 \<Longrightarrow> members s' = (members s)(key := List.insert (show_nat (nat u)) (members s key)) \<Longrightarrow> set_ok s'"
  by (auto simp: set_ok_def)

lemma set_ok_remove1:
  "set_ok s \<Longrightarrow> members s' = (members s)(key := remove1 m (members s key)) \<Longrightarrow> set_ok s'"
  unfolding set_ok_def by (auto dest: notin_set_remove1 simp: set_remove1_eq)

lemma set_voters_insert:
  assumes "keyForGame g = Inr key" and "u > 0"
    and "members s' = (members s)(key := List.insert (show_nat (nat u)) (members s key))"
  shows "set_voters s' g = insert u (set_voters s g)"
  using assms(2) by (auto simp: set_voters_key [OF assms(1)] assms(3) eq_nat_nat_iff)

lemma set_voters_remove:
  assumes "set_ok s" and "keyForGame g = Inr key" and "u > 0"
    and "members s' = (members s)(key := remove1 (show_nat (nat u)) (members s key))"
  shows "set_voters s' g = set_voters s g - {u}"
  using assms(1,3) by (auto simp: set_voters_key [OF assms(2)] assms(4) set_ok_def set_remove1_eq eq_nat_nat_iff)

lemma same_members: "members s' = members s \<Longrightarrow> set_voters s' = set_voters s \<and> set_ok s' = set_ok s"
  by (auto simp: set_voters_def set_ok_def fun_eq_iff split: sum.split)

interpretation redis_votes: vote_store "redis_add set_redis" "redis_remove set_redis" "redis_clear set_redis" set_voters set_ok
proof
  fix s g u n s' e b
  assume ok: "set_ok s"
  show "redis_add set_redis g u s = (Inr n, s') \<Longrightarrow> set_ok s' \<and> set_voters s' g = insert u (set_voters s g) \<and>
      n = card (set_voters s' g) \<and> (\<forall>h. h \<noteq> g \<longrightarrow> set_voters s' h = set_voters s h)"
  proof -
    assume "redis_add set_redis g u s = (Inr n, s')"
    from redis_add_states [OF this] obtain key where k: "keyForGame g = Inr key" "u > 0"
        "members s' = (members s)(key := List.insert (show_nat (nat u)) (members s key))" "n = length (members s' key)"
      by auto
    have ok': "set_ok s'"
      by (rule set_ok_insert [OF ok k(2,3)])
    show ?thesis
      using ok' set_voters_insert [OF k(1-3)] card_set_voters(2) [OF ok' k(1)] k(4) set_voters_other [OF k(1), of _ s' s]
      by (simp add: k(3))
  qed
  show "redis_add set_redis g u s = (Inl e, s') \<Longrightarrow> set_ok s' \<and> set_voters s' g \<subseteq> insert u (set_voters s g) \<and>
      (\<forall>h. h \<noteq> g \<longrightarrow> set_voters s' h = set_voters s h)"
  proof -
    assume "redis_add set_redis g u s = (Inl e, s')"
    from redis_add_states [OF this] show ?thesis
    proof (elim disjE exE conjE)
      fix e' assume "members s' = members s"
      then show ?thesis using same_members [of s' s] ok by auto
    next
      fix key assume k: "keyForGame g = Inr key" "u > 0"
        "members s' = (members s)(key := List.insert (show_nat (nat u)) (members s key))"
      show ?thesis
        using set_ok_insert [OF ok k(2,3)] set_voters_insert [OF k] set_voters_other [OF k(1), of _ s' s] by (simp add: k(3))
    qed
  qed
  show "redis_remove set_redis g u s = (b, s') \<Longrightarrow> set_ok s' \<and> set_voters s' g \<subseteq> set_voters s g \<and>
      (b \<longrightarrow> set_voters s' g = set_voters s g - {u}) \<and> (\<forall>h. h \<noteq> g \<longrightarrow> set_voters s' h = set_voters s h)"
  proof -
    assume r: "redis_remove set_redis g u s = (b, s')"
    then consider "members s' = members s" "\<not> b"
      | key where "keyForGame g = Inr key" "u > 0" "members s' = (members s)(key := remove1 (show_nat (nat u)) (members s key))"
      by (auto simp: redis_remove_def set_redis_def serve_def assertUserId_def split: sum.splits if_splits)
    then show ?thesis
    proof cases
      case 1
      then show ?thesis using same_members [of s' s] ok by auto
    next
      case 2
      show ?thesis
        using set_ok_remove1 [OF ok 2(3)] set_voters_remove [OF ok 2] set_voters_other [OF 2(1), of _ s' s] by (auto simp: 2(3))
    qed
  qed
  show "redis_clear set_redis g s = (b, s') \<Longrightarrow> set_ok s' \<and> set_voters s' g \<subseteq> set_voters s g \<and>
      (b \<longrightarrow> set_voters s' g = {}) \<and> (\<forall>h. h \<noteq> g \<longrightarrow> set_voters s' h = set_voters s h)"
  proof -
    assume r: "redis_clear set_redis g s = (b, s')"
    then consider "members s' = members s" "\<not> b"
      | key where "keyForGame g = Inr key" "members s' = (members s)(key := [])"
      by (auto simp: redis_clear_def set_redis_def serve_def split: sum.splits if_splits)
    then show ?thesis
    proof cases
      case 1
      then show ?thesis using same_members [of s' s] ok by auto
    next
      case 2
      have "set_ok s'"
        using ok by (auto simp: set_ok_def 2(2))
      then show ?thesis
        using set_voters_other [OF 2(1), of _ s' s] by (auto simp: set_voters_key [OF 2(1)] 2(2))
    qed
  qed
  show "finite (set_voters s g)"
    using card_set_voters(1) [OF ok] by (cases "keyForGame g") (auto simp: set_voters_def)
qed

section \<open>Which backend\<close>

definition resolve_mode :: "string option \<Rightarrow> string option \<Rightarrow> (string, string) result" where
  "resolve_mode mode env =
     (let resolved = (case mode of Some m \<Rightarrow> m
        | None \<Rightarrow> to_lower (case env of Some e \<Rightarrow> (if e = [] then ''local'' else e) | None \<Rightarrow> ''local''))
      in if resolved \<noteq> ''local'' \<and> resolved \<noteq> ''redis''
         then Inl (''FATAL: SOCKET_ADAPTER must be local|redis (got '' @ resolved @ '')'') else Inr resolved)"

text \<open>
  C18. A rematch needs both players. With either backend, an accepted vote that answers with a
  count of two or more was cast while another player's vote for the same game was on record;
  repeating one's own vote never reaches the quorum. Votes for one game never count for
  another, and on the shared backend this holds whichever commands the store fails.
\<close>

theorem rematch_quorum:
  "(local_ok v \<longrightarrow> local_add g u v = (Inr n, v') \<longrightarrow> n \<ge> 2 \<longrightarrow> (\<exists>w \<in> local_voters v g. w \<noteq> u)) \<and>
   (set_ok s \<longrightarrow> redis_add set_redis g u s = (Inr k, s') \<longrightarrow> k \<ge> 2 \<longrightarrow> (\<exists>w \<in> set_voters s g. w \<noteq> u)) \<and>
   (set_ok s \<longrightarrow> h \<noteq> g \<longrightarrow> set_voters (snd (redis_add set_redis g u s)) h = set_voters s h)"
proof (intro conjI impI)
  assume "local_ok v" "local_add g u v = (Inr n, v')" "n \<ge> 2"
  then show "\<exists>w \<in> local_voters v g. w \<noteq> u"
    by (rule local_votes.quorum_two_voters)
next
  assume "set_ok s" "redis_add set_redis g u s = (Inr k, s')" "k \<ge> 2"
  then show "\<exists>w \<in> set_voters s g. w \<noteq> u"
    by (rule redis_votes.quorum_two_voters)
next
  assume ok: "set_ok s" and "h \<noteq> g"
  obtain r t where q: "redis_add set_redis g u s = (r, t)"
    by (cases "redis_add set_redis g u s")
  show "set_voters (snd (redis_add set_redis g u s)) h = set_voters s h"
  proof (cases r)
    case (Inl e)
    then show ?thesis
      using redis_votes.add_failed [OF ok, of g u e t] q \<open>h \<noteq> g\<close> by simp
  next
    case (Inr m)
    then show ?thesis
      using redis_votes.add_ok [OF ok, of g u m t] q \<open>h \<noteq> g\<close> by simp
  qed
qed

theorem rematch_quorum_witness:
  "\<exists>w \<in> local_voters ((\<lambda>_. None)(''rematch:7'' := Some [1])) 7. w \<noteq> 2"
proof -
  let ?v = "(\<lambda>_. None)(''rematch:7'' := Some [1]) :: local_votes"
  have k: "keyForGame 7 = Inr ''rematch:7''"
    by code_simp
  then have "local_add 7 2 ?v = (Inr 2, ?v(''rematch:7'' := Some [2, 1]))"
    by (auto simp: local_add_def assertUserId_def Let_def List.insert_def)
  moreover have "local_ok ?v"
    by (simp add: local_ok_def)
  ultimately show ?thesis
    using rematch_quorum by (metis order_refl)
qed

end
