(* ===== verification/GameSocket.thy ===== *)
theory GameSocket
  imports GameTx RematchVotes "HOL-Library.AList"
begin

text \<open>
  The game server's socket handlers and room cache (socket/gameSocket.js). The cache maps room
  ids to rooms in insertion order; every room can be rebuilt from the database, which every
  handler does before it decides anything. A handler takes the state of the server process and
  returns the next state and the messages it sends. The tasks of one room run one after the
  other (\<open>roomTask\<close>), so a handler is one step; what it reads from outside - the clock, whether
  the database answers, who is present in the cluster - is its environment.
\<close>

section \<open>State\<close>

record 'v vote_ops =
  vo_add :: "int \<Rightarrow> int \<Rightarrow> 'v \<Rightarrow> (vote_error, nat) result \<times> 'v"
  vo_remove :: "int \<Rightarrow> int \<Rightarrow> 'v \<Rightarrow> bool \<times> 'v"
  vo_clear :: "int \<Rightarrow> 'v \<Rightarrow> bool \<times> 'v"

record ('c, 'v) server =
  sv_rooms :: "(string \<times> 'c room) list"
  sv_db :: db
  sv_votes :: 'v
  sv_draining :: bool

text \<open>
  \<open>e_query\<close>: the snapshot query is answered; \<open>e_tx\<close>: a transaction reaches the database;
  \<open>e_present\<close>: the user ids of the sockets in the room, None when the presence query fails.
\<close>

record env =
  e_now :: int
  e_query :: bool
  e_tx :: bool
  e_present :: "nat list option"

record client =
  ck_socket :: string
  ck_user :: nat
  ck_name :: string

record history_move =
  hm_from :: string
  hm_to :: string
  hm_promotion :: "string option"
  hm_san :: "string option"

datatype msg =
    Error string
  | Room_created string string
  | Game_start string "(string option \<times> string \<times> string \<times> nat option) list" string string "history_move list"
  | Room_rejoined string string string string
  | Move_made canonical string string nat "history_move list"
  | Game_ended string "string option" nat int "settlement option"
  | Rematch_requested
  | Chat_message string string string int
  | Opponent_disconnected
  | Acknowledge "string option"

datatype out =
    To_socket string msg
  | To_room string msg
  | To_others string string msg
  | Join string string
  | Leave string string

section \<open>Room ids\<close>

text \<open>Five random bytes in base64url (seven characters), in upper case.\<close>

definition B64URL :: string where
  "B64URL = ''ABCDEFGHIJKLMNOPQRSTUVWXYZabcdefghijklmnopqrstuvwxyz0123456789-_''"

definition base64url5 :: "nat \<Rightarrow> string" where
  "base64url5 n =
     map (\<lambda>i. B64URL ! (n div 2 ^ (34 - 6 * i) mod 64)) [0 ..< 6] @ [B64URL ! (n mod 16 * 4)]"

text \<open>The forty random bits, drawn again while the id is in use; None when the draws run out.\<close>

fun generateRoomId :: "('c, 'v) server \<Rightarrow> nat list \<Rightarrow> string option" where
  "generateRoomId sv [] = None"
| "generateRoomId sv (n # ns) =
     (let id = to_upper (take 8 (base64url5 (n mod 2 ^ 40)))
      in if map_of (sv_rooms sv) id \<noteq> None then generateRoomId sv ns else Some id)"

definition room_id_char :: "char \<Rightarrow> bool" where
  "room_id_char c \<longleftrightarrow> List.member ''ABCDEFGHIJKLMNOPQRSTUVWXYZ0123456789-_'' c"

definition normalizeRoomId :: "string \<Rightarrow> string option" where
  "normalizeRoomId roomId =
     (let normalized = to_upper roomId
      in if length normalized = 7 \<and> list_all room_id_char normalized then Some normalized else None)"

section \<open>Materializing rooms\<close>

definition isMaterializable :: "game_row \<Rightarrow> bool" where
  "isMaterializable g \<longleftrightarrow> g_status g = ''in_progress'' \<or> g_status g = ''finished''"

fun replay_moves :: "'c chess_lib \<Rightarrow> 'c \<Rightarrow> move_row list \<Rightarrow> 'c option" where
  "replay_moves cl c [] = Some c"
| "replay_moves cl c (m # ms) =
     (case cl_move cl c \<lparr>q_from = Some (m_from m), q_to = Some (m_to m), q_promotion = m_promotion m\<rparr> of
        None \<Rightarrow> None | Some (c', _) \<Rightarrow> replay_moves cl c' ms)"

text \<open>\<open>game.board_fen || persistedMoves.at(-1)?.fen_after\<close>, then a replay.\<close>

definition recover_chess :: "'c chess_lib \<Rightarrow> game_row \<Rightarrow> move_row list \<Rightarrow> 'c option" where
  "recover_chess cl g ms =
     (let checkpoint = (if g_fen g \<noteq> [] then Some (g_fen g)
                        else if ms = [] then None else m_fen (last ms))
      in if truthy checkpoint then cl_load cl (the checkpoint)
         else replay_moves cl (cl_new cl) ms)"

definition snapshot_status :: "game_row \<Rightarrow> nat \<Rightarrow> room_status" where
  "snapshot_status g n = (if g_status g = ''finished'' then Ended else if n = 2 then Playing else Waiting)"

definition snapshot_players :: "game_row \<Rightarrow> seat list" where
  "snapshot_players g =
     \<lparr>seat_socket = None, seat_name = (case g_white_name g of None \<Rightarrow> [] | Some n \<Rightarrow> n), seat_color = ''w'', seat_user = g_white g\<rparr> #
     (if truthy (g_black_name g)
      then [\<lparr>seat_socket = None, seat_name = the (g_black_name g), seat_color = ''b'', seat_user = g_black g\<rparr>] else [])"

definition room_of_snapshot :: "'c chess_lib \<Rightarrow> game_row \<Rightarrow> move_row list \<Rightarrow> 'c \<Rightarrow> 'c room" where
  "room_of_snapshot cl g ms chess =
     (let players = snapshot_players g in
      \<lparr>r_id = (case g_room g of None \<Rightarrow> [] | Some r \<Rightarrow> r), r_game = g_id g, r_players = players, r_chess = chess,
       r_board = cl_fen cl chess, r_turn = cl_turn cl chess, r_status = snapshot_status g (length players),
       r_moves = ms, r_created = g_started g, r_recovered = True, r_result = g_result g, r_winner = g_winner g\<rparr>)"

text \<open>A corrupt game is abandoned and gives no room.\<close>

definition buildRoomFromSnapshot ::
  "'c chess_lib \<Rightarrow> int \<Rightarrow> game_row \<Rightarrow> move_row list \<Rightarrow> 'c room option query" where
  "buildRoomFromSnapshot cl now g ms =
     (case recover_chess cl g ms of
        None \<Rightarrow> qbind (abandonMany now [g_id g]) (\<lambda>_. qreturn None)
      | Some chess \<Rightarrow> qreturn (Some (room_of_snapshot cl g ms chess)))"

definition set_room :: "'c room \<Rightarrow> ('c, 'v) server \<Rightarrow> ('c, 'v) server" where
  "set_room room sv = sv\<lparr>sv_rooms := AList.update (r_id room) room (sv_rooms sv)\<rparr>"

definition delete_room :: "string \<Rightarrow> ('c, 'v) server \<Rightarrow> ('c, 'v) server" where
  "delete_room key sv = sv\<lparr>sv_rooms := AList.delete key (sv_rooms sv)\<rparr>"

definition get_room :: "string \<Rightarrow> ('c, 'v) server \<Rightarrow> 'c room option" where
  "get_room key sv = map_of (sv_rooms sv) key"

text \<open>Run a query of the models on the server's database.\<close>

definition run_q :: "'a query \<Rightarrow> ('c, 'v) server \<Rightarrow> (db_error, 'a) result \<times> ('c, 'v) server" where
  "run_q q sv = (let (r, d) = q (sv_db sv) in (r, sv\<lparr>sv_db := d\<rparr>))"

fun rebuild_rooms ::
  "'c chess_lib \<Rightarrow> int \<Rightarrow> (game_row \<times> move_row list) list \<Rightarrow> ('c, 'v) server \<Rightarrow> (db_error, unit) result \<times> ('c, 'v) server" where
  "rebuild_rooms cl now [] sv = (Inr (), sv)"
| "rebuild_rooms cl now ((g, ms) # rest) sv =
     (case run_q (buildRoomFromSnapshot cl now g ms) sv of
        (Inl err, sv1) \<Rightarrow> (Inl err, sv1)
      | (Inr None, sv1) \<Rightarrow> rebuild_rooms cl now rest sv1
      | (Inr (Some room), sv1) \<Rightarrow> rebuild_rooms cl now rest (set_room room sv1))"

text \<open>A failed query is thrown to the startup of the server.\<close>

definition rebuildActiveRooms :: "'c chess_lib \<Rightarrow> int \<Rightarrow> ('c, 'v) server \<Rightarrow> (db_error, nat) result \<times> ('c, 'v) server" where
  "rebuildActiveRooms cl now sv =
     (let sv0 = sv\<lparr>sv_rooms := []\<rparr> in
      case run_q findRecoverable sv0 of
        (Inl err, sv1) \<Rightarrow> (Inl err, sv1)
      | (Inr gs, sv1) \<Rightarrow>
          (case rebuild_rooms cl now gs sv1 of
             (Inl err, sv2) \<Rightarrow> (Inl err, sv2)
           | (Inr _, sv2) \<Rightarrow> (Inr (length (sv_rooms sv2)), sv2)))"

definition hydrateRoom :: "'c chess_lib \<Rightarrow> env \<Rightarrow> string \<Rightarrow> ('c, 'v) server \<Rightarrow> 'c room option \<times> ('c, 'v) server" where
  "hydrateRoom cl e key sv =
     (if \<not> e_query e then (None, sv)
      else (case run_q (findRoomSnapshot key) sv of
          (Inr (Some (g, ms)), sv1) \<Rightarrow>
            if \<not> isMaterializable g then (None, sv1)
            else (case run_q (buildRoomFromSnapshot cl (e_now e) g ms) sv1 of
                (Inr (Some room), sv2) \<Rightarrow> (Some room, set_room room sv2)
              | (_, sv2) \<Rightarrow> (None, sv2))
        | (_, sv1) \<Rightarrow> (None, sv1)))"

definition getRoom :: "'c chess_lib \<Rightarrow> env \<Rightarrow> string \<Rightarrow> ('c, 'v) server \<Rightarrow> 'c room option \<times> ('c, 'v) server" where
  "getRoom cl e roomId sv =
     (case normalizeRoomId roomId of
        None \<Rightarrow> (None, sv)
      | Some key \<Rightarrow> (case get_room key sv of Some room \<Rightarrow> (Some room, sv) | None \<Rightarrow> hydrateRoom cl e key sv))"

definition getCachedRoom :: "string \<Rightarrow> ('c, 'v) server \<Rightarrow> 'c room option" where
  "getCachedRoom roomId sv =
     (case normalizeRoomId roomId of None \<Rightarrow> None | Some key \<Rightarrow> get_room key sv)"

definition socketless :: "'c room \<Rightarrow> bool" where
  "socketless room \<longleftrightarrow> list_all (\<lambda>p. seat_socket p = None) (r_players room)"

definition evictIfSocketless :: "string \<Rightarrow> ('c, 'v) server \<Rightarrow> ('c, 'v) server" where
  "evictIfSocketless key sv =
     (case get_room key sv of
        Some live \<Rightarrow> if socketless live then delete_room key sv else sv
      | None \<Rightarrow> sv)"

text \<open>
  The local sockets of the live entry, by user id; of two entries with one user id the later
  one counts, as in the source's \<open>new Map(...)\<close>.
\<close>

definition socket_of :: "seat list \<Rightarrow> nat option \<Rightarrow> string option" where
  "socket_of players u =
     (case filter (\<lambda>p. seat_user p = u) players of [] \<Rightarrow> None | p # ps \<Rightarrow> seat_socket (last (p # ps)))"

definition reattach :: "seat list \<Rightarrow> 'c room \<Rightarrow> 'c room" where
  "reattach players room =
     room\<lparr>r_players := map (\<lambda>p. p\<lparr>seat_socket := socket_of players (seat_user p)\<rparr>) (r_players room)\<rparr>"

definition refreshRoomFromDb ::
  "'c chess_lib \<Rightarrow> env \<Rightarrow> 'c room \<Rightarrow> ('c, 'v) server \<Rightarrow> 'c room option \<times> ('c, 'v) server" where
  "refreshRoomFromDb cl e room sv =
     (if \<not> e_query e then (None, sv)
      else (case run_q (findRoomSnapshot (r_id room)) sv of
          (Inr (Some (g, ms)), sv1) \<Rightarrow>
            if \<not> isMaterializable g then (None, delete_room (r_id room) sv1)
            else (case run_q (buildRoomFromSnapshot cl (e_now e) g ms) sv1 of
                (Inr (Some rebuilt), sv2) \<Rightarrow>
                  let current = (case get_room (r_id room) sv2 of Some c \<Rightarrow> c | None \<Rightarrow> room);
                      rebuilt = reattach (r_players current) rebuilt
                  in (Some rebuilt, sv2\<lparr>sv_rooms := AList.update (r_id room) rebuilt (sv_rooms sv2)\<rparr>)
              | (_, sv2) \<Rightarrow> (None, delete_room (r_id room) sv2))
        | (_, sv1) \<Rightarrow> (None, delete_room (r_id room) sv1)))"

section \<open>Handlers\<close>

definition run_tx :: "env \<Rightarrow> 'a query \<Rightarrow> ('c, 'v) server \<Rightarrow> (db_error, 'a) result \<times> ('c, 'v) server" where
  "run_tx e q sv = (if e_tx e then run_q q sv else (Inl (Thrown ''connection lost''), sv))"

definition publicPlayers :: "'c room \<Rightarrow> (string option \<times> string \<times> string \<times> nat option) list" where
  "publicPlayers room = map (\<lambda>p. (seat_socket p, seat_name p, seat_color p, seat_user p)) (r_players room)"

definition historyOf :: "'c room \<Rightarrow> history_move list" where
  "historyOf room = map (\<lambda>m. \<lparr>hm_from = m_from m, hm_to = m_to m, hm_promotion = m_promotion m, hm_san = m_san m\<rparr>) (r_moves room)"

definition presenceByUser :: "env \<Rightarrow> nat option list \<Rightarrow> nat list" where
  "presenceByUser e userIds =
     (case e_present e of
        None \<Rightarrow> []
      | Some seen \<Rightarrow> filter (\<lambda>i. List.member userIds (Some i)) seen)"

definition all_present :: "env \<Rightarrow> 'c room \<Rightarrow> bool" where
  "all_present e room =
     (let present = presenceByUser e (map seat_user (r_players room)) in
      list_all (\<lambda>p. case seat_user p of None \<Rightarrow> False | Some i \<Rightarrow> List.member present i) (r_players room))"

definition my_seat :: "client \<Rightarrow> 'c room \<Rightarrow> seat option" where
  "my_seat ck room = find (\<lambda>p. seat_socket p = Some (ck_socket ck)) (r_players room)"

definition winner_name :: "string option \<Rightarrow> 'c room \<Rightarrow> string option" where
  "winner_name col room = map_option seat_name (find (\<lambda>p. Some (seat_color p) = col) (r_players room))"

definition endedPayload :: "env \<Rightarrow> 'c room \<Rightarrow> string \<Rightarrow> string option \<Rightarrow> settlement option \<Rightarrow> msg" where
  "endedPayload e room res winner elo = Game_ended res winner (length (r_moves room)) (room_duration (e_now e) room) elo"

definition end_room :: "string \<Rightarrow> string option \<Rightarrow> 'c room \<Rightarrow> 'c room" where
  "end_room res winnerColor room = room\<lparr>r_status := Ended, r_result := Some res, r_winner := winnerColor\<rparr>"

definition create_room ::
  "'c chess_lib \<Rightarrow> env \<Rightarrow> client \<Rightarrow> string \<Rightarrow> nat list \<Rightarrow> ('c, 'v) server \<Rightarrow> ('c, 'v) server \<times> out list" where
  "create_room cl e ck playerName draws sv =
     (let name = (if ck_name ck \<noteq> [] then ck_name ck else take 20 playerName);
          failed = [To_socket (ck_socket ck) (Error ''Unable to create room'')] in
      case generateRoomId sv draws of
        None \<Rightarrow> (sv, failed)
      | Some roomId \<Rightarrow>
          (case run_tx e (game_create (e_now e) roomId (Some (ck_user ck)) name ''multiplayer'') sv of
             (Inl err, sv1) \<Rightarrow> (sv1, failed)
           | (Inr g, sv1) \<Rightarrow>
               (case cl_load cl (g_fen g) of
                  None \<Rightarrow> (sv1, failed)
                | Some chess \<Rightarrow>
                    let room = \<lparr>r_id = roomId, r_game = g_id g,
                          r_players = [\<lparr>seat_socket = Some (ck_socket ck), seat_name = name, seat_color = ''w'', seat_user = Some (ck_user ck)\<rparr>],
                          r_chess = chess, r_board = cl_fen cl chess, r_turn = ''w'', r_status = Waiting, r_moves = [],
                          r_created = e_now e, r_recovered = False, r_result = None, r_winner = None\<rparr>
                    in (set_room room sv1,
                        [Join (ck_socket ck) roomId, To_socket (ck_socket ck) (Room_created roomId ''w'')]))))"

fun update_first :: "('a \<Rightarrow> bool) \<Rightarrow> ('a \<Rightarrow> 'a) \<Rightarrow> 'a list \<Rightarrow> 'a list" where
  "update_first P f [] = []"
| "update_first P f (x # xs) = (if P x then f x # xs else x # update_first P f xs)"

text \<open>Taking a seat: a reconnect, or the claim of the black seat; an error text otherwise.\<close>

definition take_seat ::
  "env \<Rightarrow> client \<Rightarrow> 'c room \<Rightarrow> ('c, 'v) server \<Rightarrow> (string, 'c room) result \<times> ('c, 'v) server" where
  "take_seat e ck live sv =
     (let mine = (\<lambda>p. seat_user p = Some (ck_user ck)); free = (\<lambda>p. mine p \<and> seat_socket p = None) in
      if list_ex free (r_players live) then
        (Inr (live\<lparr>r_players := update_first free (\<lambda>p. p\<lparr>seat_socket := Some (ck_socket ck)\<rparr>) (r_players live)\<rparr>), sv)
      else if list_ex mine (r_players live) then (Inl ''Already joined'', sv)
      else if length (r_players live) \<ge> 2 \<or> r_status live \<noteq> Waiting then (Inl ''Room is full'', sv)
      else
        (case run_tx e (claimBlack (r_game live) (Some (ck_user ck)) (ck_name ck)) sv of
           (Inr (Some g), sv1) \<Rightarrow>
             (Inr (live\<lparr>r_players := r_players live @
                 [\<lparr>seat_socket = Some (ck_socket ck), seat_name = ck_name ck, seat_color = ''b'', seat_user = Some (ck_user ck)\<rparr>],
               r_status := Playing\<rparr>), sv1)
         | (_, sv1) \<Rightarrow> (Inl ''Room is full'', sv1)))"

definition join_messages :: "env \<Rightarrow> client \<Rightarrow> 'c room \<Rightarrow> out list" where
  "join_messages e ck live =
     Join (ck_socket ck) (r_id live) #
     (if r_status live = Ended then
        [To_socket (ck_socket ck) (endedPayload e live (case r_result live of None \<Rightarrow> [] | Some r \<Rightarrow> r)
           (winner_name (r_winner live) live) None)]
      else if length (r_players live) = 2 \<and> all_present e live then
        [To_room (r_id live) (Game_start (r_id live) (publicPlayers live) (r_turn live) (r_board live) (historyOf live))]
      else
        [To_socket (ck_socket ck) (Room_rejoined (r_id live)
           (case my_seat ck live of None \<Rightarrow> ''b'' | Some p \<Rightarrow> seat_color p) (r_board live) (r_turn live))])"

definition join_room ::
  "'c chess_lib \<Rightarrow> env \<Rightarrow> client \<Rightarrow> string \<Rightarrow> ('c, 'v) server \<Rightarrow> ('c, 'v) server \<times> out list" where
  "join_room cl e ck roomId sv =
     (let err = (\<lambda>m. [To_socket (ck_socket ck) (Error m)]) in
      case getRoom cl e roomId sv of
        (None, sv1) \<Rightarrow> (sv1, err ''Room not found'')
      | (Some room, sv1) \<Rightarrow>
          if sv_draining sv1 then (evictIfSocketless (r_id room) sv1, err ''Room is full'')
          else
            (case refreshRoomFromDb cl e room sv1 of
               (None, sv2) \<Rightarrow> (sv2, err ''Room not found'')
             | (Some live, sv2) \<Rightarrow>
                 (case take_seat e ck live sv2 of
                    (Inl m, sv3) \<Rightarrow> (evictIfSocketless (r_id room) sv3, err m)
                  | (Inr live', sv3) \<Rightarrow> (set_room live' sv3, join_messages e ck live'))))"

text \<open>The common part of the game-ending handlers: finalize, then end the room and tell it.\<close>

definition finalize_room ::
  "env \<Rightarrow> 'c room \<Rightarrow> string \<Rightarrow> string option \<Rightarrow> ('c, 'v) server \<Rightarrow> (db_error, settlement) result \<times> ('c, 'v) server \<times> out list" where
  "finalize_room e live res winnerColor sv =
     (case run_tx e (finalizeGameAtomic (e_now e) live res winnerColor) sv of
        (Inl err, sv1) \<Rightarrow> (Inl err, sv1, [])
      | (Inr f, sv1) \<Rightarrow>
          if settled f then
            (Inr f, set_room (end_room res winnerColor live) sv1,
             [To_room (r_id live) (endedPayload e live res (winner_name winnerColor live) (Some f))])
          else (Inr f, sv1, []))"

definition over_result :: "'c chess_lib \<Rightarrow> 'c \<Rightarrow> string \<times> string option" where
  "over_result cl c =
     (if cl_mate cl c then (''checkmate'', Some (other_color (cl_turn cl c))) else (''draw'', None))"

definition make_move ::
  "'c chess_lib \<Rightarrow> env \<Rightarrow> client \<Rightarrow> string \<Rightarrow> request \<Rightarrow> ('c, 'v) server \<Rightarrow> ('c, 'v) server \<times> out list" where
  "make_move cl e ck roomId req sv =
     (let err = (\<lambda>m. [To_socket (ck_socket ck) (Error m)]) in
      case getCachedRoom roomId sv of
        None \<Rightarrow> (sv, err ''Game not available'')
      | Some room \<Rightarrow>
          if sv_draining sv then (sv, err ''Unable to process move'')
          else
            (case refreshRoomFromDb cl e room sv of
               (None, sv1) \<Rightarrow> (sv1, err ''Game not available'')
             | (Some live, sv1) \<Rightarrow>
                 if r_status live \<noteq> Playing then (sv1, [])
                 else
                   (case my_seat ck live of
                      None \<Rightarrow> (sv1, err ''Not your turn'')
                    | Some p \<Rightarrow>
                        if seat_color p \<noteq> r_turn live then (sv1, err ''Not your turn'')
                        else
                          (case run_tx e (persistMoveAtomic cl (r_game live) (seat_color p) req) sv1 of
                             (Inl x, sv2) \<Rightarrow> (sv2, err ''Unable to record move'')
                           | (Inr None, sv2) \<Rightarrow> (sv2, err ''Illegal move'')
                           | (Inr (Some (chess, canonical, rec)), sv2) \<Rightarrow>
                               let live' = live\<lparr>r_chess := chess, r_board := cl_fen cl chess, r_turn := cl_turn cl chess,
                                                r_moves := r_moves live @ [rec]\<rparr>;
                                   sv3 = set_room live' sv2;
                                   made = [To_room (r_id live') (Move_made canonical (r_board live') (r_turn live')
                                             (length (r_moves live')) (historyOf live'))]
                               in if cl_over cl chess then
                                    let (res, winnerColor) = over_result cl chess in
                                    (case finalize_room e live' res winnerColor sv3 of
                                       (Inl x, sv4, out) \<Rightarrow> (sv4, made @ err ''Move recorded; unable to finalize game'')
                                     | (Inr f, sv4, out) \<Rightarrow> (sv4, made @ out))
                                  else (sv3, made)))))"

definition game_over ::
  "'c chess_lib \<Rightarrow> env \<Rightarrow> client \<Rightarrow> string \<Rightarrow> ('c, 'v) server \<Rightarrow> ('c, 'v) server \<times> out list" where
  "game_over cl e ck roomId sv =
     (let err = (\<lambda>m. [To_socket (ck_socket ck) (Error m)]) in
      case getCachedRoom roomId sv of
        None \<Rightarrow> (sv, [])
      | Some room \<Rightarrow>
          if sv_draining sv then (sv, err ''Unable to finalize game'')
          else
            (case refreshRoomFromDb cl e room sv of
               (None, sv1) \<Rightarrow> (sv1, [])
             | (Some live, sv1) \<Rightarrow>
                 if my_seat ck live = None then (sv1, err ''Not authorized'')
                 else if \<not> cl_over cl (r_chess live) then (sv1, err ''Game not over'')
                 else if r_status live = Ended then (sv1, [])
                 else
                   let res = fst (over_result cl (r_chess live));
                       winnerColor = (if res = ''checkmate'' then Some (other_color (r_turn live)) else None) in
                   (case finalize_room e live res winnerColor sv1 of
                      (Inl x, sv2, out) \<Rightarrow> (sv2, err ''Unable to finalize game'')
                    | (Inr f, sv2, out) \<Rightarrow> (sv2, out))))"

definition opponent_color :: "seat \<Rightarrow> 'c room \<Rightarrow> string option" where
  "opponent_color p room = map_option seat_color (find (\<lambda>q. seat_color q \<noteq> seat_color p) (r_players room))"

definition resign ::
  "'c chess_lib \<Rightarrow> env \<Rightarrow> client \<Rightarrow> string \<Rightarrow> ('c, 'v) server \<Rightarrow> ('c, 'v) server \<times> out list" where
  "resign cl e ck roomId sv =
     (let err = (\<lambda>m. [To_socket (ck_socket ck) (Error m)]) in
      case getCachedRoom roomId sv of
        None \<Rightarrow> (sv, [])
      | Some room \<Rightarrow>
          if sv_draining sv then (sv, err ''Unable to resign'')
          else
            (case refreshRoomFromDb cl e room sv of
               (None, sv1) \<Rightarrow> (sv1, [])
             | (Some live, sv1) \<Rightarrow>
                 if r_status live \<noteq> Playing then (sv1, [])
                 else
                   (case my_seat ck live of
                      None \<Rightarrow> (sv1, err ''Not authorized'')
                    | Some p \<Rightarrow>
                        (case finalize_room e live ''resign'' (opponent_color p live) sv1 of
                           (Inl x, sv2, out) \<Rightarrow> (sv2, err ''Unable to resign'')
                         | (Inr f, sv2, out) \<Rightarrow> (sv2, out)))))"

definition request_rematch :: "client \<Rightarrow> string \<Rightarrow> ('c, 'v) server \<Rightarrow> out list" where
  "request_rematch ck roomId sv =
     (case getCachedRoom roomId sv of
        None \<Rightarrow> []
      | Some room \<Rightarrow> if my_seat ck room \<noteq> None \<and> r_status room = Ended
                     then [To_others (ck_socket ck) (r_id room) Rematch_requested] else [])"

definition switch_colors :: "seat list \<Rightarrow> seat list" where
  "switch_colors = map (\<lambda>p. p\<lparr>seat_color := other_color (seat_color p)\<rparr>)"

definition user_key :: "seat \<Rightarrow> int" where
  "user_key p = (case seat_user p of None \<Rightarrow> 0 | Some i \<Rightarrow> int i)"

definition REMATCH_QUORUM :: nat where
  "REMATCH_QUORUM = 2"

text \<open>The part of \<open>accept_rematch\<close> after the quorum: the transaction and the new game in the room.\<close>

definition start_rematch ::
  "'c chess_lib \<Rightarrow> 'v vote_ops \<Rightarrow> env \<Rightarrow> 'c room \<Rightarrow> ('c, 'v) server \<Rightarrow> out list option \<times> ('c, 'v) server" where
  "start_rematch cl V e live sv =
     (let switched = switch_colors (r_players live) in
      case (find (\<lambda>p. seat_color p = ''w'') switched, find (\<lambda>p. seat_color p = ''b'') switched) of
        (Some white, Some black) \<Rightarrow>
          (case run_tx e (rematch_tx (e_now e) (r_game live) (r_id live) (seat_user white) (seat_name white)
                            (seat_user black) (seat_name black)) sv of
             (Inl err, sv1) \<Rightarrow> (None, sv1)
           | (Inr g, sv1) \<Rightarrow>
               (case cl_load cl (g_fen g) of
                  None \<Rightarrow> (None, sv1)
                | Some chess \<Rightarrow>
                    let live' = live\<lparr>r_game := g_id g, r_players := switched, r_chess := chess, r_board := cl_fen cl chess,
                                     r_turn := ''w'', r_moves := [], r_created := e_now e, r_status := Playing,
                                     r_result := None, r_winner := None\<rparr>;
                        sv2 = set_room live' sv1;
                        sv3 = sv2\<lparr>sv_votes := snd (vo_clear V (int (r_game live)) (sv_votes sv2))\<rparr>
                    in (Some [To_room (r_id live') (Game_start (r_id live') (publicPlayers live') ''w'' (r_board live') [])], sv3)))
      | _ \<Rightarrow> (None, sv))"

definition accept_rematch ::
  "'c chess_lib \<Rightarrow> 'v vote_ops \<Rightarrow> env \<Rightarrow> client \<Rightarrow> string \<Rightarrow> ('c, 'v) server \<Rightarrow> ('c, 'v) server \<times> out list" where
  "accept_rematch cl V e ck roomId sv =
     (let err = (\<lambda>m. [To_socket (ck_socket ck) (Error m)]) in
      case getCachedRoom roomId sv of
        None \<Rightarrow> (sv, [])
      | Some room \<Rightarrow>
          if sv_draining sv then (sv, err ''Unable to start rematch'')
          else
            (case refreshRoomFromDb cl e room sv of
               (None, sv1) \<Rightarrow> (sv1, err ''Not authorized'')
             | (Some live, sv1) \<Rightarrow>
                 if r_status live \<noteq> Ended then (sv1, err ''Not authorized'')
                 else
                   (case my_seat ck live of
                      None \<Rightarrow> (sv1, err ''Not authorized'')
                    | Some voter \<Rightarrow>
                        (case vo_add V (int (r_game live)) (user_key voter) (sv_votes sv1) of
                           (Inl x, v) \<Rightarrow>
                             (sv1\<lparr>sv_votes := v\<rparr>,
                              err (if x = Unavailable then ''Rematch temporarily unavailable'' else ''Unable to start rematch''))
                         | (Inr n, v) \<Rightarrow>
                             let sv2 = sv1\<lparr>sv_votes := v\<rparr> in
                             if n < REMATCH_QUORUM \<or> \<not> all_present e live then (sv2, [])
                             else (case start_rematch cl V e live sv2 of
                                     (Some out, sv3) \<Rightarrow> (sv3, out)
                                   | (None, sv3) \<Rightarrow> (sv3, err ''Unable to start rematch''))))))"

definition send_message :: "env \<Rightarrow> client \<Rightarrow> string \<Rightarrow> string \<Rightarrow> ('c, 'v) server \<Rightarrow> out list" where
  "send_message e ck roomId text sv =
     (let clean = trim (take 200 text) in
      case getCachedRoom roomId sv of
        None \<Rightarrow> []
      | Some room \<Rightarrow>
          (case my_seat ck room of
             None \<Rightarrow> []
           | Some p \<Rightarrow> if clean = [] then []
                       else [To_room (r_id room) (Chat_message (seat_name p) (seat_color p) clean (e_now e))]))"

definition detach :: "client \<Rightarrow> 'c room \<Rightarrow> 'c room" where
  "detach ck room =
     room\<lparr>r_players := update_first (\<lambda>p. seat_socket p = Some (ck_socket ck)) (\<lambda>p. p\<lparr>seat_socket := None\<rparr>) (r_players room)\<rparr>"

definition forget_vote :: "'v vote_ops \<Rightarrow> 'c room \<Rightarrow> seat \<Rightarrow> ('c, 'v) server \<Rightarrow> ('c, 'v) server" where
  "forget_vote V room p sv = sv\<lparr>sv_votes := snd (vo_remove V (int (r_game room)) (user_key p) (sv_votes sv))\<rparr>"

text \<open>An ended room is dropped when its last local socket goes.\<close>

definition drop_if_done :: "'c room \<Rightarrow> ('c, 'v) server \<Rightarrow> ('c, 'v) server" where
  "drop_if_done room sv = (if r_status room = Ended \<and> socketless room then delete_room (r_id room) sv else sv)"

text \<open>
  In \<open>leave_room\<close> a seat without truth (the refresh failed) is detached in the cached entry,
  when the refresh left it there, and the game is not touched.
\<close>

definition leave_room ::
  "'c chess_lib \<Rightarrow> 'v vote_ops \<Rightarrow> env \<Rightarrow> client \<Rightarrow> string \<Rightarrow> ('c, 'v) server \<Rightarrow> ('c, 'v) server \<times> out list" where
  "leave_room cl V e ck roomId sv =
     (let ack = (\<lambda>m. [To_socket (ck_socket ck) (Acknowledge m)]) in
      case getCachedRoom roomId sv of
        None \<Rightarrow> (sv, ack None)
      | Some room \<Rightarrow>
          if sv_draining sv then (sv, ack (Some ''Unable to leave room''))
          else
            (case refreshRoomFromDb cl e room sv of
               (None, sv1) \<Rightarrow>
                 (case my_seat ck room of
                    None \<Rightarrow> (sv1, ack (Some ''Not authorized''))
                  | Some p \<Rightarrow>
                      (if get_room (r_id room) sv1 = None then sv1 else set_room (detach ck room) sv1,
                       Leave (ck_socket ck) (r_id room) # ack None))
             | (Some live, sv1) \<Rightarrow>
                 (case my_seat ck live of
                    None \<Rightarrow> (sv1, ack (Some ''Not authorized''))
                  | Some p \<Rightarrow>
                      (case (if r_status live = Playing
                             then finalize_room e live ''resign'' (opponent_color p live) sv1
                             else (Inr \<lparr>settled = False, elo_white = None, elo_black = None\<rparr>, sv1, [])) of
                         (Inl x, sv2, out) \<Rightarrow> (sv2, ack (Some ''Unable to leave room''))
                       | (Inr f, sv2, out) \<Rightarrow>
                           let live' = (if settled f then end_room ''resign'' (opponent_color p live) live else live);
                               gone = detach ck live';
                               sv3 = drop_if_done gone (forget_vote V live p (set_room gone sv2))
                           in (sv3, out @ Leave (ck_socket ck) (r_id live) # ack None)))))"

definition disconnect :: "'v vote_ops \<Rightarrow> client \<Rightarrow> ('c, 'v) server \<Rightarrow> ('c, 'v) server \<times> out list" where
  "disconnect V ck sv =
     (case find (\<lambda>(k, room). my_seat ck room \<noteq> None) (sv_rooms sv) of
        None \<Rightarrow> (sv, [])
      | Some (k, room) \<Rightarrow>
          if sv_draining sv then (sv, [])
          else
            (case my_seat ck room of
               None \<Rightarrow> (sv, [])
             | Some p \<Rightarrow>
                 let gone = detach ck room;
                     sv1 = drop_if_done gone (forget_vote V room p (set_room gone sv))
                 in (sv1, if r_status room = Playing then [To_others (ck_socket ck) (r_id room) Opponent_disconnected] else [])))"

definition touchedGameIds :: "('c, 'v) server \<Rightarrow> nat list" where
  "touchedGameIds sv = map r_game (filter (\<lambda>room. r_status room \<noteq> Ended) (map snd (sv_rooms sv)))"

text \<open>
  \<open>drainRoomOperations\<close>: for each room the time its running operation still takes (None when it
  never ends) and the budget in milliseconds; the result is the number of rooms, how many
  operations ended in time, and whether the budget ran out.
\<close>

record drain_report =
  dr_total :: nat
  dr_drained :: nat
  dr_timedOut :: bool

definition drainRoomOperations :: "nat option list \<Rightarrow> nat \<Rightarrow> drain_report" where
  "drainRoomOperations tails budget =
     (if tails = [] then \<lparr>dr_total = 0, dr_drained = 0, dr_timedOut = False\<rparr>
      else if budget = 0 then \<lparr>dr_total = length tails, dr_drained = 0, dr_timedOut = True\<rparr>
      else
        let done = filter (\<lambda>t. case t of None \<Rightarrow> False | Some n \<Rightarrow> n < budget) tails
        in \<lparr>dr_total = length tails, dr_drained = length done, dr_timedOut = length done < length tails\<rparr>)"

section \<open>The server as a state machine\<close>

datatype socket_event =
    Create_room env client string "nat list"
  | Join_room env client string
  | Make_move env client string request
  | Game_over env client string
  | Resign env client string
  | Request_rematch client string
  | Accept_rematch env client string
  | Send_message env client string string
  | Leave_room env client string
  | Disconnect client
  | Boot int

fun socket_step :: "'c chess_lib \<Rightarrow> 'v vote_ops \<Rightarrow> ('c, 'v) server \<Rightarrow> socket_event \<Rightarrow> ('c, 'v) server \<times> out list" where
  "socket_step cl V sv (Create_room e ck name draws) = create_room cl e ck name draws sv"
| "socket_step cl V sv (Join_room e ck r) = join_room cl e ck r sv"
| "socket_step cl V sv (Make_move e ck r q) = make_move cl e ck r q sv"
| "socket_step cl V sv (Game_over e ck r) = game_over cl e ck r sv"
| "socket_step cl V sv (Resign e ck r) = resign cl e ck r sv"
| "socket_step cl V sv (Request_rematch ck r) = (sv, request_rematch ck r sv)"
| "socket_step cl V sv (Accept_rematch e ck r) = accept_rematch cl V e ck r sv"
| "socket_step cl V sv (Send_message e ck r t) = (sv, send_message e ck r t sv)"
| "socket_step cl V sv (Leave_room e ck r) = leave_room cl V e ck r sv"
| "socket_step cl V sv (Disconnect ck) = disconnect V ck sv"
| "socket_step cl V sv (Boot now) = (snd (rebuildActiveRooms cl now sv), [])"

definition server_step :: "'c chess_lib \<Rightarrow> 'v vote_ops \<Rightarrow> ('c, 'v) server \<Rightarrow> socket_event \<Rightarrow> ('c, 'v) server" where
  "server_step cl V sv ev = fst (socket_step cl V sv ev)"

section \<open>Room ids\<close>

lemma B64URL_upper: "c \<in> set B64URL \<Longrightarrow> room_id_char (to_upper_char c) \<and> to_upper_char (to_upper_char c) = to_upper_char c"
proof -
  have "list_all (\<lambda>c. room_id_char (to_upper_char c) \<and> to_upper_char (to_upper_char c) = to_upper_char c) B64URL"
    by code_simp
  then show "c \<in> set B64URL \<Longrightarrow> room_id_char (to_upper_char c) \<and> to_upper_char (to_upper_char c) = to_upper_char c"
    by (auto simp: list_all_iff)
qed

lemma B64URL_nth: "i < 64 \<Longrightarrow> B64URL ! i \<in> set B64URL"
  by (intro nth_mem) (simp add: B64URL_def)

lemma base64url5_chars: "c \<in> set (base64url5 n) \<Longrightarrow> c \<in> set B64URL"
  by (auto simp: base64url5_def intro!: B64URL_nth)

lemma length_base64url5 [simp]: "length (base64url5 n) = 7"
  by (simp add: base64url5_def)

lemma normalize_generated: "normalizeRoomId (to_upper (base64url5 n)) = Some (to_upper (base64url5 n))"
proof -
  have "to_upper (to_upper (base64url5 n)) = to_upper (base64url5 n)"
    using B64URL_upper base64url5_chars by (auto simp: to_upper_def)
  moreover have "list_all room_id_char (to_upper (base64url5 n))"
    using B64URL_upper base64url5_chars by (auto simp: to_upper_def list_all_iff)
  ultimately show ?thesis
    by (simp add: normalizeRoomId_def)
qed

text \<open>
  Every id the server hands out is a room id it accepts: \<open>normalizeRoomId\<close> maps a generated
  id to itself - the two formats agree - and the id is of no room in the cache.
\<close>

theorem generated_id_accepted:
  assumes "generateRoomId sv draws = Some i"
  shows "normalizeRoomId i = Some i \<and> length i = 7 \<and> get_room i sv = None"
  using assms
proof (induction sv draws rule: generateRoomId.induct)
  case (2 sv n ns)
  let ?id = "to_upper (take 8 (base64url5 (n mod 2 ^ 40)))"
  have id: "?id = to_upper (base64url5 (n mod 2 ^ 40))"
    by simp
  show ?case
  proof (cases "map_of (sv_rooms sv) ?id = None")
    case True
    then have "i = ?id"
      using "2.prems" by (simp add: Let_def)
    then show ?thesis
      using True normalize_generated [of "n mod 2 ^ 40"] unfolding id by (simp add: get_room_def)
  next
    case False
    then show ?thesis
      using 2 by (simp add: Let_def)
  qed
qed simp

definition demo_server :: "(nat, local_votes) server" where
  "demo_server = \<lparr>sv_rooms = [], sv_db = demo_live\<lparr>next_id := 4\<rparr>, sv_votes = (\<lambda>_. None), sv_draining = False\<rparr>"

theorem generated_id_accepted_witness:
  "normalizeRoomId ''AAAAAAA'' = Some ''AAAAAAA'' \<and> length ''AAAAAAA'' = 7 \<and> get_room ''AAAAAAA'' demo_server = None"
proof (rule generated_id_accepted)
  have "to_upper (take 8 (base64url5 (0 mod 2 ^ 40))) = ''AAAAAAA''"
    by (simp add: base64url5_def upt_rec to_upper_def to_upper_char_def B64URL_def)
  then show "generateRoomId demo_server [0] = Some ''AAAAAAA''"
    by (simp add: demo_server_def)
qed

section \<open>The database under the handlers\<close>

abbreviation db_ok :: "('c, 'v) server \<Rightarrow> bool" where
  "db_ok sv \<equiv> game_inv (sv_db sv)"

lemma run_q_pres: "run_q q sv = (r, sv') \<Longrightarrow> preserves P q \<Longrightarrow> P (sv_db sv) \<Longrightarrow> P (sv_db sv')"
  by (auto simp: run_q_def preserves_def split: prod.splits)

lemma set_room_db [simp]: "sv_db (set_room room sv) = sv_db sv"
  and delete_room_db [simp]: "sv_db (delete_room key sv) = sv_db sv"
  and evict_db [simp]: "sv_db (evictIfSocketless key sv) = sv_db sv"
  and forget_vote_db [simp]: "sv_db (forget_vote V room p sv) = sv_db sv"
  and drop_if_done_db [simp]: "sv_db (drop_if_done room sv) = sv_db sv"
  by (simp_all add: set_room_def delete_room_def evictIfSocketless_def forget_vote_def drop_if_done_def split: option.split)

text \<open>
  What the handlers may do to the database. A property that every transaction but the recording
  of a move keeps is kept by every handler but \<open>make_move\<close> (\<open>socket_frame\<close>); one that the
  recording of a move keeps as well is kept by all of them (\<open>socket_property\<close>).
\<close>

locale socket_frame =
  fixes cl :: "'c chess_lib" and P :: "db \<Rightarrow> bool"
  assumes create: "preserves P (game_create now r wu wn mode)"
    and claim: "preserves P (claimBlack gid u n)"
    and finalize: "preserves P (finalizeGameAtomic now (room :: 'c room) res winner)"
    and rematch: "preserves P (rematch_tx now gid r wu wn bu bn)"
    and abandon: "preserves P (abandonMany now ids)"
begin

lemma build: "preserves P (buildRoomFromSnapshot cl now g ms)"
  unfolding buildRoomFromSnapshot_def by (intro preserve abandon)

lemma snapshots: "preserves P (findRoomSnapshot key)" "preserves P findRecoverable"
  unfolding findRoomSnapshot_def findRecoverable_def by (intro preserve)+

lemma tx: "run_tx e q sv = (r, sv') \<Longrightarrow> preserves P q \<Longrightarrow> P (sv_db sv) \<Longrightarrow> P (sv_db sv')"
  by (auto simp: run_tx_def dest: run_q_pres split: if_splits)

lemmas query_rules = run_q_pres [OF _ build] run_q_pres [OF _ snapshots(1)] run_q_pres [OF _ snapshots(2)]

lemma hydrate: "hydrateRoom cl e key sv = (r, sv') \<Longrightarrow> P (sv_db sv) \<Longrightarrow> P (sv_db sv')"
  unfolding hydrateRoom_def
  by (auto split: if_splits prod.splits sum.splits option.splits dest!: query_rules)

lemma get_room: "getRoom cl e roomId sv = (r, sv') \<Longrightarrow> P (sv_db sv) \<Longrightarrow> P (sv_db sv')"
  by (auto simp: getRoom_def split: option.splits dest: hydrate)

lemma refresh_room: "refreshRoomFromDb cl e room sv = (r, sv') \<Longrightarrow> P (sv_db sv) \<Longrightarrow> P (sv_db sv')"
  unfolding refreshRoomFromDb_def
  by (auto simp: Let_def split: if_splits prod.splits sum.splits option.splits dest!: query_rules)

lemma rebuild: "rebuild_rooms cl now gs sv = (x, sv') \<Longrightarrow> P (sv_db sv) \<Longrightarrow> P (sv_db sv')"
proof (induction gs arbitrary: sv)
  case (Cons y gs)
  obtain g ms where y: "y = (g, ms)"
    by (cases y)
  obtain r sv1 where q: "run_q (buildRoomFromSnapshot cl now g ms) sv = (r, sv1)"
    by (cases "run_q (buildRoomFromSnapshot cl now g ms) sv")
  have "P (sv_db sv1)"
    by (rule run_q_pres [OF q build Cons.prems(2)])
  then show ?case
    using Cons.IH Cons.prems(1) by (auto simp: y q split: sum.splits option.splits)
qed simp

lemma finalize_room: "finalize_room e (live :: 'c room) res winner sv = (r, sv', out) \<Longrightarrow> P (sv_db sv) \<Longrightarrow> P (sv_db sv')"
  unfolding finalize_room_def
  by (auto split: prod.splits sum.splits if_splits dest!: tx [OF _ finalize])

lemma seat: "take_seat e ck live sv = (r, sv') \<Longrightarrow> P (sv_db sv) \<Longrightarrow> P (sv_db sv')"
  unfolding take_seat_def Let_def
  by (auto split: prod.splits sum.splits if_splits option.splits dest!: tx [OF _ claim])

lemma start: "start_rematch cl V e live sv = (r, sv') \<Longrightarrow> P (sv_db sv) \<Longrightarrow> P (sv_db sv')"
  unfolding start_rematch_def Let_def
  by (auto split: prod.splits sum.splits if_splits option.splits dest!: tx [OF _ rematch])

lemmas step_rules = get_room refresh_room finalize_room seat start tx [OF _ create]
lemmas step_splits = prod.splits sum.splits option.splits if_splits

lemma handlers:
  assumes "P (sv_db sv)"
  shows "P (sv_db (fst (create_room cl e ck name draws sv)))" "P (sv_db (fst (join_room cl e ck r sv)))"
    "P (sv_db (fst (game_over cl e ck r sv)))"
    "P (sv_db (fst (resign cl e ck r sv)))" "P (sv_db (fst (accept_rematch cl V e ck r sv)))"
    "P (sv_db (fst (leave_room cl V e ck r sv)))" "P (sv_db (fst (disconnect V ck sv)))"
    "P (sv_db (snd (rebuildActiveRooms cl now sv)))"
proof -
  show "P (sv_db (fst (create_room cl e ck name draws sv)))"
    using assms unfolding create_room_def Let_def by (auto split: step_splits dest!: step_rules)
  show "P (sv_db (fst (join_room cl e ck r sv)))"
    using assms unfolding join_room_def Let_def by (auto split: step_splits dest!: step_rules)
  show "P (sv_db (fst (game_over cl e ck r sv)))"
    using assms unfolding game_over_def Let_def by (auto split: step_splits dest!: step_rules)
  show "P (sv_db (fst (resign cl e ck r sv)))"
    using assms unfolding resign_def Let_def by (auto split: step_splits dest!: step_rules)
  show "P (sv_db (fst (accept_rematch cl V e ck r sv)))"
    using assms unfolding accept_rematch_def Let_def by (auto split: step_splits dest!: step_rules)
  show "P (sv_db (fst (leave_room cl V e ck r sv)))"
    using assms unfolding leave_room_def Let_def by (auto split: step_splits dest!: step_rules)
  show "P (sv_db (fst (disconnect V ck sv)))"
    using assms unfolding disconnect_def Let_def by (auto split: prod.splits option.splits)
  show "P (sv_db (snd (rebuildActiveRooms cl now sv)))"
    using assms unfolding rebuildActiveRooms_def Let_def
    by (auto split: prod.splits sum.splits dest!: run_q_pres [OF _ snapshots(2)] intro: rebuild)
qed

lemma other_step: "P (sv_db sv) \<Longrightarrow> \<forall>e ck r q. ev \<noteq> Make_move e ck r q \<Longrightarrow> P (sv_db (server_step cl V sv ev))"
  by (cases ev) (simp_all add: server_step_def handlers)

end

locale socket_property = socket_frame cl P for cl :: "'c chess_lib" and P :: "db \<Rightarrow> bool" +
  assumes persist: "preserves P (persistMoveAtomic cl gid col req)"
begin

lemma move: "P (sv_db sv) \<Longrightarrow> P (sv_db (fst (make_move cl e ck r q sv)))"
  unfolding make_move_def Let_def
  by (auto split: step_splits dest!: step_rules tx [OF _ persist])

lemma server_step: "P (sv_db sv) \<Longrightarrow> P (sv_db (server_step cl V sv ev))"
  by (cases "\<exists>e ck r q. ev = Make_move e ck r q") (auto simp: server_step_def move intro: other_step [unfolded server_step_def])

end

interpretation socket_tables: socket_property cl game_inv for cl :: "'c chess_lib"
  by unfold_locales
    (rule preserves_game_create preserves_claimBlack preserves_finalize preserves_rematch_tx
      preserves_abandonMany preserves_persist)+

interpretation game_server: invariant_machine "server_step cl V" db_ok
  for cl :: "'c chess_lib" and V :: "'v vote_ops"
  by unfold_locales (rule socket_tables.server_step)

text \<open>Only the recording of a move touches the moves table.\<close>

lemma game_local_moves [preserve]: "game_local (\<lambda>d. moves d = ms)"
  by (simp add: game_local_def)

lemma frame_update_games: "preserves (\<lambda>d. moves d = ms) (update_games Q f)"
  by (auto simp: preserves_def update_games_def Let_def)

lemma frame_finalize: "preserves (\<lambda>d. moves d = ms) (finalizeGameAtomic now room res winner)"
  unfolding finalizeGameAtomic_def finish_row_def by (intro preserve frame_update_games)

lemma frame_insert_game: "preserves (\<lambda>d. moves d = ms) (game_create now r wu wn mode)"
  unfolding game_create_def Let_def by (intro preserve preserves_qput) simp_all

lemma frame_join: "preserves (\<lambda>d. moves d = ms) (joinBlackById gid u nm)" "preserves (\<lambda>d. moves d = ms) (claimBlack gid u nm)"
  unfolding joinBlackById_def claimBlack_def by (intro preserve frame_update_games)+

lemma frame_rematch: "preserves (\<lambda>d. moves d = ms) (rematch_tx now gid r wu wn bu bn)"
  unfolding rematch_tx_def release_room_def by (intro preserve frame_update_games frame_insert_game frame_join)

lemma frame_abandon: "preserves (\<lambda>d. moves d = ms) (abandonMany now ids)"
  unfolding abandonMany_def by (intro preserve frame_update_games)

interpretation move_table: socket_frame cl "\<lambda>d. moves d = ms" for cl :: "'c chess_lib" and ms
  by unfold_locales (rule frame_insert_game frame_join frame_finalize frame_rematch frame_abandon)+

lemma moves_of_inv:
  assumes "game_inv d"
  shows "moves_of gid d = moves_in d gid" "map m_number (moves_of gid d) = [1 ..< Suc (length (moves_of gid d))]"
proof -
  have n: "map m_number (moves_in d gid) = [1 ..< Suc (length (moves_in d gid))]"
    using assms by (simp add: game_inv_def)
  then have "sorted (map m_number (moves_in d gid))"
    by (simp only: sorted_upt)
  then show "moves_of gid d = moves_in d gid"
    unfolding moves_of_def moves_in_def by (rule sort_key_id_if_sorted)
  with n show "map m_number (moves_of gid d) = [1 ..< Suc (length (moves_of gid d))]"
    by simp
qed

lemma build_Some:
  assumes "run_q (buildRoomFromSnapshot cl now g ms) sv = (Inr (Some room), sv')"
  shows "\<exists>chess. recover_chess cl g ms = Some chess \<and> room = room_of_snapshot cl g ms chess \<and> sv' = sv"
proof (cases "recover_chess cl g ms")
  case None
  then show ?thesis
    using assms by (auto simp: buildRoomFromSnapshot_def run_q_def qbind_def split: prod.splits sum.splits)
next
  case (Some chess)
  then show ?thesis
    using assms by (auto simp: buildRoomFromSnapshot_def run_q_def)
qed

lemma refresh_Some:
  assumes "refreshRoomFromDb cl e room sv = (Some live, sv')"
  shows "\<exists>g chess. g \<in> set (games (sv_db sv)) \<and> g_room g = Some (r_id room) \<and> isMaterializable g \<and>
     recover_chess cl g (moves_of (g_id g) (sv_db sv)) = Some chess \<and>
     live = reattach (r_players (case get_room (r_id room) sv of Some c \<Rightarrow> c | None \<Rightarrow> room))
       (room_of_snapshot cl g (moves_of (g_id g) (sv_db sv)) chess) \<and>
     sv' = sv\<lparr>sv_rooms := AList.update (r_id room) live (sv_rooms sv)\<rparr>"
proof -
  obtain g where q: "e_query e" and found: "find (\<lambda>g. g_room g = Some (r_id room) \<and> g_mode g = ''multiplayer'') (games (sv_db sv)) = Some g"
    and mat: "isMaterializable g"
    using assms unfolding refreshRoomFromDb_def
    by (auto simp: findRoomSnapshot_def run_q_def split: if_splits prod.splits option.splits)
  let ?ms = "moves_of (g_id g) (sv_db sv)"
  have snap: "run_q (findRoomSnapshot (r_id room)) sv = (Inr (Some (g, ?ms)), sv)"
    using found by (simp add: findRoomSnapshot_def run_q_def)
  obtain r sv2 where b: "run_q (buildRoomFromSnapshot cl (e_now e) g ?ms) sv = (r, sv2)"
    by (cases "run_q (buildRoomFromSnapshot cl (e_now e) g ?ms) sv")
  obtain rebuilt where r: "r = Inr (Some rebuilt)"
    using assms q mat b unfolding refreshRoomFromDb_def snap by (auto split: sum.splits option.splits)
  from build_Some [OF b [unfolded r]] obtain chess where
    c: "recover_chess cl g ?ms = Some chess" "rebuilt = room_of_snapshot cl g ?ms chess" "sv2 = sv"
    by blast
  have "live = reattach (r_players (case get_room (r_id room) sv of Some c \<Rightarrow> c | None \<Rightarrow> room)) rebuilt"
    "sv' = sv\<lparr>sv_rooms := AList.update (r_id room) live (sv_rooms sv)\<rparr>"
    using assms q mat b unfolding refreshRoomFromDb_def snap r c(3) by (auto simp: Let_def)
  then show ?thesis
    using find_Some_in [OF found] mat c by blast
qed

text \<open>
  C19. A refreshed room is the truth of the database. In a server that started with sound
  game tables (such as empty ones) and processed any events, a room \<open>refreshRoomFromDb\<close> returns carries the id, the board,
  the side to move, the status and the complete history, numbered 1, 2, 3, \<dots>, of the game
  stored for that room; it is the cached entry afterwards; the database is unchanged; and each
  player keeps the local socket the live entry had for that user, whatever colours changed.
\<close>

theorem refresh_is_truth:
  assumes "sv = run_steps (server_step cl V) sv0 es" and "game_inv (sv_db sv0)"
    and "refreshRoomFromDb cl e room sv = (Some live, sv')"
  shows "\<exists>g chess. g \<in> set (games (sv_db sv)) \<and> g_room g = Some (r_id room) \<and>
     recover_chess cl g (r_moves live) = Some chess \<and> r_game live = g_id g \<and>
     r_board live = cl_fen cl chess \<and> r_turn live = cl_turn cl chess \<and>
     r_status live = snapshot_status g (length (r_players live)) \<and>
     r_moves live = moves_in (sv_db sv) (g_id g) \<and>
     map m_number (r_moves live) = [1 ..< Suc (length (r_moves live))] \<and>
     get_room (r_id room) sv' = Some live \<and> sv_db sv' = sv_db sv \<and>
     (\<forall>p \<in> set (r_players live). seat_socket p =
        socket_of (r_players (case get_room (r_id room) sv of Some c \<Rightarrow> c | None \<Rightarrow> room)) (seat_user p))"
proof -
  have inv: "db_ok sv"
    unfolding assms(1) using assms(2) by (rule game_server.run_inv)
  from refresh_Some [OF assms(3)] obtain g chess where
    f: "g \<in> set (games (sv_db sv))" "g_room g = Some (r_id room)"
       "recover_chess cl g (moves_of (g_id g) (sv_db sv)) = Some chess"
       "live = reattach (r_players (case get_room (r_id room) sv of Some c \<Rightarrow> c | None \<Rightarrow> room))
          (room_of_snapshot cl g (moves_of (g_id g) (sv_db sv)) chess)"
       "sv' = sv\<lparr>sv_rooms := AList.update (r_id room) live (sv_rooms sv)\<rparr>"
    by blast
  have "get_room (r_id room) sv' = Some live" "sv_db sv' = sv_db sv"
    by (simp_all add: f(5) get_room_def update_conv')
  then show ?thesis
    using f(1-3) moves_of_inv [OF inv, of "g_id g"]
    by (intro exI [of _ g] exI [of _ chess]) (auto simp: f(4) reattach_def room_of_snapshot_def Let_def)
qed

definition demo_env :: env where
  "demo_env = \<lparr>e_now = 60000, e_query = True, e_tx = True, e_present = Some [1, 2]\<rparr>"

definition local_ops :: "local_votes vote_ops" where
  "local_ops = \<lparr>vo_add = local_add, vo_remove = local_remove, vo_clear = local_clear\<rparr>"

definition demo_cached :: "nat room" where
  "demo_cached = reattach (r_players (demo_room [])) (room_of_snapshot counting_lib demo_game [] 0)"

lemma demo_refresh:
  assumes "sv_db sv = demo_live\<lparr>next_id := 4\<rparr>" and "get_room ''ROOM123'' sv = Some demo_cached"
  shows "refreshRoomFromDb counting_lib demo_env demo_cached sv =
    (Some demo_cached, sv\<lparr>sv_rooms := AList.update ''ROOM123'' demo_cached (sv_rooms sv)\<rparr>)"
proof -
  have id: "r_id demo_cached = ''ROOM123''"
    by (simp add: demo_cached_def reattach_def room_of_snapshot_def demo_game_def Let_def)
  have found: "findRoomSnapshot ''ROOM123'' (sv_db sv) = (Inr (Some (demo_game, [])), sv_db sv)"
    by (simp add: findRoomSnapshot_def assms(1) demo_defs moves_of_def)
  have rec: "recover_chess counting_lib demo_game [] = Some 0"
    by (simp add: recover_chess_def demo_game_def counting_lib_def truthy_def start_fen_def)
  have self: "reattach (r_players demo_cached) (room_of_snapshot counting_lib demo_game [] 0) = demo_cached"
    by (simp add: demo_cached_def reattach_def room_of_snapshot_def demo_game_def demo_room_def socket_of_def
        snapshot_players_def truthy_def Let_def)
  show ?thesis
    by (simp add: refreshRoomFromDb_def demo_env_def id run_q_def found isMaterializable_def buildRoomFromSnapshot_def rec
        assms(2) self) (simp add: demo_game_def)
qed

definition demo_playing :: "(nat, local_votes) server" where
  "demo_playing = demo_server\<lparr>sv_rooms := [(''ROOM123'', demo_cached)]\<rparr>"

lemma demo_playing_facts: "sv_db demo_playing = demo_live\<lparr>next_id := 4\<rparr>" "get_room ''ROOM123'' demo_playing = Some demo_cached"
  "sv_draining demo_playing = False"
  by (simp_all add: demo_playing_def demo_server_def get_room_def)

theorem refresh_is_truth_witness:
  "\<exists>live sv'. refreshRoomFromDb counting_lib demo_env demo_cached demo_playing = (Some live, sv') \<and>
     get_room (r_id demo_cached) sv' = Some live \<and> sv_db sv' = sv_db demo_playing \<and>
     map m_number (r_moves live) = [1 ..< Suc (length (r_moves live))]"
proof -
  note q = demo_refresh [OF demo_playing_facts(1,2)]
  have "demo_playing = run_steps (server_step counting_lib local_ops) demo_playing []"
    by simp
  from refresh_is_truth [OF this _ q] show ?thesis
    using q demo_live_inv by (auto simp: demo_playing_facts)
qed

lemma refresh_moves: "refreshRoomFromDb cl e room sv = (r, sv') \<Longrightarrow> moves (sv_db sv') = moves (sv_db sv)"
  by (erule move_table.refresh_room) (rule refl)

lemma persist_tx_moves:
  assumes "run_tx e (persistMoveAtomic cl gid col req) sv = (y, sv')"
  shows "case y of
      Inr (Some (chess, c, m)) \<Rightarrow> moves (sv_db sv') = moves (sv_db sv) @ [m] \<and> m_game m = gid \<and> m_color m = col
    | _ \<Rightarrow> moves (sv_db sv') = moves (sv_db sv)"
proof (cases "e_tx e")
  case True
  obtain z d' where z: "persistMoveAtomic cl gid col req (sv_db sv) = (z, d')"
    by (cases "persistMoveAtomic cl gid col req (sv_db sv)")
  have y: "y = z" "sv_db sv' = d'"
    using assms True z by (auto simp: run_tx_def run_q_def)
  consider err where "z = Inl err" | "z = Inr None" | chess c m where "z = Inr (Some (chess, c, m))"
    by (metis option.exhaust prod.exhaust sum.exhaust)
  then show ?thesis
  proof cases
    case 3
    then show ?thesis
      using persist_Some z y by (fastforce simp: move_row_of_def)
  qed (use z y in \<open>auto dest!: persist_None persist_Inl\<close>)
qed (use assms in \<open>auto simp: run_tx_def\<close>)

text \<open>What a handled \<open>make_move\<close> that adds to the moves table went through.\<close>

lemma make_move_adds:
  assumes "moves (sv_db (fst (make_move cl e ck roomId req sv))) \<noteq> moves (sv_db sv)"
  shows "\<exists>room live sv1 p m. getCachedRoom roomId sv = Some room \<and> refreshRoomFromDb cl e room sv = (Some live, sv1) \<and>
     my_seat ck live = Some p \<and> seat_color p = r_turn live \<and> r_status live = Playing \<and> \<not> sv_draining sv \<and>
     moves (sv_db (fst (make_move cl e ck roomId req sv))) = moves (sv_db sv) @ [m] \<and>
     m_game m = r_game live \<and> m_color m = seat_color p"
proof -
  obtain room where room: "getCachedRoom roomId sv = Some room"
    using assms by (cases "getCachedRoom roomId sv") (simp_all add: make_move_def Let_def)
  obtain x sv1 where q: "refreshRoomFromDb cl e room sv = (x, sv1)"
    by (cases "refreshRoomFromDb cl e room sv")
  note same = refresh_moves [OF q]
  have up: "\<not> sv_draining sv"
    using assms room by (auto simp: make_move_def Let_def)
  obtain live where live: "x = Some live"
    using assms room q same up by (cases x) (auto simp: make_move_def Let_def)
  have playing: "r_status live = Playing"
    using assms room q same live by (auto simp: make_move_def Let_def split: if_splits)
  obtain p where p: "my_seat ck live = Some p"
    using assms room q same live by (cases "my_seat ck live") (auto simp: make_move_def Let_def split: if_splits)
  have turn: "seat_color p = r_turn live"
    using assms room q same live p by (auto simp: make_move_def Let_def split: if_splits)
  obtain y sv2 where tx: "run_tx e (persistMoveAtomic cl (r_game live) (seat_color p) req) sv1 = (y, sv2)"
    by (cases "run_tx e (persistMoveAtomic cl (r_game live) (seat_color p) req) sv1")
  note reached = room q live up playing p turn tx
  note rec = persist_tx_moves [OF tx]
  obtain chess c m where y: "y = Inr (Some (chess, c, m))"
  proof (cases "\<exists>chess c m. y = Inr (Some (chess, c, m))")
    case False
    then have "moves (sv_db (fst (make_move cl e ck roomId req sv))) = moves (sv_db sv2)"
      using reached by (auto simp: make_move_def Let_def split: sum.splits option.splits)
    then show ?thesis
      using assms rec same False by (auto split: sum.splits option.splits)
  qed blast
  have "moves (sv_db (fst (make_move cl e ck roomId req sv))) = moves (sv_db sv2)"
    using reached y
    by (auto simp: make_move_def Let_def split: prod.splits sum.splits dest: move_table.finalize_room [of _ _ _ _ _ _ _ _ "moves (sv_db sv2)"])
  then have added: "moves (sv_db (fst (make_move cl e ck roomId req sv))) = moves (sv_db sv) @ [m]"
      "m_game m = r_game live" "m_color m = seat_color p"
    using rec same by (simp_all add: y)
  note found = q [unfolded live]
  show ?thesis
    by (intro exI [of _ room] exI [of _ live] exI [of _ sv1] exI [of _ p] exI [of _ m] conjI)
      (fact room found p turn playing up added)+
qed

text \<open>
  Only the player to move moves: if handling \<open>make_move\<close> adds anything to the moves table,
  the socket is attached, in the refreshed room, to the seat whose turn it is, the game is
  being played and the server is not draining. Spectators, the opponent and sockets of other
  rooms change nothing.
\<close>

theorem make_move_authorized:
  assumes "moves (sv_db (fst (make_move cl e ck roomId req sv))) \<noteq> moves (sv_db sv)"
  shows "\<exists>room live sv1 p. getCachedRoom roomId sv = Some room \<and> refreshRoomFromDb cl e room sv = (Some live, sv1) \<and>
     my_seat ck live = Some p \<and> seat_color p = r_turn live \<and> r_status live = Playing \<and> \<not> sv_draining sv"
  using make_move_adds [OF assms] by blast

lemma demo_move_adds:
  "moves (sv_db (fst (make_move counting_lib demo_env \<lparr>ck_socket = ''s1'', ck_user = 1, ck_name = ''ann''\<rparr> ''room123''
     demo_request demo_playing))) \<noteq> moves (sv_db demo_playing)"
proof -
  let ?ck = "\<lparr>ck_socket = ''s1'', ck_user = 1, ck_name = ''ann''\<rparr>"
  let ?m = "move_row_of 3 1 ''w'' demo_canonical (show_nat 1)"
  have norm: "normalizeRoomId ''room123'' = Some ''ROOM123''"
    by code_simp
  obtain d' where q: "persistMoveAtomic counting_lib 3 ''w'' demo_request (demo_live\<lparr>next_id := 4\<rparr>) =
      (Inr (Some (1, demo_canonical, ?m)), d')" and m: "moves d' = [?m]"
    using demo_persist by blast
  have room: "r_game demo_cached = 3" "r_status demo_cached = Playing" "r_turn demo_cached = ''w''"
    "my_seat ?ck demo_cached = Some \<lparr>seat_socket = Some ''s1'', seat_name = ''ann'', seat_color = ''w'', seat_user = Some 1\<rparr>"
    by (simp_all add: demo_cached_def reattach_def room_of_snapshot_def demo_game_def snapshot_players_def truthy_def
        snapshot_status_def my_seat_def socket_of_def demo_room_def counting_lib_def Let_def)
  have tx: "e_tx demo_env"
    by (simp add: demo_env_def)
  have "\<not> cl_over counting_lib 1" "moves (sv_db demo_playing) = []"
    by (simp_all add: counting_lib_def demo_playing_facts demo_defs)
  then show ?thesis
    using q m room
    by (simp add: make_move_def getCachedRoom_def norm demo_playing_facts demo_refresh [OF demo_playing_facts(1,2)]
        Let_def run_tx_def tx run_q_def)
qed

theorem make_move_authorized_witness:
  "let ck = \<lparr>ck_socket = ''s1'', ck_user = 1, ck_name = ''ann''\<rparr> in
   \<exists>room live sv1 p. getCachedRoom ''room123'' demo_playing = Some room \<and>
     refreshRoomFromDb counting_lib demo_env room demo_playing = (Some live, sv1) \<and>
     my_seat ck live = Some p \<and> seat_color p = r_turn live \<and> r_status live = Playing \<and> \<not> sv_draining demo_playing"
  unfolding Let_def by (rule make_move_authorized) (rule demo_move_adds)

end
