(* ===== verification/Shutdown.thy ===== *)
theory Shutdown
  imports Prelude
begin

text \<open>
  Graceful shutdown of the server (services/shutdown.js): the state machine RUNNING, DRAINING,
  STOPPING, STOPPED, the admission gates, and the sequence of six bounded phases. Time is in
  milliseconds; what a phase waits for - open requests, room operations, the socket server, the
  coordination clients, the database pool - is its environment, which may also never answer.
  Work between two waits takes no time, and a promise beats a timer only when it settles
  strictly earlier.
\<close>

section \<open>Constants\<close>

datatype lifecycle = RUNNING | DRAINING | STOPPING | STOPPED

fun state_number :: "lifecycle \<Rightarrow> nat" where
  "state_number RUNNING = 0"
| "state_number DRAINING = 1"
| "state_number STOPPING = 2"
| "state_number STOPPED = 3"

text \<open>The states in the order of their numbers.\<close>

lemma state_number_inject: "state_number a = state_number b \<longleftrightarrow> a = b"
  by (cases a; cases b) simp_all

instantiation lifecycle :: linorder
begin

definition less_eq_lifecycle :: "lifecycle \<Rightarrow> lifecycle \<Rightarrow> bool" where
  "less_eq_lifecycle a b \<longleftrightarrow> state_number a \<le> state_number b"

definition less_lifecycle :: "lifecycle \<Rightarrow> lifecycle \<Rightarrow> bool" where
  "less_lifecycle a b \<longleftrightarrow> state_number a < state_number b"

instance
  by standard (auto simp: less_eq_lifecycle_def less_lifecycle_def state_number_inject [symmetric])

end

definition PRESTOP_MS :: nat where "PRESTOP_MS = 5000"
definition GLOBAL_BUDGET_MS :: nat where "GLOBAL_BUDGET_MS = 22000"
definition SETTLE_MS :: nat where "SETTLE_MS = 2000"
definition HTTP_MS :: nat where "HTTP_MS = 3000"
definition ROOM_MS :: nat where "ROOM_MS = 6000"
definition SOCKET_MS :: nat where "SOCKET_MS = 2000"
definition SOCKET_RACE_MS :: nat where "SOCKET_RACE_MS = 1500"
definition SOCKET_SETTLE_MS :: nat where "SOCKET_SETTLE_MS = 500"
definition CACHE_MS :: nat where "CACHE_MS = 5000"
definition PG_MS :: nat where "PG_MS = 3000"
definition HTTP_POLL_MS :: nat where "HTTP_POLL_MS = 25"

record caps =
  cap_global :: nat
  cap_settle :: nat
  cap_http :: nat
  cap_room :: nat
  cap_socket :: nat
  cap_race :: nat
  cap_force :: nat
  cap_cache :: nat
  cap_pg :: nat

definition default_caps :: caps where
  "default_caps =
     \<lparr>cap_global = GLOBAL_BUDGET_MS, cap_settle = SETTLE_MS, cap_http = HTTP_MS, cap_room = ROOM_MS,
      cap_socket = SOCKET_MS, cap_race = SOCKET_RACE_MS, cap_force = SOCKET_SETTLE_MS, cap_cache = CACHE_MS,
      cap_pg = PG_MS\<rparr>"

lemmas cap_defs = default_caps_def GLOBAL_BUDGET_MS_def SETTLE_MS_def HTTP_MS_def ROOM_MS_def SOCKET_MS_def
  SOCKET_RACE_MS_def SOCKET_SETTLE_MS_def CACHE_MS_def PG_MS_def

section \<open>Deadlines\<close>

text \<open>What a call can do: throw at once, or return a promise that settles at some time or never.\<close>

datatype 'a answer = Throws | Resolves nat 'a | Rejects nat | Never

text \<open>Each of the following gives its value and the time it took.\<close>

definition withDeadline :: "'a answer \<Rightarrow> nat \<Rightarrow> bool \<times> nat" where
  "withDeadline p ms =
     (if ms = 0 then (False, 0)
      else case p of
          Resolves t _ \<Rightarrow> if t < ms then (True, t) else (False, ms)
        | Rejects t \<Rightarrow> if t < ms then (True, t) else (False, ms)
        | _ \<Rightarrow> (False, ms))"

definition withValueDeadline :: "'a answer \<Rightarrow> nat \<Rightarrow> 'a \<Rightarrow> 'a \<times> nat" where
  "withValueDeadline p ms fallback =
     (if ms = 0 then (fallback, 0)
      else case p of
          Resolves t v \<Rightarrow> if t < ms then (v, t) else (fallback, ms)
        | Rejects t \<Rightarrow> if t < ms then (fallback, t) else (fallback, ms)
        | _ \<Rightarrow> (fallback, ms))"

lemma withDeadline_time: "snd (withDeadline p ms) \<le> ms"
  by (auto simp: withDeadline_def split: answer.split)

lemma withValueDeadline_time: "snd (withValueDeadline p ms v) \<le> ms"
  by (auto simp: withValueDeadline_def split: answer.split)

text \<open>The one close of the socket server; a throw counts as closed at once.\<close>

definition closeIoOnce :: "unit answer \<Rightarrow> unit answer" where
  "closeIoOnce io = (case io of Throws \<Rightarrow> Resolves 0 () | Rejects t \<Rightarrow> Resolves t () | p \<Rightarrow> p)"

text \<open>Waiting on the same promise again, \<open>s\<close> milliseconds later.\<close>

definition after_wait :: "nat \<Rightarrow> 'a answer \<Rightarrow> 'a answer" where
  "after_wait s p = (case p of Resolves t v \<Rightarrow> Resolves (t - s) v | Rejects t \<Rightarrow> Rejects (t - s) | p \<Rightarrow> p)"

section \<open>Phases\<close>

datatype phase_result = Completed | Timeout_result | Forced

definition phaseSettle :: "nat \<Rightarrow> phase_result \<times> nat" where
  "phaseSettle budget = (Completed, budget)"

text \<open>
  The requests in flight at each time; None when the count throws, which counts as none. The
  poll loop returns the time it ends.
\<close>

definition in_flight :: "(nat \<Rightarrow> nat option) \<Rightarrow> nat \<Rightarrow> nat" where
  "in_flight getInflight t = (case getInflight t of None \<Rightarrow> 0 | Some n \<Rightarrow> n)"

function http_wait :: "(nat \<Rightarrow> nat option) \<Rightarrow> nat \<Rightarrow> nat \<Rightarrow> nat" where
  "http_wait getInflight budget t =
     (if in_flight getInflight t > 0 \<and> t < budget
      then http_wait getInflight budget (t + min HTTP_POLL_MS (budget - t)) else t)"
  by pat_completeness auto
termination
  by (relation "measure (\<lambda>(_, budget, t). budget - t)") (auto simp: HTTP_POLL_MS_def)

declare http_wait.simps [simp del]

definition phaseHttp :: "(nat \<Rightarrow> nat option) \<Rightarrow> nat \<Rightarrow> phase_result \<times> nat" where
  "phaseHttp getInflight budget =
     (let t = http_wait getInflight budget 0
      in (if in_flight getInflight t > 0 then Timeout_result else Completed, t))"

text \<open>\<open>drainRooms\<close> answers with whether it ran out of time.\<close>

definition phaseRoom :: "(nat \<Rightarrow> bool answer) \<Rightarrow> nat \<Rightarrow> phase_result \<times> nat" where
  "phaseRoom drainRooms cap =
     (case drainRooms cap of
        Throws \<Rightarrow> (Timeout_result, 0)
      | p \<Rightarrow> (let (timedOut, t) = withValueDeadline p cap True in (if timedOut then Timeout_result else Completed, t)))"

definition phaseSocket :: "unit answer \<Rightarrow> nat \<Rightarrow> nat \<Rightarrow> nat \<Rightarrow> phase_result \<times> nat" where
  "phaseSocket io budget raceMs settleMs =
     (let gate = closeIoOnce io;
          (raced, t1) = withDeadline gate (min raceMs budget) in
      if raced then (Completed, t1)
      else
        let rest = budget - min raceMs budget;
            (_, t2) = withDeadline (after_wait t1 gate) (min settleMs rest)
        in (Forced, t1 + t2))"

text \<open>\<open>closeCache\<close> answers with whether it closed cleanly.\<close>

definition phaseCache :: "bool answer \<Rightarrow> nat \<Rightarrow> phase_result \<times> nat" where
  "phaseCache closeCache budget =
     (case closeCache of
        Throws \<Rightarrow> (Forced, 0)
      | p \<Rightarrow> (let (clean, t) = withValueDeadline p budget False in (if clean then Completed else Forced, t)))"

definition phasePg :: "bool \<Rightarrow> unit answer \<Rightarrow> nat \<Rightarrow> phase_result \<times> nat" where
  "phasePg poolEnded closePool budget =
     (if poolEnded then (Forced, 0)
      else case closePool of
          Throws \<Rightarrow> (Forced, 0)
        | p \<Rightarrow> (let (done, t) = withDeadline p budget in (if done then Completed else Forced, t)))"

lemma http_wait_time: "t \<le> budget \<Longrightarrow> t \<le> http_wait getInflight budget t \<and> http_wait getInflight budget t \<le> budget"
proof (induction getInflight budget t rule: http_wait.induct)
  case (1 getInflight budget t)
  show ?case
  proof (cases "in_flight getInflight t > 0 \<and> t < budget")
    case True
    let ?u = "t + min HTTP_POLL_MS (budget - t)"
    have "t \<le> ?u" "?u \<le> budget"
      using True by auto
    then have "?u \<le> http_wait getInflight budget ?u \<and> http_wait getInflight budget ?u \<le> budget"
      using "1.IH" True by blast
    moreover have "http_wait getInflight budget t = http_wait getInflight budget ?u"
      using True by (subst http_wait.simps) simp
    ultimately show ?thesis
      using \<open>t \<le> ?u\<close> by linarith
  next
    case False
    then show ?thesis
      using "1.prems" by (subst (1 2) http_wait.simps) auto
  qed
qed

text \<open>No phase takes longer than the budget it is given, whatever its environment does.\<close>

lemma phase_times:
  "snd (phaseSettle b) \<le> b" "snd (phaseHttp f b) \<le> b" "snd (phaseRoom d b) \<le> b"
  "snd (phaseSocket io b r s) \<le> b" "snd (phaseCache c b) \<le> b" "snd (phasePg e p b) \<le> b"
proof -
  show "snd (phaseSettle b) \<le> b"
    by (simp add: phaseSettle_def)
  show "snd (phaseHttp f b) \<le> b"
    using http_wait_time [of 0 b f] by (simp add: phaseHttp_def Let_def)
  show "snd (phaseRoom d b) \<le> b"
    using withValueDeadline_time [of "d b" b True]
    by (auto simp: phaseRoom_def split: answer.split prod.split)
  show "snd (phaseSocket io b r s) \<le> b"
  proof -
    let ?gate = "closeIoOnce io"
    obtain raced t1 where 1: "withDeadline ?gate (min r b) = (raced, t1)"
      by (cases "withDeadline ?gate (min r b)")
    obtain x t2 where 2: "withDeadline (after_wait t1 ?gate) (min s (b - min r b)) = (x, t2)"
      by (cases "withDeadline (after_wait t1 ?gate) (min s (b - min r b))")
    have "t1 \<le> min r b" "t2 \<le> min s (b - min r b)"
      using withDeadline_time [of ?gate "min r b"] withDeadline_time [of "after_wait t1 ?gate" "min s (b - min r b)"] 1 2
      by simp_all
    then show ?thesis
      using 1 2 by (auto simp: phaseSocket_def Let_def)
  qed
  show "snd (phaseCache c b) \<le> b"
    using withValueDeadline_time [of c b False] by (auto simp: phaseCache_def split: answer.split prod.split)
  show "snd (phasePg e p b) \<le> b"
    using withDeadline_time [of p b] by (auto simp: phasePg_def split: answer.split prod.split)
qed

section \<open>The sequence\<close>

datatype phase = Settle_phase | Http_phase | Room_phase | Socket_phase | Cache_phase | Pg_phase

text \<open>What the sequence waits for; \<open>env_inflight\<close> counts from the start of the sequence.\<close>

record env =
  env_inflight :: "nat \<Rightarrow> nat option"
  env_rooms :: "nat \<Rightarrow> bool answer"
  env_io :: "unit answer"
  env_cache :: "bool answer"
  env_pool :: "unit answer"

definition remaining :: "caps \<Rightarrow> nat \<Rightarrow> nat" where
  "remaining c elapsed = cap_global c - elapsed"

text \<open>The call of each phase with the budget that is left, \<open>elapsed\<close> milliseconds into the sequence.\<close>

fun call_phase :: "caps \<Rightarrow> env \<Rightarrow> bool \<Rightarrow> nat \<Rightarrow> phase \<Rightarrow> phase_result \<times> nat" where
  "call_phase c e poolEnded elapsed Settle_phase = phaseSettle (min (cap_settle c) (remaining c elapsed))"
| "call_phase c e poolEnded elapsed Http_phase =
     phaseHttp (\<lambda>t. env_inflight e (elapsed + t)) (min (cap_http c) (remaining c elapsed))"
| "call_phase c e poolEnded elapsed Room_phase = phaseRoom (env_rooms e) (min (cap_room c) (remaining c elapsed))"
| "call_phase c e poolEnded elapsed Socket_phase =
     phaseSocket (env_io e) (min (cap_socket c) (remaining c elapsed)) (cap_race c) (cap_force c)"
| "call_phase c e poolEnded elapsed Cache_phase = phaseCache (env_cache e) (min (cap_cache c) (remaining c elapsed))"
| "call_phase c e poolEnded elapsed Pg_phase =
     phasePg poolEnded (env_pool e) (min (cap_pg c) (remaining c elapsed))"

fun cap_of :: "caps \<Rightarrow> phase \<Rightarrow> nat" where
  "cap_of c Settle_phase = cap_settle c"
| "cap_of c Http_phase = cap_http c"
| "cap_of c Room_phase = cap_room c"
| "cap_of c Socket_phase = cap_socket c"
| "cap_of c Cache_phase = cap_cache c"
| "cap_of c Pg_phase = cap_pg c"

text \<open>The log of a run: the phase, its result, and how long it took.\<close>

type_synonym phase_log = "(phase \<times> phase_result \<times> nat) list"

fun run_phases :: "caps \<Rightarrow> env \<Rightarrow> bool \<Rightarrow> nat \<Rightarrow> phase list \<Rightarrow> phase_log \<times> nat" where
  "run_phases c e poolEnded elapsed [] = ([], elapsed)"
| "run_phases c e poolEnded elapsed (p # ps) =
     (let (r, t) = call_phase c e poolEnded elapsed p;
          (log, end_time) = run_phases c e poolEnded (elapsed + t) ps
      in ((p, r, t) # log, end_time))"

definition shutdown_order :: "phase list" where
  "shutdown_order = [Settle_phase, Http_phase, Room_phase, Socket_phase, Cache_phase, Pg_phase]"

text \<open>
  The body of the sequence: the phases, then the exit. The watchdog fires at the global cap;
  the result is the log, the time of the exit and the exit code.
\<close>

definition sequence_body :: "caps \<Rightarrow> env \<Rightarrow> bool \<Rightarrow> int \<Rightarrow> phase_log \<times> nat \<times> int" where
  "sequence_body c e poolEnded exitCode =
     (let (log, end_time) = run_phases c e poolEnded 0 shutdown_order;
          watchdog = max 1 (cap_global c)
      in if end_time \<ge> watchdog then (log, watchdog, 1) else (log, end_time, exitCode))"

lemma call_phase_time: "snd (call_phase c e b el p) \<le> min (cap_of c p) (remaining c el)"
  by (cases p) (simp_all only: call_phase.simps cap_of.simps phase_times)

lemma call_phase_cases:
  obtains r t where "call_phase c e b el p = (r, t)" "t \<le> cap_of c p" "t \<le> cap_global c - el"
proof -
  obtain r t where rt: "call_phase c e b el p = (r, t)"
    by (cases "call_phase c e b el p")
  have "t \<le> min (cap_of c p) (remaining c el)"
    using call_phase_time [of c e b el p] rt by simp
  then show ?thesis
    using that rt by (simp add: remaining_def)
qed

text \<open>What every run of phases keeps: order, each cap, the sum of the caps and the global cap.\<close>

lemma run_phases_bounds:
  assumes "run_phases c e b el ps = (log, t)" "el \<le> cap_global c"
  shows "map fst log = ps \<and> (\<forall>(p, r, d) \<in> set log. d \<le> cap_of c p) \<and>
         el \<le> t \<and> t \<le> cap_global c \<and> t \<le> el + (\<Sum>p\<leftarrow>ps. cap_of c p) \<and> t = el + (\<Sum>(p, r, d)\<leftarrow>log. d)"
  using assms
proof (induction ps arbitrary: el log)
  case (Cons p ps)
  obtain r d where rd: "call_phase c e b el p = (r, d)" "d \<le> cap_of c p" "d \<le> cap_global c - el"
    by (rule call_phase_cases)
  obtain log' t' where run: "run_phases c e b (el + d) ps = (log', t')"
    by (cases "run_phases c e b (el + d) ps")
  have log: "log = (p, r, d) # log'" "t' = t"
    using Cons.prems(1) rd(1) run by (simp_all add: Let_def)
  have "el + d \<le> cap_global c"
    using rd(3) Cons.prems(2) by linarith
  from Cons.IH [OF run [unfolded log(2)] this] show ?case
    using log rd(2) by auto
qed auto

section \<open>The controller\<close>

text \<open>
  The module's state, with the exit calls and the signal counters it makes. \<open>startupReady\<close> and
  \<open>shuttingDown\<close> are the application's flags it sets; \<open>sequence\<close> is the running sequence.
\<close>

datatype signal = SIGTERM | SIGINT

record controller =
  currentState :: lifecycle
  prestopSeen :: bool
  sequence :: "(phase_log \<times> nat \<times> int) option"
  poolEnded :: bool
  drainStartedAt :: "nat option"
  shuttingDown :: bool
  startupReady :: bool
  runs :: nat
  exits :: "int list"
  signals :: "(signal \<times> bool) list"

definition boot :: controller where
  "boot = \<lparr>currentState = RUNNING, prestopSeen = False, sequence = None, poolEnded = False,
           drainStartedAt = None, shuttingDown = False, startupReady = True, runs = 0, exits = [], signals = []\<rparr>"

definition isDraining :: "controller \<Rightarrow> bool" where
  "isDraining k \<longleftrightarrow> currentState k \<noteq> RUNNING"

definition isSequenceStarted :: "controller \<Rightarrow> bool" where
  "isSequenceStarted k \<longleftrightarrow> sequence k \<noteq> None"

definition enterDraining :: "string \<Rightarrow> nat \<Rightarrow> controller \<Rightarrow> bool \<times> controller" where
  "enterDraining src now k =
     (if currentState k \<noteq> RUNNING then (False, k)
      else (True, k\<lparr>prestopSeen := (prestopSeen k \<or> src = ''prestop''), drainStartedAt := Some now,
                    shuttingDown := True, currentState := DRAINING\<rparr>))"

text \<open>The services the sequence needs, each given or not.\<close>

definition REQUIRED_DEPS :: "string list" where
  "REQUIRED_DEPS = [''server'', ''io'', ''getInflight'', ''drainRooms'', ''closeCache'', ''closePool'']"

definition missing_deps :: "string list \<Rightarrow> string list" where
  "missing_deps given = List.filter (\<lambda>k. k \<notin> set given) REQUIRED_DEPS"

text \<open>
  The start of the sequence up to its first wait. The answers of the environment fix how the run
  goes; \<open>finish_sequence\<close> below is its last step. A second request changes nothing.
\<close>

definition runShutdownSequence ::
  "string list \<Rightarrow> caps \<Rightarrow> env \<Rightarrow> string \<Rightarrow> int \<Rightarrow> nat \<Rightarrow> controller \<Rightarrow> (string list, controller) result" where
  "runShutdownSequence given c e reason exitCode now k =
     (if isSequenceStarted k then Inr k
      else if missing_deps given \<noteq> [] then Inl (missing_deps given)
      else let k1 = snd (enterDraining (to_lower reason) now k)
           in Inr (k1\<lparr>startupReady := False, currentState := STOPPING, runs := runs k + 1,
                      sequence := Some (sequence_body c e (poolEnded k) exitCode)\<rparr>))"

text \<open>
  The end of the run: the pool is ended by then. After the watchdog has fired the state stays
  STOPPING and the process exits with 1; otherwise the state is STOPPED.
\<close>

definition finish_sequence :: "caps \<Rightarrow> controller \<Rightarrow> controller" where
  "finish_sequence c k =
     (case sequence k of
        None \<Rightarrow> k
      | Some (log, t, code) \<Rightarrow>
          if exits k \<noteq> [] then k
          else k\<lparr>poolEnded := True, exits := [code],
                 currentState := (if t \<ge> max 1 (cap_global c) then currentState k else STOPPED)\<rparr>)"

text \<open>The handlers of the process events.\<close>

datatype shutdown_event =
    Prestop_request string nat
  | Signal signal nat
  | Uncaught nat
  | Rejection nat
  | Sequence_done

definition reason_of :: "signal \<Rightarrow> string" where
  "reason_of sg = (case sg of SIGTERM \<Rightarrow> ''SIGTERM'' | SIGINT \<Rightarrow> ''SIGINT'')"

definition shutdown_request :: "caps \<Rightarrow> env \<Rightarrow> string \<Rightarrow> int \<Rightarrow> nat \<Rightarrow> controller \<Rightarrow> controller" where
  "shutdown_request c e reason exitCode now k =
     (case runShutdownSequence REQUIRED_DEPS c e reason exitCode now k of Inl _ \<Rightarrow> k | Inr k' \<Rightarrow> k')"

definition onSignal :: "caps \<Rightarrow> env \<Rightarrow> signal \<Rightarrow> nat \<Rightarrow> controller \<Rightarrow> controller" where
  "onSignal c e sg now k =
     (if isSequenceStarted k then k\<lparr>signals := signals k @ [(sg, False)]\<rparr>
      else shutdown_request c e (reason_of sg) 0 now (k\<lparr>signals := signals k @ [(sg, True)]\<rparr>))"

definition LOOPBACK_ADDRESSES :: "string list" where
  "LOOPBACK_ADDRESSES = [''127.0.0.1'', ''::1'', ''::ffff:127.0.0.1'']"

definition isLoopbackAddress :: "string \<Rightarrow> bool" where
  "isLoopbackAddress remote \<longleftrightarrow> remote \<in> set LOOPBACK_ADDRESSES"

text \<open>The preStop trigger: the HTTP status, whether the state changed, and the new state.\<close>

definition enterDrainHandler :: "string \<Rightarrow> nat \<Rightarrow> controller \<Rightarrow> (nat \<times> bool) \<times> controller" where
  "enterDrainHandler remote now k =
     (if \<not> isLoopbackAddress remote then ((403, False), k)
      else let (transitioned, k') = enterDraining ''prestop'' now k in ((200, transitioned), k'))"

fun shutdown_step :: "caps \<Rightarrow> env \<Rightarrow> controller \<Rightarrow> shutdown_event \<Rightarrow> controller" where
  "shutdown_step c e k (Prestop_request remote now) = snd (enterDrainHandler remote now k)"
| "shutdown_step c e k (Signal sg now) = onSignal c e sg now k"
| "shutdown_step c e k (Uncaught now) = shutdown_request c e ''uncaughtException'' 1 now k"
| "shutdown_step c e k (Rejection now) = shutdown_request c e ''unhandledRejection'' 1 now k"
| "shutdown_step c e k Sequence_done = finish_sequence c k"

section \<open>Admission gates\<close>

definition DRAIN_ALLOWLIST :: "string list" where
  "DRAIN_ALLOWLIST = [''/liveness'', ''/readiness'', ''/metrics'', ''/health'', ''/internal/enter-drain'']"

datatype gate = Pass | Reject_http nat string | Reject_handshake string | Reject_ack string | Reject_emit string

definition drainGate :: "controller \<Rightarrow> string \<Rightarrow> gate" where
  "drainGate k path =
     (if currentState k = RUNNING then Pass
      else if path \<in> set DRAIN_ALLOWLIST then Pass
      else Reject_http 503 ''Server shutting down'')"

definition drainHandshakeGuard :: "controller \<Rightarrow> gate" where
  "drainHandshakeGuard k = (if currentState k \<noteq> RUNNING then Reject_handshake ''Server shutting down'' else Pass)"

text \<open>A packet is its list of arguments; only whether the last one is a function matters.\<close>

definition drainPacketGuard :: "controller \<Rightarrow> bool list \<Rightarrow> gate" where
  "drainPacketGuard k is_function =
     (if currentState k = RUNNING then Pass
      else if length is_function > 1 \<and> last is_function then Reject_ack ''Server shutting down''
      else Reject_emit ''Server shutting down'')"

section \<open>Properties\<close>

lemmas controller_defs = enterDraining_def runShutdownSequence_def finish_sequence_def shutdown_request_def
  onSignal_def enterDrainHandler_def isSequenceStarted_def

text \<open>At most one run: counted against the stored sequence, with at most one exit.\<close>

definition one_run :: "controller \<Rightarrow> bool" where
  "one_run k \<longleftrightarrow> runs k = (if isSequenceStarted k then 1 else 0) \<and> length (exits k) \<le> runs k \<and>
     (isSequenceStarted k \<longleftrightarrow> 2 \<le> state_number (currentState k)) \<and> (poolEnded k \<longrightarrow> isSequenceStarted k)"

lemma REQUIRED_given [simp]: "missing_deps REQUIRED_DEPS = []"
  by (simp add: missing_deps_def REQUIRED_DEPS_def)

lemma shutdown_request_started:
  "isSequenceStarted k \<Longrightarrow> shutdown_request c e r x now k = k"
  by (simp add: shutdown_request_def runShutdownSequence_def)

lemma shutdown_request_first:
  "\<not> isSequenceStarted k \<Longrightarrow> \<exists>k'. shutdown_request c e r x now k = k' \<and> currentState k' = STOPPING \<and>
     sequence k' = Some (sequence_body c e (poolEnded k) x) \<and> runs k' = runs k + 1 \<and> exits k' = exits k \<and>
     poolEnded k' = poolEnded k \<and> signals k' = signals k"
  by (simp add: shutdown_request_def runShutdownSequence_def enterDraining_def Let_def)

lemma shutdown_request_one_run:
  assumes "one_run k"
  shows "one_run (shutdown_request c e r x now k)"
proof (cases "isSequenceStarted k")
  case True
  then show ?thesis using assms by (simp add: shutdown_request_started)
next
  case False
  then show ?thesis
    using assms shutdown_request_first [OF False, of c e r x now] by (auto simp: one_run_def isSequenceStarted_def)
qed

lemma shutdown_request_mono:
  assumes "one_run k"
  shows "state_number (currentState k) \<le> state_number (currentState (shutdown_request c e r x now k))"
proof (cases "isSequenceStarted k")
  case True
  then show ?thesis by (simp add: shutdown_request_started)
next
  case False
  then show ?thesis
    using assms shutdown_request_first [OF False, of c e r x now] by (auto simp: one_run_def)
qed

lemma one_run_signals [simp]: "one_run (k\<lparr>signals := x\<rparr>) = one_run k"
  by (simp add: one_run_def isSequenceStarted_def)

lemma step_one_run:
  assumes "one_run k"
  shows "one_run (shutdown_step c e k ev)"
proof (cases ev)
  case (Signal sg now)
  then show ?thesis
    using assms by (simp add: onSignal_def shutdown_request_one_run)
next
  case Sequence_done
  then show ?thesis
    using assms by (auto simp: one_run_def finish_sequence_def isSequenceStarted_def split: option.split)
next
  case (Prestop_request remote now)
  then show ?thesis
    using assms by (auto simp: one_run_def enterDrainHandler_def enterDraining_def isSequenceStarted_def)
qed (use assms in \<open>simp_all add: shutdown_request_one_run\<close>)

text \<open>The life cycle never goes back.\<close>

lemma step_state_mono:
  assumes "one_run k"
  shows "state_number (currentState k) \<le> state_number (currentState (shutdown_step c e k ev))"
proof (cases ev)
  case (Signal sg now)
  then show ?thesis
    using shutdown_request_mono [of "k\<lparr>signals := signals k @ [(sg, True)]\<rparr>" c e "reason_of sg" 0 now] assms
    by (simp add: onSignal_def)
next
  case Sequence_done
  have "state_number x \<le> 3" for x
    by (cases x) simp_all
  then show ?thesis
    using Sequence_done by (auto simp: finish_sequence_def split: option.split)
next
  case (Prestop_request remote now)
  then show ?thesis
    by (auto simp: enterDrainHandler_def enterDraining_def)
qed (use assms in \<open>simp_all add: shutdown_request_mono\<close>)

text \<open>The controller is a machine with an invariant and a rank.\<close>

interpretation controller: ranked_machine "shutdown_step c e" one_run "\<lambda>k. state_number (currentState k)" for c e
  by unfold_locales (rule step_one_run step_state_mono, assumption)+

text \<open>A life cycle only goes forward, whatever happens.\<close>

lemma lifecycle_forward:
  "one_run k \<Longrightarrow> currentState k \<le> currentState (run_steps (shutdown_step c e) k es)"
  unfolding less_eq_lifecycle_def by (rule controller.run_rank)

lemma one_run_boot [simp]: "one_run boot"
  by (simp add: one_run_def boot_def isSequenceStarted_def)

text \<open>What the first request asks for fixes the run; nothing later changes it.\<close>

definition requested_code :: "shutdown_event \<Rightarrow> int option" where
  "requested_code ev = (case ev of Signal _ _ \<Rightarrow> Some 0 | Uncaught _ \<Rightarrow> Some 1 | Rejection _ \<Rightarrow> Some 1 | _ \<Rightarrow> None)"

lemma started_step:
  assumes "isSequenceStarted k"
  shows "sequence (shutdown_step c e k ev) = sequence k"
  using assms by (cases ev) (auto simp: controller_defs split: option.split prod.split)

lemma unstarted_step:
  assumes "\<not> isSequenceStarted k"
  shows "sequence (shutdown_step c e k ev) = map_option (sequence_body c e (poolEnded k)) (requested_code ev) \<and>
         (requested_code ev = None \<longrightarrow> poolEnded (shutdown_step c e k ev) = poolEnded k)"
proof -
  have "sequence k = None"
    using assms by (cases "sequence k") (simp_all add: isSequenceStarted_def)
  then show ?thesis
    using assms shutdown_request_first [OF assms]
      shutdown_request_first [of "k\<lparr>signals := s\<rparr>" for s]
    by (cases ev) (auto simp: requested_code_def onSignal_def finish_sequence_def enterDrainHandler_def enterDraining_def
        isSequenceStarted_def)
qed

lemma started_run:
  assumes "isSequenceStarted k"
  shows "sequence (run_steps (shutdown_step c e) k es) = sequence k"
  using assms
proof (induction es arbitrary: k)
  case (Cons ev es)
  then have "isSequenceStarted (shutdown_step c e k ev)"
    by (simp add: isSequenceStarted_def started_step)
  then show ?case
    using Cons by (simp add: started_step)
qed simp

lemma unstarted_run:
  assumes "\<not> isSequenceStarted k"
  shows "sequence (run_steps (shutdown_step c e) k es) =
         map_option (sequence_body c e (poolEnded k)) (case List.find (\<lambda>ev. requested_code ev \<noteq> None) es of
            None \<Rightarrow> None | Some ev \<Rightarrow> requested_code ev)"
  using assms
proof (induction es arbitrary: k)
  case (Cons ev es)
  note step = unstarted_step [OF Cons.prems, of c e ev]
  show ?case
  proof (cases "requested_code ev")
    case None
    then have "\<not> isSequenceStarted (shutdown_step c e k ev)"
      using step by (simp add: isSequenceStarted_def)
    from Cons.IH [OF this] show ?thesis
      using None step by simp
  next
    case (Some x)
    then have "isSequenceStarted (shutdown_step c e k ev)"
      using step by (simp add: isSequenceStarted_def)
    from started_run [OF this] show ?thesis
      using Some step by simp
  qed
next
  case Nil
  then show ?case
    by (cases "sequence k") (simp_all add: isSequenceStarted_def)
qed

text \<open>With the production caps every phase has its full cap: the global budget never cuts one short.\<close>

lemma shutdown_caps_sum: "(\<Sum>p\<leftarrow>shutdown_order. cap_of default_caps p) = 21000"
  by (simp add: shutdown_order_def cap_defs)

lemma run_phases_append:
  "run_phases c e b el (ps @ qs) =
     (let (l1, t1) = run_phases c e b el ps; (l2, t2) = run_phases c e b t1 qs in (l1 @ l2, t2))"
  by (induction ps arbitrary: el) (auto simp: Let_def split: prod.split)

text \<open>
  C22. A production shutdown is bounded whatever the outside does: for every behaviour of the
  open requests, the room operations, the socket server, the coordination clients and the
  database pool - including never answering - the six phases run in the fixed order, each
  within its cap, the process exits at most 21 seconds after the start, before the 22 second
  watchdog, with the requested exit code, and the database pool, closed last, always has its
  full three seconds.
\<close>

theorem shutdown_bounded:
  "case sequence_body default_caps e b code of (log, t, x) \<Rightarrow>
     map fst log = shutdown_order \<and> list_all (\<lambda>(p, r, d). d \<le> cap_of default_caps p) log \<and>
     t = (\<Sum>(p, r, d)\<leftarrow>log. d) \<and> t \<le> 21000 \<and> x = code \<and>
     snd (last log) = phasePg b (env_pool e) PG_MS"
proof -
  obtain log t where run: "run_phases default_caps e b 0 shutdown_order = (log, t)"
    by (cases "run_phases default_caps e b 0 shutdown_order")
  from run_phases_bounds [OF run]
  have bounds: "map fst log = shutdown_order" "\<forall>(p, r, d) \<in> set log. d \<le> cap_of default_caps p"
    "t \<le> 21000" "t = (\<Sum>(p, r, d)\<leftarrow>log. d)"
    using shutdown_caps_sum by auto
  let ?first = "[Settle_phase, Http_phase, Room_phase, Socket_phase, Cache_phase]"
  obtain l1 t1 where 1: "run_phases default_caps e b 0 ?first = (l1, t1)"
    by (cases "run_phases default_caps e b 0 ?first")
  have "t1 \<le> 18000"
    using run_phases_bounds [OF 1] by (simp add: cap_defs)
  then have "min (cap_pg default_caps) (remaining default_caps t1) = PG_MS"
    by (simp add: remaining_def cap_defs)
  moreover have "run_phases default_caps e b 0 (?first @ [Pg_phase]) = (log, t)"
    using run by (simp add: shutdown_order_def)
  ultimately have "snd (last log) = phasePg b (env_pool e) PG_MS"
    using 1 unfolding run_phases_append by (auto simp: Let_def split: prod.splits)
  moreover have "sequence_body default_caps e b code = (log, t, code)"
    using run bounds(3) by (simp add: sequence_body_def default_caps_def GLOBAL_BUDGET_MS_def)
  ultimately show ?thesis
    using bounds by (simp add: list_all_iff)
qed

text \<open>
  The shutdown runs at most once. Whatever signals, uncaught errors, preStop requests and
  completions arrive in whatever order, the sequence starts exactly when the first signal,
  uncaught error or rejection arrives, with that event's exit code (0 for a signal, 1 for an
  error), later ones are ignored, the process exits at most once, and the preStop trigger alone
  never starts it.
\<close>

theorem shutdown_once:
  "let k = run_steps (shutdown_step c e) boot es;
       first = List.find (\<lambda>ev. requested_code ev \<noteq> None) es
   in sequence k = map_option (sequence_body c e False) (case first of None \<Rightarrow> None | Some ev \<Rightarrow> requested_code ev) \<and>
      runs k = (if first = None then 0 else 1) \<and> length (exits k) \<le> 1"
proof -
  let ?k = "run_steps (shutdown_step c e) boot es"
  have "\<not> isSequenceStarted boot" "poolEnded boot = False"
    by (simp_all add: boot_def isSequenceStarted_def)
  from unstarted_run [OF this(1), of c e es] this(2)
  have seq: "sequence ?k = map_option (sequence_body c e False)
      (case List.find (\<lambda>ev. requested_code ev \<noteq> None) es of None \<Rightarrow> None | Some ev \<Rightarrow> requested_code ev)"
    by simp
  have inv: "one_run ?k"
    by (rule controller.run_inv) simp
  have "isSequenceStarted ?k \<longleftrightarrow> List.find (\<lambda>ev. requested_code ev \<noteq> None) es \<noteq> None"
    using seq find_Some_in [of "\<lambda>ev. requested_code ev \<noteq> None" es] by (auto simp: isSequenceStarted_def split: option.splits)
  then show ?thesis
    using seq inv by (auto simp: one_run_def Let_def split: if_splits)
qed

text \<open>
  Draining is final. Once the controller has left RUNNING, then after any further events
  every request outside the probe allowlist gets a 503, every socket handshake and every socket
  packet is refused, and none is let through again.
\<close>

theorem draining_is_final:
  assumes "isDraining (run_steps (shutdown_step c e) boot es)"
    and "path \<notin> set DRAIN_ALLOWLIST"
  shows "let k = run_steps (shutdown_step c e) boot (es @ fs)
         in drainGate k path = Reject_http 503 ''Server shutting down'' \<and>
            drainHandshakeGuard k = Reject_handshake ''Server shutting down'' \<and> drainPacketGuard k packet \<noteq> Pass"
proof -
  let ?k = "run_steps (shutdown_step c e) boot es"
  have "one_run ?k"
    by (rule controller.run_inv) simp
  moreover have "1 \<le> state_number (currentState ?k)"
    using assms(1) by (cases "currentState ?k") (simp_all add: isDraining_def)
  ultimately have "1 \<le> state_number (currentState (run_steps (shutdown_step c e) ?k fs))"
    by (rule controller.run_rank_upper)
  then have "currentState (run_steps (shutdown_step c e) boot (es @ fs)) \<noteq> RUNNING"
    by (auto simp: run_steps_append)
  then show ?thesis
    using assms(2) by (simp add: drainGate_def drainHandshakeGuard_def drainPacketGuard_def Let_def)
qed

definition silent_env :: env where
  "silent_env = \<lparr>env_inflight = (\<lambda>_. Some 1), env_rooms = (\<lambda>_. Never), env_io = Never, env_cache = Never,
                 env_pool = Never\<rparr>"

theorem draining_is_final_witness:
  "let k = run_steps (shutdown_step default_caps silent_env) boot
             ([Prestop_request ''127.0.0.1'' 5] @ [Signal SIGTERM 9, Sequence_done])
   in drainGate k ''/auth/login'' = Reject_http 503 ''Server shutting down'' \<and>
      drainHandshakeGuard k = Reject_handshake ''Server shutting down'' \<and> drainPacketGuard k [True] \<noteq> Pass"
  by (rule draining_is_final)
    (simp_all add: boot_def isDraining_def enterDrainHandler_def enterDraining_def isLoopbackAddress_def
      LOOPBACK_ADDRESSES_def DRAIN_ALLOWLIST_def)

end
