(* ===== verification/Tournament.thy ===== *)
theory Tournament
  imports Database "HOL-Library.Word" "HOL-Library.Multiset"
begin

text \<open>
  Single elimination tournaments (models/Tournament.js, routes/tournaments.js, the tables of
  005_tournaments.sql with the capacity trigger of 006_security_integrity.sql). The random
  number drawn at index \<open>i\<close> of a shuffle is \<open>rnd i\<close> divided by 2 to the 53. Player and winner
  columns are copied from rows that already satisfy their foreign keys.
\<close>

section \<open>Brackets\<close>

text \<open>\<open>nextPow2\<close>: the loop variable is the k-th power of two.\<close>

function nextPow2_from :: "nat \<Rightarrow> nat \<Rightarrow> nat" where
  "nextPow2_from k n = (if 2 ^ k < n then nextPow2_from (Suc k) n else 2 ^ k)"
  by pat_completeness auto
termination
  by (relation "measure (\<lambda>(k, n). n - 2 ^ k)") (auto intro: diff_less_mono2)

declare nextPow2_from.simps [simp del]

definition nextPow2 :: "nat \<Rightarrow> nat" where
  "nextPow2 n = nextPow2_from 0 n"

lemma nextPow2_from_ge: "n \<le> nextPow2_from k n"
  by (induction k n rule: nextPow2_from.induct) (subst nextPow2_from.simps, simp)

text \<open>The swap and the countdown of the shuffle.\<close>

definition swap :: "nat \<Rightarrow> nat \<Rightarrow> 'a list \<Rightarrow> 'a list" where
  "swap i j xs = xs[i := xs ! j, j := xs ! i]"

definition random_index :: "53 word \<Rightarrow> nat \<Rightarrow> nat" where
  "random_index r i = (unat r * (i + 1)) div 2 ^ 53"

fun shuffle_from :: "(nat \<Rightarrow> 53 word) \<Rightarrow> nat \<Rightarrow> 'a list \<Rightarrow> 'a list" where
  "shuffle_from rnd 0 xs = xs"
| "shuffle_from rnd (Suc i) xs =
     shuffle_from rnd i (swap (Suc i) (random_index (rnd (Suc i)) (Suc i)) xs)"

definition shuffle :: "(nat \<Rightarrow> 53 word) \<Rightarrow> 'a list \<Rightarrow> 'a list" where
  "shuffle rnd xs = shuffle_from rnd (length xs - 1) xs"

lemma random_index_le: "random_index r i \<le> i"
proof -
  have "unat r < 2 ^ 53"
    using unsigned_less [of r, where ?'a = nat] by simp
  then have "unat r * (i + 1) < 2 ^ 53 * (i + 1)"
    by (intro mult_strict_right_mono) simp_all
  then have "unat r * (i + 1) div 2 ^ 53 < i + 1"
    by (simp add: div_less_iff_less_mult mult.commute)
  then show ?thesis
    by (simp add: random_index_def)
qed

lemma mset_swap_at: "i < length xs \<Longrightarrow> j < length xs \<Longrightarrow> mset (swap i j xs) = mset xs"
  unfolding swap_def by (rule mset_swap)

lemma length_swap [simp]: "length (swap i j xs) = length xs"
  by (simp add: swap_def)

lemma mset_shuffle_from: "i < length xs \<or> i = 0 \<Longrightarrow> mset (shuffle_from rnd i xs) = mset xs"
proof (induction rnd i xs rule: shuffle_from.induct)
  case (2 rnd i xs)
  have "random_index (rnd (Suc i)) (Suc i) < length xs"
    using 2(2) random_index_le [of "rnd (Suc i)" "Suc i"] by linarith
  then show ?case
    using 2 by (simp add: mset_swap_at)
qed simp

lemma mset_shuffle [simp]: "mset (shuffle rnd xs) = mset xs"
  unfolding shuffle_def by (rule mset_shuffle_from) (cases xs, simp_all)

lemma length_shuffle [simp]: "length (shuffle rnd xs) = length xs"
  by (metis mset_shuffle size_mset)

lemma set_shuffle [simp]: "set (shuffle rnd xs) = set xs"
  by (metis mset_shuffle set_mset_mset)

text \<open>The padding with empty places: the loop appends one until the length is a power of two.\<close>

lemma nextPow2_from_Suc: "n < nextPow2_from k n \<Longrightarrow> nextPow2_from k (Suc n) = nextPow2_from k n"
proof (induction k n rule: nextPow2_from.induct)
  case (1 k n)
  show ?case
  proof (cases "2 ^ k < n")
    case True
    then have "nextPow2_from k n = nextPow2_from (Suc k) n" "nextPow2_from k (Suc n) = nextPow2_from (Suc k) (Suc n)"
      by (subst nextPow2_from.simps, simp)+
    then show ?thesis
      using 1 True by simp
  next
    case False
    then have k: "nextPow2_from k n = 2 ^ k"
      by (subst nextPow2_from.simps) simp
    then have "\<not> 2 ^ k < Suc n"
      using 1(2) by simp
    then show ?thesis
      using k by (subst nextPow2_from.simps) simp
  qed
qed

lemma nextPow2_Suc: "n < nextPow2 n \<Longrightarrow> nextPow2 (Suc n) = nextPow2 n"
  by (simp add: nextPow2_def nextPow2_from_Suc)

function pad_players :: "'a option list \<Rightarrow> 'a option list" where
  "pad_players xs = (if length xs < nextPow2 (length xs) then pad_players (xs @ [None]) else xs)"
  by pat_completeness auto
termination
  by (relation "measure (\<lambda>xs. nextPow2 (length xs) - length xs)") (auto simp: nextPow2_Suc intro: diff_less_mono2)

declare pad_players.simps [simp del]

lemma pad_players_eq: "pad_players xs = xs @ replicate (nextPow2 (length xs) - length xs) None"
proof (induction xs rule: pad_players.induct)
  case (1 xs)
  show ?case
  proof (cases "length xs < nextPow2 (length xs)")
    case True
    then have "nextPow2 (length xs) - length xs = Suc (nextPow2 (length xs) - Suc (length xs))"
      by simp
    then show ?thesis
      using 1 True by (subst pad_players.simps) (simp add: nextPow2_Suc)
  qed (subst pad_players.simps, simp)
qed

text \<open>Neighbours play each other; with an odd number the last has no opponent.\<close>

fun pairs :: "'a option list \<Rightarrow> ('a option \<times> 'a option) list" where
  "pairs [] = []"
| "pairs [x] = [(x, None)]"
| "pairs (x # y # xs) = (x, y) # pairs xs"

lemma length_pairs: "length (pairs xs) = (length xs + 1) div 2"
  by (induction xs rule: pairs.induct) auto

lemma nth_pairs: "2 * i + 1 < length xs \<Longrightarrow> pairs xs ! i = (xs ! (2 * i), xs ! (2 * i + 1))"
proof (induction xs arbitrary: i rule: pairs.induct)
  case (3 x y xs)
  then show ?case by (cases i) auto
qed auto

section \<open>Operations\<close>

datatype treply = TError string | TJoined bool | TStarted | TReported

definition find_tournament :: "nat \<Rightarrow> db \<Rightarrow> tournament_row option" where
  "find_tournament i d = List.find (\<lambda>t. t_id t = i) (tournaments d)"

definition players_of :: "nat \<Rightarrow> db \<Rightarrow> player_row list" where
  "players_of i d = filter (\<lambda>p. tp_tournament p = i) (tplayers d)"

definition round_matches :: "nat \<Rightarrow> nat \<Rightarrow> db \<Rightarrow> match_row list" where
  "round_matches i r d = sort_key tm_position (filter (\<lambda>m. tm_tournament m = i \<and> tm_round m = r) (tmatches d))"

text \<open>An INSERT into \<open>tournament_players\<close>: the capacity trigger, the foreign key, the unique pair.\<close>

definition insert_player :: "int \<Rightarrow> nat \<Rightarrow> nat \<Rightarrow> unit query" where
  "insert_player now i user =
     qbind (qget (find_tournament i)) (\<lambda>t.
     case t of
       None \<Rightarrow> qthrow Foreign_key_violation
     | Some t \<Rightarrow>
         qbind (guard_q (t_status t = Open) Check_violation) (\<lambda>_.
         qbind (qget (players_of i)) (\<lambda>ps.
         qbind (guard_q (length ps < t_max t) Check_violation) (\<lambda>_.
         qbind (user_ref (Some user)) (\<lambda>_.
         qbind (guard_q (\<not> list_ex (\<lambda>p. tp_user p = user) ps) Unique_violation) (\<lambda>_.
         qput (\<lambda>d. d\<lparr>tplayers := tplayers d @ [\<lparr>tp_tournament = i, tp_user = user, tp_joined = now\<rparr>]\<rparr>)))))))"

definition tournament_create :: "int \<Rightarrow> nat \<Rightarrow> string \<Rightarrow> nat \<Rightarrow> tournament_row query" where
  "tournament_create now creatorId name maxPlayers =
     transaction
       (qbind fresh (\<lambda>i.
        qbind (user_ref (Some creatorId)) (\<lambda>_.
        qbind (guard_q (length name \<le> 80) Value_too_long) (\<lambda>_.
        qbind (guard_q (maxPlayers \<in> {4, 8, 16}) Check_violation) (\<lambda>_.
          let t = \<lparr>t_id = i, t_name = name, t_creator = creatorId, t_max = maxPlayers, t_status = Open,
                   t_winner = None, t_created = now, t_started = None, t_finished = None\<rparr> in
          qbind (qput (\<lambda>d. d\<lparr>tournaments := tournaments d @ [t]\<rparr>)) (\<lambda>_.
          qbind (insert_player now i creatorId) (\<lambda>_. qreturn t)))))))"

definition tournament_join :: "int \<Rightarrow> nat \<Rightarrow> nat \<Rightarrow> treply query" where
  "tournament_join now i user =
     transaction
       (qbind (qget (find_tournament i)) (\<lambda>t.
        case t of
          None \<Rightarrow> qreturn (TError ''Tournament not found'')
        | Some t \<Rightarrow>
            if t_status t \<noteq> Open then qreturn (TError ''Tournament already started'')
            else
              qbind (qget (players_of i)) (\<lambda>ps.
                if list_ex (\<lambda>p. tp_user p = user) ps then qreturn (TJoined True)
                else if length ps \<ge> t_max t then qreturn (TError ''Tournament is full'')
                else qbind (insert_player now i user) (\<lambda>_. qreturn (TJoined False)))))"

text \<open>An INSERT into \<open>tournament_matches\<close>; with ON CONFLICT DO NOTHING a taken place is left alone.\<close>

definition place_taken :: "nat \<Rightarrow> nat \<Rightarrow> nat \<Rightarrow> db \<Rightarrow> bool" where
  "place_taken i r pos d \<longleftrightarrow>
     list_ex (\<lambda>m. tm_tournament m = i \<and> tm_round m = r \<and> tm_position m = pos) (tmatches d)"

definition insert_match ::
  "bool \<Rightarrow> nat \<Rightarrow> nat \<Rightarrow> nat \<Rightarrow> nat option \<Rightarrow> nat option \<Rightarrow> nat option \<Rightarrow> mstatus \<Rightarrow> unit query" where
  "insert_match onConflictDoNothing i r pos p1 p2 winner st =
     qbind (qget (place_taken i r pos)) (\<lambda>taken.
       if taken then (if onConflictDoNothing then qreturn () else qthrow Unique_violation)
       else
         qbind fresh (\<lambda>mid.
         qput (\<lambda>d. d\<lparr>tmatches := tmatches d @
           [\<lparr>tm_id = mid, tm_tournament = i, tm_round = r, tm_position = pos, tm_player1 = p1, tm_player2 = p2,
             tm_winner = winner, tm_status = st\<rparr>]\<rparr>)))"

fun insert_next_round :: "nat \<Rightarrow> nat \<Rightarrow> nat \<Rightarrow> (nat option \<times> nat option) list \<Rightarrow> unit query" where
  "insert_next_round i r pos [] = qreturn ()"
| "insert_next_round i r pos ((p1, p2) # ps) =
     qbind (insert_match True i r pos p1 p2 None Pending) (\<lambda>_. insert_next_round i r (Suc pos) ps)"

definition finish_tournament :: "int \<Rightarrow> nat \<Rightarrow> nat option \<Rightarrow> unit query" where
  "finish_tournament now i winner =
     qbind (qget (\<lambda>d. filter (\<lambda>t. t_id t = i \<and> t_status t = InProgress) (tournaments d))) (\<lambda>rows.
     qbind (qput (\<lambda>d. d\<lparr>tournaments := update_where (\<lambda>t. t_id t = i \<and> t_status t = InProgress)
       (\<lambda>t. t\<lparr>t_status := Finished, t_winner := winner, t_finished := Some now\<rparr>) (tournaments d)\<rparr>)) (\<lambda>_.
     guard_q (length rows = 1) (Thrown ''Tournament finalization conflict'')))"

definition advanceRound :: "int \<Rightarrow> nat \<Rightarrow> nat \<Rightarrow> unit query" where
  "advanceRound now i r =
     qbind (qget (find_tournament i)) (\<lambda>t.
     case t of
       None \<Rightarrow> qreturn ()
     | Some t \<Rightarrow>
         if t_status t \<noteq> InProgress then qreturn ()
         else
           qbind (qget (round_matches i r)) (\<lambda>ms.
             if ms = [] \<or> list_ex (\<lambda>m. tm_status m = Pending) ms then qreturn ()
             else
               let winners = map tm_winner ms in
               if length winners = 1 then finish_tournament now i (hd winners)
               else insert_next_round i (r + 1) 0 (pairs winners)))"

text \<open>\<open>!p1 || !p2 ? (p1?.id || p2?.id) : null\<close>: an empty place lets the other one through.\<close>

definition bye_winner :: "nat option \<Rightarrow> nat option \<Rightarrow> nat option" where
  "bye_winner p1 p2 =
     (if p1 = None \<or> p2 = None then (case p1 of Some i \<Rightarrow> Some i | None \<Rightarrow> p2) else None)"

fun insert_first_round :: "nat \<Rightarrow> nat \<Rightarrow> (nat option \<times> nat option) list \<Rightarrow> unit query" where
  "insert_first_round i pos [] = qreturn ()"
| "insert_first_round i pos ((p1, p2) # ps) =
     (let winner = bye_winner p1 p2 in
      qbind (insert_match False i 1 pos p1 p2 winner (if winner \<noteq> None then Bye else Pending)) (\<lambda>_.
      insert_first_round i (Suc pos) ps))"

definition start_rows :: "nat \<Rightarrow> int \<Rightarrow> unit query" where
  "start_rows i now =
     qbind (qget (\<lambda>d. filter (\<lambda>t. t_id t = i \<and> t_status t = Open) (tournaments d))) (\<lambda>rows.
     qbind (qput (\<lambda>d. d\<lparr>tournaments := update_where (\<lambda>t. t_id t = i \<and> t_status t = Open)
       (\<lambda>t. t\<lparr>t_status := InProgress, t_started := Some now\<rparr>) (tournaments d)\<rparr>)) (\<lambda>_.
     guard_q (length rows = 1) (Thrown ''Tournament start conflict'')))"

text \<open>The players in the order they joined, as the JOIN with users returns them.\<close>

definition entrants :: "nat \<Rightarrow> db \<Rightarrow> nat list" where
  "entrants i d = map tp_user (sort_key tp_joined (filter (\<lambda>p. user_exists d (tp_user p)) (players_of i d)))"

text \<open>The bracket of the entrants and the switch to in progress.\<close>

definition start_bracket :: "(nat \<Rightarrow> 53 word) \<Rightarrow> int \<Rightarrow> nat \<Rightarrow> nat list \<Rightarrow> treply query" where
  "start_bracket rnd now i ps =
     (let players = pad_players (map Some (shuffle rnd ps)) in
      qbind (insert_first_round i 0 (pairs players)) (\<lambda>_.
      qbind (start_rows i now) (\<lambda>_.
      qbind (advanceRound now i 1) (\<lambda>_. qreturn TStarted))))"

definition tournament_start :: "(nat \<Rightarrow> 53 word) \<Rightarrow> int \<Rightarrow> nat \<Rightarrow> nat \<Rightarrow> treply query" where
  "tournament_start rnd now i requester =
     transaction
       (qbind (qget (find_tournament i)) (\<lambda>t.
        case t of
          None \<Rightarrow> qreturn (TError ''Tournament not found'')
        | Some t \<Rightarrow>
            if t_creator t \<noteq> requester then qreturn (TError ''Only the creator can start the tournament'')
            else if t_status t \<noteq> Open then qreturn (TError ''Tournament already started'')
            else
              qbind (qget (entrants i)) (\<lambda>ps.
                if length ps < 2 then qreturn (TError ''Need at least 2 players'')
                else start_bracket rnd now i ps)))"

definition winner_among :: "match_row \<Rightarrow> int \<Rightarrow> bool" where
  "winner_among m w \<longleftrightarrow> list_ex (\<lambda>p. map_option int p = Some w) [tm_player1 m, tm_player2 m]"

definition report_row :: "nat \<Rightarrow> nat \<Rightarrow> unit query" where
  "report_row mid winner =
     qbind (qget (\<lambda>d. filter (\<lambda>m. tm_id m = mid \<and> tm_status m = Pending) (tmatches d))) (\<lambda>rows.
     qbind (qput (\<lambda>d. d\<lparr>tmatches := update_where (\<lambda>m. tm_id m = mid \<and> tm_status m = Pending)
       (\<lambda>m. m\<lparr>tm_winner := Some winner, tm_status := Done\<rparr>) (tmatches d)\<rparr>)) (\<lambda>_.
     guard_q (length rows = 1) (Thrown ''Match result conflict'')))"

definition reportResult :: "int \<Rightarrow> nat \<Rightarrow> nat \<Rightarrow> int \<Rightarrow> treply query" where
  "reportResult now matchId reporterId winnerId =
     transaction
       (qbind (qget (\<lambda>d. List.find (\<lambda>m. tm_id m = matchId) (tmatches d))) (\<lambda>m.
        case m of
          None \<Rightarrow> qreturn (TError ''Match not found'')
        | Some m \<Rightarrow>
            if tm_status m \<noteq> Pending then qreturn (TError ''Match already resolved'')
            else if \<not> winner_among m winnerId then qreturn (TError ''Winner must be one of the two players'')
            else if \<not> winner_among m (int reporterId) then qreturn (TError ''Only participants can report this match'')
            else
              qbind (report_row matchId (nat winnerId)) (\<lambda>_.
              qbind (advanceRound now (tm_tournament m) (tm_round m)) (\<lambda>_. qreturn TReported))))"

definition maybeAdvanceRound :: "int \<Rightarrow> nat \<Rightarrow> nat \<Rightarrow> unit query" where
  "maybeAdvanceRound now i r = transaction (advanceRound now i r)"

text \<open>What the pages read.\<close>

definition listOpen :: "(tournament_row \<times> nat) list query" where
  "listOpen = qget (\<lambda>d. take 30 (map (\<lambda>t. (t, length (players_of (t_id t) d)))
     (rev (sort_key t_created (filter (\<lambda>t. t_status t \<in> {Open, InProgress}) (tournaments d))))))"

definition getById :: "nat \<Rightarrow> tournament_row option query" where
  "getById i = qget (find_tournament i)"

definition getPlayers :: "nat \<Rightarrow> user_row list query" where
  "getPlayers i = qget (\<lambda>d. List.map_filter (\<lambda>p. List.find (\<lambda>u. u_id u = tp_user p) (users d))
     (sort_key tp_joined (players_of i d)))"

definition getMatches :: "nat \<Rightarrow> match_row list query" where
  "getMatches i = qget (\<lambda>d. sort_key tm_round (sort_key tm_position
     (filter (\<lambda>m. tm_tournament m = i) (tmatches d))))"

section \<open>What one tournament sees\<close>

definition matches_of :: "nat \<Rightarrow> db \<Rightarrow> match_row list" where
  "matches_of i d = filter (\<lambda>m. tm_tournament m = i) (tmatches d)"

definition tview :: "nat \<Rightarrow> db \<Rightarrow> tournament_row option \<times> match_row list" where
  "tview i d = (find_tournament i d, matches_of i d)"

lemma round_matches_view: "round_matches i r d = sort_key tm_position (filter (\<lambda>m. tm_round m = r) (matches_of i d))"
  by (simp add: round_matches_def matches_of_def conj_commute)

lemma set_round_matches [simp]:
  "set (round_matches i r d) = {m \<in> set (tmatches d). tm_tournament m = i \<and> tm_round m = r}"
  by (auto simp: round_matches_def)

lemma find_update_where:
  assumes "\<And>x. Q (f x) = Q x" "\<And>x. Q x \<Longrightarrow> \<not> P x"
  shows "List.find Q (update_where P f xs) = List.find Q xs"
  using assms by (induction xs) auto

lemma find_by_key: "distinct (map k xs) \<Longrightarrow> x \<in> set xs \<Longrightarrow> List.find (\<lambda>y. k y = k x) xs = Some x"
  by (induction xs) auto

lemma filter_by_key: "distinct (map k xs) \<Longrightarrow> x \<in> set xs \<Longrightarrow> k x = i \<Longrightarrow> P x \<Longrightarrow> filter (\<lambda>y. k y = i \<and> P y) xs = [x]"
  by (induction xs) (auto simp: filter_empty_conv rev_image_eqI)

lemma find_append_hit: "Q x \<Longrightarrow> List.find Q xs = None \<Longrightarrow> List.find Q (xs @ [x]) = Some x"
  by (induction xs) (auto split: if_splits)

lemma find_append_None: "\<not> Q x \<Longrightarrow> List.find Q (xs @ [x]) = List.find Q xs"
  by (induction xs) auto

lemma filter_update_where:
  assumes "\<And>x. Q (f x) = Q x" "\<And>x. Q x \<Longrightarrow> \<not> P x"
  shows "filter Q (update_where P f xs) = filter Q xs"
  using assms by (induction xs) auto

text \<open>Operations on another tournament leave it alone.\<close>

lemma local_insert_match:
  "j \<noteq> i \<Longrightarrow> preserves (\<lambda>d. tview i d = v) (insert_match c j r pos p1 p2 w st)"
  unfolding insert_match_def
  by (intro preserve preserves_qput)
    (auto simp: preserves_def tview_def find_tournament_def matches_of_def)

lemma local_insert_next_round:
  "j \<noteq> i \<Longrightarrow> preserves (\<lambda>d. tview i d = v) (insert_next_round j r pos ps)"
proof (induction ps arbitrary: pos)
  case (Cons p ps)
  show ?case
    by (cases p) (simp only: insert_next_round.simps, intro preserve local_insert_match Cons)
qed (simp add: preserve)

lemma local_insert_first_round:
  "j \<noteq> i \<Longrightarrow> preserves (\<lambda>d. tview i d = v) (insert_first_round j pos ps)"
proof (induction ps arbitrary: pos)
  case (Cons p ps)
  show ?case
    by (cases p) (simp only: insert_first_round.simps Let_def, intro preserve local_insert_match Cons)
qed (simp add: preserve)

lemma tview_find_status:
  assumes "j \<noteq> i" "tview i d = v" "\<And>t. t_id (f t) = t_id t"
  shows "tview i (d\<lparr>tournaments := update_where (\<lambda>t. t_id t = j \<and> t_status t = st) f (tournaments d)\<rparr>) = v"
proof -
  have "find_tournament i (d\<lparr>tournaments := update_where (\<lambda>t. t_id t = j \<and> t_status t = st) f (tournaments d)\<rparr>) =
        find_tournament i d"
    unfolding find_tournament_def by (simp, rule find_update_where) (use assms in auto)
  then show ?thesis
    using assms(2) by (auto simp: tview_def matches_of_def)
qed

lemma local_finish_tournament:
  "j \<noteq> i \<Longrightarrow> preserves (\<lambda>d. tview i d = v) (finish_tournament now j w)"
  unfolding finish_tournament_def
  by (intro preserve preserves_qput) (simp_all add: tview_find_status)

lemma local_start_rows:
  "j \<noteq> i \<Longrightarrow> preserves (\<lambda>d. tview i d = v) (start_rows j now)"
  unfolding start_rows_def
  by (intro preserve preserves_qput) (simp_all add: tview_find_status)

lemma local_advanceRound:
  "j \<noteq> i \<Longrightarrow> preserves (\<lambda>d. tview i d = v) (advanceRound now j r)"
  unfolding advanceRound_def Let_def
  by (intro preserve local_finish_tournament local_insert_next_round)

lemma local_insert_player: "preserves (\<lambda>d. tview i d = v) (insert_player now j u)"
  unfolding insert_player_def
  by (intro preserve preserves_qput) (simp_all add: tview_def find_tournament_def matches_of_def)

lemma local_join: "preserves (\<lambda>d. tview i d = v) (tournament_join now j u)"
  unfolding tournament_join_def by (intro preserve local_insert_player)

lemma local_start:
  "j \<noteq> i \<Longrightarrow> preserves (\<lambda>d. tview i d = v) (tournament_start rnd now j u)"
  unfolding tournament_start_def start_bracket_def Let_def
  by (intro preserve local_insert_first_round local_start_rows local_advanceRound)

lemma local_maybeAdvance:
  "j \<noteq> i \<Longrightarrow> preserves (\<lambda>d. tview i d = v) (maybeAdvanceRound now j r)"
  unfolding maybeAdvanceRound_def by (intro preserve local_advanceRound)

section \<open>The advance of a round\<close>

lemma advanceRound_waits:
  assumes "list_ex (\<lambda>m. tm_status m = Pending) (round_matches i r d) \<or> round_matches i r d = []"
  shows "advanceRound now i r d = (Inr (), d)"
  using assms by (auto simp: advanceRound_def split: option.split)

lemma insert_match_free:
  assumes "\<not> place_taken i r pos d"
  shows "insert_match c i r pos p1 p2 w st d =
    (Inr (), d\<lparr>next_id := Suc (next_id d), tmatches := tmatches d @
       [\<lparr>tm_id = next_id d, tm_tournament = i, tm_round = r, tm_position = pos, tm_player1 = p1, tm_player2 = p2,
         tm_winner = w, tm_status = st\<rparr>]\<rparr>)"
  using assms by (simp add: insert_match_def)

text \<open>The rows a new round adds, and the database afterwards.\<close>

definition next_rows :: "nat \<Rightarrow> nat \<Rightarrow> nat \<Rightarrow> nat \<Rightarrow> (nat option \<times> nat option) list \<Rightarrow> match_row list" where
  "next_rows mid i r pos ps =
     map (\<lambda>(k, p1, p2). \<lparr>tm_id = mid + k, tm_tournament = i, tm_round = r, tm_position = pos + k, tm_player1 = p1,
                         tm_player2 = p2, tm_winner = None, tm_status = Pending\<rparr>) (enumerate 0 ps)"

lemma next_rows_Cons:
  "next_rows mid i r pos ((p1, p2) # ps) =
     \<lparr>tm_id = mid, tm_tournament = i, tm_round = r, tm_position = pos, tm_player1 = p1, tm_player2 = p2,
      tm_winner = None, tm_status = Pending\<rparr> # next_rows (Suc mid) i r (Suc pos) ps"
proof -
  have "enumerate 1 ps = map (\<lambda>(k, x). (Suc k, x)) (enumerate 0 ps)"
    by (rule nth_equalityI) (auto simp: nth_enumerate_eq)
  then show ?thesis
    by (simp add: next_rows_def case_prod_beta)
qed

lemma insert_next_round_free:
  assumes "\<forall>m \<in> set (tmatches d). \<not> (tm_tournament m = i \<and> tm_round m = r \<and> pos \<le> tm_position m)"
  shows "insert_next_round i r pos ps d =
    (Inr (), d\<lparr>next_id := next_id d + length ps, tmatches := tmatches d @ next_rows (next_id d) i r pos ps\<rparr>)"
  using assms
proof (induction ps arbitrary: pos d)
  case Nil
  then show ?case by (simp add: next_rows_def)
next
  case (Cons p ps)
  obtain p1 p2 where p: "p = (p1, p2)"
    by (cases p)
  have free: "\<not> place_taken i r pos d"
    using Cons.prems by (auto simp: place_taken_def list_ex_iff)
  let ?m = "\<lparr>tm_id = next_id d, tm_tournament = i, tm_round = r, tm_position = pos, tm_player1 = p1,
              tm_player2 = p2, tm_winner = None, tm_status = Pending\<rparr>"
  let ?d = "d\<lparr>next_id := Suc (next_id d), tmatches := tmatches d @ [?m]\<rparr>"
  have "insert_next_round i r (Suc pos) ps ?d =
      (Inr (), ?d\<lparr>next_id := next_id ?d + length ps, tmatches := tmatches ?d @ next_rows (next_id ?d) i r (Suc pos) ps\<rparr>)"
    by (rule Cons.IH) (use Cons.prems in \<open>auto simp: Suc_le_eq not_le\<close>)
  then show ?case
    by (simp add: p insert_match_free [OF free] next_rows_Cons)
qed

section \<open>The invariant of the tournament tables\<close>

definition match_ok :: "match_row \<Rightarrow> bool" where
  "match_ok m \<longleftrightarrow> (case tm_winner m of None \<Rightarrow> tm_status m = Pending
                   | Some w \<Rightarrow> tm_status m \<noteq> Pending \<and> (tm_player1 m = Some w \<or> tm_player2 m = Some w))"

definition place :: "match_row \<Rightarrow> nat \<times> nat \<times> nat" where
  "place m = (tm_tournament m, tm_round m, tm_position m)"

definition matches_inv :: "db \<Rightarrow> bool" where
  "matches_inv d \<longleftrightarrow> (\<forall>m \<in> set (tmatches d). match_ok m \<and> tm_id m < next_id d) \<and>
     distinct (map tm_id (tmatches d)) \<and> distinct (map place (tmatches d))"

definition entries_inv :: "db \<Rightarrow> bool" where
  "entries_inv d \<longleftrightarrow>
     (\<forall>t \<in> set (tournaments d). t_id t < next_id d \<and> length (players_of (t_id t) d) \<le> t_max t \<and> t_max t \<in> {4, 8, 16}) \<and>
     (\<forall>p \<in> set (tplayers d). tp_tournament p \<in> t_id ` set (tournaments d)) \<and>
     distinct (map t_id (tournaments d)) \<and> distinct (map (\<lambda>p. (tp_tournament p, tp_user p)) (tplayers d))"

text \<open>One tournament: matches only once started, a winner exactly when finished.\<close>

definition view_ok :: "tournament_row option \<times> match_row list \<Rightarrow> bool" where
  "view_ok v = (case v of
     (None, ms) \<Rightarrow> ms = []
   | (Some t, ms) \<Rightarrow> (t_status t = Open \<longrightarrow> ms = []) \<and> (t_status t = Finished \<longleftrightarrow> t_winner t \<noteq> None))"

definition views_inv :: "db \<Rightarrow> bool" where
  "views_inv d \<longleftrightarrow> (\<forall>i. view_ok (tview i d))"

text \<open>The matches.\<close>

lemma matches_inv_cong:
  "tmatches d' = tmatches d \<Longrightarrow> next_id d \<le> next_id d' \<Longrightarrow> matches_inv d \<Longrightarrow> matches_inv d'"
  by (auto simp: matches_inv_def)

lemma matches_insert_match [preserve]:
  assumes "match_ok \<lparr>tm_id = 0, tm_tournament = i, tm_round = r, tm_position = pos, tm_player1 = p1, tm_player2 = p2,
                     tm_winner = w, tm_status = st\<rparr>"
  shows "preserves matches_inv (insert_match c i r pos p1 p2 w st)"
proof -
  have "matches_inv (snd (insert_match c i r pos p1 p2 w st d))" if "matches_inv d" for d
  proof (cases "place_taken i r pos d")
    case True
    then show ?thesis using that by (simp add: insert_match_def)
  next
    case False
    then have "(i, r, pos) \<notin> place ` set (tmatches d)" "next_id d \<notin> tm_id ` set (tmatches d)"
      using that by (auto simp: place_taken_def list_ex_iff place_def matches_inv_def)
    then show ?thesis
      using that assms False by (auto simp: insert_match_free matches_inv_def match_ok_def place_def split: option.split)
  qed
  then show ?thesis by (simp add: preserves_def)
qed

lemma matches_insert_next_round [preserve]: "preserves matches_inv (insert_next_round i r pos ps)"
proof (induction ps arbitrary: pos)
  case (Cons p ps)
  show ?case
    by (cases p) (simp only: insert_next_round.simps, intro preserve Cons, simp add: match_ok_def)
qed (simp add: preserve)

lemma bye_winner_ok:
  "bye_winner p1 p2 = Some w \<Longrightarrow> p1 = Some w \<or> p2 = Some w"
  by (auto simp: bye_winner_def split: if_splits option.splits)

lemma matches_insert_first_round [preserve]: "preserves matches_inv (insert_first_round i pos ps)"
proof (induction ps arbitrary: pos)
  case (Cons p ps)
  show ?case
    by (cases p) (simp only: insert_first_round.simps Let_def, intro preserve Cons,
        auto simp: match_ok_def dest: bye_winner_ok split: option.split)
qed (simp add: preserve)

lemma matches_finish [preserve]: "preserves matches_inv (finish_tournament now i w)"
  unfolding finish_tournament_def by (intro preserve preserves_qput) (erule matches_inv_cong [rotated 2]; simp)

lemma matches_start_rows [preserve]: "preserves matches_inv (start_rows i now)"
  unfolding start_rows_def by (intro preserve preserves_qput) (erule matches_inv_cong [rotated 2]; simp)

lemma matches_insert_player [preserve]: "preserves matches_inv (insert_player now i u)"
  unfolding insert_player_def by (intro preserve preserves_qput) (erule matches_inv_cong [rotated 2]; simp)

lemma matches_fresh [preserve]: "preserves matches_inv fresh"
  by (auto simp: preserves_def intro: matches_inv_cong)

lemma matches_advanceRound [preserve]: "preserves matches_inv (advanceRound now i r)"
  unfolding advanceRound_def Let_def by (intro preserve)

lemma matches_create: "preserves matches_inv (tournament_create now u n mx)"
  unfolding tournament_create_def Let_def
  by (intro preserve preserves_qput) (erule matches_inv_cong [rotated 2]; simp)

lemma matches_join: "preserves matches_inv (tournament_join now i u)"
  unfolding tournament_join_def by (intro preserve)

lemma matches_start: "preserves matches_inv (tournament_start rnd now i u)"
  unfolding tournament_start_def start_bracket_def Let_def by (intro preserve)

lemma matches_maybeAdvance: "preserves matches_inv (maybeAdvanceRound now i r)"
  unfolding maybeAdvanceRound_def by (intro preserve)

text \<open>A result is written only on a match where the winner plays.\<close>

lemma matches_update:
  assumes "matches_inv d" "\<And>m. tm_id (f m) = tm_id m" "\<And>m. place (f m) = place m"
    and "\<And>m. m \<in> set (tmatches d) \<Longrightarrow> P m \<Longrightarrow> match_ok (f m)"
  shows "matches_inv (d\<lparr>tmatches := update_where P f (tmatches d)\<rparr>)"
  using assms by (auto simp: matches_inv_def set_update_where map_update_where_same)

lemma report_row_matches:
  assumes inv: "matches_inv d" and m: "List.find (\<lambda>m. tm_id m = mid) (tmatches d) = Some m" and w: "winner_among m w"
  shows "matches_inv (snd (report_row mid (nat w) d))"
proof -
  have mem: "m \<in> set (tmatches d)" "tm_id m = mid"
    using find_Some_in [OF m] by auto
  have uniq: "x = m" if "x \<in> set (tmatches d)" "tm_id x = mid" for x
    using inv mem that by (auto simp: matches_inv_def distinct_map dest: inj_onD)
  have "tm_player1 m = Some (nat w) \<or> tm_player2 m = Some (nat w)"
    using w by (auto simp: winner_among_def)
  then have "matches_inv (d\<lparr>tmatches := update_where (\<lambda>m. tm_id m = mid \<and> tm_status m = Pending)
       (\<lambda>m. m\<lparr>tm_winner := Some (nat w), tm_status := Done\<rparr>) (tmatches d)\<rparr>)"
    by (intro matches_update inv) (auto simp: match_ok_def place_def dest: uniq)
  then show ?thesis
    by (simp add: report_row_def guard_q_def)
qed

lemma matches_report: "preserves matches_inv (reportResult now mid u w)"
proof -
  have "matches_inv (snd (reportResult now mid u w d))" if inv: "matches_inv d" for d
  proof (cases "List.find (\<lambda>m. tm_id m = mid) (tmatches d)")
    case (Some m)
    have "matches_inv (snd (qbind (report_row mid (nat w)) (\<lambda>_. qbind (advanceRound now (tm_tournament m) (tm_round m))
            (\<lambda>_. qreturn TReported)) d))" if "winner_among m w"
    proof (cases "report_row mid (nat w) d")
      case (Pair x d')
      have "preserves matches_inv (qbind (advanceRound now (tm_tournament m) (tm_round m)) (\<lambda>_. qreturn TReported))"
        by (intro preserve)
      then show ?thesis
        using report_row_matches [OF inv Some that] Pair by (cases x) (simp_all add: preserves_def)
    qed
    then show ?thesis
      using Some inv by (auto simp: reportResult_def transaction_def split: prod.split sum.split)
  qed (simp add: reportResult_def transaction_def inv)
  then show ?thesis by (simp add: preserves_def)
qed

text \<open>The entries: capacity, one entry per user.\<close>

lemma entries_cong:
  "tournaments d' = tournaments d \<Longrightarrow> tplayers d' = tplayers d \<Longrightarrow> next_id d \<le> next_id d' \<Longrightarrow> entries_inv d \<Longrightarrow>
   entries_inv d'"
  by (fastforce simp: entries_inv_def players_of_def)

lemma entries_update:
  assumes "entries_inv d" "\<And>t. t_id (f t) = t_id t" "\<And>t. t_max (f t) = t_max t"
  shows "entries_inv (d\<lparr>tournaments := update_where P f (tournaments d)\<rparr>)"
proof -
  have "t_id ` set (update_where P f (tournaments d)) = t_id ` set (tournaments d)"
    by (metis assms(2) map_update_where_same set_map)
  then show ?thesis
    using assms by (auto simp: entries_inv_def players_of_def set_update_where map_update_where_same)
qed

lemma entries_insert_match [preserve]: "preserves entries_inv (insert_match c i r pos p1 p2 w st)"
  unfolding insert_match_def
  by (intro preserve preserves_qput) (auto simp: preserves_def intro: entries_cong)

lemma entries_next_round [preserve]: "preserves entries_inv (insert_next_round i r pos ps)"
proof (induction ps arbitrary: pos)
  case (Cons p ps)
  show ?case
    by (cases p) (simp only: insert_next_round.simps, intro preserve Cons)
qed (simp add: preserve)

lemma entries_first_round [preserve]: "preserves entries_inv (insert_first_round i pos ps)"
proof (induction ps arbitrary: pos)
  case (Cons p ps)
  show ?case
    by (cases p) (simp only: insert_first_round.simps Let_def, intro preserve Cons)
qed (simp add: preserve)

lemma entries_finish [preserve]: "preserves entries_inv (finish_tournament now i w)"
  unfolding finish_tournament_def by (intro preserve preserves_qput entries_update) simp_all

lemma entries_start_rows [preserve]: "preserves entries_inv (start_rows i now)"
  unfolding start_rows_def by (intro preserve preserves_qput entries_update) simp_all

lemma entries_report_row [preserve]: "preserves entries_inv (report_row mid w)"
  unfolding report_row_def by (intro preserve preserves_qput) (auto intro: entries_cong)

lemma entries_advanceRound [preserve]: "preserves entries_inv (advanceRound now i r)"
  unfolding advanceRound_def Let_def by (intro preserve)

lemma insert_player_cases:
  obtains (failed) e where "insert_player now i u d = (Inl e, d)"
  | (added) t where "find_tournament i d = Some t" "t_status t = Open" "length (players_of i d) < t_max t"
      "\<forall>p \<in> set (players_of i d). tp_user p \<noteq> u"
      "insert_player now i u d =
         (Inr (), d\<lparr>tplayers := tplayers d @ [\<lparr>tp_tournament = i, tp_user = u, tp_joined = now\<rparr>]\<rparr>)"
proof (cases "find_tournament i d")
  case None
  then show ?thesis using failed by (simp add: insert_player_def)
next
  case (Some t)
  show ?thesis
  proof (cases "t_status t = Open \<and> length (players_of i d) < t_max t \<and> user_exists d u \<and>
                \<not> list_ex (\<lambda>p. tp_user p = u) (players_of i d)")
    case True
    then show ?thesis using Some added by (simp add: insert_player_def list_ex_iff)
  next
    case False
    then have "\<exists>e. insert_player now i u d = (Inl e, d)"
      by (cases "t_status t = Open"; cases "length (players_of i d) < t_max t"; cases "user_exists d u")
        (simp_all add: Some insert_player_def)
    then show ?thesis using failed by blast
  qed
qed

lemma entries_add_player:
  assumes inv: "entries_inv d" and t: "find_tournament i d = Some t" and room: "length (players_of i d) < t_max t"
    and new: "\<forall>p \<in> set (players_of i d). tp_user p \<noteq> u"
  shows "entries_inv (d\<lparr>tplayers := tplayers d @ [\<lparr>tp_tournament = i, tp_user = u, tp_joined = now\<rparr>]\<rparr>)"
proof -
  have mem: "t \<in> set (tournaments d)" "t_id t = i"
    using t by (auto simp: find_tournament_def dest!: find_Some_in)
  have uniq: "x = t" if "x \<in> set (tournaments d)" "t_id x = i" for x
    using inv mem that by (auto simp: entries_inv_def distinct_map dest: inj_onD)
  have "(i, u) \<notin> (\<lambda>p. (tp_tournament p, tp_user p)) ` set (tplayers d)"
    using new by (auto simp: players_of_def)
  moreover have "length (players_of (t_id x) d) + (if t_id x = i then 1 else 0) \<le> t_max x"
    if "x \<in> set (tournaments d)" for x
    using inv that uniq [OF that] room by (cases "t_id x = i") (auto simp: entries_inv_def)
  moreover have "length (players_of j (d\<lparr>tplayers := tplayers d @ [\<lparr>tp_tournament = i, tp_user = u, tp_joined = now\<rparr>]\<rparr>)) =
      length (players_of j d) + (if j = i then 1 else 0)" for j
    by (simp add: players_of_def)
  moreover have "i \<in> t_id ` set (tournaments d)"
    using mem by blast
  ultimately show ?thesis
    using inv unfolding entries_inv_def by simp
qed

lemma entries_insert_player [preserve]: "preserves entries_inv (insert_player now i u)"
proof -
  have "entries_inv (snd (insert_player now i u d))" if "entries_inv d" for d
    by (cases rule: insert_player_cases [of now i u d]) (simp_all add: that entries_add_player)
  then show ?thesis by (simp add: preserves_def)
qed

lemma entries_join: "preserves entries_inv (tournament_join now i u)"
  unfolding tournament_join_def by (intro preserve)

lemma entries_start: "preserves entries_inv (tournament_start rnd now i u)"
  unfolding tournament_start_def start_bracket_def Let_def by (intro preserve)

lemma entries_report: "preserves entries_inv (reportResult now mid u w)"
  unfolding reportResult_def by (intro preserve)

lemma entries_maybeAdvance: "preserves entries_inv (maybeAdvanceRound now i r)"
  unfolding maybeAdvanceRound_def by (intro preserve)

lemma entries_create: "preserves entries_inv (tournament_create now u n mx)"
proof -
  have "entries_inv (snd (tournament_create now u n mx d))" if inv: "entries_inv d" for d
  proof -
    let ?t = "\<lparr>t_id = next_id d, t_name = n, t_creator = u, t_max = mx, t_status = Open, t_winner = None, t_created = now,
               t_started = None, t_finished = None\<rparr>"
    let ?d = "d\<lparr>next_id := Suc (next_id d), tournaments := tournaments d @ [?t]\<rparr>"
    have none: "players_of (next_id d) d = []"
      using inv by (fastforce simp: entries_inv_def players_of_def filter_empty_conv)
    have "entries_inv ?d" if "mx \<in> {4, 8, 16}"
      using inv that none by (fastforce simp: entries_inv_def players_of_def)
    then have "entries_inv (snd (insert_player now (next_id d) u ?d))" if "mx \<in> {4, 8, 16}"
      using entries_insert_player that by (simp add: preserves_def)
    then show ?thesis
      using inv by (auto simp: tournament_create_def transaction_def qbind_def guard_q_def user_ref_def Let_def
          split: prod.split sum.split)
  qed
  then show ?thesis by (simp add: preserves_def)
qed

text \<open>Each tournament on its own.\<close>

lemma find_status_update:
  assumes "\<And>t. t_id (f t) = t_id t"
  shows "find_tournament i (d\<lparr>tournaments := update_where (\<lambda>t. t_id t = i \<and> t_status t = st) f (tournaments d)\<rparr>) =
         map_option (\<lambda>t. if t_status t = st then f t else t) (find_tournament i d)"
proof -
  have "List.find (\<lambda>t. t_id t = i) (update_where (\<lambda>t. t_id t = i \<and> t_status t = st) f ts) =
        map_option (\<lambda>t. if t_status t = st then f t else t) (List.find (\<lambda>t. t_id t = i) ts)" for ts
    by (induction ts) (simp_all add: assms)
  then show ?thesis
    by (simp add: find_tournament_def)
qed

lemma find_insert_match [preserve]:
  "preserves (\<lambda>d. find_tournament i d = v) (insert_match c j r pos p1 p2 w st)"
  unfolding insert_match_def
  by (intro preserve preserves_qput) (auto simp: preserves_def find_tournament_def)

lemma find_next_round [preserve]: "preserves (\<lambda>d. find_tournament i d = v) (insert_next_round j r pos ps)"
proof (induction ps arbitrary: pos)
  case (Cons p ps)
  show ?case
    by (cases p) (simp only: insert_next_round.simps, intro preserve Cons)
qed (simp add: preserve)

lemma find_first_round [preserve]: "preserves (\<lambda>d. find_tournament i d = v) (insert_first_round j pos ps)"
proof (induction ps arbitrary: pos)
  case (Cons p ps)
  show ?case
    by (cases p) (simp only: insert_first_round.simps Let_def, intro preserve Cons)
qed (simp add: preserve)

lemma find_next_round_same: "find_tournament i (snd (insert_next_round j r pos ps d)) = find_tournament i d"
  using find_next_round [of i "find_tournament i d"] by (simp add: preserves_def)

lemma find_first_round_same: "find_tournament i (snd (insert_first_round j pos ps d)) = find_tournament i d"
  using find_first_round [of i "find_tournament i d"] by (simp add: preserves_def)

lemma advanceRound_view:
  assumes inv: "matches_inv d" and ok: "view_ok (tview i d)"
  shows "view_ok (tview i (snd (advanceRound now i r d)))"
proof (cases "find_tournament i d")
  case None
  then show ?thesis using ok by (simp add: advanceRound_def)
next
  case (Some t)
  let ?ms = "round_matches i r d"
  consider (idle) "t_status t \<noteq> InProgress \<or> ?ms = [] \<or> list_ex (\<lambda>m. tm_status m = Pending) ?ms"
    | (last) m where "t_status t = InProgress" "?ms = [m]" "tm_status m \<noteq> Pending"
    | (next_round) "t_status t = InProgress" "?ms \<noteq> []" "\<not> list_ex (\<lambda>m. tm_status m = Pending) ?ms" "length ?ms \<noteq> 1"
    by (cases ?ms; cases "tl ?ms") auto
  then show ?thesis
  proof cases
    case idle
    then show ?thesis using ok Some by (auto simp: advanceRound_def)
  next
    case last
    then have "m \<in> set ?ms" by simp
    then have "tm_winner m \<noteq> None"
      using inv last(3) by (auto simp: matches_inv_def match_ok_def split: option.splits)
    then have "view_ok (tview i (snd (finish_tournament now i (tm_winner m) d)))"
      by (auto simp: finish_tournament_def guard_q_def view_ok_def tview_def find_status_update Some last(1))
    then show ?thesis
      using Some last by (simp add: advanceRound_def)
  next
    case next_round
    have "find_tournament i (snd (advanceRound now i r d)) = Some t"
      using Some next_round by (simp add: advanceRound_def find_next_round_same Let_def)
    moreover have "t_winner t = None"
      using ok Some next_round(1) by (auto simp: view_ok_def tview_def)
    ultimately show ?thesis
      using next_round(1) by (simp add: view_ok_def tview_def)
  qed
qed

lemma advanceRound_views:
  assumes "matches_inv d" "views_inv d"
  shows "views_inv (snd (advanceRound now i r d))"
proof -
  have "view_ok (tview j (snd (advanceRound now i r d)))" for j
  proof (cases "j = i")
    case True
    then show ?thesis using advanceRound_view assms by (simp add: views_inv_def)
  next
    case False
    then have "tview j (snd (advanceRound now i r d)) = tview j d"
      using local_advanceRound [of i j "tview j d"] by (simp add: preserves_def)
    then show ?thesis using assms by (simp add: views_inv_def)
  qed
  then show ?thesis by (simp add: views_inv_def)
qed

lemma find_tournament_cong: "tournaments d' = tournaments d \<Longrightarrow> find_tournament i d' = find_tournament i d"
  by (simp add: find_tournament_def)

text \<open>What a successful start does, step by step.\<close>

lemma start_cases:
  obtains (refused) e where "tournament_start rnd now i u d = (Inr (TError e), d)"
  | (bracket) t where "find_tournament i d = Some t" "t_status t = Open" "t_creator t = u" "2 \<le> length (entrants i d)"
      "tournament_start rnd now i u d = transaction (start_bracket rnd now i (entrants i d)) d"
proof (cases "find_tournament i d")
  case None
  then show ?thesis using refused by (simp add: tournament_start_def transaction_def)
next
  case (Some t)
  show ?thesis
  proof (cases "t_creator t = u \<and> t_status t = Open \<and> 2 \<le> length (entrants i d)")
    case True
    then show ?thesis using Some bracket by (simp add: tournament_start_def transaction_def)
  next
    case False
    then have "\<exists>e. tournament_start rnd now i u d = (Inr (TError e), d)"
      by (cases "t_creator t = u"; cases "t_status t = Open"; simp add: Some tournament_start_def transaction_def)
    then show ?thesis using refused by blast
  qed
qed

lemma start_bracket_InrE:
  assumes "start_bracket rnd now i ps d = (Inr x, d')"
  obtains d1 d2 where "x = TStarted" "insert_first_round i 0 (pairs (pad_players (map Some (shuffle rnd ps)))) d = (Inr (), d1)"
    "start_rows i now d1 = (Inr (), d2)" "advanceRound now i 1 d2 = (Inr (), d')"
  using assms that unfolding start_bracket_def Let_def by (auto elim!: qbind_InrE)

lemma start_rows_view:
  assumes "start_rows i now d = (Inr (), d')" "find_tournament i d = Some t" "t_status t = Open"
  shows "find_tournament i d' = Some (t\<lparr>t_status := InProgress, t_started := Some now\<rparr>)"
    and "tmatches d' = tmatches d" and "next_id d' = next_id d"
  using assms by (auto simp: start_rows_def find_status_update guard_q_def split: if_splits)

lemma start_views:
  assumes inv: "matches_inv d" "views_inv d"
  shows "views_inv (snd (tournament_start rnd now i u d))"
proof (cases rule: start_cases [of rnd now i u d])
  case (refused e)
  then show ?thesis using inv by simp
next
  case (bracket t)
  show ?thesis
  proof (cases "start_bracket rnd now i (entrants i d) d")
    case (Pair r d')
    show ?thesis
    proof (cases r)
      case (Inl e)
      then show ?thesis using bracket Pair inv by (simp add: transaction_def)
    next
      case (Inr x)
      from start_bracket_InrE [OF Pair [unfolded Inr]] obtain d1 d2 where
        1: "insert_first_round i 0 (pairs (pad_players (map Some (shuffle rnd (entrants i d))))) d = (Inr (), d1)" and
        2: "start_rows i now d1 = (Inr (), d2)" and 3: "advanceRound now i 1 d2 = (Inr (), d')"
        by metis
      have m1: "matches_inv d1"
        using preserved [OF matches_insert_first_round 1] inv(1) by simp
      have m2: "matches_inv d2"
        using preserved [OF matches_start_rows 2] m1 by simp
      have f1: "find_tournament i d1 = Some t"
        using find_first_round_same [of i i] 1 bracket(1) by (metis snd_conv)
      have "t_winner t = None"
        using inv(2) bracket(1,2) by (auto simp: views_inv_def view_ok_def tview_def dest!: spec [of _ i])
      then have "view_ok (tview i d2)"
        using start_rows_view [OF 2 f1 bracket(2)] by (simp add: tview_def view_ok_def)
      then have own: "view_ok (tview i d')"
        using advanceRound_view [OF m2] 3 by (metis snd_conv)
      have "view_ok (tview j d')" if "j \<noteq> i" for j
      proof -
        have "tournament_start rnd now i u d = (Inr x, d')"
          using bracket(5) Pair Inr by simp
        from preserved [OF local_start [OF that [symmetric]] this refl] show ?thesis
          using inv(2) by (simp add: views_inv_def)
      qed
      then show ?thesis
        using own bracket(5) Pair Inr by (metis snd_conv transaction_Inr views_inv_def)
    qed
  qed
qed
lemma views_cong:
  "tournaments d' = tournaments d \<Longrightarrow> tmatches d' = tmatches d \<Longrightarrow> views_inv d \<Longrightarrow> views_inv d'"
  by (simp add: views_inv_def tview_def find_tournament_def matches_of_def)

lemma join_views: "views_inv d \<Longrightarrow> views_inv (snd (tournament_join now i u d))"
  using local_join by (simp add: views_inv_def preserves_def)

lemma matches_of_update_where:
  assumes "\<And>m. tm_tournament (f m) = tm_tournament m"
  shows "matches_of i (d\<lparr>tmatches := update_where P f (tmatches d)\<rparr>) = update_where P f (matches_of i d)"
proof -
  have "filter (\<lambda>m. tm_tournament m = i) (update_where P f ms) = update_where P f (filter (\<lambda>m. tm_tournament m = i) ms)"
    for ms by (induction ms) (simp_all add: assms)
  then show ?thesis
    by (simp add: matches_of_def)
qed

lemma report_row_views:
  assumes "views_inv d"
  shows "views_inv (snd (report_row mid w d))"
proof -
  have "view_ok (find_tournament i d, update_where P f (matches_of i d))" for i and P :: "match_row \<Rightarrow> bool" and f
    using assms by (auto simp: views_inv_def tview_def view_ok_def split: option.splits dest: spec [of _ i])
  then show ?thesis
    by (simp add: views_inv_def report_row_def guard_q_def tview_def matches_of_update_where)
      (simp add: find_tournament_def)
qed

lemma report_cases:
  obtains (refused) e where "reportResult now mid u w d = (Inr (TError e), d)"
  | (accepted) m where "List.find (\<lambda>m. tm_id m = mid) (tmatches d) = Some m" "tm_status m = Pending" "winner_among m w"
      "winner_among m (int u)"
      "reportResult now mid u w d =
         transaction (qbind (report_row mid (nat w)) (\<lambda>_. qbind (advanceRound now (tm_tournament m) (tm_round m))
           (\<lambda>_. qreturn TReported))) d"
proof (cases "List.find (\<lambda>m. tm_id m = mid) (tmatches d)")
  case None
  then show ?thesis using refused by (simp add: reportResult_def transaction_def)
next
  case (Some m)
  show ?thesis
  proof (cases "tm_status m = Pending \<and> winner_among m w \<and> winner_among m (int u)")
    case True
    then show ?thesis using Some accepted by (simp add: reportResult_def transaction_def)
  next
    case False
    then have "\<exists>e. reportResult now mid u w d = (Inr (TError e), d)"
      by (cases "tm_status m = Pending"; cases "winner_among m w"; simp add: Some reportResult_def transaction_def)
    then show ?thesis using refused by blast
  qed
qed

lemma report_views:
  assumes inv: "matches_inv d" "views_inv d"
  shows "views_inv (snd (reportResult now mid u w d))"
proof (cases rule: report_cases [of now mid u w d])
  case (refused e)
  then show ?thesis using inv by simp
next
  case (accepted m)
  obtain r d' where rd: "report_row mid (nat w) d = (r, d')"
    by (cases "report_row mid (nat w) d")
  have "matches_inv d'" "views_inv d'"
    using report_row_matches [OF inv(1) accepted(1,3)] report_row_views [OF inv(2), of mid "nat w"] rd by simp_all
  then have "views_inv (snd (advanceRound now (tm_tournament m) (tm_round m) d'))"
    by (rule advanceRound_views)
  then show ?thesis
    using accepted(5) rd inv(2) by (cases r) (auto simp: transaction_def qbind_def split: prod.split sum.split)
qed

lemma maybeAdvance_views:
  assumes "matches_inv d" "views_inv d"
  shows "views_inv (snd (maybeAdvanceRound now i r d))"
  using advanceRound_views [OF assms, of now i r] assms(2)
  by (auto simp: maybeAdvanceRound_def transaction_def split: prod.split sum.split)

lemma create_cases:
  obtains (failed) e where "tournament_create now u n mx d = (Inl e, d)"
  | (created) t d1 where "tournament_create now u n mx d = (Inr t, d1)" "t_id t = next_id d" "t_status t = Open"
     "t_winner t = None" "tournaments d1 = tournaments d @ [t]" "tmatches d1 = tmatches d"
proof (cases "tournament_create now u n mx d")
  case (Pair r d1)
  show ?thesis
  proof (cases r)
    case (Inl e)
    then show ?thesis using Pair failed transaction_Inl unfolding tournament_create_def by blast
  next
    case (Inr t)
    let ?d = "d\<lparr>next_id := Suc (next_id d), tournaments := tournaments d @ [t]\<rparr>"
    have t: "t = \<lparr>t_id = next_id d, t_name = n, t_creator = u, t_max = mx, t_status = Open, t_winner = None,
         t_created = now, t_started = None, t_finished = None\<rparr>" and ins: "insert_player now (next_id d) u ?d = (Inr (), d1)"
      using Pair Inr by (auto simp: tournament_create_def Let_def split: if_splits elim!: qbind_InrE)
    show ?thesis
      using ins by (cases rule: insert_player_cases [of now "next_id d" u ?d]) (use Pair Inr t created in auto)
  qed
qed

lemma create_views:
  assumes inv: "entries_inv d" "views_inv d"
  shows "views_inv (snd (tournament_create now u n mx d))"
proof (cases rule: create_cases [of now u n mx d])
  case (created t d1)
  have "find_tournament (t_id t) d = None"
    using inv(1) created(2) by (fastforce simp: find_tournament_def find_None_iff entries_inv_def)
  then have "find_tournament (t_id t) d1 = Some t" "matches_of (t_id t) d1 = []"
    using inv(2) created by (auto simp: find_tournament_def find_append_hit views_inv_def view_ok_def tview_def matches_of_def
        dest: spec [of _ "t_id t"])
  moreover have "tview j d1 = tview j d" if "j \<noteq> t_id t" for j
    using created that by (auto simp: tview_def find_tournament_def matches_of_def find_append_None)
  ultimately have "view_ok (tview j d1)" for j
    using inv(2) created by (cases "j = t_id t") (simp_all add: tview_def view_ok_def views_inv_def)
  then show ?thesis using created by (simp add: views_inv_def)
qed (use inv in simp)

text \<open>The rows of a new round, seen as the round.\<close>

lemma next_rows_positions: "map tm_position (next_rows mid i r pos ps) = [pos..<pos + length ps]"
  by (rule nth_equalityI) (auto simp: next_rows_def nth_enumerate_eq case_prod_beta)

lemma next_rows_places: "m \<in> set (next_rows mid i r pos ps) \<Longrightarrow> tm_tournament m = i \<and> tm_round m = r"
  by (auto simp: next_rows_def)

lemma round_matches_Nil:
  "round_matches i r d = [] \<longleftrightarrow> filter (\<lambda>m. tm_tournament m = i \<and> tm_round m = r) (tmatches d) = []"
proof -
  have "sort_key f xs = [] \<longleftrightarrow> xs = []" for f :: "match_row \<Rightarrow> nat" and xs
    by (metis length_0_conv length_sort)
  then show ?thesis
    unfolding round_matches_def by blast
qed

lemma round_matches_next_rows:
  assumes "round_matches i r d = []"
  shows "round_matches i r (d\<lparr>next_id := n, tmatches := tmatches d @ next_rows mid i r 0 ps\<rparr>) = next_rows mid i r 0 ps"
proof -
  have "filter (\<lambda>m. tm_tournament m = i \<and> tm_round m = r) (tmatches d) = []"
    using assms unfolding round_matches_Nil .
  moreover have "filter (\<lambda>m. tm_tournament m = i \<and> tm_round m = r) (next_rows mid i r 0 ps) = next_rows mid i r 0 ps"
    using next_rows_places by (intro filter_True) blast
  moreover have "sort_key tm_position (next_rows mid i r 0 ps) = next_rows mid i r 0 ps"
    by (rule sort_key_id_if_sorted) (simp add: next_rows_positions)
  ultimately show ?thesis
    by (simp add: round_matches_def)
qed

lemma nth_pairs_total:
  "k < (length xs + 1) div 2 \<Longrightarrow> pairs xs ! k = (xs ! (2 * k), if 2 * k + 1 < length xs then xs ! (2 * k + 1) else None)"
proof (induction xs arbitrary: k rule: pairs.induct)
  case (3 x y xs)
  then show ?case by (cases k) auto
qed auto

lemma next_rows_fields:
  "map (\<lambda>m. (tm_position m, tm_player1 m, tm_player2 m, tm_winner m, tm_status m)) (next_rows mid i r 0 ps) =
   map (\<lambda>k. (k, fst (ps ! k), snd (ps ! k), None, Pending)) [0..<length ps]"
  by (rule nth_equalityI) (auto simp: next_rows_def nth_enumerate_eq case_prod_beta)

section \<open>The tournament tables as a machine\<close>

datatype tournament_event =
    T_create int nat string nat
  | T_join int nat nat
  | T_start "nat \<Rightarrow> 53 word" int nat nat
  | T_report int nat nat int
  | T_advance int nat nat

fun tournament_step :: "db \<Rightarrow> tournament_event \<Rightarrow> db" where
  "tournament_step d (T_create now u n mx) = snd (tournament_create now u n mx d)"
| "tournament_step d (T_join now i u) = snd (tournament_join now i u d)"
| "tournament_step d (T_start rnd now i u) = snd (tournament_start rnd now i u d)"
| "tournament_step d (T_report now mid u w) = snd (reportResult now mid u w d)"
| "tournament_step d (T_advance now i r) = snd (maybeAdvanceRound now i r d)"

definition tournament_inv :: "db \<Rightarrow> bool" where
  "tournament_inv d \<longleftrightarrow> matches_inv d \<and> entries_inv d \<and> views_inv d"

lemma step_tournament_inv:
  assumes "tournament_inv d"
  shows "tournament_inv (tournament_step d e)"
proof -
  have inv: "matches_inv d" "entries_inv d" "views_inv d"
    using assms by (simp_all add: tournament_inv_def)
  note kept = preservesD [OF matches_create inv(1)] preservesD [OF matches_join inv(1)] preservesD [OF matches_start inv(1)]
    preservesD [OF matches_report inv(1)] preservesD [OF matches_maybeAdvance inv(1)]
    preservesD [OF entries_create inv(2)] preservesD [OF entries_join inv(2)] preservesD [OF entries_start inv(2)]
    preservesD [OF entries_report inv(2)] preservesD [OF entries_maybeAdvance inv(2)]
    create_views [OF inv(2,3)] join_views [OF inv(3)] start_views [OF inv(1,3)] report_views [OF inv(1,3)]
    maybeAdvance_views [OF inv(1,3)]
  show ?thesis
    by (cases e) (simp_all add: tournament_inv_def kept)
qed

interpretation tournament_tables: invariant_machine tournament_step tournament_inv
  by unfold_locales (rule step_tournament_inv)

definition no_tournaments :: "db \<Rightarrow> db" where
  "no_tournaments d = d\<lparr>tournaments := [], tplayers := [], tmatches := []\<rparr>"

lemma no_tournaments_inv: "tournament_inv (no_tournaments d)"
  by (simp add: tournament_inv_def no_tournaments_def matches_inv_def entries_inv_def views_inv_def tview_def view_ok_def
      find_tournament_def matches_of_def)

text \<open>
  C23. Whatever requests are made in whatever order, starting without tournaments: no tournament
  ever holds more players than its size, no one is in a tournament twice, a match place is used
  once, a resolved match has one of its own two players as the winner and a pending one has none,
  and a tournament has a winner exactly when it is finished.
\<close>

theorem tournament_sound:
  "let d = run_steps tournament_step (no_tournaments base) es in
     list_all (\<lambda>t. length (players_of (t_id t) d) \<le> t_max t \<and> (t_status t = Finished \<longleftrightarrow> t_winner t \<noteq> None)) (tournaments d) \<and>
     distinct (map (\<lambda>p. (tp_tournament p, tp_user p)) (tplayers d)) \<and>
     distinct (map (\<lambda>m. (tm_tournament m, tm_round m, tm_position m)) (tmatches d)) \<and>
     list_all (\<lambda>m. if tm_status m = Pending then tm_winner m = None
                   else tm_winner m \<noteq> None \<and> tm_winner m \<in> {tm_player1 m, tm_player2 m}) (tmatches d)"
proof -
  let ?d = "run_steps tournament_step (no_tournaments base) es"
  have "tournament_inv ?d"
    by (rule tournament_tables.run_inv) (rule no_tournaments_inv)
  then have m: "matches_inv ?d" and e: "entries_inv ?d" and v: "views_inv ?d"
    by (simp_all add: tournament_inv_def)
  have "t_status t = Finished \<longleftrightarrow> t_winner t \<noteq> None" if "t \<in> set (tournaments ?d)" for t
  proof -
    have "distinct (map t_id (tournaments ?d))"
      using e by (simp add: entries_inv_def)
    then have "find_tournament (t_id t) ?d = Some t"
      using that find_by_key by (simp add: find_tournament_def)
    then show ?thesis
      using v by (auto simp: views_inv_def view_ok_def tview_def dest: spec [of _ "t_id t"])
  qed
  moreover have "if tm_status x = Pending then tm_winner x = None
      else tm_winner x \<noteq> None \<and> tm_winner x \<in> {tm_player1 x, tm_player2 x}" if "x \<in> set (tmatches ?d)" for x
    using m that by (auto simp: matches_inv_def match_ok_def split: option.splits)
  moreover have "distinct (map (\<lambda>p. (tp_tournament p, tp_user p)) (tplayers ?d))"
      "\<And>t. t \<in> set (tournaments ?d) \<Longrightarrow> length (players_of (t_id t) ?d) \<le> t_max t"
      "distinct (map (\<lambda>m. (tm_tournament m, tm_round m, tm_position m)) (tmatches ?d))"
    using m e by (simp_all add: matches_inv_def entries_inv_def place_def [abs_def])
  ultimately show ?thesis
    unfolding Let_def list_all_iff by blast
qed

text \<open>
  The bracket moves on exactly when a round is complete. While a match of the round is
  pending nothing happens; when the only match of a round is decided the tournament is finished
  with its winner; otherwise the next round gets one pending match for each two neighbouring
  matches, between their winners, and nothing else changes.
\<close>

theorem advance_round:
  assumes t: "find_tournament i d = Some t" "t_status t = InProgress"
    and ms: "round_matches i r d = ms" "ms \<noteq> []" and new: "round_matches i (r + 1) d = []"
    and unique: "distinct (map t_id (tournaments d))"
  shows "let (result, d') = advanceRound now i r d; w = map tm_winner ms in
     result = Inr () \<and>
     (if list_ex (\<lambda>m. tm_status m = Pending) ms then d' = d
      else if length ms = 1 then
        find_tournament i d' = Some (t\<lparr>t_status := Finished, t_winner := hd w, t_finished := Some now\<rparr>) \<and>
        tmatches d' = tmatches d
      else map (\<lambda>m. (tm_position m, tm_player1 m, tm_player2 m, tm_winner m, tm_status m)) (round_matches i (r + 1) d') =
             map (\<lambda>k. (k, w ! (2 * k), (if 2 * k + 1 < length ms then w ! (2 * k + 1) else None), None, Pending))
               [0..<(length ms + 1) div 2] \<and>
           take (length (tmatches d)) (tmatches d') = tmatches d \<and> tournaments d' = tournaments d)"
proof -
  let ?w = "map tm_winner ms"
  consider (wait) "list_ex (\<lambda>m. tm_status m = Pending) ms"
    | (last) "\<not> list_ex (\<lambda>m. tm_status m = Pending) ms" "length ms = 1"
    | (next_round) "\<not> list_ex (\<lambda>m. tm_status m = Pending) ms" "length ms \<noteq> 1"
    by blast
  then show ?thesis
  proof cases
    case wait
    then show ?thesis
      using advanceRound_waits [of i r d] ms by (simp add: Let_def)
  next
    case last
    have "t \<in> set (tournaments d)" "t_id t = i"
      using t(1) by (auto simp: find_tournament_def dest!: find_Some_in)
    then have "filter (\<lambda>x. t_id x = i \<and> t_status x = InProgress) (tournaments d) = [t]"
      using filter_by_key [OF unique, of t i "\<lambda>x. t_status x = InProgress"] t(2) by simp
    then show ?thesis
      using last t ms by (simp add: advanceRound_def Let_def finish_tournament_def find_status_update)
  next
    case next_round
    have "\<forall>m \<in> set (tmatches d). \<not> (tm_tournament m = i \<and> tm_round m = r + 1 \<and> 0 \<le> tm_position m)"
      using new unfolding round_matches_Nil filter_empty_conv by blast
    note insert = insert_next_round_free [OF this]
    let ?rows = "next_rows (next_id d) i (r + 1) 0 (pairs ?w)"
    let ?d = "d\<lparr>next_id := next_id d + length (pairs ?w), tmatches := tmatches d @ ?rows\<rparr>"
    have adv: "advanceRound now i r d = (Inr (), ?d)"
      using next_round t ms insert by (simp add: advanceRound_def Let_def)
    have rows: "round_matches i (r + 1) ?d = ?rows"
      by (rule round_matches_next_rows [OF new])
    have fields: "map (\<lambda>m. (tm_position m, tm_player1 m, tm_player2 m, tm_winner m, tm_status m)) ?rows =
        map (\<lambda>k. (k, ?w ! (2 * k), (if 2 * k + 1 < length ms then ?w ! (2 * k + 1) else None), None, Pending))
          [0..<(length ms + 1) div 2]"
      unfolding next_rows_fields length_pairs by (rule map_cong) (simp_all add: nth_pairs_total)
    show ?thesis
      using next_round unfolding adv Let_def prod.case rows fields by simp
  qed
qed

section \<open>A bracket with two empty places in one match\<close>

fun first_rows :: "nat \<Rightarrow> nat \<Rightarrow> nat \<Rightarrow> (nat option \<times> nat option) list \<Rightarrow> match_row list" where
  "first_rows mid i pos [] = []"
| "first_rows mid i pos ((p1, p2) # ps) =
     \<lparr>tm_id = mid, tm_tournament = i, tm_round = 1, tm_position = pos, tm_player1 = p1, tm_player2 = p2,
      tm_winner = bye_winner p1 p2, tm_status = (if bye_winner p1 p2 \<noteq> None then Bye else Pending)\<rparr> #
     first_rows (Suc mid) i (Suc pos) ps"

lemma insert_first_round_free:
  assumes "\<forall>m \<in> set (tmatches d). \<not> (tm_tournament m = i \<and> tm_round m = 1 \<and> pos \<le> tm_position m)"
  shows "insert_first_round i pos ps d =
    (Inr (), d\<lparr>next_id := next_id d + length ps, tmatches := tmatches d @ first_rows (next_id d) i pos ps\<rparr>)"
  using assms
proof (induction ps arbitrary: pos d)
  case (Cons p ps)
  obtain p1 p2 where p: "p = (p1, p2)"
    by (cases p)
  have free: "\<not> place_taken i 1 pos d"
    using Cons.prems by (auto simp: place_taken_def list_ex_iff)
  let ?m = "\<lparr>tm_id = next_id d, tm_tournament = i, tm_round = 1, tm_position = pos, tm_player1 = p1, tm_player2 = p2,
      tm_winner = bye_winner p1 p2, tm_status = (if bye_winner p1 p2 \<noteq> None then Bye else Pending)\<rparr>"
  let ?d = "d\<lparr>next_id := Suc (next_id d), tmatches := tmatches d @ [?m]\<rparr>"
  have "insert_first_round i (Suc pos) ps ?d =
      (Inr (), ?d\<lparr>next_id := next_id ?d + length ps, tmatches := tmatches ?d @ first_rows (next_id ?d) i (Suc pos) ps\<rparr>)"
    by (rule Cons.IH) (use Cons.prems in \<open>auto simp: Suc_le_eq not_le\<close>)
  then show ?case
    using insert_match_free [OF free] by (simp add: p Let_def)
qed simp

lemma first_rows_place: "m \<in> set (first_rows mid i pos ps) \<Longrightarrow> tm_tournament m = i \<and> tm_round m = 1"
  by (induction mid i pos ps rule: first_rows.induct) auto

lemma first_rows_empty_match:
  "(None, None) \<in> set ps \<Longrightarrow>
   \<exists>m \<in> set (first_rows mid i pos ps). tm_player1 m = None \<and> tm_player2 m = None \<and> tm_status m = Pending"
  by (induction mid i pos ps rule: first_rows.induct) (auto simp: bye_winner_def)

lemma nextPow2_from_power: "\<exists>j \<ge> k. nextPow2_from k n = 2 ^ j"
proof (induction k n rule: nextPow2_from.induct)
  case (1 k n)
  show ?case
  proof (cases "2 ^ k < n")
    case True
    then show ?thesis
      using 1 by (subst nextPow2_from.simps) (auto dest: Suc_leD)
  qed (subst nextPow2_from.simps, auto)
qed

lemma nextPow2_even: "2 \<le> n \<Longrightarrow> even (nextPow2 n)"
proof -
  assume n: "2 \<le> n"
  obtain j where j: "nextPow2 n = 2 ^ j"
    using nextPow2_from_power [of 0 n] by (auto simp: nextPow2_def)
  then show ?thesis
    using n nextPow2_from_ge [of n 0] by (cases j) (auto simp: nextPow2_def)
qed

lemma length_padded: "length (pad_players xs) = nextPow2 (length xs)"
  using nextPow2_from_ge [of "length xs" 0] by (simp add: pad_players_eq nextPow2_def)

text \<open>With two or more empty places the last match has no player at all.\<close>

lemma padded_empty_pair:
  assumes "2 \<le> length xs" "length xs + 2 \<le> nextPow2 (length xs)"
  shows "(None, None) \<in> set (pairs (pad_players xs))"
proof -
  let ?p = "pad_players xs" and ?i = "nextPow2 (length xs) div 2 - 1"
  have e: "even (nextPow2 (length xs))"
    using assms(1) by (rule nextPow2_even)
  have i: "2 * ?i + 2 = nextPow2 (length xs)"
    using e assms(2) by auto
  have "pairs ?p ! ?i = (?p ! (2 * ?i), ?p ! (2 * ?i + 1))"
    by (rule nth_pairs) (use i in \<open>simp add: length_padded\<close>)
  moreover have "?p ! (2 * ?i) = None" "?p ! (2 * ?i + 1) = None"
    using i assms(2) by (simp_all add: pad_players_eq nth_append)
  moreover have "?i < length (pairs ?p)"
    using i by (simp add: length_pairs length_padded)
  ultimately show ?thesis
    by (metis nth_mem)
qed

definition stuck :: "tournament_row option \<times> match_row list \<Rightarrow> bool" where
  "stuck v \<longleftrightarrow> (case v of
     (None, ms) \<Rightarrow> False
   | (Some t, ms) \<Rightarrow> t_status t = InProgress \<and> (\<forall>m \<in> set ms. tm_round m = 1) \<and>
       (\<exists>m \<in> set ms. tm_player1 m = None \<and> tm_player2 m = None \<and> tm_status m = Pending))"

lemma stuck_waits:
  assumes "stuck (tview i d)"
  shows "list_ex (\<lambda>m. tm_status m = Pending) (round_matches i r d) \<or> round_matches i r d = []"
proof -
  obtain m where m: "m \<in> set (matches_of i d)" "tm_status m = Pending"
    using assms by (auto simp: stuck_def tview_def split: option.splits)
  have rounds: "\<forall>m \<in> set (matches_of i d). tm_round m = 1"
    using assms by (auto simp: stuck_def tview_def split: option.splits)
  show ?thesis
  proof (cases "r = 1")
    case True
    then show ?thesis
      using m rounds by (auto simp: list_ex_iff matches_of_def)
  next
    case False
    then have "round_matches i r d = []"
      using rounds unfolding round_matches_Nil by (auto simp: matches_of_def filter_empty_conv)
    then show ?thesis by blast
  qed
qed

lemma advanceRound_same:
  assumes "stuck (tview i d)"
  shows "advanceRound now i r d = (Inr (), d)"
  by (rule advanceRound_waits [OF stuck_waits [OF assms]])

lemma stuck_advance: "stuck (tview i d) \<Longrightarrow> snd (advanceRound now i r d) = d"
  by (simp add: advanceRound_same)

lemma transaction_same: "snd (q d) = d \<Longrightarrow> snd (transaction q d) = d"
  by (auto simp: transaction_def split: prod.split sum.split)

lemma stuck_report:
  assumes inv: "matches_inv d" and stuck: "stuck (tview i d)"
  shows "stuck (tview i (snd (reportResult now mid u w d)))"
proof (cases rule: report_cases [of now mid u w d])
  case (accepted m)
  let ?d = "d\<lparr>tmatches := update_where (\<lambda>m. tm_id m = mid \<and> tm_status m = Pending)
       (\<lambda>m. m\<lparr>tm_winner := Some (nat w), tm_status := Done\<rparr>) (tmatches d)\<rparr>"
  have mem: "m \<in> set (tmatches d)" "tm_id m = mid"
    using find_Some_in [OF accepted(1)] by auto
  have uniq: "x = m" if "x \<in> set (tmatches d)" "tm_id x = mid" for x
    using inv mem that by (auto simp: matches_inv_def distinct_map dest: inj_onD)
  have empty: "x \<noteq> m" if "tm_player1 x = None" "tm_player2 x = None" for x
    using accepted(3) that by (auto simp: winner_among_def)
  have "matches_of i ?d = update_where (\<lambda>m. tm_id m = mid \<and> tm_status m = Pending)
       (\<lambda>m. m\<lparr>tm_winner := Some (nat w), tm_status := Done\<rparr>) (matches_of i d)"
    by (rule matches_of_update_where) simp
  moreover have "find_tournament i ?d = find_tournament i d"
    by (simp add: find_tournament_def)
  moreover obtain x where x: "x \<in> set (matches_of i d)" "tm_player1 x = None" "tm_player2 x = None" "tm_status x = Pending"
    using stuck by (auto simp: stuck_def tview_def split: option.splits)
  then have "tm_id x \<noteq> mid"
    using uniq [of x] empty [of x] by (auto simp: matches_of_def)
  ultimately have stuck': "stuck (tview i ?d)"
    using stuck x by (fastforce simp: stuck_def tview_def set_update_where split: option.splits)
  have "stuck (tview i (snd (advanceRound now (tm_tournament m) (tm_round m) ?d)))"
  proof (cases "tm_tournament m = i")
    case True
    then show ?thesis using stuck_advance [OF stuck'] stuck' by simp
  next
    case False
    then have "tview i (snd (advanceRound now (tm_tournament m) (tm_round m) ?d)) = tview i ?d"
      using preservesD [OF local_advanceRound [of "tm_tournament m" i "tview i ?d"]] by simp
    then show ?thesis using stuck' by simp
  qed
  then show ?thesis
    using accepted(5) stuck by (auto simp: transaction_def report_row_def guard_q_def qbind_def split: prod.split sum.split)
qed (use stuck in simp)

lemma stuck_start:
  assumes stuck: "stuck (tview i d)"
  shows "stuck (tview i (snd (tournament_start rnd now j u d)))"
proof (cases "j = i")
  case False
  then show ?thesis
    using preservesD [OF local_start [of j i "tview i d"]] stuck by simp
next
  case True
  then show ?thesis
    using stuck by (cases rule: start_cases [of rnd now j u d]) (auto simp: stuck_def tview_def)
qed

lemma stuck_create:
  assumes inv: "entries_inv d" and stuck: "stuck (tview i d)"
  shows "stuck (tview i (snd (tournament_create now u n mx d)))"
proof (cases rule: create_cases [of now u n mx d])
  case (created t d1)
  obtain t0 where t0: "find_tournament i d = Some t0"
    using stuck by (auto simp: stuck_def tview_def split: option.splits)
  then have "i \<noteq> t_id t"
    using inv created(2) by (auto simp: find_tournament_def entries_inv_def dest!: find_Some_in)
  then have "tview i d1 = tview i d"
    using created by (auto simp: tview_def find_tournament_def matches_of_def find_append_None)
  then show ?thesis using created stuck by simp
qed (use stuck in simp)

lemma stuck_step:
  assumes "tournament_inv d" "stuck (tview i d)"
  shows "stuck (tview i (tournament_step d e))"
proof (cases e)
  case (T_create now u n mx)
  then show ?thesis using assms stuck_create by (simp add: tournament_inv_def)
next
  case (T_join now j u)
  then show ?thesis using assms preservesD [OF local_join [of i "tview i d"]] by simp
next
  case (T_start rnd now j u)
  then show ?thesis using assms stuck_start by simp
next
  case (T_report now mid u w)
  then show ?thesis using assms stuck_report by (simp add: tournament_inv_def)
next
  case (T_advance now j r)
  show ?thesis
  proof (cases "j = i")
    case True
    then show ?thesis
      using assms T_advance by (simp add: maybeAdvanceRound_def transaction_same stuck_advance)
  next
    case False
    then show ?thesis
      using assms T_advance preservesD [OF local_maybeAdvance [of j i "tview i d"]] by simp
  qed
qed

interpretation stuck_bracket: invariant_machine tournament_step "\<lambda>d. tournament_inv d \<and> stuck (tview i d)" for i
  by unfold_locales (simp add: step_tournament_inv stuck_step)
lemma start_stuck:
  assumes inv: "tournament_inv d" and t: "find_tournament i d = Some t" "t_status t = Open" "t_creator t = u"
    and n: "2 \<le> length (entrants i d)" "length (entrants i d) + 2 \<le> nextPow2 (length (entrants i d))"
  shows "stuck (tview i (snd (tournament_start rnd now i u d)))"
proof -
  let ?ps = "pairs (pad_players (map Some (shuffle rnd (entrants i d))))"
  let ?rows = "first_rows (next_id d) i 0 ?ps"
  let ?d1 = "d\<lparr>next_id := next_id d + length ?ps, tmatches := tmatches d @ ?rows\<rparr>"
  let ?go = "\<lambda>t. t\<lparr>t_status := InProgress, t_started := Some now\<rparr>"
  let ?d2 = "?d1\<lparr>tournaments := update_where (\<lambda>t. t_id t = i \<and> t_status t = Open) ?go (tournaments d)\<rparr>"
  have none: "matches_of i d = []"
    using inv t by (auto simp: tournament_inv_def views_inv_def view_ok_def tview_def dest!: spec [of _ i])
  have 1: "insert_first_round i 0 ?ps d = (Inr (), ?d1)"
    by (rule insert_first_round_free) (use none in \<open>auto simp: matches_of_def filter_empty_conv\<close>)
  have mem: "t \<in> set (tournaments d)" "t_id t = i"
    using t(1) by (auto simp: find_tournament_def dest!: find_Some_in)
  moreover have unique: "distinct (map t_id (tournaments d))"
    using inv by (simp add: tournament_inv_def entries_inv_def)
  ultimately have "filter (\<lambda>x. t_id x = i \<and> t_status x = Open) (tournaments d) = [t]"
    using filter_by_key [OF unique, of t i "\<lambda>x. t_status x = Open"] t(2) by simp
  then have 2: "start_rows i now ?d1 = (Inr (), ?d2)"
    by (simp add: start_rows_def)
  have "find_tournament i ?d1 = Some t"
    using t(1) by (simp add: find_tournament_def)
  then have f: "find_tournament i ?d2 = Some (?go t)"
    using find_status_update [where f = ?go and i = i and d = ?d1 and st = Open] t(2) by simp
  have m: "matches_of i ?d2 = ?rows"
    using none first_rows_place [of _ "next_id d" i 0 ?ps] by (auto simp: matches_of_def filter_id_conv)
  have "(None, None) \<in> set ?ps"
    by (rule padded_empty_pair) (use n in simp_all)
  then have stuck: "stuck (tview i ?d2)"
    using f m first_rows_empty_match [of ?ps "next_id d" i 0] first_rows_place [of _ "next_id d" i 0 ?ps]
    by (auto simp: stuck_def tview_def)
  then have "advanceRound now i 1 ?d2 = (Inr (), ?d2)"
    by (rule advanceRound_same)
  then have "start_bracket rnd now i (entrants i d) d = (Inr TStarted, ?d2)"
    using 1 2 by (simp add: start_bracket_def Let_def)
  then have "tournament_start rnd now i u d = (Inr TStarted, ?d2)"
    using t n by (simp add: tournament_start_def transaction_def)
  then show ?thesis
    using stuck by simp
qed

text \<open>
  C24. A started tournament can be impossible to finish. When the number of entrants is two or
  more below the next power of two (five or six players in an eight player tournament), the first
  round gets a match without any player; nobody may report its result, so whatever requests
  follow, the tournament stays in progress and never has a winner.
\<close>

theorem double_bye_never_finishes:
  assumes "find_tournament i (run_steps tournament_step (no_tournaments base) es) = Some t" "t_status t = Open"
    and "n = length (entrants i (run_steps tournament_step (no_tournaments base) es))" "2 \<le> n" "n + 2 \<le> nextPow2 n"
  shows "\<exists>t'. find_tournament i (run_steps tournament_step (no_tournaments base) (es @ T_start rnd now i (t_creator t) # fs)) = Some t' \<and>
     t_status t' = InProgress \<and> t_winner t' = None"
proof -
  let ?d = "run_steps tournament_step (no_tournaments base) es"
  let ?d1 = "tournament_step ?d (T_start rnd now i (t_creator t))"
  have inv: "tournament_inv ?d"
    by (rule tournament_tables.run_inv) (rule no_tournaments_inv)
  have "stuck (tview i ?d1)"
    using start_stuck [OF inv assms(1,2) refl] assms(3-5) by simp
  then have final: "tournament_inv (run_steps tournament_step ?d1 fs) \<and> stuck (tview i (run_steps tournament_step ?d1 fs))"
    using step_tournament_inv [OF inv, of "T_start rnd now i (t_creator t)"] by (intro stuck_bracket.run_inv) blast
  have run: "run_steps tournament_step (no_tournaments base) (es @ T_start rnd now i (t_creator t) # fs) =
      run_steps tournament_step ?d1 fs"
    by (simp add: run_steps_append)
  obtain t' where t': "find_tournament i (run_steps tournament_step ?d1 fs) = Some t'" "t_status t' = InProgress"
    using final by (auto simp: stuck_def tview_def split: option.splits)
  have "view_ok (tview i (run_steps tournament_step ?d1 fs))"
    using final by (simp add: tournament_inv_def views_inv_def)
  then have "t_winner t' = None"
    using t' by (simp add: view_ok_def tview_def)
  then show ?thesis
    unfolding run using t' by blast
qed

definition demo_player :: "nat \<Rightarrow> user_row" where
  "demo_player i = \<lparr>u_id = i, u_username = ''p'', u_email = ''p'', u_password = [], u_avatar = None, u_bio = None,
                    u_elo = 1200, u_verified = None, u_session = 0, u_created = 0\<rparr>"

definition demo_entries :: "tournament_event list" where
  "demo_entries = T_create 0 1 ''Cup'' 8 # map (T_join 1 10) [2, 3, 4, 5]"

theorem double_bye_never_finishes_witness:
  "\<exists>t'. find_tournament 10 (run_steps tournament_step (no_tournaments (empty_db\<lparr>users := map demo_player [1, 2, 3, 4, 5], next_id := 10\<rparr>))
      (demo_entries @ T_start (\<lambda>_. 0) 2 10 1 # [T_report 3 11 5 5])) = Some t' \<and>
     t_status t' = InProgress \<and> t_winner t' = None"
proof -
  let ?base = "empty_db\<lparr>users := map demo_player [1, 2, 3, 4, 5], next_id := 10\<rparr>"
  let ?t = "\<lparr>t_id = 10, t_name = ''Cup'', t_creator = 1, t_max = 8, t_status = Open, t_winner = None, t_created = 0,
             t_started = None, t_finished = None\<rparr>"
  have "find_tournament 10 (run_steps tournament_step (no_tournaments ?base) demo_entries) = Some ?t"
    by code_simp
  moreover have "5 = length (entrants 10 (run_steps tournament_step (no_tournaments ?base) demo_entries))"
    by code_simp
  moreover have "(5 :: nat) + 2 \<le> nextPow2 5"
    by code_simp
  ultimately show ?thesis
    using double_bye_never_finishes [where base = ?base and es = demo_entries and i = 10 and t = ?t and n = 5 and
        rnd = "\<lambda>_. 0" and now = 2 and fs = "[T_report 3 11 5 5]"] by simp
qed

text \<open>Two decided matches of a first round.\<close>

definition demo_match :: "nat \<Rightarrow> nat \<Rightarrow> match_row" where
  "demo_match pos w = \<lparr>tm_id = 20 + pos, tm_tournament = 10, tm_round = 1, tm_position = pos, tm_player1 = Some w,
     tm_player2 = Some (w + 1), tm_winner = Some w, tm_status = Done\<rparr>"

definition demo_round :: db where
  "demo_round = empty_db\<lparr>tournaments := [\<lparr>t_id = 10, t_name = ''Cup'', t_creator = 1, t_max = 4, t_status = InProgress,
     t_winner = None, t_created = 0, t_started = Some 1, t_finished = None\<rparr>],
     tmatches := [demo_match 1 3, demo_match 0 1], next_id := 30\<rparr>"

theorem advance_round_witness:
  "map (\<lambda>m. (tm_position m, tm_player1 m, tm_player2 m, tm_winner m, tm_status m))
     (round_matches 10 2 (snd (advanceRound 5 10 1 demo_round))) = [(0, Some 1, Some 3, None, Pending)]"
proof -
  have "find_tournament 10 demo_round = Some (hd (tournaments demo_round))"
    "t_status (hd (tournaments demo_round)) = InProgress"
    "round_matches 10 1 demo_round = [demo_match 0 1, demo_match 1 3]" "round_matches 10 (1 + 1) demo_round = []"
    "distinct (map t_id (tournaments demo_round))"
    by code_simp+
  from advance_round [where now = 5, OF this(1-3) _ this(4,5)] show ?thesis
    by (simp add: demo_match_def split_beta Let_def flip: numeral_2_eq_2)
qed

end
