(* ===== verification/Accounts.thy ===== *)
theory Accounts
  imports Database
begin

text \<open>
  Accounts: models/User.js, models/AuthToken.js and the columns of services/tokens.js. SHA-256,
  bcrypt and the signature of the access token are the fields of \<open>crypto\<close>: \<open>hashToken\<close>,
  bcrypt's hash and compare, and jsonwebtoken's sign and verify. Random tokens and family ids are
  arguments of the operations that draw them.
\<close>

section \<open>Cryptography the code calls\<close>

record payload =
  p_id :: nat
  p_username :: string
  p_email :: string
  p_session :: nat

record crypto =
  hashToken :: "string \<Rightarrow> string"
  bcrypt_hash :: "string \<Rightarrow> string"
  bcrypt_compare :: "string \<Rightarrow> string \<Rightarrow> bool"
  jwt_sign :: "payload \<Rightarrow> int \<Rightarrow> string"
  jwt_verify :: "string \<Rightarrow> int \<Rightarrow> payload option"

section \<open>Users\<close>

datatype js_value = JInt int | JStr string | JNull

type_synonym js_object = "(string \<times> js_value) list"

definition js_opt :: "string option \<Rightarrow> js_value" where
  "js_opt x = (case x of None \<Rightarrow> JNull | Some s \<Rightarrow> JStr s)"

definition js_time :: "int option \<Rightarrow> js_value" where
  "js_time x = (case x of None \<Rightarrow> JNull | Some t \<Rightarrow> JInt t)"

text \<open>The row of SELECT *, of the profile queries, and of the query after a rotation.\<close>

definition user_star :: "user_row \<Rightarrow> js_object" where
  "user_star u =
     [(''id'', JInt (int (u_id u))), (''username'', JStr (u_username u)), (''email'', JStr (u_email u)),
      (''password_hash'', JStr (u_password u)), (''created_at'', JInt (u_created u)),
      (''avatar_url'', js_opt (u_avatar u)), (''bio'', js_opt (u_bio u)), (''elo_rating'', JInt (u_elo u)),
      (''email_verified_at'', js_time (u_verified u)), (''session_version'', JInt (int (u_session u)))]"

definition PUBLIC_KEYS :: "string list" where
  "PUBLIC_KEYS = [''id'', ''username'', ''email'', ''avatar_url'', ''bio'', ''elo_rating'', ''created_at'']"

definition pick_keys :: "string list \<Rightarrow> js_object \<Rightarrow> js_object" where
  "pick_keys ks obj = List.map_filter (\<lambda>k. map_option (Pair k) (map_of obj k)) ks"

definition publicFields :: "js_object \<Rightarrow> js_object" where
  "publicFields user = pick_keys PUBLIC_KEYS user"

definition profile_columns :: "user_row \<Rightarrow> js_object" where
  "profile_columns u = pick_keys PUBLIC_KEYS (user_star u)"

definition token_user_columns :: "user_row \<Rightarrow> js_object" where
  "token_user_columns u =
     pick_keys [''id'', ''username'', ''email'', ''email_verified_at'', ''session_version''] (user_star u)"

definition find_user :: "nat \<Rightarrow> db \<Rightarrow> user_row option" where
  "find_user i d = List.find (\<lambda>u. u_id u = i) (users d)"

definition hashPassword :: "crypto \<Rightarrow> string \<Rightarrow> string" where
  "hashPassword c p = bcrypt_hash c p"

definition validatePassword :: "crypto \<Rightarrow> string \<Rightarrow> string \<Rightarrow> bool" where
  "validatePassword c plain hashed = bcrypt_compare c plain hashed"

text \<open>INSERT into users: the column sizes and the two unique columns.\<close>

definition user_create :: "crypto \<Rightarrow> int \<Rightarrow> string \<Rightarrow> string \<Rightarrow> string \<Rightarrow> js_object query" where
  "user_create c now username email password =
     qbind fresh (\<lambda>i.
     qbind (guard_q (length username \<le> 20 \<and> length email \<le> 255 \<and> length (hashPassword c password) \<le> 255)
              Value_too_long) (\<lambda>_.
     qbind (qget users) (\<lambda>us.
     qbind (guard_q (\<not> list_ex (\<lambda>u. u_username u = username \<or> u_email u = email) us) Unique_violation) (\<lambda>_.
       let u = \<lparr>u_id = i, u_username = username, u_email = email, u_password = hashPassword c password,
                u_avatar = None, u_bio = None, u_elo = 1200, u_verified = None, u_session = 0, u_created = now\<rparr> in
       qbind (qput (\<lambda>d. d\<lparr>users := users d @ [u]\<rparr>)) (\<lambda>_. qreturn (profile_columns u))))))"

definition findByEmail :: "string \<Rightarrow> user_row option query" where
  "findByEmail email = qget (\<lambda>d. List.find (\<lambda>u. u_email u = email) (users d))"

definition user_findById :: "nat \<Rightarrow> js_object option query" where
  "user_findById i = qget (\<lambda>d. map_option profile_columns (find_user i d))"

definition findByUsername :: "string \<Rightarrow> js_object option query" where
  "findByUsername name = qget (\<lambda>d. map_option profile_columns (List.find (\<lambda>u. u_username u = name) (users d)))"

text \<open>Reading a column of a row.\<close>

definition js_nat :: "js_object \<Rightarrow> string \<Rightarrow> nat" where
  "js_nat row k = (case map_of row k of Some (JInt i) \<Rightarrow> nat i | _ \<Rightarrow> 0)"

definition js_str :: "js_object \<Rightarrow> string \<Rightarrow> string" where
  "js_str row k = (case map_of row k of Some (JStr s) \<Rightarrow> s | _ \<Rightarrow> [])"

lemma profile_columns_fields [simp]:
  "js_nat (profile_columns u) ''id'' = u_id u" "js_str (profile_columns u) ''email'' = u_email u"
  by (simp_all add: profile_columns_def pick_keys_def PUBLIC_KEYS_def user_star_def js_nat_def js_str_def
      List.map_filter_simps)

text \<open>UPDATE users ... WHERE id = ... RETURNING.\<close>

definition update_user :: "nat \<Rightarrow> (user_row \<Rightarrow> user_row) \<Rightarrow> user_row list query" where
  "update_user i f =
     qbind (qput (\<lambda>d. d\<lparr>users := update_where (\<lambda>u. u_id u = i) f (users d)\<rparr>)) (\<lambda>_.
     qget (\<lambda>d. filter (\<lambda>u. u_id u = i) (users d)))"

definition first_row :: "'a list \<Rightarrow> 'a option" where
  "first_row rows = (case rows of [] \<Rightarrow> None | r # _ \<Rightarrow> Some r)"

definition updateProfile :: "nat \<Rightarrow> string option \<Rightarrow> js_object option query" where
  "updateProfile i bio =
     qbind (guard_q (case bio of None \<Rightarrow> True | Some b \<Rightarrow> length b \<le> 160) Value_too_long) (\<lambda>_.
     qbind (update_user i (\<lambda>u. u\<lparr>u_bio := bio\<rparr>)) (\<lambda>rows. qreturn (map_option profile_columns (first_row rows))))"

definition replaceAvatar :: "nat \<Rightarrow> string \<Rightarrow> (js_object \<times> string option) option query" where
  "replaceAvatar i url =
     transaction
       (qbind (qget (\<lambda>d. filter (\<lambda>u. u_id u = i) (users d))) (\<lambda>current.
        case current of
          [cur] \<Rightarrow>
            qbind (update_user i (\<lambda>u. u\<lparr>u_avatar := Some url\<rparr>)) (\<lambda>rows.
            case rows of
              [u] \<Rightarrow> qreturn (Some (profile_columns u, u_avatar cur))
            | _ \<Rightarrow> qthrow (Thrown ''Avatar update affected an unexpected number of rows''))
        | _ \<Rightarrow> qreturn None))"

definition invalidateSessions :: "nat \<Rightarrow> nat query" where
  "invalidateSessions i =
     qbind (update_user i (\<lambda>u. u\<lparr>u_session := u_session u + 1\<rparr>)) (\<lambda>rows.
     case rows of [u] \<Rightarrow> qreturn (u_session u) | _ \<Rightarrow> qthrow (Thrown ''Session invalidation failed''))"

definition updateElo :: "nat \<Rightarrow> int \<Rightarrow> js_object option query" where
  "updateElo i elo =
     qbind (update_user i (\<lambda>u. u\<lparr>u_elo := elo\<rparr>)) (\<lambda>rows.
     qreturn (map_option (\<lambda>u. pick_keys [''id'', ''username'', ''elo_rating''] (user_star u)) (first_row rows)))"

definition getTopByElo :: "nat \<Rightarrow> js_object list query" where
  "getTopByElo limit =
     qget (\<lambda>d. map (\<lambda>u. pick_keys [''id'', ''username'', ''avatar_url'', ''elo_rating''] (user_star u))
       (take limit (sort_key (\<lambda>u. - u_elo u) (users d))))"

section \<open>One-time and refresh tokens\<close>

definition account_purposes :: "string list" where
  "account_purposes = [''email_verification'', ''password_reset'']"

definition issueAccountToken :: "crypto \<Rightarrow> int \<Rightarrow> string \<Rightarrow> nat \<Rightarrow> string \<Rightarrow> int \<Rightarrow> string query" where
  "issueAccountToken c now raw userId purpose ttlMs =
     qbind fresh (\<lambda>i.
     qbind (user_ref (Some userId)) (\<lambda>_.
     qbind (guard_q (purpose \<in> set account_purposes) Check_violation) (\<lambda>_.
     qbind (qget account_tokens) (\<lambda>ts.
     qbind (guard_q (\<not> list_ex (\<lambda>t. at_hash t = hashToken c raw) ts) Unique_violation) (\<lambda>_.
     qbind (qput (\<lambda>d. d\<lparr>account_tokens := account_tokens d @
       [\<lparr>at_id = i, at_user = userId, at_purpose = purpose, at_hash = hashToken c raw, at_expires = now + ttlMs,
         at_consumed = None\<rparr>]\<rparr>)) (\<lambda>_. qreturn raw))))))"

definition consume_row :: "int \<Rightarrow> nat \<Rightarrow> unit query" where
  "consume_row now i =
     qbind (qget (\<lambda>d. filter (\<lambda>t. at_id t = i \<and> at_consumed t = None) (account_tokens d))) (\<lambda>rows.
     qbind (qput (\<lambda>d. d\<lparr>account_tokens := update_where (\<lambda>t. at_id t = i \<and> at_consumed t = None)
       (\<lambda>t. t\<lparr>at_consumed := Some now\<rparr>) (account_tokens d)\<rparr>)) (\<lambda>_.
     guard_q (length rows = 1) (Thrown ''Account token was concurrently consumed'')))"

definition usable_tokens :: "crypto \<Rightarrow> int \<Rightarrow> string \<Rightarrow> string \<Rightarrow> db \<Rightarrow> account_token list" where
  "usable_tokens c now raw purpose d =
     filter (\<lambda>t. at_hash t = hashToken c raw \<and> at_purpose t = purpose \<and> at_consumed t = None \<and> at_expires t > now)
       (account_tokens d)"

definition consumeAccountToken :: "crypto \<Rightarrow> int \<Rightarrow> string \<Rightarrow> string \<Rightarrow> (nat \<Rightarrow> nat \<Rightarrow> unit query) \<Rightarrow> bool query" where
  "consumeAccountToken c now raw purpose callback =
     transaction
       (qbind (qget (usable_tokens c now raw purpose)) (\<lambda>found.
        case found of
          [t] \<Rightarrow>
            qbind (callback (at_user t) (at_id t)) (\<lambda>_.
            qbind (consume_row now (at_id t)) (\<lambda>_. qreturn True))
        | _ \<Rightarrow> qreturn False))"

text \<open>\<open>REFRESH_MAX_AGE_MS\<close>, thirty days unless the environment says otherwise.\<close>

definition REFRESH_MAX_AGE_MS :: int where
  "REFRESH_MAX_AGE_MS = 30 * 86400000"

definition insert_refresh :: "int \<Rightarrow> nat \<Rightarrow> string \<Rightarrow> string \<Rightarrow> unit query" where
  "insert_refresh now userId familyId h =
     qbind fresh (\<lambda>i.
     qbind (user_ref (Some userId)) (\<lambda>_.
     qbind (qget refresh_tokens) (\<lambda>ts.
     qbind (guard_q (\<not> list_ex (\<lambda>t. rt_hash t = h) ts) Unique_violation) (\<lambda>_.
     qput (\<lambda>d. d\<lparr>refresh_tokens := refresh_tokens d @
       [\<lparr>rt_id = i, rt_user = userId, rt_family = familyId, rt_hash = h, rt_expires = now + REFRESH_MAX_AGE_MS,
         rt_consumed = None, rt_revoked = None, rt_replaced = None\<rparr>]\<rparr>)))))"

definition issueRefreshToken :: "crypto \<Rightarrow> int \<Rightarrow> string \<Rightarrow> nat \<Rightarrow> string \<Rightarrow> string query" where
  "issueRefreshToken c now raw userId familyId =
     qbind (insert_refresh now userId familyId (hashToken c raw)) (\<lambda>_. qreturn raw)"

text \<open>UPDATE refresh_tokens SET revoked_at = now WHERE ... AND revoked_at IS NULL.\<close>

definition revoke_where :: "int \<Rightarrow> (refresh_token \<Rightarrow> bool) \<Rightarrow> nat query" where
  "revoke_where now P =
     qbind (qget (\<lambda>d. length (filter (\<lambda>t. P t \<and> rt_revoked t = None) (refresh_tokens d)))) (\<lambda>n.
     qbind (qput (\<lambda>d. d\<lparr>refresh_tokens := update_where (\<lambda>t. P t \<and> rt_revoked t = None)
       (\<lambda>t. t\<lparr>rt_revoked := Some now\<rparr>) (refresh_tokens d)\<rparr>)) (\<lambda>_. qreturn n))"

definition use_refresh :: "int \<Rightarrow> nat \<Rightarrow> string \<Rightarrow> unit query" where
  "use_refresh now i nextHash =
     qbind (qget (\<lambda>d. filter (\<lambda>t. rt_id t = i \<and> rt_consumed t = None) (refresh_tokens d))) (\<lambda>rows.
     qbind (qput (\<lambda>d. d\<lparr>refresh_tokens := update_where (\<lambda>t. rt_id t = i \<and> rt_consumed t = None)
       (\<lambda>t. t\<lparr>rt_consumed := Some now, rt_replaced := Some nextHash\<rparr>) (refresh_tokens d)\<rparr>)) (\<lambda>_.
     guard_q (length rows = 1) (Thrown ''Refresh token rotation conflict'')))"

text \<open>The exchange of an unused token for the next one of its family.\<close>

definition exchange :: "crypto \<Rightarrow> int \<Rightarrow> refresh_token \<Rightarrow> string \<Rightarrow> (string \<times> user_row) option query" where
  "exchange c now old nextRaw =
     qbind (use_refresh now (rt_id old) (hashToken c nextRaw)) (\<lambda>_.
     qbind (insert_refresh now (rt_user old) (rt_family old) (hashToken c nextRaw)) (\<lambda>_.
     qbind (qget (find_user (rt_user old))) (\<lambda>user.
     case user of
       None \<Rightarrow> qthrow (Thrown ''Refresh token user is missing'')
     | Some u \<Rightarrow> qreturn (Some (nextRaw, u)))))"

definition rotateRefreshToken :: "crypto \<Rightarrow> int \<Rightarrow> string \<Rightarrow> string \<Rightarrow> (string \<times> user_row) option query" where
  "rotateRefreshToken c now raw nextRaw =
     transaction
       (qbind (qget (\<lambda>d. List.find (\<lambda>t. rt_hash t = hashToken c raw) (refresh_tokens d))) (\<lambda>found.
        case found of
          None \<Rightarrow> qreturn None
        | Some old \<Rightarrow>
            if rt_expires old \<le> now \<or> rt_revoked old \<noteq> None then qreturn None
            else if rt_consumed old \<noteq> None then
              qbind (revoke_where now (\<lambda>t. rt_family t = rt_family old)) (\<lambda>_. qreturn None)
            else
              exchange c now old nextRaw))"

definition revokeRefreshToken :: "crypto \<Rightarrow> int \<Rightarrow> string \<Rightarrow> bool query" where
  "revokeRefreshToken c now raw = qbind (revoke_where now (\<lambda>t. rt_hash t = hashToken c raw)) (\<lambda>n. qreturn (n = 1))"

definition revokeAllForUser :: "int \<Rightarrow> nat \<Rightarrow> nat query" where
  "revokeAllForUser now userId = revoke_where now (\<lambda>t. rt_user t = userId)"

text \<open>The row of a token, and the four ways a rotation can go.\<close>

definition refresh_row :: "string \<Rightarrow> db \<Rightarrow> refresh_token option" where
  "refresh_row h d = List.find (\<lambda>t. rt_hash t = h) (refresh_tokens d)"

lemma rotate_cases:
  obtains (unknown) "refresh_row (hashToken c raw) d = None" "rotateRefreshToken c now raw m d = (Inr None, d)"
  | (closed) t where "refresh_row (hashToken c raw) d = Some t" "rt_expires t \<le> now \<or> rt_revoked t \<noteq> None"
      "rotateRefreshToken c now raw m d = (Inr None, d)"
  | (reused) t where "refresh_row (hashToken c raw) d = Some t" "now < rt_expires t" "rt_revoked t = None" "rt_consumed t \<noteq> None"
      "rotateRefreshToken c now raw m d = (Inr None, snd (revoke_where now (\<lambda>x. rt_family x = rt_family t) d))"
  | (exchanged) t where "refresh_row (hashToken c raw) d = Some t" "now < rt_expires t" "rt_revoked t = None" "rt_consumed t = None"
      "rotateRefreshToken c now raw m d = transaction (exchange c now t m) d"
proof (cases "refresh_row (hashToken c raw) d")
  case None
  then show ?thesis
    using unknown by (simp add: rotateRefreshToken_def refresh_row_def transaction_def)
next
  case (Some t)
  show ?thesis
  proof (cases "rt_expires t \<le> now \<or> rt_revoked t \<noteq> None")
    case True
    then have "rotateRefreshToken c now raw m d = (Inr None, d)"
      using Some by (simp add: rotateRefreshToken_def refresh_row_def transaction_def)
    then show ?thesis using closed Some True by blast
  next
    case False
    then show ?thesis
      using Some reused exchanged
      by (cases "rt_consumed t") (simp_all add: rotateRefreshToken_def refresh_row_def transaction_def revoke_where_def)
  qed
qed

end
