(* ===== verification/AuthRoutes.thy ===== *)
theory AuthRoutes
  imports Accounts
begin

text \<open>
  The account endpoints: services/tokens.js (cookies), middleware/auth.js, services/mail.js (the
  account link) and routes/auth.js, each endpoint as a function from the database to the reply
  and the database afterwards. The validators of express-validator that look at the syntax of an
  email address, the SMTP transport and the URL class are fields of \<open>web\<close>; request fields are
  strings.
\<close>

section \<open>Replies\<close>

record cookie_options =
  httpOnly :: bool
  secure :: bool
  sameSite :: string
  cookie_path :: string
  maxAge :: "int option"

datatype cookie = Set_cookie string string cookie_options | Clear_cookie string cookie_options

datatype body = Error string | Message string | User_body js_object | Json_body js_object | Rows_body string "js_object list"
  | Flag_body string bool | Empty_body

record mail =
  mail_to :: string
  mail_subject :: string
  mail_text :: string

record reply =
  status :: nat
  body :: body
  cookies :: "cookie list"
  mails :: "mail list"

definition reply_of :: "nat \<Rightarrow> body \<Rightarrow> reply" where
  "reply_of s b = \<lparr>status = s, body = b, cookies = [], mails = []\<rparr>"

text \<open>A handler: the reply of its try block, or the one of its catch block.\<close>

definition try_reply :: "reply query \<Rightarrow> reply \<Rightarrow> db \<Rightarrow> reply \<times> db" where
  "try_reply q failure d = (case q d of (Inl _, d') \<Rightarrow> (failure, d') | (Inr r, d') \<Rightarrow> (r, d'))"

lemma try_preserves: "preserves P q \<Longrightarrow> P d \<Longrightarrow> P (snd (try_reply q r d))"
  unfolding preserves_def try_reply_def by (metis (no_types, lifting) case_prod_unfold snd_conv sum.case_eq_if)

record web =
  w_crypto :: crypto
  isEmail :: "string \<Rightarrow> bool"
  normalizeEmail :: "string \<Rightarrow> string"
  production :: bool
  frontend_url :: "string option"
  resolve_url :: "string \<Rightarrow> string \<Rightarrow> string"
  smtp_accepts :: "mail \<Rightarrow> bool"

lemma preserves_prod_case [preserve]:
  "(\<And>a b. preserves P (f a b)) \<Longrightarrow> preserves P (case x of (a, b) \<Rightarrow> f a b)"
  by (cases x) simp

lemma reply_if: "P d \<Longrightarrow> P (snd y) \<Longrightarrow> P (snd (if b then (r, d) else y))"
  by simp

section \<open>Cookies\<close>

definition ACCESS_COOKIE :: string where "ACCESS_COOKIE = ''chess_access''"
definition REFRESH_COOKIE :: string where "REFRESH_COOKIE = ''chess_refresh''"

definition cookieOptions :: "web \<Rightarrow> int option \<Rightarrow> cookie_options" where
  "cookieOptions w age =
     \<lparr>httpOnly = True, secure = production w, sameSite = ''strict'', cookie_path = ''/'',
      maxAge = (case age of None \<Rightarrow> None | Some a \<Rightarrow> if a = 0 then None else Some a)\<rparr>"

definition setAccessCookie :: "web \<Rightarrow> string \<Rightarrow> reply \<Rightarrow> reply" where
  "setAccessCookie w token r =
     r\<lparr>cookies := cookies r @ [Set_cookie ACCESS_COOKIE token (cookieOptions w (Some (15 * 60 * 1000)))]\<rparr>"

definition setRefreshCookie :: "web \<Rightarrow> string \<Rightarrow> reply \<Rightarrow> reply" where
  "setRefreshCookie w token r =
     r\<lparr>cookies := cookies r @ [Set_cookie REFRESH_COOKIE token (cookieOptions w (Some REFRESH_MAX_AGE_MS))]\<rparr>"

definition clearAuthCookies :: "web \<Rightarrow> reply \<Rightarrow> reply" where
  "clearAuthCookies w r =
     r\<lparr>cookies := cookies r @ [Clear_cookie ACCESS_COOKIE (cookieOptions w None),
                               Clear_cookie REFRESH_COOKIE (cookieOptions w None)]\<rparr>"

definition signAccessToken :: "web \<Rightarrow> int \<Rightarrow> user_row \<Rightarrow> string" where
  "signAccessToken w now u =
     jwt_sign (w_crypto w) \<lparr>p_id = u_id u, p_username = u_username u, p_email = u_email u, p_session = u_session u\<rparr> now"

definition verifyAccessToken :: "web \<Rightarrow> int \<Rightarrow> string \<Rightarrow> payload option" where
  "verifyAccessToken w now token = jwt_verify (w_crypto w) token now"

section \<open>The authentication middleware\<close>

definition activeSession :: "payload \<Rightarrow> db \<Rightarrow> bool" where
  "activeSession p d =
     (case find_user (p_id p) d of
        None \<Rightarrow> False
      | Some u \<Rightarrow> u_verified u \<noteq> None \<and> u_session u = p_session p)"

text \<open>The user of the request, or None when the reply is 401.\<close>

definition authenticate :: "web \<Rightarrow> int \<Rightarrow> string option \<Rightarrow> db \<Rightarrow> payload option" where
  "authenticate w now token d =
     (case token of
        None \<Rightarrow> None
      | Some t \<Rightarrow>
          if t = [] then None
          else case verifyAccessToken w now t of
              None \<Rightarrow> None
            | Some p \<Rightarrow> if activeSession p d then Some p else None)"

definition auth_required :: reply where
  "auth_required = reply_of 401 (Error ''Authentication required'')"

definition authMiddleware :: "web \<Rightarrow> int \<Rightarrow> string option \<Rightarrow> (payload \<Rightarrow> db \<Rightarrow> reply \<times> db) \<Rightarrow> db \<Rightarrow> reply \<times> db" where
  "authMiddleware w now token next d =
     (case authenticate w now token d of None \<Rightarrow> (auth_required, d) | Some p \<Rightarrow> next p d)"

lemma middleware_preserves: "P d \<Longrightarrow> (\<And>p. P (snd (next p d))) \<Longrightarrow> P (snd (authMiddleware w now token next d))"
  by (auto simp: authMiddleware_def split: option.split)

text \<open>The request goes on in either case, with or without a user.\<close>

definition optionalAuth :: "web \<Rightarrow> int \<Rightarrow> string option \<Rightarrow> (payload option \<Rightarrow> db \<Rightarrow> reply \<times> db) \<Rightarrow> db \<Rightarrow> reply \<times> db" where
  "optionalAuth w now token next d = next (authenticate w now token d) d"

section \<open>Account links\<close>

text \<open>Tokens are base64url text, which \<open>encodeURIComponent\<close> leaves as it is.\<close>

definition sendAccountLink :: "web \<Rightarrow> string \<Rightarrow> string \<Rightarrow> string \<Rightarrow> string \<Rightarrow> mail query" where
  "sendAccountLink w to_address subject path text =
     (case frontend_url w of
        None \<Rightarrow> qthrow (Thrown ''FRONTEND_URL is required to construct account links'')
      | Some base \<Rightarrow>
          if base = [] then qthrow (Thrown ''FRONTEND_URL is required to construct account links'')
          else
            let url = resolve_url w path (base @ ''/'');
                m = \<lparr>mail_to = to_address, mail_subject = subject,
                     mail_text = text @ [CHR 10, CHR 10] @ url @ [CHR 10, CHR 10] @
                                 ''If you did not request this, ignore this email.''\<rparr>
            in if smtp_accepts w m then qreturn m else qthrow (Thrown ''SMTP''))"

definition verification_link :: "web \<Rightarrow> string \<Rightarrow> string \<Rightarrow> mail query" where
  "verification_link w email token =
     sendAccountLink w email ''Verify your Chess account'' (''/verify-email?token='' @ token)
       ''Verify your account using this one-time link. It expires in 24 hours.''"

definition reset_link :: "web \<Rightarrow> string \<Rightarrow> string \<Rightarrow> mail query" where
  "reset_link w email token =
     sendAccountLink w email ''Reset your Chess password'' (''/reset-password?token='' @ token)
       ''Reset your password using this one-time link. It expires in one hour.''"

section \<open>Endpoints\<close>

definition isLength :: "nat \<Rightarrow> nat \<Rightarrow> string \<Rightarrow> bool" where
  "isLength lo hi s \<longleftrightarrow> lo \<le> length s \<and> length s \<le> hi"

definition is_word_char :: "char \<Rightarrow> bool" where
  "is_word_char c \<longleftrightarrow> (let n = (of_char c :: nat) in
     (97 \<le> n \<and> n \<le> 122) \<or> (65 \<le> n \<and> n \<le> 90) \<or> (48 \<le> n \<and> n \<le> 57) \<or> n = 95)"

definition valid_username :: "string \<Rightarrow> bool" where
  "valid_username s \<longleftrightarrow> isLength 3 20 s \<and> list_all is_word_char s"

definition validationFailure :: reply where
  "validationFailure = reply_of 400 (Error ''Invalid request'')"

definition register :: "web \<Rightarrow> int \<Rightarrow> string \<Rightarrow> string \<Rightarrow> string \<Rightarrow> string \<Rightarrow> db \<Rightarrow> reply \<times> db" where
  "register w now raw username0 email0 password d =
     (let username = trim username0; email = normalizeEmail w email0 in
      if \<not> (valid_username username \<and> isEmail w email0 \<and> isLength 10 128 password) then (validationFailure, d)
      else try_reply
        (qbind (findByEmail email) (\<lambda>by_email.
         qbind (findByUsername username) (\<lambda>by_name.
           if by_email \<noteq> None \<or> by_name \<noteq> None then qreturn (reply_of 409 (Error ''Unable to create account''))
           else
             qbind (user_create (w_crypto w) now username email password) (\<lambda>user.
             qbind (issueAccountToken (w_crypto w) now raw (js_nat user ''id'') ''email_verification'' (24 * 3600000)) (\<lambda>token.
             qbind (verification_link w (js_str user ''email'') token) (\<lambda>m.
             qreturn ((reply_of 201 (Message ''Check your email to verify your account''))\<lparr>mails := [m]\<rparr>)))))))
        (reply_of 500 (Error ''Unable to create account'')) d)"

text \<open>The other open tokens of the same user and purpose are consumed with the used one.\<close>

definition consume_others :: "int \<Rightarrow> string \<Rightarrow> nat \<Rightarrow> nat \<Rightarrow> unit query" where
  "consume_others now purpose userId tokenId =
     qput (\<lambda>d. d\<lparr>account_tokens := update_where
       (\<lambda>t. at_user t = userId \<and> at_purpose t = purpose \<and> at_id t \<noteq> tokenId \<and> at_consumed t = None)
       (\<lambda>t. t\<lparr>at_consumed := Some now\<rparr>) (account_tokens d)\<rparr>)"

definition verify_callback :: "int \<Rightarrow> nat \<Rightarrow> nat \<Rightarrow> unit query" where
  "verify_callback now userId tokenId =
     qbind (update_user userId (\<lambda>u. u\<lparr>u_verified := (case u_verified u of None \<Rightarrow> Some now | Some t \<Rightarrow> Some t)\<rparr>)) (\<lambda>rows.
     qbind (guard_q (length rows = 1) (Thrown ''Verification user missing'')) (\<lambda>_.
     consume_others now ''email_verification'' userId tokenId))"

definition verify_email :: "web \<Rightarrow> int \<Rightarrow> string \<Rightarrow> db \<Rightarrow> reply \<times> db" where
  "verify_email w now token d =
     (if \<not> isLength 20 200 token then (validationFailure, d)
      else try_reply
        (qbind (consumeAccountToken (w_crypto w) now token ''email_verification'' (verify_callback now)) (\<lambda>valid.
           if \<not> valid then qreturn (reply_of 400 (Error ''Invalid or expired token''))
           else qreturn (reply_of 200 (Message ''Email verified''))))
        (reply_of 500 (Error ''Unable to verify email'')) d)"

definition resend_verification :: "web \<Rightarrow> int \<Rightarrow> string \<Rightarrow> string \<Rightarrow> db \<Rightarrow> reply \<times> db" where
  "resend_verification w now raw email0 d =
     (let response = reply_of 200 (Message ''If verification is required, an email has been sent'') in
      if \<not> isEmail w email0 then (validationFailure, d)
      else try_reply
        (qbind (findByEmail (normalizeEmail w email0)) (\<lambda>user.
         case user of
           None \<Rightarrow> qreturn response
         | Some u \<Rightarrow>
             if u_verified u \<noteq> None then qreturn response
             else
               qbind (issueAccountToken (w_crypto w) now raw (u_id u) ''email_verification'' (24 * 3600000)) (\<lambda>token.
               qbind (verification_link w (u_email u) token) (\<lambda>m. qreturn (response\<lparr>mails := [m]\<rparr>)))))
        response d)"

definition DUMMY_PASSWORD_HASH :: string where
  "DUMMY_PASSWORD_HASH = ''$2a$12$6250ZAToqFIWsZEzPEUYvueERVyn/GzecXv/J0aiGdO4/mTg0Ou1.''"

definition invalid_credentials :: reply where
  "invalid_credentials = reply_of 401 (Error ''Invalid credentials'')"

definition establishSession :: "web \<Rightarrow> int \<Rightarrow> string \<Rightarrow> string \<Rightarrow> user_row \<Rightarrow> reply \<Rightarrow> reply query" where
  "establishSession w now raw familyId u r =
     qbind (issueRefreshToken (w_crypto w) now raw (u_id u) familyId) (\<lambda>refresh.
     qreturn (setRefreshCookie w refresh (setAccessCookie w (signAccessToken w now u) r)))"

definition stored_hash :: "user_row option \<Rightarrow> string" where
  "stored_hash user =
     (case user of None \<Rightarrow> DUMMY_PASSWORD_HASH
      | Some u \<Rightarrow> if u_password u = [] then DUMMY_PASSWORD_HASH else u_password u)"

definition login :: "web \<Rightarrow> int \<Rightarrow> string \<Rightarrow> string \<Rightarrow> string \<Rightarrow> string \<Rightarrow> db \<Rightarrow> reply \<times> db" where
  "login w now raw familyId email0 password d =
     (if \<not> isEmail w email0 then (invalid_credentials, d)
      else try_reply
        (qbind (findByEmail (normalizeEmail w email0)) (\<lambda>user.
           let valid = validatePassword (w_crypto w) password (stored_hash user) in
           case user of
             None \<Rightarrow> qreturn invalid_credentials
           | Some u \<Rightarrow>
               if \<not> valid \<or> u_verified u = None then qreturn invalid_credentials
               else establishSession w now raw familyId u (reply_of 200 (User_body (publicFields (user_star u))))))
        (reply_of 500 (Error ''Unable to sign in'')) d)"

definition refresh :: "web \<Rightarrow> int \<Rightarrow> string \<Rightarrow> string option \<Rightarrow> db \<Rightarrow> reply \<times> db" where
  "refresh w now nextRaw cookie d =
     (case cookie of
        None \<Rightarrow> (auth_required, d)
      | Some raw \<Rightarrow>
          if raw = [] then (auth_required, d)
          else try_reply
            (qbind (rotateRefreshToken (w_crypto w) now raw nextRaw) (\<lambda>rotated.
             case rotated of
               None \<Rightarrow> qreturn (clearAuthCookies w auth_required)
             | Some (next_token, u) \<Rightarrow>
                 if u_verified u = None then qreturn (clearAuthCookies w auth_required)
                 else qreturn (setRefreshCookie w next_token (setAccessCookie w (signAccessToken w now u)
                        (reply_of 200 (User_body (publicFields (token_user_columns u))))))))
            (clearAuthCookies w auth_required) d)"

definition logout_tx :: "int \<Rightarrow> nat \<Rightarrow> unit query" where
  "logout_tx now i =
     transaction
       (qbind (update_user i (\<lambda>u. u\<lparr>u_session := u_session u + 1\<rparr>)) (\<lambda>rows.
        qbind (guard_q (length rows = 1) (Thrown ''Session invalidation failed'')) (\<lambda>_.
        qbind (revokeAllForUser now i) (\<lambda>_. qreturn ()))))"

definition logout :: "web \<Rightarrow> int \<Rightarrow> string option \<Rightarrow> db \<Rightarrow> reply \<times> db" where
  "logout w now token =
     authMiddleware w now token (\<lambda>p. try_reply
       (qbind (logout_tx now (p_id p)) (\<lambda>_. qreturn (clearAuthCookies w (reply_of 204 Empty_body))))
       (reply_of 500 (Error ''Unable to sign out'')))"

definition forgot_password :: "web \<Rightarrow> int \<Rightarrow> string \<Rightarrow> string \<Rightarrow> db \<Rightarrow> reply \<times> db" where
  "forgot_password w now raw email0 d =
     (let generic = reply_of 200 (Message ''If that account exists, a reset email has been sent'') in
      if \<not> isEmail w email0 then (validationFailure, d)
      else try_reply
        (qbind (findByEmail (normalizeEmail w email0)) (\<lambda>user.
         case user of
           None \<Rightarrow> qreturn generic
         | Some u \<Rightarrow>
             qbind (issueAccountToken (w_crypto w) now raw (u_id u) ''password_reset'' (60 * 60000)) (\<lambda>token.
             qbind (reset_link w (u_email u) token) (\<lambda>m. qreturn (generic\<lparr>mails := [m]\<rparr>)))))
        generic d)"

definition reset_callback :: "int \<Rightarrow> string \<Rightarrow> nat \<Rightarrow> nat \<Rightarrow> unit query" where
  "reset_callback now hash userId tokenId =
     qbind (update_user userId (\<lambda>u. u\<lparr>u_password := hash, u_session := u_session u + 1\<rparr>)) (\<lambda>rows.
     qbind (guard_q (length rows = 1) (Thrown ''Password reset user missing'')) (\<lambda>_.
     qbind (revoke_where now (\<lambda>t. rt_user t = userId)) (\<lambda>_.
     consume_others now ''password_reset'' userId tokenId)))"

definition reset_password :: "web \<Rightarrow> int \<Rightarrow> string \<Rightarrow> string \<Rightarrow> db \<Rightarrow> reply \<times> db" where
  "reset_password w now token password d =
     (if \<not> (isLength 20 200 token \<and> isLength 10 128 password) then (validationFailure, d)
      else try_reply
        (qbind (consumeAccountToken (w_crypto w) now token ''password_reset''
                  (reset_callback now (hashPassword (w_crypto w) password))) (\<lambda>valid.
           if \<not> valid then qreturn (reply_of 400 (Error ''Invalid or expired token''))
           else qreturn (clearAuthCookies w (reply_of 200 (Message ''Password reset complete'')))))
        (reply_of 500 (Error ''Unable to reset password'')) d)"

definition profile :: "web \<Rightarrow> int \<Rightarrow> string option \<Rightarrow> db \<Rightarrow> reply \<times> db" where
  "profile w now token =
     authMiddleware w now token (\<lambda>p. try_reply
       (qbind (user_findById (p_id p)) (\<lambda>user.
          case user of
            None \<Rightarrow> qreturn (reply_of 404 (Error ''Resource not found''))
          | Some u \<Rightarrow> qreturn (reply_of 200 (Json_body u))))
       (reply_of 500 (Error ''Unable to load profile'')))"

text \<open>The request body is its list of keys with the value of \<open>bio\<close>.\<close>

definition patch_profile :: "web \<Rightarrow> int \<Rightarrow> string option \<Rightarrow> js_object \<Rightarrow> db \<Rightarrow> reply \<times> db" where
  "patch_profile w now token body_fields =
     authMiddleware w now token (\<lambda>p d.
       case map_of body_fields ''bio'' of
         Some (JStr bio) \<Rightarrow>
           if length bio \<le> 160 \<and> list_all (\<lambda>kv. fst kv = ''bio'') body_fields then
             try_reply
               (qbind (updateProfile (p_id p) (Some bio)) (\<lambda>user.
                  case user of
                    None \<Rightarrow> qreturn (reply_of 404 (Error ''Resource not found''))
                  | Some u \<Rightarrow> qreturn (reply_of 200 (User_body u))))
               (reply_of 500 (Error ''Unable to update profile'')) d
           else (validationFailure, d)
       | _ \<Rightarrow> (validationFailure, d))"

section \<open>The endpoints as a machine\<close>

datatype auth_event =
    Register int string string string string
  | Verify int string
  | Resend int string string
  | Login int string string string string
  | Refresh int string "string option"
  | Logout int "string option"
  | Forgot int string string
  | Reset int string string
  | Profile int "string option"
  | Patch_profile int "string option" js_object

fun auth_reply :: "web \<Rightarrow> auth_event \<Rightarrow> db \<Rightarrow> reply \<times> db" where
  "auth_reply w (Register now raw u e p) = register w now raw u e p"
| "auth_reply w (Verify now t) = verify_email w now t"
| "auth_reply w (Resend now raw e) = resend_verification w now raw e"
| "auth_reply w (Login now raw fam e p) = login w now raw fam e p"
| "auth_reply w (Refresh now next_raw c) = refresh w now next_raw c"
| "auth_reply w (Logout now a) = logout w now a"
| "auth_reply w (Forgot now raw e) = forgot_password w now raw e"
| "auth_reply w (Reset now t p) = reset_password w now t p"
| "auth_reply w (Profile now a) = profile w now a"
| "auth_reply w (Patch_profile now a fs) = patch_profile w now a fs"

definition auth_step :: "web \<Rightarrow> db \<Rightarrow> auth_event \<Rightarrow> db" where
  "auth_step w d e = snd (auth_reply w e d)"

text \<open>The families a login may start.\<close>

definition event_ok :: "(string \<Rightarrow> bool) \<Rightarrow> auth_event \<Rightarrow> bool" where
  "event_ok F e = (case e of Login _ _ fam _ _ \<Rightarrow> F fam | _ \<Rightarrow> True)"

text \<open>
  Everything an endpoint writes goes through a few statements. A property that these keep is
  kept by every endpoint, so a component's invariant is proved once per statement.
\<close>

locale account_property =
  fixes w :: web and P :: "db \<Rightarrow> bool" and F :: "string \<Rightarrow> bool"
  assumes create: "preserves P (user_create (w_crypto w) now u e p)"
    and issue: "preserves P (issueAccountToken (w_crypto w) now raw i purpose ttl)"
    and consume: "preserves P (consume_row now i)"
    and others: "preserves P (consume_others now purpose i tid)"
    and login_insert: "F fam \<Longrightarrow> preserves P (insert_refresh now i fam h)"
    and revoke: "preserves P (revoke_where now Q)"
    and rotate: "preserves P (rotateRefreshToken (w_crypto w) now raw next_raw)"
    and set_bio: "preserves P (update_user i (\<lambda>u. u\<lparr>u_bio := bio\<rparr>))"
    and verify: "preserves P (update_user i (\<lambda>u. u\<lparr>u_verified := (case u_verified u of None \<Rightarrow> Some now | Some t \<Rightarrow> Some t)\<rparr>))"
    and bump: "preserves P (update_user i (\<lambda>u. u\<lparr>u_session := u_session u + 1\<rparr>))"
    and set_password: "preserves P (update_user i (\<lambda>u. u\<lparr>u_password := hash, u_session := u_session u + 1\<rparr>))"
begin

lemmas statements = create issue consume others revoke rotate set_bio verify bump set_password

lemma preserves_sendAccountLink: "preserves P (sendAccountLink w t s pa tx)"
  unfolding sendAccountLink_def Let_def by (intro preserve)

lemma preserves_consumeAccountToken:
  "(\<And>i t. preserves P (cb i t)) \<Longrightarrow> preserves P (consumeAccountToken (w_crypto w) now raw purpose cb)"
  unfolding consumeAccountToken_def by (intro preserve consume)

lemma preserves_verify_callback: "preserves P (verify_callback now i t)"
  unfolding verify_callback_def by (intro preserve statements)

lemma preserves_reset_callback: "preserves P (reset_callback now h i t)"
  unfolding reset_callback_def by (intro preserve statements)

lemmas flows = statements preserves_sendAccountLink preserves_consumeAccountToken preserves_verify_callback
  preserves_reset_callback

lemma preserves_register: "P d \<Longrightarrow> P (snd (register w now raw u e p d))"
  unfolding register_def Let_def findByEmail_def findByUsername_def verification_link_def
  by (rule reply_if, assumption, rule try_preserves, intro preserve flows)

lemma preserves_verify_email: "P d \<Longrightarrow> P (snd (verify_email w now t d))"
  unfolding verify_email_def by (rule reply_if, assumption, rule try_preserves, intro preserve flows)

lemma preserves_resend: "P d \<Longrightarrow> P (snd (resend_verification w now raw e d))"
  unfolding resend_verification_def Let_def findByEmail_def verification_link_def
  by (rule reply_if, assumption, rule try_preserves, intro preserve flows)

lemma preserves_login: "P d \<Longrightarrow> F fam \<Longrightarrow> P (snd (login w now raw fam e p d))"
  unfolding login_def Let_def findByEmail_def establishSession_def issueRefreshToken_def
  by (rule reply_if, assumption, rule try_preserves, intro preserve flows login_insert)

lemma preserves_refresh: "P d \<Longrightarrow> P (snd (refresh w now n r d))"
  unfolding refresh_def
  by (cases r) (simp, simp only: option.case, rule reply_if, assumption, rule try_preserves, intro preserve flows)

lemma preserves_logout: "P d \<Longrightarrow> P (snd (logout w now a d))"
  unfolding logout_def logout_tx_def revokeAllForUser_def
  by (rule middleware_preserves, assumption, rule try_preserves, intro preserve flows)

lemma preserves_forgot: "P d \<Longrightarrow> P (snd (forgot_password w now raw e d))"
  unfolding forgot_password_def Let_def findByEmail_def reset_link_def
  by (rule reply_if, assumption, rule try_preserves, intro preserve flows)

lemma preserves_reset: "P d \<Longrightarrow> P (snd (reset_password w now t p d))"
  unfolding reset_password_def by (rule reply_if, assumption, rule try_preserves, intro preserve flows)

lemma preserves_profile: "P d \<Longrightarrow> P (snd (profile w now a d))"
  unfolding profile_def user_findById_def
  by (rule middleware_preserves, assumption, rule try_preserves, intro preserve)

lemma preserves_patch: "P d \<Longrightarrow> P (snd (patch_profile w now a fs d))"
proof -
  assume P: "P d"
  have "P (snd (try_reply (qbind (updateProfile i (Some b)) (\<lambda>user. case user of
      None \<Rightarrow> qreturn (reply_of 404 (Error ''Resource not found'')) | Some u \<Rightarrow> qreturn (reply_of 200 (User_body u)))) r d))"
    for i b r
    unfolding updateProfile_def by (rule try_preserves, intro preserve flows) (rule P)
  note written = this
  show ?thesis
    unfolding patch_profile_def
  proof (rule middleware_preserves [of P, OF P])
    fix p
    show "P (snd (case map_of fs ''bio'' of
         Some (JStr bio) \<Rightarrow>
           if length bio \<le> 160 \<and> list_all (\<lambda>kv. fst kv = ''bio'') fs then
             try_reply
               (qbind (updateProfile (p_id p) (Some bio)) (\<lambda>user.
                  case user of
                    None \<Rightarrow> qreturn (reply_of 404 (Error ''Resource not found''))
                  | Some u \<Rightarrow> qreturn (reply_of 200 (User_body u))))
               (reply_of 500 (Error ''Unable to update profile'')) d
           else (validationFailure, d)
       | _ \<Rightarrow> (validationFailure, d)))"
    proof (cases "map_of fs ''bio''")
      case (Some x)
      then show ?thesis
        using P written by (cases x) simp_all
    qed (simp add: P)
  qed
qed

lemma step_preserves: "event_ok F e \<Longrightarrow> P d \<Longrightarrow> P (auth_step w d e)"
  by (cases e) (simp_all add: auth_step_def event_ok_def preserves_register preserves_verify_email preserves_resend
      preserves_login preserves_refresh preserves_logout preserves_forgot preserves_reset preserves_profile preserves_patch)

lemma run_preserves: "list_all (event_ok F) es \<Longrightarrow> P d \<Longrightarrow> P (run_steps (auth_step w) d es)"
  by (induction es arbitrary: d) (auto intro: step_preserves)

end

end
