(* ===== verification/AuthSafety.thy ===== *)
theory AuthSafety
  imports AuthRoutes
begin

text \<open>
  Safety of the accounts over every sequence of requests: sessions and one-time links that have
  ended stay ended, and a refresh token used twice closes its whole family. Each property of the
  database behind these statements is an interpretation of \<open>account_property\<close>.
\<close>

section \<open>Session versions only grow\<close>

definition session_at_least :: "nat \<Rightarrow> nat \<Rightarrow> db \<Rightarrow> bool" where
  "session_at_least i n d \<longleftrightarrow> (case find_user i d of None \<Rightarrow> False | Some u \<Rightarrow> n \<le> u_session u)"

lemma session_users: "users d' = users d \<Longrightarrow> session_at_least i n d' = session_at_least i n d"
  by (simp add: session_at_least_def find_user_def)

lemma preserves_users_put:
  "(\<And>d. users (f d) = users d) \<Longrightarrow> preserves (session_at_least i n) (qput f)"
  by (rule preserves_qput) (metis session_users)

lemma session_fresh: "preserves (session_at_least i n) fresh"
  by (simp add: preserves_def session_at_least_def find_user_def)

lemma session_update_user:
  assumes "\<And>u. u_id (f u) = u_id u" "\<And>u. u_session u \<le> u_session (f u)"
  shows "preserves (session_at_least i n) (update_user j f)"
proof -
  have "List.find (\<lambda>u. u_id u = i) (update_where (\<lambda>u. u_id u = j) f us) =
        map_option (\<lambda>u. if u_id u = j then f u else u) (List.find (\<lambda>u. u_id u = i) us)" for us
    by (induction us) (simp_all add: assms)
  then show ?thesis
    unfolding update_user_def
    by (intro preserve preserves_qput)
      (auto simp: session_at_least_def find_user_def split: option.splits intro: order_trans [OF _ assms(2)])
qed

lemma session_create: "preserves (session_at_least i n) (user_create c now a e p)"
proof -
  have "session_at_least i n (d\<lparr>users := users d @ [u]\<rparr>)" if "session_at_least i n d" for d u
  proof -
    have "List.find Q us = Some x \<Longrightarrow> List.find Q (us @ [u]) = Some x" for Q us and x :: user_row
      by (induction us) (auto split: if_splits)
    then show ?thesis
      using that by (auto simp: session_at_least_def find_user_def split: option.splits)
  qed
  then show ?thesis
    unfolding user_create_def Let_def by (intro preserve session_fresh preserves_qput)
qed

lemma session_insert: "preserves (session_at_least i n) (insert_refresh now u fam h)"
  unfolding insert_refresh_def by (intro preserve session_fresh preserves_users_put) simp

lemma session_revoke: "preserves (session_at_least i n) (revoke_where now Q)"
  unfolding revoke_where_def by (intro preserve preserves_users_put) simp

lemma session_use: "preserves (session_at_least i n) (use_refresh now j h)"
  unfolding use_refresh_def by (intro preserve preserves_users_put) simp

lemma session_issue: "preserves (session_at_least i n) (issueAccountToken c now raw j purpose ttl)"
  unfolding issueAccountToken_def by (intro preserve session_fresh preserves_users_put) simp

lemma session_consume: "preserves (session_at_least i n) (consume_row now j)"
  unfolding consume_row_def by (intro preserve preserves_users_put) simp

lemma session_others: "preserves (session_at_least i n) (consume_others now purpose j t)"
  unfolding consume_others_def by (intro preserves_users_put) simp

lemma session_rotate: "preserves (session_at_least i n) (rotateRefreshToken c now raw m)"
  unfolding rotateRefreshToken_def exchange_def by (intro preserve session_use session_insert session_revoke)

interpretation sessions: account_property w "session_at_least i n" "\<lambda>_. True" for w i n
  by unfold_locales
    (rule session_create session_issue session_consume session_others session_insert session_revoke session_rotate
      session_update_user; simp)+

section \<open>A used refresh token stays used\<close>

definition refresh_used :: "string \<Rightarrow> db \<Rightarrow> bool" where
  "refresh_used h d \<longleftrightarrow> (case refresh_row h d of None \<Rightarrow> False | Some t \<Rightarrow> rt_consumed t \<noteq> None)"

lemma refresh_row_update:
  assumes "\<And>t. rt_hash (f t) = rt_hash t"
  shows "refresh_row h (d\<lparr>refresh_tokens := update_where Q f (refresh_tokens d)\<rparr>) =
         map_option (\<lambda>t. if Q t then f t else t) (refresh_row h d)"
proof -
  have "List.find (\<lambda>t. rt_hash t = h) (update_where Q f ts) =
        map_option (\<lambda>t. if Q t then f t else t) (List.find (\<lambda>t. rt_hash t = h) ts)" for ts
    by (induction ts) (simp_all add: assms)
  then show ?thesis
    by (simp add: refresh_row_def)
qed

lemma refresh_row_append:
  "refresh_row h (d\<lparr>refresh_tokens := refresh_tokens d @ [t]\<rparr>) =
   (case refresh_row h d of Some x \<Rightarrow> Some x | None \<Rightarrow> if rt_hash t = h then Some t else None)"
proof -
  have "List.find (\<lambda>t. rt_hash t = h) (ts @ [t]) =
        (case List.find (\<lambda>t. rt_hash t = h) ts of Some x \<Rightarrow> Some x | None \<Rightarrow> if rt_hash t = h then Some t else None)" for ts
    by (induction ts) simp_all
  then show ?thesis
    by (simp add: refresh_row_def)
qed

lemma used_other: "refresh_tokens d' = refresh_tokens d \<Longrightarrow> refresh_used h d' = refresh_used h d"
  by (simp add: refresh_used_def refresh_row_def)

lemma preserves_refresh_put:
  "(\<And>d. refresh_tokens (f d) = refresh_tokens d) \<Longrightarrow> preserves (refresh_used h) (qput f)"
  by (rule preserves_qput) (metis used_other)

lemma used_fresh: "preserves (refresh_used h) fresh"
  by (simp add: preserves_def refresh_used_def refresh_row_def)

lemma used_update:
  assumes "\<And>t. rt_hash (f t) = rt_hash t" "\<And>t. rt_consumed (f t) = None \<Longrightarrow> rt_consumed t = None"
  shows "preserves (refresh_used h) (qput (\<lambda>d. d\<lparr>refresh_tokens := update_where Q f (refresh_tokens d)\<rparr>))"
proof (rule preserves_qput)
  fix d
  assume "refresh_used h d"
  then obtain t where "refresh_row h d = Some t" "rt_consumed t \<noteq> None"
    by (auto simp: refresh_used_def split: option.splits)
  moreover from this have "rt_consumed (if Q t then f t else t) \<noteq> None"
    using assms(2) by metis
  ultimately show "refresh_used h (d\<lparr>refresh_tokens := update_where Q f (refresh_tokens d)\<rparr>)"
    by (simp add: refresh_used_def refresh_row_update assms(1))
qed

lemma used_insert: "preserves (refresh_used h) (insert_refresh now u fam k)"
  unfolding insert_refresh_def
  by (intro preserve used_fresh preserves_qput) (auto simp: refresh_used_def refresh_row_append split: option.splits)

lemma used_revoke: "preserves (refresh_used h) (revoke_where now Q)"
  unfolding revoke_where_def by (intro preserve used_update) simp_all

lemma used_use: "preserves (refresh_used h) (use_refresh now i k)"
  unfolding use_refresh_def by (intro preserve used_update) simp_all

lemma used_rotate: "preserves (refresh_used h) (rotateRefreshToken c now raw m)"
  unfolding rotateRefreshToken_def exchange_def by (intro preserve used_use used_insert used_revoke)

lemma used_create: "preserves (refresh_used h) (user_create c now a e p)"
  unfolding user_create_def Let_def by (intro preserve used_fresh preserves_refresh_put) simp

lemma used_update_user: "preserves (refresh_used h) (update_user i f)"
  unfolding update_user_def by (intro preserve preserves_refresh_put) simp

lemma used_issue: "preserves (refresh_used h) (issueAccountToken c now raw j purpose ttl)"
  unfolding issueAccountToken_def by (intro preserve used_fresh preserves_refresh_put) simp

lemma used_consume: "preserves (refresh_used h) (consume_row now j)"
  unfolding consume_row_def by (intro preserve preserves_refresh_put) simp

lemma used_others: "preserves (refresh_used h) (consume_others now purpose j t)"
  unfolding consume_others_def by (intro preserves_refresh_put) simp

interpretation used_tokens: account_property w "refresh_used h" "\<lambda>_. True" for w h
  by unfold_locales
    (rule used_create used_issue used_consume used_others used_insert used_revoke used_rotate used_update_user)+

section \<open>A revoked family stays revoked\<close>

definition family_dead :: "string \<Rightarrow> db \<Rightarrow> bool" where
  "family_dead fam d \<longleftrightarrow> (\<forall>t \<in> set (refresh_tokens d). rt_family t = fam \<longrightarrow> rt_revoked t \<noteq> None)"

lemma dead_other: "refresh_tokens d' = refresh_tokens d \<Longrightarrow> family_dead h d' = family_dead h d"
  by (simp add: family_dead_def)

lemma preserves_dead_put:
  "(\<And>d. refresh_tokens (f d) = refresh_tokens d) \<Longrightarrow> preserves (family_dead h) (qput f)"
  by (rule preserves_qput) (metis dead_other)

lemma dead_fresh: "preserves (family_dead h) fresh"
  by (simp add: preserves_def family_dead_def)

lemma dead_update:
  assumes "\<And>t. rt_family (f t) = rt_family t" "\<And>t. rt_revoked (f t) = None \<Longrightarrow> rt_revoked t = None"
  shows "preserves (family_dead h) (qput (\<lambda>d. d\<lparr>refresh_tokens := update_where Q f (refresh_tokens d)\<rparr>))"
proof (rule preserves_qput)
  fix d
  assume dead: "family_dead h d"
  have "rt_revoked (if Q t then f t else t) \<noteq> None"
    if "t \<in> set (refresh_tokens d)" "rt_family (if Q t then f t else t) = h" for t
  proof -
    have "rt_revoked t \<noteq> None"
      using dead that assms(1) by (simp add: family_dead_def split: if_splits)
    then show ?thesis
      using assms(2) by metis
  qed
  then show "family_dead h (d\<lparr>refresh_tokens := update_where Q f (refresh_tokens d)\<rparr>)"
    by (auto simp: family_dead_def set_update_where simp del: if_image_distrib not_None_eq)
qed

lemma dead_insert: "fam \<noteq> h \<Longrightarrow> preserves (family_dead h) (insert_refresh now u fam k)"
  unfolding insert_refresh_def
  by (intro preserve dead_fresh preserves_qput) (simp add: family_dead_def)

lemma dead_revoke: "preserves (family_dead h) (revoke_where now Q)"
  unfolding revoke_where_def by (intro preserve dead_update) simp_all

lemma dead_use: "preserves (family_dead h) (use_refresh now i k)"
  unfolding use_refresh_def by (intro preserve dead_update) simp_all

text \<open>A rotation of a token of a revoked family stops before it writes.\<close>

lemma rotate_dead:
  assumes "family_dead fam d" "refresh_row (hashToken c raw) d = Some t" "rt_family t = fam"
  shows "rotateRefreshToken c now raw m d = (Inr None, d)"
proof -
  have "t \<in> set (refresh_tokens d)"
    using find_Some_in [of _ "refresh_tokens d" t] assms(2) by (auto simp: refresh_row_def)
  then have "rt_revoked t \<noteq> None"
    using assms by (simp add: family_dead_def)
  then show ?thesis
    using assms(2) by (auto simp: rotateRefreshToken_def transaction_def refresh_row_def)
qed

lemma dead_rotate: "preserves (family_dead h) (rotateRefreshToken c now raw m)"
proof -
  have "family_dead h (snd (rotateRefreshToken c now raw m d))" if dead: "family_dead h d" for d
  proof (cases rule: rotate_cases [of c raw d now m])
    case (reused t)
    then show ?thesis
      using preservesD [OF dead_revoke dead] by simp
  next
    case (exchanged t)
    have "t \<in> set (refresh_tokens d)"
      using find_Some_in exchanged(1) by (fastforce simp: refresh_row_def)
    then have "rt_family t \<noteq> h"
      using dead exchanged(3) by (auto simp: family_dead_def)
    then have "preserves (family_dead h) (exchange c now t m)"
      unfolding exchange_def by (intro preserve dead_use dead_insert)
    from preservesD [OF preserves_transaction [OF this] dead] show ?thesis
      using exchanged(5) by simp
  qed (simp_all add: dead)
  then show ?thesis by (simp add: preserves_def)
qed

lemma dead_create: "preserves (family_dead h) (user_create c now a e p)"
  unfolding user_create_def Let_def by (intro preserve dead_fresh preserves_dead_put) simp

lemma dead_update_user: "preserves (family_dead h) (update_user i f)"
  unfolding update_user_def by (intro preserve preserves_dead_put) simp

lemma dead_issue: "preserves (family_dead h) (issueAccountToken c now raw j purpose ttl)"
  unfolding issueAccountToken_def by (intro preserve dead_fresh preserves_dead_put) simp

lemma dead_consume: "preserves (family_dead h) (consume_row now j)"
  unfolding consume_row_def by (intro preserve preserves_dead_put) simp

lemma dead_others: "preserves (family_dead h) (consume_others now purpose j t)"
  unfolding consume_others_def by (intro preserves_dead_put) simp

interpretation dead_families: account_property w "family_dead h" "\<lambda>fam. fam \<noteq> h" for w h
  by unfold_locales
    (rule dead_create dead_issue dead_consume dead_others dead_insert dead_revoke dead_rotate dead_update_user; assumption?)+

section \<open>Rotation\<close>

lemma rotate_used:
  assumes row: "refresh_row (hashToken c raw) d = Some t" "rt_consumed t \<noteq> None" "rt_revoked t = None" "now < rt_expires t"
  shows "fst (rotateRefreshToken c now raw m d) = Inr None" "family_dead (rt_family t) (snd (rotateRefreshToken c now raw m d))"
proof -
  have "rotateRefreshToken c now raw m d = (Inr None, snd (revoke_where now (\<lambda>x. rt_family x = rt_family t) d))"
    by (cases rule: rotate_cases [of c raw d now m]) (use row in auto)
  then show "fst (rotateRefreshToken c now raw m d) = Inr None" "family_dead (rt_family t) (snd (rotateRefreshToken c now raw m d))"
    by (auto simp: revoke_where_def family_dead_def set_update_where)
qed

lemma exchange_uses:
  assumes row: "refresh_row h d = Some t" "rt_consumed t = None" and ok: "exchange c now t m d = (Inr r, d')"
  shows "refresh_used h d'"
proof -
  obtain d1 d2 where 1: "use_refresh now (rt_id t) (hashToken c m) d = (Inr (), d1)"
    and 2: "insert_refresh now (rt_user t) (rt_family t) (hashToken c m) d1 = (Inr (), d2)" and 3: "d' = d2"
    using ok by (auto simp: exchange_def split: option.splits elim!: qbind_InrE)
  have "refresh_used h d1"
    using 1 row by (auto simp: use_refresh_def refresh_used_def refresh_row_update)
  then show ?thesis
    using preserved [OF used_insert 2] 3 by simp
qed

lemma rotate_success:
  assumes "rotateRefreshToken c now raw m d = (Inr (Some r), d')"
  shows "refresh_used (hashToken c raw) d'"
  using assms by (cases rule: rotate_cases [of c raw d now m]) (auto intro: exchange_uses)

text \<open>The reply of the refresh endpoint by the result of the rotation.\<close>

lemma refresh_result:
  assumes "raw \<noteq> []"
  shows "refresh w now n (Some raw) d =
    (case rotateRefreshToken (w_crypto w) now raw n d of
       (Inr (Some (tok, u)), d') \<Rightarrow>
         (if u_verified u = None then clearAuthCookies w auth_required
          else setRefreshCookie w tok (setAccessCookie w (signAccessToken w now u)
                 (reply_of 200 (User_body (publicFields (token_user_columns u))))), d')
     | (_, d') \<Rightarrow> (clearAuthCookies w auth_required, d'))"
  using assms
  by (cases "rotateRefreshToken (w_crypto w) now raw n d")
    (auto simp: refresh_def try_reply_def qbind_def split: sum.split option.split)

lemma refused_status [simp]: "status (clearAuthCookies w auth_required) = 401" "status auth_required = 401"
  by (simp_all add: clearAuthCookies_def auth_required_def reply_of_def)

section \<open>Properties\<close>

text \<open>
  C25. A refresh token can be exchanged once. When a token that was already exchanged is presented
  again (and has neither expired nor been revoked), the request is refused with 401 and cleared
  cookies, and from then on every token of the same login, the newest included, is refused as
  well, whatever requests come in between; only another login gives a new session.
\<close>

theorem refresh_reuse_closes_family:
  assumes first: "status (fst (refresh w now n (Some raw) d)) = 200"
    and d2: "d2 = run_steps (auth_step w) (snd (refresh w now n (Some raw) d)) es"
    and again: "refresh_row (hashToken (w_crypto w) raw) d2 = Some t" "rt_revoked t = None" "now2 < rt_expires t"
    and d3: "d3 = run_steps (auth_step w) (snd (refresh w now2 n2 (Some raw) d2)) fs"
    and fs: "list_all (event_ok (\<lambda>fam. fam \<noteq> rt_family t)) fs"
    and sibling: "refresh_row (hashToken (w_crypto w) raw') d3 = Some x" "rt_family x = rt_family t"
  shows "fst (refresh w now2 n2 (Some raw) d2) = clearAuthCookies w auth_required \<and>
         status (fst (refresh w now3 n3 (Some raw') d3)) = 401"
proof -
  have raw: "raw \<noteq> []"
    using first by (auto simp: refresh_def)
  have "refresh_used (hashToken (w_crypto w) raw) (snd (refresh w now n (Some raw) d))"
    using first by (auto simp: refresh_result [OF raw] intro: rotate_success split: prod.splits sum.splits option.splits)
  then have "refresh_used (hashToken (w_crypto w) raw) d2"
    unfolding d2 by (intro used_tokens.run_preserves) (simp add: list_all_iff event_ok_def split: auth_event.split)
  then have used: "rt_consumed t \<noteq> None"
    using again(1) by (simp add: refresh_used_def)
  note reuse = rotate_used [OF again(1) used again(2,3), of n2]
  have reply: "fst (refresh w now2 n2 (Some raw) d2) = clearAuthCookies w auth_required"
    and state: "snd (refresh w now2 n2 (Some raw) d2) = snd (rotateRefreshToken (w_crypto w) now2 raw n2 d2)"
    using reuse(1) by (auto simp: refresh_result [OF raw] split: prod.split sum.split)
  have "family_dead (rt_family t) d3"
    unfolding d3 by (rule dead_families.run_preserves [OF fs]) (simp add: state reuse(2))
  then have "rotateRefreshToken (w_crypto w) now3 raw' n3 d3 = (Inr None, d3)"
    using sibling by (rule rotate_dead)
  then have "status (fst (refresh w now3 n3 (Some raw') d3)) = 401"
    by (cases "raw' = []") (simp_all add: refresh_result, simp add: refresh_def)
  then show ?thesis
    using reply by blast
qed

text \<open>A concrete server: plain hashes, every address valid, mail accepted.\<close>

definition demo_crypto :: crypto where
  "demo_crypto = \<lparr>hashToken = (\<lambda>x. x), bcrypt_hash = (\<lambda>p. CHR ''h'' # p), bcrypt_compare = (\<lambda>p h. h = CHR ''h'' # p),
     jwt_sign = (\<lambda>p t. show_nat (p_session p)),
     jwt_verify = (\<lambda>s t. map_option (\<lambda>v. \<lparr>p_id = 1, p_username = ''ann'', p_email = ''ann@x'', p_session = v\<rparr>) (nat_of_digits 0 s))\<rparr>"

definition demo_web :: web where
  "demo_web = \<lparr>w_crypto = demo_crypto, isEmail = (\<lambda>_. True), normalizeEmail = (\<lambda>x. x), production = True,
     frontend_url = Some ''https://x'', resolve_url = (\<lambda>p b. b @ p), smtp_accepts = (\<lambda>_. True)\<rparr>"

definition demo_member :: user_row where
  "demo_member = \<lparr>u_id = 1, u_username = ''ann'', u_email = ''ann@x'', u_password = ''hsecret'', u_avatar = None, u_bio = None,
     u_elo = 1200, u_verified = Some 0, u_session = 0, u_created = 0\<rparr>"

definition demo_login :: db where
  "demo_login = snd (login demo_web 10 ''tok1'' ''fam'' ''ann@x'' ''secret'' (empty_db\<lparr>users := [demo_member], next_id := 2\<rparr>))"

theorem refresh_reuse_closes_family_witness:
  "let d2 = snd (refresh demo_web 20 ''tok2'' (Some ''tok1'') demo_login);
       d3 = snd (refresh demo_web 30 ''tok3'' (Some ''tok1'') d2)
   in status (fst (refresh demo_web 20 ''tok2'' (Some ''tok1'') demo_login)) = 200 \<and>
      status (fst (refresh demo_web 40 ''tok4'' (Some ''tok2'') d3)) = 401"
proof -
  let ?d2 = "snd (refresh demo_web 20 ''tok2'' (Some ''tok1'') demo_login)"
  let ?d3 = "snd (refresh demo_web 30 ''tok3'' (Some ''tok1'') ?d2)"
  let ?t1 = "\<lparr>rt_id = 2, rt_user = 1, rt_family = ''fam'', rt_hash = ''tok1'', rt_expires = 10 + REFRESH_MAX_AGE_MS,
              rt_consumed = Some 20, rt_revoked = None, rt_replaced = Some ''tok2''\<rparr>"
  let ?t2 = "\<lparr>rt_id = 3, rt_user = 1, rt_family = ''fam'', rt_hash = ''tok2'', rt_expires = 20 + REFRESH_MAX_AGE_MS,
              rt_consumed = None, rt_revoked = Some 30, rt_replaced = None\<rparr>"
  have 1: "status (fst (refresh demo_web 20 ''tok2'' (Some ''tok1'') demo_login)) = 200"
    by code_simp
  have 2: "refresh_row (hashToken (w_crypto demo_web) ''tok1'') ?d2 = Some ?t1" "rt_revoked ?t1 = None" "30 < rt_expires ?t1"
    by code_simp+
  have 3: "refresh_row (hashToken (w_crypto demo_web) ''tok2'') ?d3 = Some ?t2" "rt_family ?t2 = rt_family ?t1"
    by code_simp+
  from refresh_reuse_closes_family [where es = "[]" and fs = "[]" and ?d3.0 = ?d3 and ?n3.0 = "''tok4''" and ?now3.0 = 40, OF 1 _ 2 _ _ 3]
  show ?thesis
    using 1 by (simp add: Let_def)
qed

text \<open>What a logout and a password reset do to the rows of their user.\<close>

lemma find_user_update:
  assumes "\<And>u. u_id (f u) = u_id u"
  shows "find_user i (d\<lparr>users := update_where (\<lambda>u. u_id u = j) f (users d)\<rparr>) =
         map_option (\<lambda>u. if u_id u = j then f u else u) (find_user i d)"
proof -
  have "List.find (\<lambda>u. u_id u = i) (update_where (\<lambda>u. u_id u = j) f us) =
        map_option (\<lambda>u. if u_id u = j then f u else u) (List.find (\<lambda>u. u_id u = i) us)" for us
    by (induction us) (simp_all add: assms)
  then show ?thesis
    by (simp add: find_user_def)
qed

lemma find_user_id: "find_user i d = Some u \<Longrightarrow> u_id u = i"
  by (auto simp: find_user_def dest: find_Some_in)

lemma stale_payload:
  assumes "session_at_least i n d" "p_id p = i" "p_session p < n"
  shows "\<not> activeSession p d"
  using assms by (auto simp: session_at_least_def activeSession_def split: option.splits)

lemma logout_bumps:
  assumes "status (fst (logout w now token d)) = 204" "authenticate w now token d = Some p" "find_user (p_id p) d = Some u"
  shows "session_at_least (p_id p) (u_session u + 1) (snd (logout w now token d))"
proof -
  obtain r d' where tx: "logout_tx now (p_id p) d = (r, d')"
    by (cases "logout_tx now (p_id p) d")
  have r: "r = Inr ()" and out: "snd (logout w now token d) = d'"
    using assms(1,2) tx by (cases r; simp add: logout_def authMiddleware_def try_reply_def qbind_def reply_of_def)+
  have "session_at_least (p_id p) (u_session u + 1)
      (d\<lparr>users := update_where (\<lambda>u. u_id u = p_id p) (\<lambda>u. u\<lparr>u_session := u_session u + 1\<rparr>) (users d)\<rparr>)"
    using assms(3) find_user_id [OF assms(3)] by (simp add: session_at_least_def find_user_update)
  then show ?thesis
    using tx unfolding r out
    by (auto simp: logout_tx_def update_user_def revokeAllForUser_def intro: preserved [OF session_revoke]
        elim!: qbind_InrE split: if_splits)
qed

text \<open>
  C26. Logging out ends every session. After a successful logout no access token that was signed
  for that user before - on whatever device, however long it is still valid - is accepted
  again, whatever requests follow.
\<close>

theorem logout_ends_sessions:
  assumes "status (fst (logout w now token d)) = 204" "authenticate w now token d = Some p" "find_user (p_id p) d = Some u"
    and old: "verifyAccessToken w now' token' = Some q" "p_id q = p_id p" "p_session q \<le> u_session u"
  shows "authenticate w now' (Some token') (run_steps (auth_step w) (snd (logout w now token d)) es) = None"
proof -
  have "session_at_least (p_id p) (u_session u + 1) (run_steps (auth_step w) (snd (logout w now token d)) es)"
    using logout_bumps [OF assms(1-3)]
    by (intro sessions.run_preserves) (simp_all add: list_all_iff event_ok_def split: auth_event.split)
  then have "\<not> activeSession q (run_steps (auth_step w) (snd (logout w now token d)) es)"
    by (rule stale_payload) (use old in simp_all)
  then show ?thesis
    using old(1) by (simp add: authenticate_def)
qed

theorem logout_ends_sessions_witness:
  "authenticate demo_web 60 (Some ''0'')
     (run_steps (auth_step demo_web) (snd (logout demo_web 50 (Some ''0'') demo_login)) [Login 55 ''t'' ''f'' ''ann@x'' ''secret'']) = None"
proof -
  let ?p = "\<lparr>p_id = 1, p_username = ''ann'', p_email = ''ann@x'', p_session = 0\<rparr>"
  have 1: "status (fst (logout demo_web 50 (Some ''0'') demo_login)) = 204"
    by code_simp
  have 2: "authenticate demo_web 50 (Some ''0'') demo_login = Some ?p" "find_user (p_id ?p) demo_login = Some demo_member"
    "verifyAccessToken demo_web 60 ''0'' = Some ?p" "p_id ?p = p_id ?p" "p_session ?p \<le> u_session demo_member"
    by code_simp+
  show ?thesis
    by (rule logout_ends_sessions [OF 1 2])
qed

section \<open>One-time links\<close>

definition link_used :: "string \<Rightarrow> db \<Rightarrow> bool" where
  "link_used h d \<longleftrightarrow> h \<in> at_hash ` set (account_tokens d) \<and>
     (\<forall>t \<in> set (account_tokens d). at_hash t = h \<longrightarrow> at_consumed t \<noteq> None)"

lemma preserves_link_put:
  "(\<And>d. account_tokens (f d) = account_tokens d) \<Longrightarrow> preserves (link_used h) (qput f)"
  by (rule preserves_qput) (simp add: link_used_def)

lemma link_fresh: "preserves (link_used h) fresh"
  by (simp add: preserves_def link_used_def)

lemma link_consume_put:
  "preserves (link_used h) (qput (\<lambda>d. d\<lparr>account_tokens := update_where Q (\<lambda>t. t\<lparr>at_consumed := Some now\<rparr>) (account_tokens d)\<rparr>))"
proof (rule preserves_qput)
  fix d
  assume "link_used h d"
  moreover have "at_hash ` set (update_where Q (\<lambda>t. t\<lparr>at_consumed := Some now\<rparr>) ts) = at_hash ` set ts" for ts
    by (induction ts) auto
  ultimately show "link_used h (d\<lparr>account_tokens := update_where Q (\<lambda>t. t\<lparr>at_consumed := Some now\<rparr>) (account_tokens d)\<rparr>)"
    by (auto simp: link_used_def set_update_where simp del: if_image_distrib)
qed

lemma link_issue: "preserves (link_used h) (issueAccountToken c now raw j purpose ttl)"
proof -
  have "link_used h (snd (issueAccountToken c now raw j purpose ttl d))" if "link_used h d" for d
    using that
    by (auto simp: issueAccountToken_def qbind_def user_ref_def guard_q_def link_used_def list_ex_iff)
  then show ?thesis by (simp add: preserves_def)
qed

lemma link_consume: "preserves (link_used h) (consume_row now j)"
  unfolding consume_row_def by (intro preserve link_consume_put)

lemma link_others: "preserves (link_used h) (consume_others now purpose j t)"
  unfolding consume_others_def by (rule link_consume_put)

lemma link_insert: "preserves (link_used h) (insert_refresh now u fam k)"
  unfolding insert_refresh_def by (intro preserve link_fresh preserves_link_put) simp

lemma link_revoke: "preserves (link_used h) (revoke_where now Q)"
  unfolding revoke_where_def by (intro preserve preserves_link_put) simp

lemma link_use: "preserves (link_used h) (use_refresh now i k)"
  unfolding use_refresh_def by (intro preserve preserves_link_put) simp

lemma link_rotate: "preserves (link_used h) (rotateRefreshToken c now raw m)"
  unfolding rotateRefreshToken_def exchange_def by (intro preserve link_use link_insert link_revoke)

lemma link_create: "preserves (link_used h) (user_create c now a e p)"
  unfolding user_create_def Let_def by (intro preserve link_fresh preserves_link_put) simp

lemma link_update_user: "preserves (link_used h) (update_user i f)"
  unfolding update_user_def by (intro preserve preserves_link_put) simp

interpretation used_links: account_property w "link_used h" "\<lambda>_. True" for w h
  by unfold_locales
    (rule link_create link_issue link_consume link_others link_insert link_revoke link_rotate link_update_user)+

text \<open>What a consumed token went through.\<close>

lemma consume_success:
  assumes "consumeAccountToken c now raw purpose cb d = (Inr True, d')"
  obtains t d1 where "usable_tokens c now raw purpose d = [t]" "cb (at_user t) (at_id t) d = (Inr (), d1)"
    "consume_row now (at_id t) d1 = (Inr (), d')"
proof -
  let ?body = "\<lambda>found. case found of
     [t] \<Rightarrow> qbind (cb (at_user t) (at_id t)) (\<lambda>_. qbind (consume_row now (at_id t)) (\<lambda>_. qreturn True))
   | _ \<Rightarrow> qreturn False"
  have q: "?body (usable_tokens c now raw purpose d) d = (Inr True, d')"
    using assms by (simp add: consumeAccountToken_def)
  then obtain t where t: "usable_tokens c now raw purpose d = [t]"
    by (cases "usable_tokens c now raw purpose d"; cases "tl (usable_tokens c now raw purpose d)") auto
  then have "qbind (cb (at_user t) (at_id t)) (\<lambda>_. qbind (consume_row now (at_id t)) (\<lambda>_. qreturn True)) d = (Inr True, d')"
    using q by simp
  then show ?thesis
    using that t by (auto elim!: qbind_InrE)
qed

lemma consume_refused:
  assumes "link_used (hashToken c raw) d"
  shows "consumeAccountToken c now raw purpose cb d = (Inr False, d)"
proof -
  have "usable_tokens c now raw purpose d = []"
    using assms by (auto simp: usable_tokens_def link_used_def filter_empty_conv)
  then show ?thesis
    by (simp add: consumeAccountToken_def transaction_def)
qed

lemma consume_row_uses:
  assumes "consume_row now i d = (Inr (), d')" "t \<in> set (account_tokens d)" "at_id t = i"
    and "\<And>x. x \<in> set (account_tokens d) \<Longrightarrow> at_hash x = at_hash t \<Longrightarrow> at_id x = i"
  shows "link_used (at_hash t) d'"
proof -
  have d': "d' = d\<lparr>account_tokens := update_where (\<lambda>t. at_id t = i \<and> at_consumed t = None)
       (\<lambda>t. t\<lparr>at_consumed := Some now\<rparr>) (account_tokens d)\<rparr>"
    using assms(1) by (auto simp: consume_row_def guard_q_def split: if_splits)
  have "at_hash ` set (account_tokens d') = at_hash ` set (account_tokens d)"
    unfolding d' by (simp add: map_update_where_same flip: set_map)
  then show ?thesis
    using assms(2-4) unfolding d' link_used_def by (auto simp: set_update_where simp del: if_image_distrib split: if_splits)
qed

text \<open>The callbacks keep the hash and the id of every token.\<close>

definition token_keys :: "db \<Rightarrow> (string \<times> nat) list" where
  "token_keys d = map (\<lambda>t. (at_hash t, at_id t)) (account_tokens d)"

lemma keys_put: "(\<And>d. account_tokens (f d) = account_tokens d) \<Longrightarrow> preserves (\<lambda>d. token_keys d = k) (qput f)"
  by (rule preserves_qput) (simp add: token_keys_def)

lemma keys_others: "preserves (\<lambda>d. token_keys d = k) (consume_others now purpose i t)"
  unfolding consume_others_def by (rule preserves_qput) (simp add: token_keys_def map_update_where_same)

lemma keys_callbacks:
  "preserves (\<lambda>d. token_keys d = k) (verify_callback now i t)"
  "preserves (\<lambda>d. token_keys d = k) (reset_callback now h i t)"
  unfolding verify_callback_def reset_callback_def update_user_def revoke_where_def
  by (intro preserve keys_put keys_others; simp)+

lemma consume_closes_link:
  assumes "consumeAccountToken c now raw purpose cb d = (Inr True, d')" "distinct (map at_hash (account_tokens d))"
    and "\<And>i t k. preserves (\<lambda>d. token_keys d = k) (cb i t)"
  shows "link_used (hashToken c raw) d'"
proof -
  from consume_success [OF assms(1)] obtain t d1 where t: "usable_tokens c now raw purpose d = [t]"
    and 1: "cb (at_user t) (at_id t) d = (Inr (), d1)" and 2: "consume_row now (at_id t) d1 = (Inr (), d')"
    by metis
  have "t \<in> set (usable_tokens c now raw purpose d)"
    using t by simp
  then have mem: "t \<in> set (account_tokens d)" "at_hash t = hashToken c raw"
    by (auto simp: usable_tokens_def)
  have keys: "token_keys d1 = token_keys d"
    using preserved [OF assms(3) 1] by blast
  have uniq: "i = at_id t" if "(at_hash t, i) \<in> set (token_keys d)" for i
    using that mem assms(2) by (auto simp: token_keys_def distinct_map dest: inj_onD)
  have "(at_hash t, at_id t) \<in> set (token_keys d1)"
    using mem unfolding keys by (auto simp: token_keys_def image_iff intro!: bexI [of _ t])
  then obtain t1 where t1: "t1 \<in> set (account_tokens d1)" "at_hash t1 = at_hash t" "at_id t1 = at_id t"
    by (auto simp: token_keys_def)
  have "at_id x = at_id t" if "x \<in> set (account_tokens d1)" "at_hash x = at_hash t1" for x
  proof -
    have "(at_hash t, at_id x) \<in> set (token_keys d1)"
      using that t1(2) by (auto simp: token_keys_def image_iff intro!: bexI [of _ x])
    then show ?thesis
      using uniq keys by simp
  qed
  from consume_row_uses [OF 2 t1(1,3) this] show ?thesis
    using t1(2) mem(2) by simp
qed

definition link_of :: "auth_event \<Rightarrow> string option" where
  "link_of e = (case e of Verify _ t \<Rightarrow> Some t | Reset _ t _ \<Rightarrow> Some t | _ \<Rightarrow> None)"

lemma link_reply_closes:
  assumes "link_of e = Some token" "status (fst (auth_reply w e d)) = 200" "distinct (map at_hash (account_tokens d))"
  shows "link_used (hashToken (w_crypto w) token) (snd (auth_reply w e d))"
proof (cases e)
  case (Verify now t)
  obtain r d' where q: "consumeAccountToken (w_crypto w) now t ''email_verification'' (verify_callback now) d = (r, d')"
    by (cases "consumeAccountToken (w_crypto w) now t ''email_verification'' (verify_callback now) d")
  have "r = Inr True" "snd (auth_reply w e d) = d'"
    using assms(2) q unfolding Verify
    by (auto simp: verify_email_def try_reply_def qbind_def validationFailure_def reply_of_def split: if_splits sum.splits bool.splits)
  then show ?thesis
    using consume_closes_link [OF _ assms(3) keys_callbacks(1)] q assms(1) Verify by (simp add: link_of_def)
next
  case (Reset now t p)
  obtain r d' where q: "consumeAccountToken (w_crypto w) now t ''password_reset''
      (reset_callback now (hashPassword (w_crypto w) p)) d = (r, d')"
    by (cases "consumeAccountToken (w_crypto w) now t ''password_reset'' (reset_callback now (hashPassword (w_crypto w) p)) d")
  have "r = Inr True" "snd (auth_reply w e d) = d'"
    using assms(2) q unfolding Reset
    by (auto simp: reset_password_def try_reply_def qbind_def validationFailure_def reply_of_def split: if_splits sum.splits bool.splits)
  then show ?thesis
    using consume_closes_link [OF _ assms(3) keys_callbacks(2)] q assms(1) Reset by (simp add: link_of_def)
qed (use assms(1) in \<open>simp_all add: link_of_def\<close>)

text \<open>
  C27. The links in verification and reset mails work once. After a link has been accepted, the
  same link is refused with 400 by both endpoints, whatever requests come in between.
\<close>

theorem one_time_links:
  assumes "link_of e = Some token" "status (fst (auth_reply w e d)) = 200" "distinct (map at_hash (account_tokens d))"
    and "link_of e' = Some token"
  shows "status (fst (auth_reply w e' (run_steps (auth_step w) (snd (auth_reply w e d)) es))) = 400"
proof -
  let ?d = "run_steps (auth_step w) (snd (auth_reply w e d)) es"
  have used: "link_used (hashToken (w_crypto w) token) ?d"
    using link_reply_closes [OF assms(1-3)]
    by (intro used_links.run_preserves) (simp_all add: list_all_iff event_ok_def split: auth_event.split)
  show ?thesis
    using assms(4) consume_refused [OF used]
    by (cases e') (simp_all add: link_of_def verify_email_def reset_password_def try_reply_def qbind_def validationFailure_def
        reply_of_def)
qed

definition demo_mailed :: db where
  "demo_mailed = snd (forgot_password demo_web 10 ''reset-token-0123456789'' ''ann@x'' (empty_db\<lparr>users := [demo_member], next_id := 2\<rparr>))"

theorem one_time_links_witness:
  "status (fst (auth_reply demo_web (Reset 30 ''reset-token-0123456789'' ''another-secret'')
     (run_steps (auth_step demo_web) (snd (auth_reply demo_web (Reset 20 ''reset-token-0123456789'' ''new-secret-1'') demo_mailed))
       [Login 25 ''t'' ''f'' ''ann@x'' ''new-secret-1'']))) = 400"
proof -
  have 1: "status (fst (auth_reply demo_web (Reset 20 ''reset-token-0123456789'' ''new-secret-1'') demo_mailed)) = 200"
    "distinct (map at_hash (account_tokens demo_mailed))"
    by code_simp+
  show ?thesis
    by (rule one_time_links [OF _ 1]) (simp_all add: link_of_def)
qed

section \<open>Password reset\<close>

lemma reset_success:
  assumes "status (fst (reset_password w now token pw d)) = 200"
  obtains t d1 where "usable_tokens (w_crypto w) now token ''password_reset'' d = [t]"
    "reset_callback now (hashPassword (w_crypto w) pw) (at_user t) (at_id t) d = (Inr (), d1)"
    "consume_row now (at_id t) d1 = (Inr (), snd (reset_password w now token pw d))"
proof -
  obtain r d' where q: "consumeAccountToken (w_crypto w) now token ''password_reset''
      (reset_callback now (hashPassword (w_crypto w) pw)) d = (r, d')"
    by (cases "consumeAccountToken (w_crypto w) now token ''password_reset'' (reset_callback now (hashPassword (w_crypto w) pw)) d")
  have "r = Inr True" "snd (reset_password w now token pw d) = d'"
    using assms q
    by (auto simp: reset_password_def try_reply_def qbind_def validationFailure_def reply_of_def split: if_splits sum.splits bool.splits)
  then show ?thesis
    using consume_success [of "w_crypto w" now token "''password_reset''"] q that by metis
qed

lemma reset_callback_effect:
  assumes "reset_callback now h i tid d = (Inr (), d')"
  shows "d' = d\<lparr>users := update_where (\<lambda>u. u_id u = i) (\<lambda>u. u\<lparr>u_password := h, u_session := u_session u + 1\<rparr>) (users d),
      refresh_tokens := update_where (\<lambda>t. rt_user t = i \<and> rt_revoked t = None) (\<lambda>t. t\<lparr>rt_revoked := Some now\<rparr>) (refresh_tokens d),
      account_tokens := update_where
       (\<lambda>t. at_user t = i \<and> at_purpose t = ''password_reset'' \<and> at_id t \<noteq> tid \<and> at_consumed t = None)
       (\<lambda>t. t\<lparr>at_consumed := Some now\<rparr>) (account_tokens d)\<rparr>"
    and "\<exists>u. find_user i d = Some u"
proof -
  let ?us = "update_where (\<lambda>u. u_id u = i) (\<lambda>u. u\<lparr>u_password := h, u_session := u_session u + 1\<rparr>) (users d)"
  have eq: "d' = d\<lparr>users := ?us,
      refresh_tokens := update_where (\<lambda>t. rt_user t = i \<and> rt_revoked t = None) (\<lambda>t. t\<lparr>rt_revoked := Some now\<rparr>) (refresh_tokens d),
      account_tokens := update_where
       (\<lambda>t. at_user t = i \<and> at_purpose t = ''password_reset'' \<and> at_id t \<noteq> tid \<and> at_consumed t = None)
       (\<lambda>t. t\<lparr>at_consumed := Some now\<rparr>) (account_tokens d)\<rparr>"
    and one: "length (filter (\<lambda>u. u_id u = i) ?us) = 1"
    using assms by (auto simp: reset_callback_def update_user_def revoke_where_def consume_others_def elim!: qbind_InrE split: if_splits)
  show "d' = d\<lparr>users := ?us,
      refresh_tokens := update_where (\<lambda>t. rt_user t = i \<and> rt_revoked t = None) (\<lambda>t. t\<lparr>rt_revoked := Some now\<rparr>) (refresh_tokens d),
      account_tokens := update_where
       (\<lambda>t. at_user t = i \<and> at_purpose t = ''password_reset'' \<and> at_id t \<noteq> tid \<and> at_consumed t = None)
       (\<lambda>t. t\<lparr>at_consumed := Some now\<rparr>) (account_tokens d)\<rparr>"
    by (rule eq)
  have "filter (\<lambda>u. u_id u = i) ?us \<noteq> []"
    using one by auto
  then obtain u where "u \<in> set ?us" "u_id u = i"
    by (auto simp: filter_empty_conv)
  then have "\<exists>x \<in> set (users d). u_id x = i"
    by (auto simp: set_update_where split: if_splits)
  then show "\<exists>u. find_user i d = Some u"
    unfolding find_user_def by (metis (mono_tags, lifting) find_None_all not_None_eq)
qed

text \<open>
  A password reset takes over the whole account of the link's owner and nothing else: the
  stored password is the hash of the new one, the session version is one higher, all refresh
  tokens of the user are revoked and all of the user's reset links are used up; every other
  user's row is unchanged.
\<close>

theorem reset_password_effect:
  assumes "status (fst (reset_password w now token pw d)) = 200"
  shows "\<exists>i u. find_user i d = Some u \<and>
    (\<exists>t \<in> set (account_tokens d). at_hash t = hashToken (w_crypto w) token \<and> at_purpose t = ''password_reset'' \<and>
       at_user t = i \<and> at_consumed t = None \<and> now < at_expires t) \<and>
    (let d' = snd (reset_password w now token pw d) in
       find_user i d' = Some (u\<lparr>u_password := hashPassword (w_crypto w) pw, u_session := u_session u + 1\<rparr>) \<and>
       (\<forall>j. j \<noteq> i \<longrightarrow> find_user j d' = find_user j d) \<and>
       (\<forall>r \<in> set (refresh_tokens d'). rt_user r = i \<longrightarrow> rt_revoked r \<noteq> None) \<and>
       (\<forall>t \<in> set (account_tokens d'). at_user t = i \<and> at_purpose t = ''password_reset'' \<longrightarrow> at_consumed t \<noteq> None))"
proof -
  from reset_success [OF assms] obtain t d1 where t: "usable_tokens (w_crypto w) now token ''password_reset'' d = [t]"
    and 1: "reset_callback now (hashPassword (w_crypto w) pw) (at_user t) (at_id t) d = (Inr (), d1)"
    and 2: "consume_row now (at_id t) d1 = (Inr (), snd (reset_password w now token pw d))"
    by metis
  let ?d' = "snd (reset_password w now token pw d)" and ?f = "\<lambda>u. u\<lparr>u_password := hashPassword (w_crypto w) pw, u_session := u_session u + 1\<rparr>"
  have mem: "t \<in> set (usable_tokens (w_crypto w) now token ''password_reset'' d)"
    using t by simp
  note d1 = reset_callback_effect(1) [OF 1]
  obtain u where u: "find_user (at_user t) d = Some u"
    using reset_callback_effect(2) [OF 1] by blast
  have d': "?d' = d1\<lparr>account_tokens := update_where (\<lambda>x. at_id x = at_id t \<and> at_consumed x = None)
       (\<lambda>x. x\<lparr>at_consumed := Some now\<rparr>) (account_tokens d1)\<rparr>"
    using 2 by (auto simp: consume_row_def guard_q_def split: if_splits)
  have find: "find_user j ?d' = map_option (\<lambda>u. if u_id u = at_user t then ?f u else u) (find_user j d)" for j
    using find_user_update [where f = ?f and i = j and d = d and j = "at_user t"] by (simp add: d' d1 find_user_def)
  have "find_user (at_user t) ?d' = Some (?f u)"
    using find u find_user_id [OF u] by simp
  moreover have "find_user j ?d' = find_user j d" if "j \<noteq> at_user t" for j
    using find [of j] find_user_id [of j d] that by (cases "find_user j d") auto
  moreover have "rt_revoked r \<noteq> None" if "r \<in> set (refresh_tokens ?d')" "rt_user r = at_user t" for r
    using that by (auto simp: d' d1 set_update_where simp del: if_image_distrib split: if_splits)
  moreover have "at_consumed x \<noteq> None"
    if "x \<in> set (account_tokens ?d')" "at_user x = at_user t" "at_purpose x = ''password_reset''" for x
    using that by (auto simp: d' d1 set_update_where simp del: if_image_distrib split: if_splits)
  ultimately show ?thesis
    using u mem unfolding Let_def usable_tokens_def by (intro exI [of _ "at_user t"] exI [of _ u]) auto
qed

theorem reset_password_effect_witness:
  "\<exists>i u. find_user i demo_mailed = Some u \<and>
     find_user i (snd (reset_password demo_web 20 ''reset-token-0123456789'' ''new-secret-1'' demo_mailed)) =
       Some (u\<lparr>u_password := ''hnew-secret-1'', u_session := u_session u + 1\<rparr>)"
proof -
  have "status (fst (reset_password demo_web 20 ''reset-token-0123456789'' ''new-secret-1'' demo_mailed)) = 200"
    by code_simp
  moreover have "hashPassword (w_crypto demo_web) ''new-secret-1'' = ''hnew-secret-1''"
    by code_simp
  ultimately show ?thesis
    using reset_password_effect [of demo_web 20 "''reset-token-0123456789''" "''new-secret-1''" demo_mailed]
    unfolding Let_def by metis
qed

section \<open>Login and replies\<close>

text \<open>
  A login succeeds exactly for a verified account whose stored hash matches the password.
  In every other case - unknown address, wrong password, unverified account, malformed address -
  the reply is one and the same 401 and nothing is stored, so it does not tell whether the
  account exists. A successful login sets both cookies and stores the hash of the refresh token,
  never the token.
\<close>

theorem login_exact:
  "let user = List.find (\<lambda>u. u_email u = normalizeEmail w email) (users d);
       (r, d') = login w now raw fam email password d
   in if \<exists>u. user = Some u \<and> isEmail w email \<and> u_verified u \<noteq> None \<and>
             bcrypt_compare (w_crypto w) password (if u_password u = [] then DUMMY_PASSWORD_HASH else u_password u)
      then (if refresh_row (hashToken (w_crypto w) raw) d = None then
              status r = 200 \<and> cookies r =
                [Set_cookie ''chess_access'' (signAccessToken w now (the user)) (cookieOptions w (Some 900000)),
                 Set_cookie ''chess_refresh'' raw (cookieOptions w (Some REFRESH_MAX_AGE_MS))] \<and>
              d' = d\<lparr>next_id := Suc (next_id d), refresh_tokens := refresh_tokens d @
                [\<lparr>rt_id = next_id d, rt_user = u_id (the user), rt_family = fam, rt_hash = hashToken (w_crypto w) raw,
                  rt_expires = now + REFRESH_MAX_AGE_MS, rt_consumed = None, rt_revoked = None, rt_replaced = None\<rparr>]\<rparr>
            else status r = 500 \<and> cookies r = [])
      else r = invalid_credentials \<and> d' = d"
proof (cases "List.find (\<lambda>u. u_email u = normalizeEmail w email) (users d)")
  case None
  then show ?thesis
    by (simp add: login_def try_reply_def findByEmail_def Let_def split_beta)
next
  case (Some u)
  have "u \<in> set (users d)"
    using find_Some_in [OF Some] by simp
  then have exists: "user_exists (d\<lparr>next_id := k\<rparr>) (u_id u)" for k
    by (simp add: user_exists_def)
  let ?ok = "isEmail w email \<and> u_verified u \<noteq> None \<and> validatePassword (w_crypto w) password (stored_hash (Some u))"
  have hash: "validatePassword (w_crypto w) password (stored_hash (Some u)) \<longleftrightarrow>
      bcrypt_compare (w_crypto w) password (if u_password u = [] then DUMMY_PASSWORD_HASH else u_password u)"
    by (simp add: validatePassword_def stored_hash_def)
  have row: "list_ex (\<lambda>t. rt_hash t = h) (refresh_tokens d) \<longleftrightarrow> refresh_row h d \<noteq> None" for h
    by (auto simp: list_ex_iff refresh_row_def find_None_iff)
  show ?thesis
  proof (cases ?ok)
    case False
    then show ?thesis
      using Some hash by (auto simp: login_def try_reply_def findByEmail_def Let_def)
  next
    case True
    then have l: "login w now raw fam email password d =
        try_reply (establishSession w now raw fam u (reply_of 200 (User_body (publicFields (user_star u)))))
          (reply_of 500 (Error ''Unable to sign in'')) d"
      using Some by (auto simp: login_def try_reply_def findByEmail_def Let_def)
    show ?thesis
    proof (cases "refresh_row (hashToken (w_crypto w) raw) d")
      case None
      then show ?thesis
        unfolding l using True Some hash exists row [of "hashToken (w_crypto w) raw"]
        by (simp add: establishSession_def issueRefreshToken_def insert_refresh_def try_reply_def qbind_def
            user_ref_def guard_q_def setAccessCookie_def setRefreshCookie_def reply_of_def ACCESS_COOKIE_def REFRESH_COOKIE_def Let_def)
    next
      case (Some t)
      then show ?thesis
        unfolding l using True \<open>List.find _ _ = Some u\<close> hash exists row [of "hashToken (w_crypto w) raw"]
        by (simp add: establishSession_def issueRefreshToken_def insert_refresh_def try_reply_def qbind_def
            user_ref_def guard_q_def reply_of_def Let_def)
    qed
  qed
qed

definition body_keys :: "body \<Rightarrow> string list" where
  "body_keys b = (case b of User_body u \<Rightarrow> map fst u | Json_body u \<Rightarrow> map fst u | _ \<Rightarrow> [])"

lemma pick_keys_subset: "set (map fst (pick_keys ks obj)) \<subseteq> set ks"
proof -
  have "fst ` set (List.map_filter (\<lambda>k. map_option (Pair k) (map_of obj k)) ks) \<subseteq> set ks"
    by (induction ks) (auto simp: List.map_filter_simps split: option.splits)
  then show ?thesis
    by (simp add: pick_keys_def)
qed

text \<open>A reply, and a query whose reply, shows public columns only.\<close>

definition public_reply :: "reply \<Rightarrow> bool" where
  "public_reply r \<longleftrightarrow> set (body_keys (body r)) \<subseteq> set PUBLIC_KEYS"

definition shows_public :: "reply query \<Rightarrow> bool" where
  "shows_public q \<longleftrightarrow> (\<forall>d r d'. q d = (Inr r, d') \<longrightarrow> public_reply r)"

lemma public_return: "public_reply r \<Longrightarrow> shows_public (qreturn r)"
  by (simp add: shows_public_def)

lemma public_bind: "(\<And>x d d'. q d = (Inr x, d') \<Longrightarrow> shows_public (f x)) \<Longrightarrow> shows_public (qbind q f)"
  unfolding shows_public_def by (blast elim: qbind_InrE)

lemma public_if: "shows_public q \<Longrightarrow> shows_public q' \<Longrightarrow> shows_public (if b then q else q')"
  by simp

lemma public_option: "(y = None \<Longrightarrow> shows_public q) \<Longrightarrow> (\<And>x. y = Some x \<Longrightarrow> shows_public (f x)) \<Longrightarrow>
    shows_public (case y of None \<Rightarrow> q | Some x \<Rightarrow> f x)"
  by (cases y) simp_all

lemma public_prod: "(\<And>a b. shows_public (f a b)) \<Longrightarrow> shows_public (case x of (a, b) \<Rightarrow> f a b)"
  by (cases x) simp

lemma public_try:
  assumes "shows_public q" "public_reply r"
  shows "public_reply (fst (try_reply q r d))"
  using assms unfolding try_reply_def shows_public_def by (cases "q d"; cases "fst (q d)") auto

lemma plain_bodies [simp]:
  "public_reply (reply_of s (Error e))" "public_reply (reply_of s (Message e))"
  "public_reply (reply_of s Empty_body)" "public_reply (r\<lparr>mails := ms\<rparr>) = public_reply r"
  "public_reply (clearAuthCookies w r) = public_reply r"
  "public_reply (setAccessCookie w t r) = public_reply r"
  "public_reply (setRefreshCookie w t r) = public_reply r"
  "public_reply auth_required" "public_reply invalid_credentials" "public_reply validationFailure"
  by (simp_all add: public_reply_def body_keys_def reply_of_def clearAuthCookies_def setAccessCookie_def setRefreshCookie_def
      auth_required_def invalid_credentials_def validationFailure_def)

lemma public_bodies [simp]:
  "public_reply (reply_of s (User_body (publicFields x)))"
  "public_reply (reply_of s (User_body (profile_columns u)))"
  "public_reply (reply_of s (Json_body (profile_columns u)))"
  using pick_keys_subset [of PUBLIC_KEYS]
  by (simp_all add: public_reply_def body_keys_def reply_of_def publicFields_def profile_columns_def)

lemmas public_rules = public_bind public_if public_option public_prod public_return public_try

lemma updateProfile_row: "updateProfile i b d = (Inr (Some x), d') \<Longrightarrow> \<exists>u. x = profile_columns u"
  by (auto simp: updateProfile_def update_user_def split: if_splits)

text \<open>Every endpoint answers with public columns.\<close>

lemma auth_reply_public: "public_reply (fst (auth_reply w e d))"
proof (cases e)
  case (Register now raw u m p)
  then show ?thesis
    by (auto simp: register_def Let_def intro!: public_rules)
next
  case (Verify now t)
  then show ?thesis
    by (auto simp: verify_email_def intro!: public_rules)
next
  case (Resend now raw m)
  then show ?thesis
    by (auto simp: resend_verification_def Let_def intro!: public_rules)
next
  case (Login now raw f m p)
  then show ?thesis
    by (auto simp: login_def Let_def establishSession_def intro!: public_rules)
next
  case (Refresh now n c)
  then show ?thesis
    by (auto simp: refresh_def intro!: public_rules split: option.split)
next
  case (Logout now a)
  then show ?thesis
    by (auto simp: logout_def authMiddleware_def intro!: public_rules split: option.split)
next
  case (Forgot now raw m)
  then show ?thesis
    by (auto simp: forgot_password_def Let_def intro!: public_rules)
next
  case (Reset now t p)
  then show ?thesis
    by (auto simp: reset_password_def intro!: public_rules)
next
  case (Profile now a)
  then show ?thesis
    by (auto simp: profile_def authMiddleware_def user_findById_def intro!: public_rules split: option.split)
next
  case (Patch_profile now a fs)
  then show ?thesis
    by (auto simp: patch_profile_def authMiddleware_def intro!: public_rules dest!: updateProfile_row
        split: option.split js_value.split)
qed


end
