(* ===== verification/Friends.thy ===== *)
theory Friends
  imports AuthRoutes
begin

text \<open>
  Friendships (models/Friendship.js, routes/friends.js, table 004_friends.sql). The two queries
  of a request are not in one transaction; they are separate definitions so that their
  interleaving can be stated.
\<close>

section \<open>The model\<close>

datatype friend_reply = F_error string | F_row friend_row | F_declined

definition same_pair :: "nat \<Rightarrow> nat \<Rightarrow> friend_row \<Rightarrow> bool" where
  "same_pair a b f \<longleftrightarrow> (f_requester f = a \<and> f_addressee f = b) \<or> (f_requester f = b \<and> f_addressee f = a)"

text \<open>The checks of a request: the addressee's id, or the refusal.\<close>

definition request_check :: "nat \<Rightarrow> string \<Rightarrow> (string, nat) result query" where
  "request_check requesterId addresseeUsername =
     qbind (qget (\<lambda>d. List.find (\<lambda>u. u_username u = addresseeUsername) (users d))) (\<lambda>u.
     case u of
       None \<Rightarrow> qreturn (Inl ''User not found'')
     | Some u \<Rightarrow>
         if u_id u = requesterId then qreturn (Inl ''Can't add yourself'')
         else
           qbind (qget (\<lambda>d. List.find (same_pair requesterId (u_id u)) (friendships d))) (\<lambda>existing.
           case existing of
             Some f \<Rightarrow> qreturn (Inl (if f_accepted f then ''Already friends'' else ''Request already pending''))
           | None \<Rightarrow> qreturn (Inr (u_id u))))"

text \<open>The INSERT: different users that exist, one row for each ordered pair.\<close>

definition request_insert :: "int \<Rightarrow> nat \<Rightarrow> nat \<Rightarrow> friend_row query" where
  "request_insert now requesterId addresseeId =
     qbind fresh (\<lambda>i.
     qbind (user_ref (Some requesterId)) (\<lambda>_.
     qbind (user_ref (Some addresseeId)) (\<lambda>_.
     qbind (guard_q (requesterId \<noteq> addresseeId) Check_violation) (\<lambda>_.
     qbind (qget friendships) (\<lambda>fs.
     qbind (guard_q (\<not> list_ex (\<lambda>f. f_requester f = requesterId \<and> f_addressee f = addresseeId) fs) Unique_violation) (\<lambda>_.
       let f = \<lparr>f_id = i, f_requester = requesterId, f_addressee = addresseeId, f_accepted = False, f_created = now\<rparr> in
       qbind (qput (\<lambda>d. d\<lparr>friendships := friendships d @ [f]\<rparr>)) (\<lambda>_. qreturn f)))))))"

definition sendRequest :: "int \<Rightarrow> nat \<Rightarrow> string \<Rightarrow> friend_reply query" where
  "sendRequest now requesterId addresseeUsername =
     qbind (request_check requesterId addresseeUsername) (\<lambda>c.
     case c of
       Inl e \<Rightarrow> qreturn (F_error e)
     | Inr a \<Rightarrow> qbind (request_insert now requesterId a) (\<lambda>f. qreturn (F_row f)))"

definition other_side :: "nat \<Rightarrow> friend_row \<Rightarrow> nat" where
  "other_side userId f = (if f_requester f = userId then f_addressee f else f_requester f)"

definition friend_columns :: "friend_row \<Rightarrow> user_row \<Rightarrow> js_object" where
  "friend_columns f u = (''friendship_id'', JInt (int (f_id f))) #
     pick_keys [''id'', ''username'', ''avatar_url'', ''elo_rating''] (user_star u)"

text \<open>ORDER BY username: the order of strings by code unit.\<close>

definition name_le :: "string \<Rightarrow> string \<Rightarrow> bool" where
  "name_le a b \<longleftrightarrow> ord_class.lexordp_eq (map of_char a :: nat list) (map of_char b)"

fun insert_by :: "('a \<Rightarrow> 'a \<Rightarrow> bool) \<Rightarrow> 'a \<Rightarrow> 'a list \<Rightarrow> 'a list" where
  "insert_by le x [] = [x]"
| "insert_by le x (y # ys) = (if le x y then x # y # ys else y # insert_by le x ys)"

definition order_by :: "('a \<Rightarrow> 'a \<Rightarrow> bool) \<Rightarrow> 'a list \<Rightarrow> 'a list" where
  "order_by le xs = foldr (insert_by le) xs []"

definition listFriends :: "nat \<Rightarrow> js_object list query" where
  "listFriends userId = qget (\<lambda>d.
     map (\<lambda>(f, u). friend_columns f u)
       (order_by (\<lambda>x y. name_le (u_username (snd x)) (u_username (snd y)))
         (List.map_filter (\<lambda>f. map_option (Pair f) (find_user (other_side userId f) d))
           (filter (\<lambda>f. f_accepted f \<and> (f_requester f = userId \<or> f_addressee f = userId)) (friendships d)))))"

definition listIncomingRequests :: "nat \<Rightarrow> js_object list query" where
  "listIncomingRequests userId = qget (\<lambda>d.
     map (\<lambda>(f, u). friend_columns f u @ [(''created_at'', JInt (f_created f))])
       (List.map_filter (\<lambda>f. map_option (Pair f) (find_user (f_requester f) d))
         (rev (sort_key f_created (filter (\<lambda>f. \<not> f_accepted f \<and> f_addressee f = userId) (friendships d))))))"

definition respond :: "nat \<Rightarrow> nat \<Rightarrow> bool \<Rightarrow> friend_reply query" where
  "respond friendshipId userId accept =
     qbind (qget (\<lambda>d. List.find (\<lambda>f. f_id f = friendshipId \<and> f_addressee f = userId) (friendships d))) (\<lambda>check.
     case check of
       None \<Rightarrow> qreturn (F_error ''Request not found'')
     | Some f \<Rightarrow>
         if accept then
           qbind (qput (\<lambda>d. d\<lparr>friendships := update_where (\<lambda>f. f_id f = friendshipId) (\<lambda>f. f\<lparr>f_accepted := True\<rparr>) (friendships d)\<rparr>)) (\<lambda>_.
           qreturn (F_row (f\<lparr>f_accepted := True\<rparr>)))
         else
           qbind (qput (\<lambda>d. d\<lparr>friendships := filter (\<lambda>f. f_id f \<noteq> friendshipId) (friendships d)\<rparr>)) (\<lambda>_. qreturn F_declined))"

definition friend_remove :: "nat \<Rightarrow> nat \<Rightarrow> bool query" where
  "friend_remove friendshipId userId =
     (let own = (\<lambda>f. f_id f = friendshipId \<and> (f_requester f = userId \<or> f_addressee f = userId)) in
      qbind (qget (\<lambda>d. filter own (friendships d))) (\<lambda>rows.
      qbind (qput (\<lambda>d. d\<lparr>friendships := filter (\<lambda>f. \<not> own f) (friendships d)\<rparr>)) (\<lambda>_. qreturn (rows \<noteq> []))))"

section \<open>Endpoints\<close>

definition friend_object :: "friend_row \<Rightarrow> js_object" where
  "friend_object f =
     [(''id'', JInt (int (f_id f))), (''requester_id'', JInt (int (f_requester f))), (''addressee_id'', JInt (int (f_addressee f))),
      (''status'', JStr (if f_accepted f then ''accepted'' else ''pending'')), (''created_at'', JInt (f_created f))]"

definition get_friends :: "web \<Rightarrow> int \<Rightarrow> string option \<Rightarrow> db \<Rightarrow> reply \<times> db" where
  "get_friends w now token = authMiddleware w now token (\<lambda>p.
     try_reply (qbind (listFriends (p_id p)) (\<lambda>rows. qreturn (reply_of 200 (Rows_body ''friends'' rows))))
       (reply_of 500 (Error ''Failed to fetch friends'')))"

definition get_requests :: "web \<Rightarrow> int \<Rightarrow> string option \<Rightarrow> db \<Rightarrow> reply \<times> db" where
  "get_requests w now token = authMiddleware w now token (\<lambda>p.
     try_reply (qbind (listIncomingRequests (p_id p)) (\<lambda>rows. qreturn (reply_of 200 (Rows_body ''requests'' rows))))
       (reply_of 500 (Error ''Failed to fetch requests'')))"

definition post_request :: "web \<Rightarrow> int \<Rightarrow> string option \<Rightarrow> string \<Rightarrow> db \<Rightarrow> reply \<times> db" where
  "post_request w now token username = authMiddleware w now token (\<lambda>p d.
     if trim username = [] then (validationFailure, d)
     else try_reply
       (qbind (sendRequest now (p_id p) (trim username)) (\<lambda>r.
        case r of
          F_error e \<Rightarrow> qreturn (reply_of 400 (Error e))
        | F_row f \<Rightarrow> qreturn (reply_of 201 (Json_body (friend_object f)))
        | F_declined \<Rightarrow> qreturn (reply_of 201 Empty_body)))
       (reply_of 500 (Error ''Failed to send request'')) d)"

definition post_accept :: "web \<Rightarrow> int \<Rightarrow> string option \<Rightarrow> nat \<Rightarrow> db \<Rightarrow> reply \<times> db" where
  "post_accept w now token i = authMiddleware w now token (\<lambda>p. try_reply
     (qbind (respond i (p_id p) True) (\<lambda>r.
      case r of
        F_error e \<Rightarrow> qreturn (reply_of 404 (Error e))
      | F_row f \<Rightarrow> qreturn (reply_of 200 (Json_body (friend_object f)))
      | F_declined \<Rightarrow> qreturn (reply_of 200 Empty_body)))
     (reply_of 500 (Error ''Failed to accept request'')))"

definition post_decline :: "web \<Rightarrow> int \<Rightarrow> string option \<Rightarrow> nat \<Rightarrow> db \<Rightarrow> reply \<times> db" where
  "post_decline w now token i = authMiddleware w now token (\<lambda>p. try_reply
     (qbind (respond i (p_id p) False) (\<lambda>r.
      case r of
        F_error e \<Rightarrow> qreturn (reply_of 404 (Error e))
      | _ \<Rightarrow> qreturn (reply_of 200 (Flag_body ''declined'' True))))
     (reply_of 500 (Error ''Failed to decline request'')))"

definition delete_friend :: "web \<Rightarrow> int \<Rightarrow> string option \<Rightarrow> nat \<Rightarrow> db \<Rightarrow> reply \<times> db" where
  "delete_friend w now token i = authMiddleware w now token (\<lambda>p. try_reply
     (qbind (friend_remove i (p_id p)) (\<lambda>ok.
        if \<not> ok then qreturn (reply_of 404 (Error ''Friendship not found''))
        else qreturn (reply_of 200 (Flag_body ''removed'' True))))
     (reply_of 500 (Error ''Failed to remove friend'')))"

section \<open>The table as a machine\<close>

datatype friend_event =
    F_list int "string option"
  | F_incoming int "string option"
  | F_request int "string option" string
  | F_accept int "string option" nat
  | F_decline int "string option" nat
  | F_delete int "string option" nat

fun friend_step :: "web \<Rightarrow> db \<Rightarrow> friend_event \<Rightarrow> db" where
  "friend_step w d (F_list now a) = snd (get_friends w now a d)"
| "friend_step w d (F_incoming now a) = snd (get_requests w now a d)"
| "friend_step w d (F_request now a n) = snd (post_request w now a n d)"
| "friend_step w d (F_accept now a i) = snd (post_accept w now a i d)"
| "friend_step w d (F_decline now a i) = snd (post_decline w now a i d)"
| "friend_step w d (F_delete now a i) = snd (delete_friend w now a i d)"

text \<open>At most one row for two users in either direction, none with oneself, ids not reused.\<close>

definition pair_of :: "friend_row \<Rightarrow> nat set" where
  "pair_of f = {f_requester f, f_addressee f}"

definition friends_inv :: "db \<Rightarrow> bool" where
  "friends_inv d \<longleftrightarrow> distinct (map pair_of (friendships d)) \<and> distinct (map f_id (friendships d)) \<and>
     (\<forall>f \<in> set (friendships d). f_requester f \<noteq> f_addressee f \<and> f_id f < next_id d)"

lemma same_pair_iff: "a \<noteq> b \<Longrightarrow> same_pair a b f \<longleftrightarrow> pair_of f = {a, b}"
  by (auto simp: same_pair_def pair_of_def doubleton_eq_iff)

lemma preserves_friend_reply [preserve]:
  "(\<And>e. preserves P (a e)) \<Longrightarrow> (\<And>f. preserves P (b f)) \<Longrightarrow> preserves P c \<Longrightarrow>
   preserves P (case r of F_error e \<Rightarrow> a e | F_row f \<Rightarrow> b f | F_declined \<Rightarrow> c)"
  by (cases r) simp_all

lemma friends_filter: "friends_inv d \<Longrightarrow> friends_inv (d\<lparr>friendships := filter Q (friendships d)\<rparr>)"
  by (simp add: friends_inv_def distinct_map_filter)

lemma friends_accept: "friends_inv d \<Longrightarrow> friends_inv (d\<lparr>friendships := update_where Q (\<lambda>f. f\<lparr>f_accepted := True\<rparr>) (friendships d)\<rparr>)"
  by (auto simp: friends_inv_def pair_of_def map_update_where_same set_update_where simp del: if_image_distrib)

lemma request_check_Inr:
  "request_check r n d = (Inr (Inr a), d') \<Longrightarrow> d' = d \<and> r \<noteq> a \<and> (\<forall>f \<in> set (friendships d). pair_of f \<noteq> {r, a})"
  by (auto simp: request_check_def find_None_all same_pair_iff split: option.splits if_splits)

lemma request_check_total: "\<exists>c. request_check r n d = (Inr c, d)"
proof (cases "List.find (\<lambda>u. u_username u = n) (users d)")
  case (Some u)
  then show ?thesis
    by (cases "u_id u = r"; cases "List.find (same_pair r (u_id u)) (friendships d)") (simp_all add: request_check_def)
qed (simp add: request_check_def)

lemma request_insert_effect:
  "(\<exists>e. request_insert now r a d = (Inl e, d\<lparr>next_id := Suc (next_id d)\<rparr>)) \<or>
   (\<exists>f. f_id f = next_id d \<and> f_requester f = r \<and> f_addressee f = a \<and> \<not> f_accepted f \<and> r \<noteq> a \<and>
      request_insert now r a d = (Inr f, d\<lparr>next_id := Suc (next_id d), friendships := friendships d @ [f]\<rparr>))"
  by (auto simp: request_insert_def qbind_def user_ref_def guard_q_def Let_def)

lemma friends_add:
  assumes "friends_inv d" "f_id f = next_id d" "f_requester f \<noteq> f_addressee f"
    and "\<forall>x \<in> set (friendships d). pair_of x \<noteq> pair_of f"
  shows "friends_inv (d\<lparr>next_id := Suc (next_id d), friendships := friendships d @ [f]\<rparr>)"
  using assms by (fastforce simp: friends_inv_def)

lemma friends_next_id: "friends_inv d \<Longrightarrow> friends_inv (d\<lparr>next_id := Suc (next_id d)\<rparr>)"
  by (fastforce simp: friends_inv_def)

lemma friends_sendRequest: "preserves friends_inv (sendRequest now r n)"
proof -
  have "friends_inv (snd (sendRequest now r n d))" if inv: "friends_inv d" for d
  proof (cases "\<exists>a. request_check r n d = (Inr (Inr a), d)")
    case True
    then obtain a where a: "request_check r n d = (Inr (Inr a), d)"
      by blast
    note free = request_check_Inr [OF a]
    show ?thesis
      using request_insert_effect [of now r a d]
    proof (elim disjE exE conjE)
      fix e
      assume "request_insert now r a d = (Inl e, d\<lparr>next_id := Suc (next_id d)\<rparr>)"
      then show ?thesis
        using a friends_next_id [OF inv] by (simp add: sendRequest_def)
    next
      fix f
      assume f: "f_id f = next_id d" "f_requester f = r" "f_addressee f = a" "r \<noteq> a"
        "request_insert now r a d = (Inr f, d\<lparr>next_id := Suc (next_id d), friendships := friendships d @ [f]\<rparr>)"
      then have "friends_inv (d\<lparr>next_id := Suc (next_id d), friendships := friendships d @ [f]\<rparr>)"
        using free by (intro friends_add [OF inv]) (auto simp: pair_of_def)
      then show ?thesis
        using a f(5) by (simp add: sendRequest_def)
    qed
  next
    case False
    obtain c where "request_check r n d = (Inr c, d)"
      using request_check_total by blast
    then show ?thesis
      using False inv by (cases c) (simp_all add: sendRequest_def)
  qed
  then show ?thesis by (simp add: preserves_def)
qed

lemma friends_respond: "preserves friends_inv (respond i u b)"
  unfolding respond_def by (intro preserve preserves_qput friends_accept friends_filter)

lemma friends_remove: "preserves friends_inv (friend_remove i u)"
  unfolding friend_remove_def Let_def by (intro preserve preserves_qput friends_filter)

lemma step_friends_inv: "friends_inv d \<Longrightarrow> friends_inv (friend_step w d e)"
proof (cases e)
  assume inv: "friends_inv d"
  show ?thesis if "e = F_request now a n" for now a n
    unfolding that friend_step.simps post_request_def
    by (rule middleware_preserves, rule inv, rule reply_if, rule inv, rule try_preserves, intro preserve friends_sendRequest, rule inv)
  show ?thesis if "e = F_accept now a i" for now a i
    unfolding that friend_step.simps post_accept_def
    by (rule middleware_preserves, rule inv, rule try_preserves, intro preserve friends_respond, rule inv)
  show ?thesis if "e = F_decline now a i" for now a i
    unfolding that friend_step.simps post_decline_def
    by (rule middleware_preserves, rule inv, rule try_preserves, intro preserve friends_respond, rule inv)
  show ?thesis if "e = F_delete now a i" for now a i
    unfolding that friend_step.simps delete_friend_def
    by (rule middleware_preserves, rule inv, rule try_preserves, intro preserve friends_remove, rule inv)
  show ?thesis if "e = F_list now a" for now a
    unfolding that friend_step.simps get_friends_def listFriends_def
    by (rule middleware_preserves, rule inv, rule try_preserves, intro preserve, rule inv)
  show ?thesis if "e = F_incoming now a" for now a
    unfolding that friend_step.simps get_requests_def listIncomingRequests_def
    by (rule middleware_preserves, rule inv, rule try_preserves, intro preserve, rule inv)
qed

interpretation friend_table: invariant_machine "friend_step w" friends_inv for w
  by unfold_locales (rule step_friends_inv)

section \<open>Properties\<close>

lemma no_friends_inv: "friends_inv (d\<lparr>friendships := []\<rparr>)"
  by (simp add: friends_inv_def)


text \<open>
  Two crossing requests whose checks both run before either INSERT both succeed: the unique
  constraint is on the ordered pair, so the two users end up with two rows.
\<close>

lemma crossing_requests:
  assumes "a \<noteq> b" "user_exists d a" "user_exists d b" "\<forall>f \<in> set (friendships d). pair_of f \<noteq> {a, b}"
  shows "\<exists>f g d1 d2. request_insert t1 a b d = (Inr f, d1) \<and> request_insert t2 b a d1 = (Inr g, d2) \<and>
     f \<in> set (friendships d2) \<and> g \<in> set (friendships d2) \<and> f \<noteq> g \<and> pair_of f = pair_of g"
  using assms
  by (auto simp: request_insert_def qbind_def user_ref_def guard_q_def Let_def user_exists_def pair_of_def list_ex_iff
      doubleton_eq_iff)

end
