(* ===== verification/PublicRoutes.thy ===== *)
theory PublicRoutes
  imports AuthRoutes GameDB Tournament "HOL-Library.Product_Lexorder"
begin

text \<open>
  The statistics queries of models/Score.js and the endpoints over games, scores and tournaments:
  routes/leaderboard.js, routes/game.js and routes/tournaments.js. Ids in paths are the numbers
  PostgreSQL reads from them. A reply is its HTTP status and a value.
\<close>

section \<open>Statistics\<close>

text \<open>The sort key of a score: fewer moves first, then the shorter game (lexicographic order).\<close>

definition score_key :: "score_row \<Rightarrow> nat \<times> int" where
  "score_key s = (s_count s, s_duration s)"

text \<open>\<open>RANK() OVER (ORDER BY moves, duration_seconds)\<close>: one more than the rows strictly before.\<close>

definition rank_in :: "score_row list \<Rightarrow> score_row \<Rightarrow> nat" where
  "rank_in rows s = 1 + length (filter (\<lambda>x. score_key x < score_key s) rows)"

definition getTopScores :: "nat \<Rightarrow> (score_row \<times> nat) list query" where
  "getTopScores limit = qget (\<lambda>d.
     let won = filter s_winner (scores d) in
     take limit (map (\<lambda>s. (s, rank_in won s)) (sort_key score_key won)))"

record user_stats =
  total_games :: nat
  wins :: nat
  losses :: nat
  best_moves :: "nat option"
  best_time :: "int option"
  win_rate_tenths :: "nat option"

definition min_of :: "'a :: linorder list \<Rightarrow> 'a option" where
  "min_of xs = (case xs of [] \<Rightarrow> None | x # ys \<Rightarrow> Some (foldr min ys x))"

text \<open>\<open>ROUND(wins / NULLIF(total, 0) * 100, 1)\<close> in tenths of a percent, halves away from zero.\<close>

definition win_rate :: "nat \<Rightarrow> nat \<Rightarrow> nat option" where
  "win_rate won played = (if played = 0 then None else Some ((2 * won * 1000 + played) div (2 * played)))"

definition getUserStats :: "nat \<Rightarrow> user_stats query" where
  "getUserStats userId = qget (\<lambda>d.
     let own = filter (\<lambda>s. s_user s = Some userId) (scores d);
         won = filter s_winner own in
     \<lparr>total_games = length own, wins = length won, losses = length (filter (\<lambda>s. \<not> s_winner s) own),
      best_moves = min_of (map s_count won), best_time = min_of (map s_duration won),
      win_rate_tenths = win_rate (length won) (length own)\<rparr>)"

definition getUserHistory :: "nat \<Rightarrow> nat \<Rightarrow> score_row list query" where
  "getUserHistory userId limit = qget (\<lambda>d.
     take limit (sort_key (\<lambda>s. - s_played s) (filter (\<lambda>s. s_user s = Some userId) (scores d))))"

lemma user_stats_add_up: "total_games (projr (fst (getUserStats u d))) =
    wins (projr (fst (getUserStats u d))) + losses (projr (fst (getUserStats u d)))"
proof -
  have "length ss = length (filter s_winner ss) + length (filter (\<lambda>s. \<not> s_winner s) ss)" for ss
    by (simp add: sum_length_filter_compl)
  then show ?thesis
    unfolding getUserStats_def Let_def by (simp del: filter_filter)
qed

lemma win_rate_bound: "w \<le> n \<Longrightarrow> win_rate w n = Some r \<Longrightarrow> r \<le> 1000"
proof -
  assume w: "w \<le> n" and r: "win_rate w n = Some r"
  then have n: "n \<noteq> 0" "r = (2 * w * 1000 + n) div (2 * n)"
    by (auto simp: win_rate_def split: if_splits)
  have "2 * w * 1000 + n < 1001 * (2 * n)"
    using w n(1) by linarith
  then have "(2 * w * 1000 + n) div (2 * n) < 1001"
    using n(1) by (simp add: div_less_iff_less_mult)
  then show ?thesis
    using n(2) by simp
qed

section \<open>Query parameters\<close>

text \<open>\<open>Number.parseInt(s, 10)\<close>: an optional sign and the digits at the start; None is NaN.\<close>

definition parseInt :: "string \<Rightarrow> int option" where
  "parseInt s =
     (let t = dropWhile is_space s;
          (neg, r) = (case t of c # cs \<Rightarrow> if c = CHR ''-'' then (True, cs) else if c = CHR ''+'' then (False, cs) else (False, t)
                       | [] \<Rightarrow> (False, []));
          ds = takeWhile is_digit r
      in if ds = [] then None
         else case nat_of_digits 0 ds of None \<Rightarrow> None | Some n \<Rightarrow> Some (if neg then - int n else int n))"

definition page_limit :: "string option \<Rightarrow> nat" where
  "page_limit q =
     (let n = (case q of None \<Rightarrow> None | Some s \<Rightarrow> parseInt s);
          v = (case n of None \<Rightarrow> 10 | Some i \<Rightarrow> if i = 0 then 10 else i)
      in nat (min (max v 1) 50))"

lemma page_limit_bounds: "1 \<le> page_limit q \<and> page_limit q \<le> 50"
  unfolding page_limit_def Let_def by linarith

section \<open>Leaderboard endpoints\<close>

datatype 'a page = Page 'a | Failure string

type_synonym 'a endpoint = "db \<Rightarrow> (nat \<times> 'a page) \<times> db"

definition serve :: "'a query \<Rightarrow> string \<Rightarrow> 'a endpoint" where
  "serve q failure d = (case q d of (Inl _, d') \<Rightarrow> ((500, Failure failure), d') | (Inr x, d') \<Rightarrow> ((200, Page x), d'))"

definition guarded :: "web \<Rightarrow> int \<Rightarrow> string option \<Rightarrow> (payload \<Rightarrow> 'a endpoint) \<Rightarrow> 'a endpoint" where
  "guarded w now token next d =
     (case authenticate w now token d of
        None \<Rightarrow> ((401, Failure ''Authentication required''), d) | Some p \<Rightarrow> next p d)"

definition leaderboard :: "string option \<Rightarrow> (score_row \<times> nat) list endpoint" where
  "leaderboard limit = serve (getTopScores (page_limit limit)) ''Failed to fetch leaderboard''"

definition leaderboard_elo :: "string option \<Rightarrow> js_object list endpoint" where
  "leaderboard_elo limit = serve (getTopByElo (page_limit limit)) ''Failed to fetch ELO leaderboard''"

definition leaderboard_save :: "web \<Rightarrow> int \<Rightarrow> string option \<Rightarrow> unit endpoint" where
  "leaderboard_save w now token =
     guarded w now token (\<lambda>_ d. ((410, Failure ''Client-reported game results are not accepted''), d))"

definition leaderboard_me :: "web \<Rightarrow> int \<Rightarrow> string option \<Rightarrow> user_stats endpoint" where
  "leaderboard_me w now token = guarded w now token (\<lambda>p. serve (getUserStats (p_id p)) ''Failed to fetch stats'')"

definition leaderboard_history :: "web \<Rightarrow> int \<Rightarrow> string option \<Rightarrow> string option \<Rightarrow> score_row list endpoint" where
  "leaderboard_history w now token limit =
     guarded w now token (\<lambda>p. serve (getUserHistory (p_id p) (page_limit limit)) ''Failed to fetch history'')"

definition leaderboard_achievements ::
  "web \<Rightarrow> int \<Rightarrow> string option \<Rightarrow> (string \<times> string \<times> string \<times> int option) list endpoint" where
  "leaderboard_achievements w now token =
     guarded w now token (\<lambda>p. serve (getAllWithStatus (p_id p)) ''Failed to fetch achievements'')"

section \<open>Game endpoints\<close>

record game_stats =
  games_total :: nat
  players_total :: nat
  avg_moves :: "int option"
  record_moves :: "nat option"

text \<open>\<open>AVG(moves)::int\<close>: the mean, rounded to the nearest integer, NULL without rows.\<close>

definition avg_int :: "nat list \<Rightarrow> int option" where
  "avg_int xs = (if xs = [] then None else Some (int ((2 * sum_list xs + length xs) div (2 * length xs))))"

definition get_game_stats :: "game_stats endpoint" where
  "get_game_stats = serve (qget (\<lambda>d.
     \<lparr>games_total = length (scores d), players_total = length (remdups (List.map_filter s_user (scores d))),
      avg_moves = avg_int (map s_count (scores d)), record_moves = min_of (map s_count (filter s_winner (scores d)))\<rparr>))
     ''Failed to fetch stats''"

definition get_active :: "nat option \<Rightarrow> nat" where
  "get_active io_rooms = (case io_rooms of None \<Rightarrow> 0 | Some n \<Rightarrow> n)"

definition get_game :: "nat \<Rightarrow> game_row endpoint" where
  "get_game i d =
     (case game_findById i d of
        (Inl _, d') \<Rightarrow> ((500, Failure ''Failed to fetch game''), d')
      | (Inr None, d') \<Rightarrow> ((404, Failure ''Game not found''), d')
      | (Inr (Some g), d') \<Rightarrow> ((200, Page g), d'))"

definition get_game_moves :: "nat \<Rightarrow> (game_row \<times> move_row list) endpoint" where
  "get_game_moves i d =
     (case qbind (game_findById i) (\<lambda>g. qbind (case g of None \<Rightarrow> qreturn [] | Some _ \<Rightarrow> getByGameId i)
             (\<lambda>ms. qreturn (g, ms))) d of
        (Inl _, d') \<Rightarrow> ((500, Failure ''Failed to fetch moves''), d')
      | (Inr (None, _), d') \<Rightarrow> ((404, Failure ''Game not found''), d')
      | (Inr (Some g, ms), d') \<Rightarrow> ((200, Page (g, ms)), d'))"

section \<open>Tournament endpoints\<close>

text \<open>A tournament reply is an error for the client or the value of the operation.\<close>

definition serve_treply :: "treply query \<Rightarrow> string \<Rightarrow> treply endpoint" where
  "serve_treply q failure d =
     (case q d of
        (Inl _, d') \<Rightarrow> ((500, Failure failure), d')
      | (Inr (TError e), d') \<Rightarrow> ((400, Failure e), d')
      | (Inr r, d') \<Rightarrow> ((200, Page r), d'))"

definition tournaments_list :: "(tournament_row \<times> nat) list endpoint" where
  "tournaments_list = serve listOpen ''Failed to fetch tournaments''"

text \<open>\<open>isIn([4, 8, 16])\<close> on the number in the body.\<close>

definition tournaments_post :: "web \<Rightarrow> int \<Rightarrow> string option \<Rightarrow> string \<Rightarrow> nat \<Rightarrow> tournament_row endpoint" where
  "tournaments_post w now token name maxPlayers =
     guarded w now token (\<lambda>p d.
       if \<not> (isLength 3 80 (trim name) \<and> maxPlayers \<in> {4, 8, 16}) then ((400, Failure ''Invalid request''), d)
       else case tournament_create now (p_id p) (trim name) maxPlayers d of
           (Inl _, d') \<Rightarrow> ((500, Failure ''Failed to create tournament''), d')
         | (Inr t, d') \<Rightarrow> ((201, Page t), d'))"

definition tournaments_get :: "nat \<Rightarrow> (tournament_row \<times> user_row list \<times> match_row list) endpoint" where
  "tournaments_get i d =
     (case qbind (getById i) (\<lambda>t. qbind (getPlayers i) (\<lambda>ps. qbind (getMatches i) (\<lambda>ms. qreturn (t, ps, ms)))) d of
        (Inl _, d') \<Rightarrow> ((500, Failure ''Failed to fetch tournament''), d')
      | (Inr (None, _), d') \<Rightarrow> ((404, Failure ''Tournament not found''), d')
      | (Inr (Some t, ps, ms), d') \<Rightarrow> ((200, Page (t, ps, ms)), d'))"

definition tournaments_join :: "web \<Rightarrow> int \<Rightarrow> string option \<Rightarrow> nat \<Rightarrow> treply endpoint" where
  "tournaments_join w now token i =
     guarded w now token (\<lambda>p. serve_treply (tournament_join now i (p_id p)) ''Failed to join tournament'')"

definition tournaments_start ::
  "web \<Rightarrow> (nat \<Rightarrow> 53 word) \<Rightarrow> int \<Rightarrow> string option \<Rightarrow> nat \<Rightarrow> treply endpoint" where
  "tournaments_start w rnd now token i =
     guarded w now token (\<lambda>p. serve_treply (tournament_start rnd now i (p_id p)) ''Failed to start tournament'')"

text \<open>The winner of the body when it is an integer.\<close>

definition tournaments_report :: "web \<Rightarrow> int \<Rightarrow> string option \<Rightarrow> nat \<Rightarrow> int option \<Rightarrow> treply endpoint" where
  "tournaments_report w now token matchId winnerId =
     guarded w now token (\<lambda>p d.
       case winnerId of
         None \<Rightarrow> ((400, Failure ''Invalid request''), d)
       | Some x \<Rightarrow> serve_treply (reportResult now matchId (p_id p) x) ''Failed to report result'' d)"

section \<open>What the pages keep\<close>

text \<open>Reading changes nothing.\<close>

lemma serve_qget [simp]: "serve (qget f) m d = ((200, Page (f d)), d)"
  by (simp add: serve_def)

lemma leaderboard_reads:
  "snd (leaderboard l d) = d" "snd (leaderboard_elo l d) = d" "snd (get_game_stats d) = d" "snd (tournaments_list d) = d"
  by (simp_all add: leaderboard_def getTopScores_def leaderboard_elo_def getTopByElo_def get_game_stats_def
      tournaments_list_def listOpen_def)

text \<open>The size of every page is bounded by the clamped limit.\<close>

lemma leaderboard_size: "leaderboard l d = ((s, Page rows), d') \<Longrightarrow> length rows \<le> 50"
  using page_limit_bounds [of l] by (auto simp: leaderboard_def getTopScores_def Let_def)

text \<open>The leaderboard is ordered by its ranks.\<close>

lemma rank_mono: "score_key a \<le> score_key b \<Longrightarrow> rank_in rows a \<le> rank_in rows b"
  by (induction rows) (auto simp: rank_in_def)

lemma leaderboard_ranked:
  assumes "leaderboard l d = ((s, Page rows), d')"
  shows "sorted (map snd rows)"
proof -
  let ?won = "filter s_winner (scores d)"
  have "rows = take (page_limit l) (map (\<lambda>s. (s, rank_in ?won s)) (sort_key score_key ?won))"
    using assms by (auto simp: leaderboard_def getTopScores_def Let_def)
  then have "map snd rows = take (page_limit l) (map (rank_in ?won) (sort_key score_key ?won))"
    by (simp add: take_map comp_def)
  moreover have "sorted (map (rank_in ?won) (sort_key score_key ?won))"
  proof -
    have "sorted_wrt (\<lambda>x y. score_key x \<le> score_key y) (sort_key score_key ?won)"
      using sorted_sort_key [of score_key ?won] by (simp add: sorted_map)
    then show ?thesis
      unfolding sorted_map by (rule sorted_wrt_mono_rel [rotated]) (rule rank_mono)
  qed
  ultimately show ?thesis
    by (simp add: sorted_wrt_take)
qed

end
