(* ===== verification/Startup.thy ===== *)
theory Startup
  imports Prelude
begin

text \<open>
  The configuration the server starts with: config/security.js, the TLS settings of config/db.js,
  \<open>redisConfig\<close> of services/redis.js, and the origin check of middleware/originProtection.js.
  The environment is a partial map; the URL parser of the runtime is the parameter
  \<open>parse_url\<close>, which gives the protocol and the origin of a valid URL.
\<close>

section \<open>Environment values\<close>

type_synonym environment = "string \<Rightarrow> string option"

text \<open>The value of a variable when it is truthy.\<close>

definition env_value :: "environment \<Rightarrow> string \<Rightarrow> string option" where
  "env_value env k = (case env k of None \<Rightarrow> None | Some v \<Rightarrow> if v = [] then None else Some v)"

definition in_production :: "environment \<Rightarrow> bool" where
  "in_production env \<longleftrightarrow> env ''NODE_ENV'' = Some ''production''"

text \<open>
  \<open>Number(s)\<close> when it is an integer: blank text is 0, decimal literals with sign, fraction and
  exponent, and unsigned hexadecimal, octal and binary literals. None stands for NaN, infinity and
  fractions. Rounding of literals beyond 2 to the 53 is not modelled.
\<close>

fun digits_in_base :: "nat \<Rightarrow> string \<Rightarrow> nat \<Rightarrow> string \<Rightarrow> nat option" where
  "digits_in_base base alphabet acc [] = Some acc"
| "digits_in_base base alphabet acc (c # cs) =
     (case index_of alphabet (to_lower_char c) of
        Some i \<Rightarrow> if i < base then digits_in_base base alphabet (base * acc + i) cs else None
      | None \<Rightarrow> None)"

definition based_number :: "nat \<Rightarrow> string \<Rightarrow> int option" where
  "based_number base s = (if s = [] then None else map_option int (digits_in_base base ''0123456789abcdef'' 0 s))"

definition scale_number :: "nat \<Rightarrow> int \<Rightarrow> int option" where
  "scale_number m e =
     (if e \<ge> 0 then Some (int m * 10 ^ nat e)
      else if int m mod 10 ^ nat (- e) = 0 then Some (int m div 10 ^ nat (- e)) else None)"

definition signed :: "string \<Rightarrow> bool \<times> string" where
  "signed s = (case s of [] \<Rightarrow> (False, []) | c # cs \<Rightarrow>
     if c = CHR ''-'' then (True, cs) else if c = CHR ''+'' then (False, cs) else (False, s))"

definition exponent_of :: "string \<Rightarrow> int option" where
  "exponent_of s =
     (case s of
        [] \<Rightarrow> Some 0
      | c # cs \<Rightarrow>
          if c = CHR ''e'' \<or> c = CHR ''E'' then
            (let (neg, ds) = signed cs in
             if ds = [] then None else map_option (\<lambda>n. if neg then - int n else int n) (nat_of_digits 0 ds))
          else None)"

definition unsigned_decimal :: "string \<Rightarrow> int option" where
  "unsigned_decimal s =
     (let whole = takeWhile is_digit s; r = dropWhile is_digit s;
          (frac, r2) = (case r of c # cs \<Rightarrow> if c = CHR ''.'' then (takeWhile is_digit cs, dropWhile is_digit cs) else ([], r)
                        | [] \<Rightarrow> ([], []))
      in if whole @ frac = [] then None
         else case (nat_of_digits 0 (whole @ frac), exponent_of r2) of
             (Some m, Some e) \<Rightarrow> scale_number m (e - int (length frac))
           | _ \<Rightarrow> None)"

definition js_integer :: "string \<Rightarrow> int option" where
  "js_integer s0 =
     (let s = trim s0 in
      if s = [] then Some 0
      else if take 2 s = ''0x'' \<or> take 2 s = ''0X'' then based_number 16 (drop 2 s)
      else if take 2 s = ''0o'' \<or> take 2 s = ''0O'' then based_number 8 (drop 2 s)
      else if take 2 s = ''0b'' \<or> take 2 s = ''0B'' then based_number 2 (drop 2 s)
      else let (neg, r) = signed s in map_option (\<lambda>n. if neg then - n else n) (unsigned_decimal r))"

lemma js_integer_examples:
  "js_integer ''1'' = Some 1" "js_integer ''6379'' = Some 6379" "js_integer '' 2.0 '' = Some 2"
  "js_integer ''1.5'' = None" "js_integer ''-1'' = Some (- 1)" "js_integer ''1e1'' = Some 10" "js_integer ''0x1F'' = Some 31"
  "js_integer ''abc'' = None" "js_integer ''.'' = None"
  by code_simp+

section \<open>Security settings\<close>

definition PLACEHOLDER_SECRETS :: "string list" where
  "PLACEHOLDER_SECRETS = [''chess-secret-key'', ''chess-jwt-secret-CHANGE-ME-IN-PRODUCTION'']"

type_synonym 'a startup = "(string, 'a) result"

definition requireJwtSecret :: "environment \<Rightarrow> string startup" where
  "requireJwtSecret env =
     (case env_value env ''JWT_SECRET'' of
        Some secret \<Rightarrow>
          if secret \<in> set PLACEHOLDER_SECRETS \<or> length secret < 32
          then Inl ''FATAL: JWT_SECRET must be set to a unique secret of at least 32 characters; documented placeholder values are forbidden.''
          else Inr secret
      | None \<Rightarrow> Inl ''FATAL: JWT_SECRET must be set to a unique secret of at least 32 characters; documented placeholder values are forbidden.'')"

type_synonym url_parser = "string \<Rightarrow> (string \<times> string) option"

fun check_origins :: "url_parser \<Rightarrow> string list \<Rightarrow> unit startup" where
  "check_origins parse_url [] = Inr ()"
| "check_origins parse_url (o1 # os) =
     (case parse_url o1 of
        None \<Rightarrow> Inl ''Invalid URL''
      | Some (protocol, url_origin) \<Rightarrow>
          if protocol \<notin> {''http:'', ''https:''} \<or> url_origin \<noteq> o1 then Inl (''FATAL: Invalid CORS origin: '' @ o1)
          else check_origins parse_url os)"

definition allowedOrigins :: "url_parser \<Rightarrow> environment \<Rightarrow> string list startup" where
  "allowedOrigins parse_url env =
     (case (case env_value env ''FRONTEND_URLS'' of Some v \<Rightarrow> Some v | None \<Rightarrow> env_value env ''FRONTEND_URL'') of
        None \<Rightarrow>
          if in_production env then Inl ''FATAL: FRONTEND_URL or FRONTEND_URLS is required in production.''
          else Inr [''http://localhost:3000'']
      | Some raw \<Rightarrow>
          let origins = filter (\<lambda>v. v \<noteq> []) (map trim (split_on (CHR '','') raw)) in
          bind_result (check_origins parse_url origins) (\<lambda>_. Inr origins))"

definition trustProxyHops :: "environment \<Rightarrow> nat startup" where
  "trustProxyHops env =
     (let raw = (case env_value env ''TRUST_PROXY_HOPS'' of None \<Rightarrow> ''1'' | Some v \<Rightarrow> v) in
      case js_integer raw of
        Some hops \<Rightarrow> if hops < 0 \<or> hops > 9 then Inl (''FATAL: TRUST_PROXY_HOPS must be an integer 0-9 (got '' @ raw @ '').'')
                     else Inr (nat hops)
      | None \<Rightarrow> Inl (''FATAL: TRUST_PROXY_HOPS must be an integer 0-9 (got '' @ raw @ '').''))"

record configuration =
  jwtSecret :: string
  origins :: "string list"
  proxyHops :: nat

definition starts_with :: "string \<Rightarrow> string \<Rightarrow> bool" where
  "starts_with s p \<longleftrightarrow> take (length p) s = p"

definition missing_any :: "environment \<Rightarrow> string list \<Rightarrow> bool" where
  "missing_any env ks \<longleftrightarrow> list_ex (\<lambda>k. env_value env k = None) ks"

definition validateEnvironment :: "url_parser \<Rightarrow> environment \<Rightarrow> configuration startup" where
  "validateEnvironment parse_url env =
     bind_result (requireJwtSecret env) (\<lambda>secret.
     bind_result (allowedOrigins parse_url env) (\<lambda>os.
     bind_result (trustProxyHops env) (\<lambda>hops.
       if in_production env \<and> list_ex (\<lambda>u. \<not> starts_with u ''https://'') os
       then Inl ''FATAL: Production frontend origins must use HTTPS.''
       else if in_production env \<and> missing_any env [''SMTP_HOST'', ''EMAIL_FROM'']
       then Inl ''FATAL: SMTP_HOST and EMAIL_FROM are required in production for account verification and recovery.''
       else if in_production env \<and> missing_any env [''DB_HOST'', ''DB_NAME'', ''DB_USER'', ''DB_PASSWORD'']
       then Inl ''FATAL: DB_HOST, DB_NAME, DB_USER, and DB_PASSWORD are required in production.''
       else Inr \<lparr>jwtSecret = secret, origins = os, proxyHops = hops\<rparr>)))"

section \<open>Database and Redis\<close>

record ssl_options =
  ca :: string
  rejectUnauthorized :: bool

text \<open>Every backslash followed by n becomes a newline.\<close>

fun unescape_newlines :: "string \<Rightarrow> string" where
  "unescape_newlines (a # b # s) =
     (if a = CHR 92 \<and> b = CHR ''n'' then CHR 10 # unescape_newlines s else a # unescape_newlines (b # s))"
| "unescape_newlines s = s"

definition sslConfiguration :: "environment \<Rightarrow> ssl_options option startup" where
  "sslConfiguration env =
     (if env ''DB_SSL'' \<noteq> Some ''true'' then Inr None
      else case env_value env ''DB_SSL_CA'' of
          None \<Rightarrow> Inl ''FATAL: DB_SSL_CA is required when DB_SSL=true''
        | Some cert \<Rightarrow> Inr (Some \<lparr>ca = unescape_newlines cert, rejectUnauthorized = True\<rparr>))"

definition CONNECT_TIMEOUT_MS :: nat where "CONNECT_TIMEOUT_MS = 5000"
definition COMMAND_TIMEOUT_MS :: nat where "COMMAND_TIMEOUT_MS = 5000"
definition MAX_RETRIES_PER_REQUEST :: nat where "MAX_RETRIES_PER_REQUEST = 3"

record redis_settings =
  host :: string
  port :: nat
  username :: string
  password :: string
  tls :: bool
  connectTimeout :: nat
  commandTimeout :: nat
  maxRetriesPerRequest :: nat

datatype redis_config = Local_mode | Redis_mode redis_settings

definition required :: "environment \<Rightarrow> string \<Rightarrow> string \<Rightarrow> string startup" where
  "required env k failure = (case env_value env k of None \<Rightarrow> Inl failure | Some v \<Rightarrow> Inr v)"

definition redis_port :: "environment \<Rightarrow> nat startup" where
  "redis_port env =
     (case js_integer (case env_value env ''REDIS_PORT'' of None \<Rightarrow> ''6379'' | Some v \<Rightarrow> v) of
        None \<Rightarrow> Inl ''FATAL: REDIS_PORT must be a valid TCP port''
      | Some p \<Rightarrow> if p < 1 \<or> p > 65535 then Inl ''FATAL: REDIS_PORT must be a valid TCP port'' else Inr (nat p))"

definition redis_tls :: "environment \<Rightarrow> bool startup" where
  "redis_tls env =
     (let use_tls = to_lower (case env ''REDIS_TLS'' of None \<Rightarrow> ''true'' | Some v \<Rightarrow> v) \<noteq> ''false'' in
      if \<not> use_tls \<and> in_production env
      then Inl ''FATAL: plaintext Redis is forbidden in production (REDIS_TLS=false refused)''
      else Inr use_tls)"

definition redis_settings_of :: "environment \<Rightarrow> redis_settings startup" where
  "redis_settings_of env =
     bind_result (required env ''REDIS_HOST'' ''FATAL: REDIS_HOST is required when SOCKET_ADAPTER=redis'') (\<lambda>h.
     bind_result (redis_port env) (\<lambda>p.
     bind_result (redis_tls env) (\<lambda>use_tls.
     bind_result (required env ''REDIS_PASSWORD''
        ''FATAL: REDIS_PASSWORD is required when SOCKET_ADAPTER=redis (ESO chess-redis)'') (\<lambda>pw.
     Inr \<lparr>host = h, port = p, username = (case env_value env ''REDIS_USERNAME'' of None \<Rightarrow> ''default'' | Some u \<Rightarrow> u),
          password = pw, tls = use_tls, connectTimeout = CONNECT_TIMEOUT_MS, commandTimeout = COMMAND_TIMEOUT_MS,
          maxRetriesPerRequest = MAX_RETRIES_PER_REQUEST\<rparr>))))"

definition redisConfig :: "environment \<Rightarrow> redis_config startup" where
  "redisConfig env =
     (let mode = to_lower (case env_value env ''SOCKET_ADAPTER'' of None \<Rightarrow> ''local'' | Some v \<Rightarrow> v) in
      if mode \<noteq> ''local'' \<and> mode \<noteq> ''redis'' then Inl (''FATAL: SOCKET_ADAPTER must be local|redis (got '' @ mode @ '')'')
      else if mode = ''local'' then Inr Local_mode
      else bind_result (redis_settings_of env) (\<lambda>s. Inr (Redis_mode s)))"

text \<open>The summary for the log, and the options of a client with its reconnect delay.\<close>

record redis_summary =
  sum_host :: string
  sum_port :: nat
  sum_username :: string
  sum_tls :: bool
  authConfigured :: bool
  connectTimeoutMs :: nat
  commandTimeoutMs :: nat

definition describeConfig :: "redis_config \<Rightarrow> redis_summary option" where
  "describeConfig c =
     (case c of
        Local_mode \<Rightarrow> None
      | Redis_mode s \<Rightarrow> Some \<lparr>sum_host = host s, sum_port = port s, sum_username = username s, sum_tls = tls s,
          authConfigured = True, connectTimeoutMs = connectTimeout s, commandTimeoutMs = commandTimeout s\<rparr>)"

record client_options = redis_settings +
  enableReadyCheck :: bool
  lazyConnect :: bool
  keepAlive :: nat

definition buildOptions :: "redis_settings \<Rightarrow> client_options" where
  "buildOptions s =
     \<lparr>host = host s, port = port s, username = username s, password = password s, tls = tls s,
      connectTimeout = connectTimeout s, commandTimeout = commandTimeout s,
      maxRetriesPerRequest = maxRetriesPerRequest s, enableReadyCheck = True, lazyConnect = True, keepAlive = 10000\<rparr>"

definition retryStrategy :: "nat \<Rightarrow> nat" where
  "retryStrategy attempts = min (100 * attempts) 3000"

lemma retryStrategy_bounds: "retryStrategy n \<le> 3000" "m \<le> n \<Longrightarrow> retryStrategy m \<le> retryStrategy n"
  by (auto simp: retryStrategy_def)

lemma describeConfig_no_password: "describeConfig (Redis_mode (s\<lparr>password := p\<rparr>)) = describeConfig (Redis_mode s)"
  by (simp add: describeConfig_def)

section \<open>Origins of requests\<close>

definition SAFE_METHODS :: "string list" where
  "SAFE_METHODS = [''GET'', ''HEAD'', ''OPTIONS'']"

text \<open>
  Whether a request goes on: its method, its Origin, Sec-Fetch-Site and X-Chess-Client headers;
  otherwise the reply is 403.
\<close>

definition verifyRequestOrigin ::
  "string list \<Rightarrow> bool \<Rightarrow> string \<Rightarrow> string option \<Rightarrow> string option \<Rightarrow> string option \<Rightarrow> bool" where
  "verifyRequestOrigin allowed production method orig fetchSite client =
     (let origin_given = (case orig of None \<Rightarrow> False | Some v \<Rightarrow> v \<noteq> []);
          site_given = (case fetchSite of None \<Rightarrow> False | Some v \<Rightarrow> v \<noteq> []) in
      if method \<in> set SAFE_METHODS then True
      else if origin_given \<and> the orig \<in> set allowed \<and>
              (\<not> site_given \<or> fetchSite = Some ''same-origin'' \<or> fetchSite = Some ''same-site'') then True
      else if \<not> production \<and> \<not> origin_given \<and> client = Some ''trusted-test-client'' then True
      else False)"

section \<open>Properties\<close>

lemma requireJwtSecret_Inr:
  "requireJwtSecret env = Inr s \<Longrightarrow> env ''JWT_SECRET'' = Some s \<and> 32 \<le> length s \<and> s \<notin> set PLACEHOLDER_SECRETS"
  by (auto simp: requireJwtSecret_def env_value_def split: option.splits if_splits)

lemma check_origins_Inr:
  "check_origins parse_url os = Inr () \<Longrightarrow> u \<in> set os \<Longrightarrow> \<exists>p. parse_url u = Some (p, u) \<and> p \<in> {''http:'', ''https:''}"
  by (induction parse_url os rule: check_origins.induct) (auto split: option.splits if_splits)

lemma trustProxyHops_Inr: "trustProxyHops env = Inr n \<Longrightarrow> n \<le> 9"
  by (auto simp: trustProxyHops_def Let_def split: option.splits if_splits)

lemma validateEnvironment_Inr:
  assumes "validateEnvironment parse_url env = Inr c"
  shows "requireJwtSecret env = Inr (jwtSecret c)" "allowedOrigins parse_url env = Inr (origins c)"
    "trustProxyHops env = Inr (proxyHops c)"
    "in_production env \<Longrightarrow> list_all (\<lambda>u. starts_with u ''https://'') (origins c)"
    "in_production env \<Longrightarrow> \<not> missing_any env [''SMTP_HOST'', ''EMAIL_FROM'', ''DB_HOST'', ''DB_NAME'', ''DB_USER'', ''DB_PASSWORD'']"
  using assms
  by (auto simp: validateEnvironment_def bind_result_Inr_iff missing_any_def list_all_iff list_ex_iff split: if_splits)

lemma redis_parts:
  "redis_port env = Inr p \<Longrightarrow> 1 \<le> p \<and> p \<le> 65535"
  "redis_tls env = Inr b \<Longrightarrow> in_production env \<Longrightarrow> b"
  "required env k e = Inr v \<Longrightarrow> v \<noteq> []"
  by (auto simp: redis_port_def redis_tls_def required_def env_value_def Let_def split: option.splits if_splits)

lemma redisConfig_production:
  assumes "redisConfig env = Inr (Redis_mode s)"
  shows "(in_production env \<longrightarrow> tls s) \<and> 1 \<le> port s \<and> port s \<le> 65535 \<and> password s \<noteq> [] \<and> host s \<noteq> []"
proof -
  have "redis_settings_of env = Inr s"
    using assms unfolding redisConfig_def Let_def by (auto simp: bind_result_Inr_iff simp del: list.inject split: if_splits)
  then show ?thesis
    by (auto simp: redis_settings_of_def bind_result_Inr_iff dest: redis_parts)
qed

text \<open>
  A production server that starts is configured safely. When the environment is accepted
  with NODE_ENV=production, the token secret has at least 32 characters and is no placeholder,
  mail and database settings are present, Redis, if used, is encrypted and authenticated, and a
  state-changing request is let through only with an Origin header that is one of the configured
  https origins and never from another site.
\<close>

theorem production_is_strict:
  assumes "validateEnvironment parse_url env = Inr c" "redisConfig env = Inr rc" "env ''NODE_ENV'' = Some ''production''"
  shows "32 \<le> length (jwtSecret c) \<and> jwtSecret c \<notin> set PLACEHOLDER_SECRETS \<and> proxyHops c \<le> 9 \<and>
     list_all (\<lambda>k. env k \<noteq> None \<and> env k \<noteq> Some []) [''SMTP_HOST'', ''EMAIL_FROM'', ''DB_HOST'', ''DB_NAME'', ''DB_USER'', ''DB_PASSWORD''] \<and>
     (\<forall>s. rc = Redis_mode s \<longrightarrow> tls s \<and> password s \<noteq> []) \<and>
     (\<forall>m orig site client. m \<notin> {''GET'', ''HEAD'', ''OPTIONS''} \<and> verifyRequestOrigin (origins c) True m orig site client \<longrightarrow>
        (\<exists>u. orig = Some u \<and> u \<in> set (origins c) \<and> starts_with u ''https://'' \<and> site \<notin> {Some ''cross-site'', Some ''none''}))"
proof -
  have prod: "in_production env"
    using assms(3) by (simp add: in_production_def)
  note c = validateEnvironment_Inr [OF assms(1)]
  have "list_all (\<lambda>k. env k \<noteq> None \<and> env k \<noteq> Some []) [''SMTP_HOST'', ''EMAIL_FROM'', ''DB_HOST'', ''DB_NAME'', ''DB_USER'', ''DB_PASSWORD'']"
    using c(5) [OF prod] by (auto simp: missing_any_def env_value_def split: option.splits if_splits)
  moreover have "\<exists>u. orig = Some u \<and> u \<in> set (origins c) \<and> starts_with u ''https://'' \<and> site \<notin> {Some ''cross-site'', Some ''none''}"
    if "m \<notin> {''GET'', ''HEAD'', ''OPTIONS''}" "verifyRequestOrigin (origins c) True m orig site client" for m orig site client
    using that c(4) [OF prod]
    by (auto simp: verifyRequestOrigin_def SAFE_METHODS_def Let_def list_all_iff split: option.splits if_splits)
  moreover have "\<forall>s. rc = Redis_mode s \<longrightarrow> tls s \<and> password s \<noteq> []"
    using redisConfig_production assms(2) prod by blast
  ultimately show ?thesis
    using requireJwtSecret_Inr [OF c(1)] trustProxyHops_Inr [OF c(3)] by blast
qed

definition demo_env :: environment where
  "demo_env = map_of
     [(''NODE_ENV'', ''production''), (''JWT_SECRET'', ''0123456789abcdef0123456789abcdef''), (''FRONTEND_URL'', ''https://chess.example''),
      (''SMTP_HOST'', ''smtp''), (''EMAIL_FROM'', ''a@b''), (''DB_HOST'', ''h''), (''DB_NAME'', ''n''), (''DB_USER'', ''u''), (''DB_PASSWORD'', ''p''),
      (''SOCKET_ADAPTER'', ''redis''), (''REDIS_HOST'', ''cache''), (''REDIS_PASSWORD'', ''pw'')]"

theorem production_is_strict_witness:
  "\<exists>c rc. validateEnvironment (\<lambda>u. Some (''https:'', u)) demo_env = Inr c \<and> redisConfig demo_env = Inr rc \<and>
     verifyRequestOrigin (origins c) True ''POST'' (Some ''https://chess.example'') (Some ''same-origin'') None \<and>
     \<not> verifyRequestOrigin (origins c) True ''POST'' None None (Some ''trusted-test-client'')"
proof -
  let ?c = "\<lparr>jwtSecret = ''0123456789abcdef0123456789abcdef'', origins = [''https://chess.example''], proxyHops = 1\<rparr>"
  let ?rc = "Redis_mode \<lparr>host = ''cache'', port = 6379, username = ''default'', password = ''pw'', tls = True,
     connectTimeout = 5000, commandTimeout = 5000, maxRetriesPerRequest = 3\<rparr>"
  have c: "validateEnvironment (\<lambda>u. Some (''https:'', u)) demo_env = Inr ?c"
    by code_simp
  have rc: "redisConfig demo_env = Inr ?rc"
    by code_simp
  have p: "demo_env ''NODE_ENV'' = Some ''production''"
    by code_simp
  have "verifyRequestOrigin (origins ?c) True ''POST'' (Some ''https://chess.example'') (Some ''same-origin'') None"
    by code_simp
  moreover have "\<not> verifyRequestOrigin (origins ?c) True ''POST'' None None (Some ''trusted-test-client'')"
    using production_is_strict [OF c rc p] by (elim conjE allE [of _ "''POST''"]) blast
  ultimately show ?thesis
    using c rc by blast
qed

end
