(* ===== verification/Timeouts.thy ===== *)
theory Timeouts
  imports Prelude
begin

text \<open>
  Promises with a time: a call to another process settles after some milliseconds with a value
  or an error, or never. The race of such a promise against a timer is the helper
  \<open>withTimeout\<close> of services/redis.js; a promise wins only when it settles strictly earlier.
\<close>

datatype ('e, 'a) promise = Settled nat "('e, 'a) result" | Pending

definition withTimeout :: "('e, 'a) promise \<Rightarrow> nat \<Rightarrow> 'e \<Rightarrow> nat \<times> ('e, 'a) result" where
  "withTimeout p ms timed_out =
     (case p of
        Settled t r \<Rightarrow> if t < ms then (t, r) else (ms, Inl timed_out)
      | Pending \<Rightarrow> (ms, Inl timed_out))"

lemma withTimeout_time: "fst (withTimeout p ms e) \<le> ms"
  by (simp add: withTimeout_def split: promise.split)

lemma withTimeout_Inr: "withTimeout p ms e = (t, Inr a) \<longleftrightarrow> p = Settled t (Inr a) \<and> t < ms"
  by (auto simp: withTimeout_def split: promise.split if_splits)

lemma withTimeout_Inl:
  "withTimeout p ms e = (t, Inl x) \<Longrightarrow> (p = Settled t (Inl x) \<and> t < ms) \<or> (x = e \<and> t = ms)"
  by (auto simp: withTimeout_def split: promise.splits if_splits)

text \<open>
  \<open>Promise.all\<close> of promises that all started at time 0: the first rejection, or the time at
  which the last one is fulfilled.
\<close>

fun promise_all :: "('e, 'a) promise list \<Rightarrow> ('e, unit) promise" where
  "promise_all [] = Settled 0 (Inr ())"
| "promise_all (p # ps) =
     (case (p, promise_all ps) of
        (Settled t (Inl e), Settled u (Inl f)) \<Rightarrow> if t \<le> u then Settled t (Inl e) else Settled u (Inl f)
      | (Settled t (Inl e), _) \<Rightarrow> Settled t (Inl e)
      | (_, Settled u (Inl f)) \<Rightarrow> Settled u (Inl f)
      | (Settled t (Inr _), Settled u (Inr _)) \<Rightarrow> Settled (max t u) (Inr ())
      | (_, _) \<Rightarrow> Pending)"

lemma promise_all_Inr:
  "promise_all ps = Settled t (Inr ()) \<Longrightarrow> p \<in> set ps \<Longrightarrow> \<exists>u a. p = Settled u (Inr a) \<and> u \<le> t"
  by (induction ps arbitrary: t)
    (fastforce split: promise.splits sum.splits if_splits simp: le_max_iff_disj)+

text \<open>\<open>Promise.allSettled\<close>: when the last one settles, however it does.\<close>

fun promise_all_settled :: "('e, 'a) promise list \<Rightarrow> nat option" where
  "promise_all_settled [] = Some 0"
| "promise_all_settled (p # ps) =
     (case (p, promise_all_settled ps) of
        (Settled t _, Some u) \<Rightarrow> Some (max t u)
      | _ \<Rightarrow> None)"

lemma promise_all_settled_lt:
  "0 < ms \<Longrightarrow> (case promise_all_settled ps of Some t \<Rightarrow> t < ms | None \<Rightarrow> False) \<longleftrightarrow>
     list_all (\<lambda>p. case p of Settled t _ \<Rightarrow> t < ms | Pending \<Rightarrow> False) ps"
  by (induction ps) (auto split: promise.splits option.splits)

end
