(* ===== verification/RedisClients.thy ===== *)
theory RedisClients
  imports Startup Timeouts Shutdown
begin

text \<open>
  The three Redis clients of a process and their life (services/redis.js): created once at
  startup, connected before traffic is accepted, asked for readiness, closed on shutdown. What a
  client call answers - in time, late, with an error, never, or by throwing at once - is an input.
\<close>

section \<open>Clients\<close>

datatype client_status = Waiting | Ready | Lost

record cache_client =
  client_name :: string
  options :: client_options
  client_status :: client_status
  disconnected :: bool

record redis_clients =
  pub :: cache_client
  sub :: cache_client
  store :: cache_client

datatype redis_holder = Local_holder | Redis_holder redis_settings redis_clients

definition instrumentClient :: "string \<Rightarrow> client_options \<Rightarrow> cache_client" where
  "instrumentClient n opts = \<lparr>client_name = n, options = opts, client_status = Waiting, disconnected = False\<rparr>"

text \<open>The process-wide holder: made by the first call, kept by every later one.\<close>

definition initRedis :: "environment \<Rightarrow> redis_holder option \<Rightarrow> redis_holder startup \<times> redis_holder option" where
  "initRedis env holder =
     (case holder of
        Some h \<Rightarrow> (Inr h, holder)
      | None \<Rightarrow>
          (case redisConfig env of
             Inl err \<Rightarrow> (Inl err, None)
           | Inr Local_mode \<Rightarrow> (Inr Local_holder, Some Local_holder)
           | Inr (Redis_mode s) \<Rightarrow>
               (let h = Redis_holder s
                  \<lparr>pub = instrumentClient ''adapter-pub'' (buildOptions s),
                   sub = instrumentClient ''adapter-sub'' (buildOptions s),
                   store = instrumentClient ''store'' (buildOptions s)\<rparr>
                in (Inr h, Some h))))"

definition getRedis :: "redis_holder option \<Rightarrow> redis_holder startup" where
  "getRedis holder = (case holder of None \<Rightarrow> Inl ''Redis accessed before initRedis()'' | Some h \<Rightarrow> Inr h)"

fun is_redis :: "redis_holder \<Rightarrow> bool" where
  "is_redis Local_holder = False"
| "is_redis (Redis_holder _ _) = True"

definition redisMode :: "redis_holder option \<Rightarrow> string" where
  "redisMode holder = (case holder of None \<Rightarrow> ''local'' | Some h \<Rightarrow> if is_redis h then ''redis'' else ''local'')"

definition redisReady :: "redis_holder option \<Rightarrow> bool" where
  "redisReady holder =
     (case holder of
        Some (Redis_holder _ cs) \<Rightarrow> client_status (store cs) = Ready
      | _ \<Rightarrow> True)"

section \<open>The startup gate\<close>

definition STARTUP_CONNECT_TIMEOUT_MS :: nat where "STARTUP_CONNECT_TIMEOUT_MS = 10000"
definition SHUTDOWN_CLOSE_TIMEOUT_MS :: nat where "SHUTDOWN_CLOSE_TIMEOUT_MS = 5000"

definition timed_out :: "string \<Rightarrow> nat \<Rightarrow> string" where
  "timed_out what ms = what @ '' timed out after '' @ show_nat ms @ ''ms''"

text \<open>What the three connects and the ping on the command client do.\<close>

record connect_answers =
  connects :: "(string, unit) promise list"
  ping :: "(string, unit) promise"

definition connect_and_ping :: "connect_answers \<Rightarrow> nat \<times> unit startup" where
  "connect_and_ping a =
     (let (t, r) = withTimeout (promise_all (connects a)) STARTUP_CONNECT_TIMEOUT_MS
                     (timed_out ''Redis startup connect'' STARTUP_CONNECT_TIMEOUT_MS) in
      case r of
        Inl e \<Rightarrow> (t, Inl e)
      | Inr _ \<Rightarrow>
          (let (u, s) = withTimeout (ping a) COMMAND_TIMEOUT_MS (timed_out ''Redis startup ping'' COMMAND_TIMEOUT_MS)
           in (t + u, s)))"

definition connectRedisOrFail :: "connect_answers \<Rightarrow> redis_holder option \<Rightarrow> nat \<times> unit startup" where
  "connectRedisOrFail a holder =
     (case getRedis holder of
        Inl e \<Rightarrow> (0, Inl e)
      | Inr h \<Rightarrow>
          if \<not> is_redis h then (0, Inr ())
          else (case connect_and_ping a of
                  (t, Inr _) \<Rightarrow> (t, Inr ())
                | (t, Inl e) \<Rightarrow> (t, Inl (''FATAL: Redis unavailable at startup ('' @ e @ '')''))))"

lemma connect_and_ping_time: "fst (connect_and_ping a) \<le> STARTUP_CONNECT_TIMEOUT_MS + COMMAND_TIMEOUT_MS"
  using withTimeout_time [of "promise_all (connects a)" STARTUP_CONNECT_TIMEOUT_MS]
    withTimeout_time [of "ping a" COMMAND_TIMEOUT_MS]
  by (auto simp: connect_and_ping_def split_beta Let_def split: sum.split intro: add_mono trans_le_add1)

lemma connectRedisOrFail_time: "fst (connectRedisOrFail a holder) \<le> STARTUP_CONNECT_TIMEOUT_MS + COMMAND_TIMEOUT_MS"
  using connect_and_ping_time [of a] by (auto simp: connectRedisOrFail_def split: sum.split prod.split)

text \<open>The gate opens in Redis mode only when every client connected and the ping was answered.\<close>

lemma connectRedisOrFail_Inr:
  assumes "snd (connectRedisOrFail a (Some (Redis_holder s cs))) = Inr ()"
  shows "\<forall>p \<in> set (connects a). \<exists>t. p = Settled t (Inr ()) \<and> t < STARTUP_CONNECT_TIMEOUT_MS"
    and "\<exists>t < COMMAND_TIMEOUT_MS. ping a = Settled t (Inr ())"
proof -
  obtain t where t: "withTimeout (promise_all (connects a)) STARTUP_CONNECT_TIMEOUT_MS
      (timed_out ''Redis startup connect'' STARTUP_CONNECT_TIMEOUT_MS) = (t, Inr ())"
    using assms by (auto simp: connectRedisOrFail_def getRedis_def connect_and_ping_def split: prod.splits sum.splits)
  obtain u where u: "withTimeout (ping a) COMMAND_TIMEOUT_MS (timed_out ''Redis startup ping'' COMMAND_TIMEOUT_MS) = (u, Inr ())"
    using assms t by (auto simp: connectRedisOrFail_def getRedis_def connect_and_ping_def split: prod.splits sum.splits)
  show "\<forall>p \<in> set (connects a). \<exists>t. p = Settled t (Inr ()) \<and> t < STARTUP_CONNECT_TIMEOUT_MS"
    using t promise_all_Inr [of "connects a" t] by (auto simp: withTimeout_Inr) (metis le_less_trans old.unit.exhaust)
  show "\<exists>t < COMMAND_TIMEOUT_MS. ping a = Settled t (Inr ())"
    using u by (auto simp: withTimeout_Inr)
qed

section \<open>Shutdown\<close>

record close_result =
  closedClean :: bool
  close_mode :: string

text \<open>
  The answers of the three \<open>quit\<close> calls; a call may also throw at once (None), which skips the
  later calls. The result carries the time, the new holder and the clients left behind.
\<close>

definition force_disconnect :: "redis_clients \<Rightarrow> redis_clients" where
  "force_disconnect cs =
     \<lparr>pub = (pub cs)\<lparr>disconnected := True\<rparr>, sub = (sub cs)\<lparr>disconnected := True\<rparr>, store = (store cs)\<lparr>disconnected := True\<rparr>\<rparr>"

definition quit_all :: "(string, unit) promise option list \<Rightarrow> nat \<times> bool" where
  "quit_all quits =
     (if None \<in> set quits then (0, False)
      else case promise_all_settled (map the quits) of
          Some t \<Rightarrow> if t < SHUTDOWN_CLOSE_TIMEOUT_MS then (t, True) else (SHUTDOWN_CLOSE_TIMEOUT_MS, False)
        | None \<Rightarrow> (SHUTDOWN_CLOSE_TIMEOUT_MS, False))"

definition closeRedisClients ::
  "(string, unit) promise option list \<Rightarrow> redis_holder option \<Rightarrow> close_result \<times> nat \<times> redis_holder option \<times> redis_clients option" where
  "closeRedisClients quits holder =
     (case holder of
        Some (Redis_holder s cs) \<Rightarrow>
          (case quit_all quits of
             (t, True) \<Rightarrow> (\<lparr>closedClean = True, close_mode = ''redis''\<rparr>, t, None, Some cs)
           | (t, False) \<Rightarrow> (\<lparr>closedClean = False, close_mode = ''redis''\<rparr>, t, None, Some (force_disconnect cs)))
      | _ \<Rightarrow> (\<lparr>closedClean = True, close_mode = ''local''\<rparr>, 0, None, None))"

text \<open>What the cache phase of the shutdown sequence waits for.\<close>

definition cache_answer :: "(string, unit) promise option list \<Rightarrow> redis_holder option \<Rightarrow> bool answer" where
  "cache_answer quits holder =
     (case closeRedisClients quits holder of (r, t, _, _) \<Rightarrow> Resolves t (closedClean r))"

lemma quit_all_time: "fst (quit_all quits) \<le> SHUTDOWN_CLOSE_TIMEOUT_MS"
  by (simp add: quit_all_def split: option.split)

definition quits_in_time :: "(string, unit) promise option list \<Rightarrow> bool" where
  "quits_in_time quits \<longleftrightarrow>
     list_all (\<lambda>q. case q of Some (Settled t _) \<Rightarrow> t < SHUTDOWN_CLOSE_TIMEOUT_MS | _ \<Rightarrow> False) quits"

lemma quit_all_clean: "snd (quit_all quits) \<longleftrightarrow> quits_in_time quits"
proof (cases "None \<in> set quits")
  case True
  then show ?thesis
    by (auto simp: quit_all_def quits_in_time_def list_all_iff intro!: bexI [of _ None])
next
  case False
  have "snd (quit_all quits) \<longleftrightarrow>
      (case promise_all_settled (map the quits) of Some t \<Rightarrow> t < SHUTDOWN_CLOSE_TIMEOUT_MS | None \<Rightarrow> False)"
    using False by (simp add: quit_all_def split: option.split)
  also have "\<dots> \<longleftrightarrow> list_all (\<lambda>p. case p of Settled t _ \<Rightarrow> t < SHUTDOWN_CLOSE_TIMEOUT_MS | Pending \<Rightarrow> False) (map the quits)"
    by (rule promise_all_settled_lt) (simp add: SHUTDOWN_CLOSE_TIMEOUT_MS_def)
  also have "\<dots> \<longleftrightarrow> quits_in_time quits"
  proof -
    have "(case the q of Settled t _ \<Rightarrow> t < SHUTDOWN_CLOSE_TIMEOUT_MS | Pending \<Rightarrow> False) =
        (case q of Some (Settled t _) \<Rightarrow> t < SHUTDOWN_CLOSE_TIMEOUT_MS | _ \<Rightarrow> False)" if "q \<in> set quits" for q
      using False that by (cases q) (auto split: promise.split)
    then show ?thesis
      unfolding quits_in_time_def list.pred_map o_def by (rule list.pred_cong [OF refl])
  qed
  finally show ?thesis .
qed

text \<open>
  Closing Redis is bounded, reported truthfully and done once. Whatever the three quit calls
  do - answer, fail, hang, or throw at once - the close takes at most five seconds and leaves no
  holder, so that a second close answers at once; it is clean exactly when every quit settled in
  time, otherwise every client is cut off; and the cache phase of the shutdown sequence ends
  after the same time, Completed exactly in the clean case.
\<close>

theorem redis_close_bounded:
  "let (r, t, holder, left) = closeRedisClients quits (Some (Redis_holder s cs)) in
     t \<le> 5000 \<and> holder = None \<and> closedClean r = quits_in_time quits \<and>
     left = Some (if quits_in_time quits then cs else force_disconnect cs) \<and>
     phaseCache (cache_answer quits (Some (Redis_holder s cs))) CACHE_MS = (if quits_in_time quits then Completed else Forced, t) \<and>
     cache_answer again holder = Resolves 0 True"
proof -
  obtain t ok where q: "quit_all quits = (t, ok)" by (cases "quit_all quits")
  have t: "t \<le> 5000" "ok = quits_in_time quits"
    using quit_all_time [of quits] quit_all_clean [of quits] q by (simp_all add: SHUTDOWN_CLOSE_TIMEOUT_MS_def)
  have in_time: "ok \<Longrightarrow> t < 5000"
    using q by (auto simp: quit_all_def SHUTDOWN_CLOSE_TIMEOUT_MS_def split: if_splits option.splits)
  show ?thesis
    using q t in_time
    by (cases ok)
      (auto simp: closeRedisClients_def cache_answer_def phaseCache_def withValueDeadline_def CACHE_MS_def)
qed

end
