(* ===== verification/RateLimits.thy ===== *)
theory RateLimits
  imports RedisClients
begin

text \<open>
  Rate limiting (services/rateLimit.js): the seven limiters, the store each one gets, and the
  bounded Redis command behind a shared store. The counting itself is express-rate-limit and
  rate-limit-redis; what is modelled is the configuration they are given and the command they
  send.
\<close>

record limiter_spec =
  lim_name :: string
  lim_route :: string
  windowMs :: nat
  lim_limit :: nat
  lim_message :: string

definition GLOBAL_LIMITER_SPEC :: limiter_spec where
  "GLOBAL_LIMITER_SPEC =
     \<lparr>lim_name = ''global'', lim_route = ''/api'', windowMs = 15 * 60000, lim_limit = 100, lim_message = ''Too many requests''\<rparr>"

definition ROUTE_LIMITER_SPECS :: "limiter_spec list" where
  "ROUTE_LIMITER_SPECS =
     [\<lparr>lim_name = ''login'', lim_route = ''/api/auth/login'', windowMs = 60000, lim_limit = 5,
       lim_message = ''Too many authentication attempts''\<rparr>,
      \<lparr>lim_name = ''register'', lim_route = ''/api/auth/register'', windowMs = 15 * 60000, lim_limit = 5,
       lim_message = ''Too many registration attempts''\<rparr>,
      \<lparr>lim_name = ''resend-verification'', lim_route = ''/api/auth/resend-verification'', windowMs = 15 * 60000, lim_limit = 3,
       lim_message = ''Too many email requests''\<rparr>,
      \<lparr>lim_name = ''forgot-password'', lim_route = ''/api/auth/forgot-password'', windowMs = 15 * 60000, lim_limit = 3,
       lim_message = ''Too many email requests''\<rparr>,
      \<lparr>lim_name = ''reset-password'', lim_route = ''/api/auth/reset-password'', windowMs = 15 * 60000, lim_limit = 5,
       lim_message = ''Too many reset attempts''\<rparr>,
      \<lparr>lim_name = ''refresh'', lim_route = ''/api/auth/refresh'', windowMs = 60000, lim_limit = 30,
       lim_message = ''Too many refresh attempts''\<rparr>]"

definition LIMITER_NAMES :: "string list" where
  "LIMITER_NAMES = lim_name GLOBAL_LIMITER_SPEC # map lim_name ROUTE_LIMITER_SPECS"

definition RATE_LIMIT_REDIS_TIMEOUT_MS :: nat where "RATE_LIMIT_REDIS_TIMEOUT_MS = 500"

section \<open>The command of a shared store\<close>

text \<open>The fresh error, and the limiters whose degraded counter goes up.\<close>

definition onRateLimitDegraded :: "string \<Rightarrow> string \<Rightarrow> string \<times> string list" where
  "onRateLimitDegraded name reason =
     (''Rate limiting degraded ('' @ name @ ''/'' @ reason @ ''): failing open'',
      if name \<in> set LIMITER_NAMES then [name] else [])"

text \<open>The client, if any, and what its call would do (None: it throws at once).\<close>

definition sendLimiterCommand ::
  "string \<Rightarrow> cache_client option \<Rightarrow> (string, 'r) promise option \<Rightarrow> nat \<times> (string, 'r) result \<times> string list" where
  "sendLimiterCommand name client answer =
     (if (case client of None \<Rightarrow> True | Some c \<Rightarrow> client_status c \<noteq> Ready)
      then (let (err, inc) = onRateLimitDegraded name ''redis_not_ready'' in (0, Inl err, inc))
      else
        let (t, r) = (case answer of
             None \<Rightarrow> (0, Inl [])
           | Some p \<Rightarrow> withTimeout p RATE_LIMIT_REDIS_TIMEOUT_MS (timed_out ''Rate limit Redis command'' RATE_LIMIT_REDIS_TIMEOUT_MS))
        in case r of
             Inr v \<Rightarrow> (t, Inr v, [])
           | Inl _ \<Rightarrow> (let (err, inc) = onRateLimitDegraded name ''redis_command_failed'' in (t, Inl err, inc)))"

text \<open>
  A command takes at most half a second; it fails at once when the client is not ready; whatever
  went wrong, the error is one of two fixed texts, so nothing of the command or of the error of
  the library gets out; and every failure of a known limiter is counted.
\<close>

lemma sendLimiterCommand_cases:
  obtains "(case client of None \<Rightarrow> True | Some c \<Rightarrow> client_status c \<noteq> Ready)"
      "sendLimiterCommand name client answer =
         (0, Inl (fst (onRateLimitDegraded name ''redis_not_ready'')), snd (onRateLimitDegraded name ''redis_not_ready''))"
  | t where "t \<le> RATE_LIMIT_REDIS_TIMEOUT_MS"
      "sendLimiterCommand name client answer =
         (t, Inl (fst (onRateLimitDegraded name ''redis_command_failed'')), snd (onRateLimitDegraded name ''redis_command_failed''))"
  | t v where "t \<le> RATE_LIMIT_REDIS_TIMEOUT_MS" "sendLimiterCommand name client answer = (t, Inr v, [])"
proof (cases "case client of None \<Rightarrow> True | Some c \<Rightarrow> client_status c \<noteq> Ready")
  case True
  then show ?thesis
    by (intro that(1)) (simp_all add: sendLimiterCommand_def split_beta)
next
  case ready: False
  show ?thesis
  proof (cases answer)
    case None
    with ready show ?thesis
      by (intro that(2) [of 0]) (simp_all add: sendLimiterCommand_def split_beta)
  next
    case (Some p)
    obtain t r where tr: "withTimeout p RATE_LIMIT_REDIS_TIMEOUT_MS (timed_out ''Rate limit Redis command'' RATE_LIMIT_REDIS_TIMEOUT_MS) = (t, r)"
      by (cases "withTimeout p RATE_LIMIT_REDIS_TIMEOUT_MS (timed_out ''Rate limit Redis command'' RATE_LIMIT_REDIS_TIMEOUT_MS)")
    then have "t \<le> RATE_LIMIT_REDIS_TIMEOUT_MS"
      using withTimeout_time [of p RATE_LIMIT_REDIS_TIMEOUT_MS] by (metis fst_conv)
    with ready Some tr show ?thesis
      by (cases r) (auto intro: that(2,3) simp: sendLimiterCommand_def split_beta)
  qed
qed

lemma sendLimiterCommand_bounded:
  assumes "sendLimiterCommand name client answer = (t, r, counted)"
  shows "t \<le> RATE_LIMIT_REDIS_TIMEOUT_MS \<and>
     (case r of
        Inl err \<Rightarrow> err \<in> {fst (onRateLimitDegraded name ''redis_not_ready''), fst (onRateLimitDegraded name ''redis_command_failed'')} \<and>
          (name \<in> set LIMITER_NAMES \<longrightarrow> counted = [name])
      | Inr _ \<Rightarrow> counted = [])"
  by (rule sendLimiterCommand_cases [of client name answer]) (use assms in \<open>auto simp: onRateLimitDegraded_def\<close>)

section \<open>The stores and the limiters\<close>

datatype limiter_store = Memory_store | Redis_store string

text \<open>The prefix of the keys; \<open>shape\<close> tells whether the two script loads of the library are promises.\<close>

definition key_prefix :: "string \<Rightarrow> string" where
  "key_prefix name = ''ratelimit:'' @ name @ '':''"

definition createRedisStore :: "string \<Rightarrow> bool list \<Rightarrow> limiter_store startup" where
  "createRedisStore name shape =
     (if list_ex Not shape
      then Inl ''FATAL: rate-limit-redis store shape changed; refusing to start without the script-load rejection sink.''
      else Inr (Redis_store (key_prefix name)))"

record limiter =
  l_windowMs :: nat
  l_limit :: nat
  l_message :: string
  l_store :: limiter_store
  passOnStoreError :: bool

definition limiter_of :: "limiter_spec \<Rightarrow> limiter_store \<Rightarrow> bool \<Rightarrow> limiter" where
  "limiter_of spec s redis =
     \<lparr>l_windowMs = windowMs spec, l_limit = lim_limit spec, l_message = lim_message spec, l_store = s, passOnStoreError = redis\<rparr>"

fun add_limiters :: "bool \<Rightarrow> bool list \<Rightarrow> limiter_spec list \<Rightarrow> (string \<times> limiter) list startup" where
  "add_limiters redis shape [] = Inr []"
| "add_limiters redis shape (spec # specs) =
     bind_result (if redis then createRedisStore (lim_name spec) shape else Inr Memory_store) (\<lambda>s.
     bind_result (add_limiters redis shape specs) (\<lambda>rest. Inr ((lim_name spec, limiter_of spec s redis) # rest)))"

definition quoted :: "string \<Rightarrow> string" where
  "quoted s = CHR 0x27 # s @ [CHR 0x27]"

definition createRateLimiters :: "string \<Rightarrow> bool \<Rightarrow> bool list \<Rightarrow> (string \<times> limiter) list startup" where
  "createRateLimiters mode has_store shape =
     (if mode \<noteq> ''local'' \<and> mode \<noteq> ''redis''
      then Inl (''FATAL: createRateLimiters requires mode '' @ quoted ''local'' @ '' or '' @ quoted ''redis'' @ ''.'')
      else if mode = ''redis'' \<and> \<not> has_store
      then Inl ''FATAL: createRateLimiters in redis mode requires the shared store client.''
      else add_limiters (mode = ''redis'') shape (GLOBAL_LIMITER_SPEC # ROUTE_LIMITER_SPECS))"

lemma add_limiters_Inr:
  "add_limiters redis shape specs = Inr ls \<Longrightarrow>
     ls = map (\<lambda>spec. (lim_name spec, limiter_of spec (if redis then Redis_store (key_prefix (lim_name spec)) else Memory_store) redis)) specs"
  by (induction specs arbitrary: ls) (auto simp: bind_result_Inr_iff createRedisStore_def split: if_splits)

lemma names_distinct: "distinct LIMITER_NAMES"
  by (simp add: LIMITER_NAMES_def GLOBAL_LIMITER_SPEC_def ROUTE_LIMITER_SPECS_def)

lemma names_no_colon: "name \<in> set LIMITER_NAMES \<Longrightarrow> CHR '':'' \<notin> set name"
  by (simp add: LIMITER_NAMES_def GLOBAL_LIMITER_SPEC_def ROUTE_LIMITER_SPECS_def) (elim disjE; simp)

lemma takeWhile_upto: "c \<notin> set a \<Longrightarrow> takeWhile (\<lambda>x. x \<noteq> c) (a @ c # r) = a"
  by (induction a) auto

text \<open>The keys of two limiters never meet, whatever client addresses they are built from.\<close>

lemma limiter_keys_disjoint:
  assumes "a \<in> set LIMITER_NAMES" "b \<in> set LIMITER_NAMES" "key_prefix a @ ip = key_prefix b @ ip'"
  shows "a = b \<and> ip = ip'"
proof -
  have eq: "a @ CHR '':'' # ip = b @ CHR '':'' # ip'"
    using assms(3) by (simp add: key_prefix_def)
  then have "a = b"
    using takeWhile_upto [OF names_no_colon [OF assms(1)], of ip] takeWhile_upto [OF names_no_colon [OF assms(2)], of ip']
    by metis
  with eq show ?thesis by simp
qed

text \<open>
  The limiters of a process: all seven, in the order they are mounted, in Redis mode each with its
  own shared store and letting requests through when the store fails, in local mode with a store
  of the process and no such pass.
\<close>

lemma createRateLimiters_all:
  assumes "createRateLimiters mode has_store shape = Inr ls"
  shows "map fst ls = LIMITER_NAMES"
    and "\<forall>(n, l) \<in> set ls. passOnStoreError l = (mode = ''redis'') \<and>
           l_store l = (if mode = ''redis'' then Redis_store (key_prefix n) else Memory_store)"
proof -
  have "add_limiters (mode = ''redis'') shape (GLOBAL_LIMITER_SPEC # ROUTE_LIMITER_SPECS) = Inr ls"
    using assms by (simp add: createRateLimiters_def split: if_splits)
  note ls = add_limiters_Inr [OF this]
  show "map fst ls = LIMITER_NAMES"
    unfolding ls LIMITER_NAMES_def by (simp add: o_def)
  show "\<forall>(n, l) \<in> set ls. passOnStoreError l = (mode = ''redis'') \<and>
           l_store l = (if mode = ''redis'' then Redis_store (key_prefix n) else Memory_store)"
    unfolding ls by (auto simp add: limiter_of_def)
qed

end
