(* ===== verification/Migrations.thy ===== *)
theory Migrations
  imports Prelude "HOL-Library.List_Lexorder" "HOL-Library.Char_ord"
begin

text \<open>
  The migration runner (Database/migrations/run.js) and the check the server makes of its work
  (\<open>assertMigrationsComplete\<close> of server.js). What a migration's SQL does to the rest of the
  database is the parameter \<open>exec\<close>, and SHA-256 the parameter \<open>checksum\<close>; the table of applied
  migrations is modelled.
\<close>

type_synonym applied = "(string \<times> string option) list"

record 's schema =
  tables :: 's
  applied :: applied

definition MIGRATIONS_pattern :: "string \<Rightarrow> bool" where
  "MIGRATIONS_pattern f \<longleftrightarrow>
     9 \<le> length f \<and> list_all is_digit (take 3 f) \<and> f ! 3 = CHR ''_'' \<and>
     list_all (\<lambda>c. c \<noteq> CHR 0x0A \<and> c \<noteq> CHR 0x0D) (take (length f - 8) (drop 4 f)) \<and> drop (length f - 4) f = ''.sql''"

text \<open>The directory as names with contents; the files in the order of their names.\<close>

definition migration_files :: "(string \<times> string) list \<Rightarrow> (string \<times> string) list" where
  "migration_files dir = map (\<lambda>f. (f, the (map_of dir f))) (sort (filter MIGRATIONS_pattern (map fst dir)))"

text \<open>The stored checksum of an applied file, when it is one.\<close>

definition has_checksum :: "string option \<Rightarrow> bool" where
  "has_checksum s \<longleftrightarrow> s \<noteq> None \<and> s \<noteq> Some []"

definition set_checksum :: "string \<Rightarrow> string \<Rightarrow> applied \<Rightarrow> applied" where
  "set_checksum f digest = map (\<lambda>(g, s). if g = f then (g, Some digest) else (g, s))"

text \<open>One new file: its SQL and its row in one transaction.\<close>

definition apply_new ::
  "(string \<Rightarrow> 's \<Rightarrow> (string, 's) result) \<Rightarrow> string \<Rightarrow> string \<Rightarrow> string \<Rightarrow> 's schema \<Rightarrow> (string, unit) result \<times> 's schema" where
  "apply_new exec f sql digest st =
     (case exec sql (tables st) of
        Inl e \<Rightarrow> (Inl (''Migration failed '' @ f @ '': '' @ e), st)
      | Inr t \<Rightarrow>
          if f \<in> fst ` set (applied st)
          then (Inl (''Migration failed '' @ f @ '': duplicate key''), st)
          else (Inr (), st\<lparr>tables := t, applied := applied st @ [(f, Some digest)]\<rparr>))"

definition one_file ::
  "(string \<Rightarrow> string) \<Rightarrow> (string \<Rightarrow> 's \<Rightarrow> (string, 's) result) \<Rightarrow> applied \<Rightarrow> string \<Rightarrow> string \<Rightarrow> 's schema \<Rightarrow>
   (string, unit) result \<times> 's schema" where
  "one_file checksum exec seen f sql st =
     (case map_of seen f of
        Some stored \<Rightarrow>
          if has_checksum stored \<and> stored \<noteq> Some (checksum sql) then (Inl (''Applied migration was modified: '' @ f), st)
          else if \<not> has_checksum stored then (Inr (), st\<lparr>applied := set_checksum f (checksum sql) (applied st)\<rparr>)
          else (Inr (), st)
      | None \<Rightarrow> apply_new exec f sql (checksum sql) st)"

fun run_files ::
  "(string \<Rightarrow> string) \<Rightarrow> (string \<Rightarrow> 's \<Rightarrow> (string, 's) result) \<Rightarrow> applied \<Rightarrow> (string \<times> string) list \<Rightarrow> 's schema \<Rightarrow>
   (string, unit) result \<times> 's schema" where
  "run_files checksum exec seen [] st = (Inr (), st)"
| "run_files checksum exec seen ((f, sql) # rest) st =
     (case one_file checksum exec seen f sql st of
        (Inl e, st') \<Rightarrow> (Inl e, st')
      | (Inr _, st') \<Rightarrow> run_files checksum exec seen rest st')"

text \<open>A whole run under the advisory lock; the map of applied files is read once, at its start.\<close>

definition run_migrations ::
  "(string \<Rightarrow> string) \<Rightarrow> (string \<Rightarrow> 's \<Rightarrow> (string, 's) result) \<Rightarrow> (string \<times> string) list \<Rightarrow> 's schema \<Rightarrow>
   (string, nat) result \<times> 's schema" where
  "run_migrations checksum exec dir st =
     (let fs = migration_files dir in
      if fs = [] then (Inl ''No migration files were found'', st)
      else case run_files checksum exec (applied st) fs st of
          (Inl e, st') \<Rightarrow> (Inl e, st')
        | (Inr _, st') \<Rightarrow> (Inr (length fs), st'))"

definition REQUIRED_MIGRATIONS :: "string list" where
  "REQUIRED_MIGRATIONS =
     [''001_init.sql'', ''002_game_features.sql'', ''003_achievements.sql'', ''004_friends.sql'',
      ''005_tournaments.sql'', ''006_security_integrity.sql'', ''007_fullstack_hardening.sql'']"

definition assertMigrationsComplete :: "applied \<Rightarrow> (string, unit) result" where
  "assertMigrationsComplete rows =
     (let found = filter (\<lambda>(f, _). f \<in> set REQUIRED_MIGRATIONS) rows in
      if length found \<noteq> 7 \<or> list_ex (\<lambda>(_, s). \<not> has_checksum s) found
      then Inl ''Database migrations are incomplete; run the migration service before the backend'' else Inr ())"

text \<open>The row the readiness probe looks for: how many there are (the name is the primary key).\<close>

definition migration_marker :: "applied \<Rightarrow> nat" where
  "migration_marker rows = length (filter (\<lambda>(f, s). f = ''007_fullstack_hardening.sql'' \<and> s \<noteq> None) rows)"

section \<open>Properties\<close>

text \<open>The rows of the table: one per file name.\<close>

definition applied_ok :: "applied \<Rightarrow> bool" where
  "applied_ok rows \<longleftrightarrow> distinct (map fst rows)"

lemma fst_set_checksum [simp]: "map fst (set_checksum f d rows) = map fst rows"
  by (auto simp: set_checksum_def)

lemma map_of_set_checksum:
  "map_of (set_checksum f d rows) g = (if g = f then map_option (\<lambda>_. Some d) (map_of rows f) else map_of rows g)"
  by (induction rows) (auto simp: set_checksum_def)

lemma map_of_snoc: "f \<notin> fst ` set rows \<Longrightarrow> map_of (rows @ [(f, v)]) g = (if g = f then Some v else map_of rows g)"
  by (induction rows) auto

lemma one_file_Inr:
  assumes "one_file checksum exec seen f sql st = (Inr (), st')" "applied_ok (applied st)" "map_of (applied st) f = map_of seen f"
    "checksum sql \<noteq> []"
  shows "applied_ok (applied st') \<and> map_of (applied st') f = Some (Some (checksum sql)) \<and>
     (\<forall>g. g \<noteq> f \<longrightarrow> map_of (applied st') g = map_of (applied st) g)"
proof (cases "map_of seen f")
  case None
  then obtain t where st': "st' = st\<lparr>tables := t, applied := applied st @ [(f, Some (checksum sql))]\<rparr>" "f \<notin> fst ` set (applied st)"
    using assms(1) by (auto simp: one_file_def apply_new_def split: sum.splits if_splits)
  then show ?thesis
    using assms(2) by (simp add: applied_ok_def map_of_snoc del: map_of_append)
next
  case (Some stored)
  then show ?thesis
    using assms by (auto simp: one_file_def applied_ok_def map_of_set_checksum has_checksum_def split: if_splits)
qed

lemma run_files_Inr:
  assumes "run_files checksum exec seen fs st = (Inr (), st')" "applied_ok (applied st)" "distinct (map fst fs)"
    "\<forall>(f, sql) \<in> set fs. map_of (applied st) f = map_of seen f" "\<forall>sql. checksum sql \<noteq> []"
  shows "applied_ok (applied st') \<and> (\<forall>(f, sql) \<in> set fs. map_of (applied st') f = Some (Some (checksum sql))) \<and>
     (\<forall>g. g \<notin> fst ` set fs \<longrightarrow> map_of (applied st') g = map_of (applied st) g)"
  using assms(1-4)
proof (induction fs arbitrary: st)
  case (Cons x fs)
  obtain f sql where x: "x = (f, sql)" by (cases x)
  obtain st1 where one: "one_file checksum exec seen f sql st = (Inr (), st1)" "run_files checksum exec seen fs st1 = (Inr (), st')"
    using Cons.prems(1) x by (auto split: prod.splits sum.splits)
  have 1: "applied_ok (applied st1)" "map_of (applied st1) f = Some (Some (checksum sql))"
    "\<And>g. g \<noteq> f \<Longrightarrow> map_of (applied st1) g = map_of (applied st) g"
    using one_file_Inr [OF one(1) Cons.prems(2)] Cons.prems(4) assms(5) x by auto
  have "\<forall>(g, s) \<in> set fs. map_of (applied st1) g = map_of seen g"
    using 1(3) Cons.prems(3,4) x by (force simp: image_iff)
  from Cons.IH [OF one(2) 1(1) _ this] Cons.prems(3) 1 x show ?case
    by (auto simp: image_iff)
qed simp

lemma run_files_noop:
  assumes "\<forall>(f, sql) \<in> set fs. map_of seen f = Some (Some (checksum sql))" "\<forall>sql. checksum sql \<noteq> []"
  shows "run_files checksum exec seen fs st = (Inr (), st)"
  using assms by (induction fs) (auto simp: one_file_def has_checksum_def)

lemma distinct_migration_files: "distinct (map fst dir) \<Longrightarrow> distinct (map fst (migration_files dir))"
  by (simp add: migration_files_def o_def)

lemma run_migrations_cases:
  assumes "run_migrations checksum exec dir st = (Inr n, st')"
  shows "migration_files dir \<noteq> []" "n = length (migration_files dir)"
    "run_files checksum exec (applied st) (migration_files dir) st = (Inr (), st')"
  using assms by (auto simp: run_migrations_def Let_def split: if_splits prod.splits sum.splits)

lemma found_required:
  assumes "applied_ok rows" "\<forall>f \<in> set REQUIRED_MIGRATIONS. \<exists>s. map_of rows f = Some (Some s) \<and> s \<noteq> []"
  shows "assertMigrationsComplete rows = Inr ()"
proof -
  let ?found = "filter (\<lambda>(f, _). f \<in> set REQUIRED_MIGRATIONS) rows"
  have dist: "distinct (map fst ?found)"
    using assms(1) unfolding applied_ok_def by (rule distinct_map_filter)
  have "set (map fst ?found) = set REQUIRED_MIGRATIONS"
    using assms(2) by (force dest: map_of_SomeD)
  then have "length ?found = card (set REQUIRED_MIGRATIONS)"
    using distinct_card [OF dist] by simp
  also have "\<dots> = 7"
    by (simp add: REQUIRED_MIGRATIONS_def)
  finally have len: "length ?found = 7" .
  have "has_checksum s" if "(f, s) \<in> set ?found" for f s
  proof -
    have "map_of rows f = Some s" "f \<in> set REQUIRED_MIGRATIONS"
      using that assms(1) by (auto simp: applied_ok_def)
    then show ?thesis
      using bspec [OF assms(2), of f] by (auto simp: has_checksum_def)
  qed
  then have "\<not> list_ex (\<lambda>(_, s). \<not> has_checksum s) ?found"
    by (auto simp: list_ex_iff)
  with len show ?thesis by (simp add: assertMigrationsComplete_def)
qed

text \<open>
  C35. A migration run that succeeds leaves nothing to do and satisfies the server's start check:
  every migration file is recorded with its checksum, the table still has one row per file, a
  second run over the same directory executes nothing and changes nothing, and when the directory
  holds the seven required files the server accepts the schema.
\<close>

theorem migrations_complete:
  assumes "run_migrations checksum exec dir st = (Inr n, st')" and "distinct (map fst dir)" and "applied_ok (applied st)"
    and "\<forall>sql. checksum sql \<noteq> []"
  shows "(\<forall>(f, sql) \<in> set (migration_files dir). map_of (applied st') f = Some (Some (checksum sql))) \<and>
     applied_ok (applied st') \<and> run_migrations checksum exec2 dir st' = (Inr n, st') \<and>
     (set REQUIRED_MIGRATIONS \<subseteq> fst ` set (migration_files dir) \<longrightarrow> assertMigrationsComplete (applied st') = Inr ())"
proof -
  note run = run_migrations_cases [OF assms(1)]
  have "distinct (map fst (migration_files dir))"
    using assms(2) by (rule distinct_migration_files)
  from run_files_Inr [OF run(3) assms(3) this _ assms(4)]
  have kept: "applied_ok (applied st')" "\<forall>(f, sql) \<in> set (migration_files dir). map_of (applied st') f = Some (Some (checksum sql))"
    by auto
  have "run_migrations checksum exec2 dir st' = (Inr n, st')"
    using run_files_noop [OF kept(2) assms(4), of exec2 st'] run by (simp add: run_migrations_def Let_def)
  moreover have "assertMigrationsComplete (applied st') = Inr ()" if "set REQUIRED_MIGRATIONS \<subseteq> fst ` set (migration_files dir)"
    using kept that assms(4) by (intro found_required) force+
  ultimately show ?thesis using kept by blast
qed

text \<open>Two files, the second already applied; SQL text is appended to a log.\<close>

definition demo_dir :: "(string \<times> string) list" where
  "demo_dir = [(''002_b.sql'', ''bb''), (''run.js'', ''x''), (''001_a.sql'', ''aa'')]"

theorem migrations_complete_witness:
  "let st' = snd (run_migrations (\<lambda>s. ''h'' @ s) (\<lambda>sql t. Inr (t @ [sql])) demo_dir \<lparr>tables = [], applied = [(''002_b.sql'', None)]\<rparr>)
   in map_of (applied st') ''001_a.sql'' = Some (Some ''haa'') \<and> tables st' = [''aa''] \<and>
      run_migrations (\<lambda>s. ''h'' @ s) (\<lambda>sql t. Inl ''no'') demo_dir st' = (Inr 2, st')"
proof -
  define st0 where "st0 = \<lparr>tables = [] :: string list, applied = [(''002_b.sql'', None)]\<rparr>"
  obtain st' where run: "run_migrations (\<lambda>s. ''h'' @ s) (\<lambda>sql t. Inr (t @ [sql])) demo_dir st0 = (Inr 2, st')"
    and st': "tables st' = [''aa'']" "map_of (applied st') ''001_a.sql'' = Some (Some ''haa'')"
  proof
    show "run_migrations (\<lambda>s. ''h'' @ s) (\<lambda>sql t. Inr (t @ [sql])) demo_dir st0 =
        (Inr 2, \<lparr>tables = [''aa''], applied = [(''002_b.sql'', Some ''hbb''), (''001_a.sql'', Some ''haa'')]\<rparr>)"
      unfolding st0_def by code_simp
  qed simp_all
  have "distinct (map fst demo_dir)" "applied_ok (applied st0)"
    unfolding st0_def by code_simp+
  from migrations_complete [OF run this, of "\<lambda>sql t. Inl ''no''"] st' run show ?thesis
    unfolding st0_def by (simp add: Let_def)
qed

end
