(* ===== verification/Avatars.thy ===== *)
theory Avatars
  imports AuthRoutes Startup Timeouts "HOL-Library.Word"
begin

text \<open>
  Avatars: middleware/upload.js (the container check and the normalisation of an uploaded image),
  services/avatarStore.js (the local disk or the S3 bucket behind one set of operations) and the
  avatar endpoint of routes/auth.js. The image library sharp, the form parser multer and the S3
  service are parameters; the file system of the runtime is a map from file names to bytes whose
  operations may also fail.
\<close>

type_synonym bytes = "8 word list"

record js_error =
  error_code :: "string option"
  http_status :: "int option"
  error_message :: string

definition plain_error :: "string \<Rightarrow> js_error" where
  "plain_error m = \<lparr>error_code = None, http_status = None, error_message = m\<rparr>"

section \<open>Image containers\<close>

definition byte_range :: "bytes \<Rightarrow> nat \<Rightarrow> nat \<Rightarrow> bytes" where
  "byte_range b from to = take (to - from) (drop from b)"

text \<open>\<open>toString("ascii")\<close> drops the top bit of every byte.\<close>

definition ascii_text :: "bytes \<Rightarrow> nat list" where
  "ascii_text b = map (\<lambda>x. unat x mod 128) b"

definition is_ascii :: "bytes \<Rightarrow> string \<Rightarrow> bool" where
  "is_ascii b s \<longleftrightarrow> ascii_text b = map of_char s"

definition be32 :: "bytes \<Rightarrow> nat" where
  "be32 b = foldl (\<lambda>acc x. 256 * acc + unat x) 0 b"

definition readUInt32BE :: "bytes \<Rightarrow> nat \<Rightarrow> nat" where
  "readUInt32BE b offset = be32 (byte_range b offset (offset + 4))"

definition readUInt32LE :: "bytes \<Rightarrow> nat \<Rightarrow> nat" where
  "readUInt32LE b offset = be32 (rev (byte_range b offset (offset + 4)))"

definition PNG_SIGNATURE :: bytes where
  "PNG_SIGNATURE = [137, 80, 78, 71, 13, 10, 26, 10]"

text \<open>The chunk walk: every round advances by at least twelve bytes and stays inside the buffer.\<close>

function png_chunks :: "bytes \<Rightarrow> nat \<Rightarrow> bool" where
  "png_chunks b offset =
     (if offset + 12 \<le> length b then
        let end_of = offset + readUInt32BE b offset + 12 in
        if end_of > length b then False
        else if is_ascii (byte_range b (offset + 4) (offset + 8)) ''IEND'' then end_of = length b
        else png_chunks b end_of
      else False)"
  by auto

termination
  by (relation "measure (\<lambda>(b, offset). length b - offset)") auto

declare png_chunks.simps [simp del]

definition hasCompleteContainer :: "bytes \<Rightarrow> bool" where
  "hasCompleteContainer b =
     (if 12 \<le> length b \<and> byte_range b 0 8 = PNG_SIGNATURE then png_chunks b 8
      else if 4 \<le> length b \<and> b ! 0 = 0xff \<and> b ! 1 = 0xd8 then b ! (length b - 2) = 0xff \<and> b ! (length b - 1) = 0xd9
      else if 14 \<le> length b \<and> (is_ascii (byte_range b 0 6) ''GIF87a'' \<or> is_ascii (byte_range b 0 6) ''GIF89a'')
      then b ! (length b - 1) = 0x3b
      else if 12 \<le> length b \<and> is_ascii (byte_range b 0 4) ''RIFF'' \<and> is_ascii (byte_range b 8 12) ''WEBP''
      then readUInt32LE b 4 + 8 = length b
      else False)"

text \<open>The reference: a PNG file is the signature and chunks, the last one and only it named IEND.\<close>

record png_chunk =
  chunk_type :: bytes
  chunk_data :: bytes
  chunk_crc :: bytes

definition be32_bytes :: "nat \<Rightarrow> bytes" where
  "be32_bytes n = [of_nat (n div 256 div 256 div 256), of_nat (n div 256 div 256), of_nat (n div 256), of_nat n]"

definition wf_chunk :: "png_chunk \<Rightarrow> bool" where
  "wf_chunk c \<longleftrightarrow> length (chunk_type c) = 4 \<and> length (chunk_crc c) = 4 \<and> length (chunk_data c) < 2 ^ 32"

definition chunk_bytes :: "png_chunk \<Rightarrow> bytes" where
  "chunk_bytes c = be32_bytes (length (chunk_data c)) @ chunk_type c @ chunk_data c @ chunk_crc c"

definition is_end_chunk :: "png_chunk \<Rightarrow> bool" where
  "is_end_chunk c \<longleftrightarrow> is_ascii (chunk_type c) ''IEND''"

definition complete_png :: "png_chunk list \<Rightarrow> bool" where
  "complete_png cs \<longleftrightarrow> cs \<noteq> [] \<and> list_all wf_chunk cs \<and> is_end_chunk (last cs) \<and> list_all (\<lambda>c. \<not> is_end_chunk c) (butlast cs)"

lemma unat_byte: "unat (x :: 8 word) < 256"
  using unsigned_less [of x] by simp

lemma unat_of_byte: "unat (of_nat n :: 8 word) = n mod 256"
  by (simp add: unsigned_of_nat take_bit_eq_mod)

lemma of_byte: "of_nat n = (x :: 8 word) \<longleftrightarrow> n mod 256 = unat x"
  by (metis unat_of_byte unsigned_word_eqI)

lemma be32_four: "be32 [a, b, c, d] = 256 * (256 * (256 * unat a + unat b) + unat c) + unat d"
  by (simp add: be32_def)

lemma list_four: "length b = 4 \<Longrightarrow> \<exists>w x y z. b = [w, x, y, z]"
  by (auto simp: numeral_eq_Suc length_Suc_conv)

lemma be32_bytes_inverse:
  assumes "n < 2 ^ 32"
  shows "be32 (be32_bytes n) = n"
proof -
  have "n div 256 div 256 div 256 mod 256 = n div 256 div 256 div 256"
    using assms by (simp flip: div_mult2_eq)
  then show ?thesis
    by (simp add: be32_bytes_def be32_four unat_of_byte)
qed

lemma byte_digits: "d < 256 \<Longrightarrow> (256 * x + d) div 256 = (x :: nat)" "d < 256 \<Longrightarrow> (256 * x + d) mod 256 = (d :: nat)"
  by simp_all

lemma be32_bytes_of:
  assumes "length b = 4"
  shows "be32_bytes (be32 b) = b"
proof -
  obtain w x y z where b: "b = [w, x, y, z]"
    using list_four [OF assms] by blast
  have "unat w mod 256 = unat w"
    using unat_byte [of w] by simp
  then show ?thesis
    unfolding b be32_four be32_bytes_def by (simp only: of_byte byte_digits unat_byte simp_thms list.inject)
qed

lemma be32_less:
  assumes "length b = 4"
  shows "be32 b < 2 ^ 32"
proof -
  obtain w x y z where b: "b = [w, x, y, z]"
    using list_four [OF assms] by blast
  show ?thesis
    using unat_byte [of w] unat_byte [of x] unat_byte [of y] unat_byte [of z] unfolding b be32_four by simp
qed

lemma length_be32_bytes [simp]: "length (be32_bytes n) = 4"
  by (simp add: be32_bytes_def)

lemma length_chunk: "wf_chunk c \<Longrightarrow> length (chunk_bytes c) = length (chunk_data c) + 12"
  by (simp add: wf_chunk_def chunk_bytes_def)

lemma chunk_at:
  assumes "drop offset b = chunk_bytes c @ r" "wf_chunk c"
  shows "offset + length (chunk_data c) + 12 \<le> length b" "readUInt32BE b offset = length (chunk_data c)"
    "byte_range b (offset + 4) (offset + 8) = chunk_type c" "drop (offset + length (chunk_data c) + 12) b = r"
proof -
  let ?n = "length (chunk_data c)"
  have len: "length (drop offset b) = ?n + 12 + length r"
    using assms by (simp add: length_chunk)
  then show "offset + ?n + 12 \<le> length b" by simp
  have "take 4 (drop offset b) = be32_bytes ?n"
    using assms(1) by (simp add: chunk_bytes_def)
  then show "readUInt32BE b offset = ?n"
    using assms(2) by (simp add: readUInt32BE_def byte_range_def be32_bytes_inverse wf_chunk_def)
  have "drop (offset + 4) b = drop 4 (drop offset b)"
    by (simp add: add.commute)
  then show "byte_range b (offset + 4) (offset + 8) = chunk_type c"
    using assms by (simp add: byte_range_def chunk_bytes_def wf_chunk_def)
  have "drop (offset + ?n + 12) b = drop (?n + 12) (drop offset b)"
    by (simp add: add_ac)
  then show "drop (offset + ?n + 12) b = r"
    using assms by (simp add: length_chunk)
qed

definition chunk_from :: "bytes \<Rightarrow> nat \<Rightarrow> png_chunk" where
  "chunk_from b offset =
     (let n = readUInt32BE b offset in
      \<lparr>chunk_type = byte_range b (offset + 4) (offset + 8), chunk_data = byte_range b (offset + 8) (offset + 8 + n),
       chunk_crc = byte_range b (offset + 8 + n) (offset + 12 + n)\<rparr>)"

lemma split_chunk:
  assumes "offset + readUInt32BE b offset + 12 \<le> length b"
  shows "wf_chunk (chunk_from b offset)" "drop offset b = chunk_bytes (chunk_from b offset) @ drop (offset + readUInt32BE b offset + 12) b"
proof -
  let ?n = "readUInt32BE b offset" and ?c = "chunk_from b offset"
  have four: "length (byte_range b offset (offset + 4)) = 4"
    using assms by (simp add: byte_range_def)
  have n: "?n < 2 ^ 32"
    unfolding readUInt32BE_def by (rule be32_less [OF four])
  have len: "length (chunk_data ?c) = ?n"
    using assms by (simp add: chunk_from_def byte_range_def Let_def)
  then show "wf_chunk ?c"
    using assms n by (simp add: wf_chunk_def) (simp add: chunk_from_def byte_range_def Let_def)
  have parts: "take (k + m) xs = take k xs @ take m (drop k xs)" for k m and xs :: bytes
    by (rule take_add)
  have "drop offset b = take (4 + (4 + (?n + 4))) (drop offset b) @ drop (4 + (4 + (?n + 4))) (drop offset b)"
    by (rule append_take_drop_id [symmetric])
  also have "drop (4 + (4 + (?n + 4))) (drop offset b) = drop (offset + ?n + 12) b"
    by (simp add: add_ac)
  also have "take (4 + (4 + (?n + 4))) (drop offset b) = chunk_bytes ?c"
    using be32_bytes_of [OF four] len
    unfolding parts by (simp add: chunk_bytes_def chunk_from_def byte_range_def Let_def readUInt32BE_def add_ac)
  finally show "drop offset b = chunk_bytes ?c @ drop (offset + ?n + 12) b" .
qed

lemma png_chunks_sound: "png_chunks b offset \<Longrightarrow> \<exists>cs. complete_png cs \<and> drop offset b = concat (map chunk_bytes cs)"
proof (induction b offset rule: png_chunks.induct)
  case (1 b offset)
  let ?stop = "offset + readUInt32BE b offset + 12" and ?c = "chunk_from b offset"
  have fits: "offset + 12 \<le> length b" "?stop \<le> length b"
    using "1.prems" by (auto simp: png_chunks.simps [of b offset] Let_def split: if_splits)
  note c = split_chunk [OF fits(2)]
  have type: "is_end_chunk ?c \<longleftrightarrow> is_ascii (byte_range b (offset + 4) (offset + 8)) ''IEND''"
    by (simp add: is_end_chunk_def chunk_from_def Let_def)
  show ?case
  proof (cases "is_end_chunk ?c")
    case True
    then have "?stop = length b"
      using "1.prems" fits type by (simp add: png_chunks.simps [of b offset] Let_def)
    with c True have "complete_png [?c] \<and> drop offset b = concat (map chunk_bytes [?c])"
      by (simp add: complete_png_def)
    then show ?thesis by blast
  next
    case False
    then have "png_chunks b ?stop"
      using "1.prems" fits type by (simp add: png_chunks.simps [of b offset] Let_def)
    with False fits type "1.IH" [OF fits(1) refl] obtain cs where cs: "complete_png cs" "drop ?stop b = concat (map chunk_bytes cs)"
      by auto
    with c False have "complete_png (?c # cs) \<and> drop offset b = concat (map chunk_bytes (?c # cs))"
      by (simp add: complete_png_def)
    then show ?thesis by blast
  qed
qed

lemma png_chunks_complete:
  "complete_png cs \<Longrightarrow> drop offset b = concat (map chunk_bytes cs) \<Longrightarrow> png_chunks b offset"
proof (induction cs arbitrary: offset)
  case Nil
  then show ?case by (simp add: complete_png_def)
next
  case (Cons c cs)
  have wf: "wf_chunk c"
    using Cons.prems(1) by (simp add: complete_png_def)
  have at: "drop offset b = chunk_bytes c @ concat (map chunk_bytes cs)"
    using Cons.prems(2) by simp
  note step = chunk_at [OF at wf]
  show ?case
  proof (cases cs)
    case Nil
    then have "is_end_chunk c"
      using Cons.prems(1) by (simp add: complete_png_def)
    moreover have "offset + length (chunk_data c) + 12 = length b"
      using step(1,4) Nil by simp
    ultimately show ?thesis
      using step by (simp add: png_chunks.simps [of b offset] is_end_chunk_def Let_def)
  next
    case (Cons c2 rest)
    then have "\<not> is_end_chunk c" "complete_png cs"
      using Cons.prems(1) by (simp_all add: complete_png_def)
    then show ?thesis
      using step Cons.IH [OF _ step(4)] by (simp add: png_chunks.simps [of b offset] is_end_chunk_def Let_def)
  qed
qed

lemma complete_png_length: "complete_png cs \<Longrightarrow> 12 \<le> length (concat (map chunk_bytes cs))"
  by (cases cs) (simp_all add: complete_png_def length_chunk)

text \<open>
  The container check of an upload that starts with the PNG signature accepts it exactly
  when the rest of the file is a sequence of well-formed chunks of which the last one, and no
  earlier one, is the IEND chunk: nothing is missing and nothing follows the image.
\<close>

theorem png_accepted_exactly:
  "hasCompleteContainer (PNG_SIGNATURE @ rest) \<longleftrightarrow> (\<exists>cs. complete_png cs \<and> rest = concat (map chunk_bytes cs))"
proof -
  have drop: "drop 8 (PNG_SIGNATURE @ rest) = rest" "byte_range (PNG_SIGNATURE @ rest) 0 8 = PNG_SIGNATURE"
    by (simp_all add: PNG_SIGNATURE_def byte_range_def)
  have eq: "png_chunks (PNG_SIGNATURE @ rest) 8 \<longleftrightarrow> (\<exists>cs. complete_png cs \<and> rest = concat (map chunk_bytes cs))"
    using png_chunks_sound [of "PNG_SIGNATURE @ rest" 8] png_chunks_complete [of _ 8 "PNG_SIGNATURE @ rest"] drop by metis
  show ?thesis
  proof (cases "4 \<le> length rest")
    case True
    then show ?thesis
      using drop eq by (simp add: hasCompleteContainer_def) (simp add: PNG_SIGNATURE_def)
  next
    case False
    then have "\<not> (\<exists>cs. complete_png cs \<and> rest = concat (map chunk_bytes cs))"
      using complete_png_length by force
    moreover have "\<not> hasCompleteContainer (PNG_SIGNATURE @ rest)"
      using False by (simp add: hasCompleteContainer_def PNG_SIGNATURE_def)
    ultimately show ?thesis by blast
  qed
qed

section \<open>Managed file names\<close>

definition is_hex_dash :: "char \<Rightarrow> bool" where
  "is_hex_dash c \<longleftrightarrow> c \<in> set ''0123456789abcdef-''"

text \<open>\<open>/^user\d+-[0-9a-f-]+\.webp$/\<close>.\<close>

definition managed_file :: "string \<Rightarrow> bool" where
  "managed_file s \<longleftrightarrow>
     take 4 s = ''user'' \<and>
     (let ds = takeWhile is_digit (drop 4 s); rest = dropWhile is_digit (drop 4 s);
          body_len = length rest - 6; body = take body_len (tl rest) in
      ds \<noteq> [] \<and> 7 \<le> length rest \<and> hd rest = CHR ''-'' \<and> list_all is_hex_dash body \<and> drop body_len (tl rest) = ''.webp'')"

lemma managed_file_examples:
  "managed_file ''user12-0a-f.webp''" "\<not> managed_file ''user12-../x.webp''" "\<not> managed_file ''user-0a.webp''" "\<not> managed_file ''user1-.webp''"
  by code_simp+

definition PUBLIC_PREFIX :: string where "PUBLIC_PREFIX = ''/uploads/avatars/''"

definition managedAvatarFilename :: "string option \<Rightarrow> string option" where
  "managedAvatarFilename publicPath =
     (case publicPath of
        None \<Rightarrow> None
      | Some p \<Rightarrow>
          if take (length PUBLIC_PREFIX) p = PUBLIC_PREFIX \<and> managed_file (drop (length PUBLIC_PREFIX) p)
          then Some (drop (length PUBLIC_PREFIX) p) else None)"

lemma managedAvatarFilename_url: "managed_file f \<Longrightarrow> managedAvatarFilename (Some (PUBLIC_PREFIX @ f)) = Some f"
  by (simp add: managedAvatarFilename_def)

lemma managedAvatarFilename_Some: "managedAvatarFilename p = Some f \<Longrightarrow> managed_file f \<and> p = Some (PUBLIC_PREFIX @ f)"
  by (auto simp: managedAvatarFilename_def split: option.splits if_splits) (metis append_take_drop_id)

definition AVATAR_KEY_PREFIX :: string where "AVATAR_KEY_PREFIX = ''avatars/''"

definition keyForFilename :: "string \<Rightarrow> (js_error, string) result" where
  "keyForFilename f = (if managed_file f then Inr (AVATAR_KEY_PREFIX @ f) else Inl (plain_error ''Refusing unsafe avatar filename''))"

section \<open>The stores\<close>

datatype store_mode = Local_disk | S3_bucket

definition storageMode :: "environment \<Rightarrow> (js_error, store_mode) result" where
  "storageMode env =
     (let mode = to_lower (case env_value env ''AVATAR_STORAGE'' of None \<Rightarrow> ''local'' | Some v \<Rightarrow> v) in
      if mode = ''local'' then Inr Local_disk
      else if mode = ''s3'' then Inr S3_bucket
      else Inl (plain_error (''FATAL: AVATAR_STORAGE must be local|s3 (got '' @ mode @ '')'')))"

definition bucketName :: "environment \<Rightarrow> (js_error, string) result" where
  "bucketName env =
     (case env_value env ''S3_AVATARS_BUCKET'' of
        None \<Rightarrow> Inl (plain_error ''FATAL: S3_AVATARS_BUCKET is required when AVATAR_STORAGE=s3'')
      | Some b \<Rightarrow> Inr b)"

definition s3Client :: "environment \<Rightarrow> (js_error, string) result" where
  "s3Client env =
     (case env_value env ''AWS_REGION'' of
        Some r \<Rightarrow> Inr r
      | None \<Rightarrow> (case env_value env ''AWS_DEFAULT_REGION'' of
            Some r \<Rightarrow> Inr r
          | None \<Rightarrow> Inl (plain_error ''FATAL: AWS_REGION is required when AVATAR_STORAGE=s3'')))"

definition legacyFallbackEnabled :: "environment \<Rightarrow> bool" where
  "legacyFallbackEnabled env \<longleftrightarrow>
     to_lower (case env_value env ''AVATAR_S3_LEGACY_FALLBACK'' of None \<Rightarrow> ''true'' | Some v \<Rightarrow> v) \<noteq> ''false''"

definition isMissing :: "js_error \<Rightarrow> bool" where
  "isMissing e \<longleftrightarrow> error_code e \<in> {Some ''NoSuchKey'', Some ''NotFound'', Some ''NoSuchBucket''} \<or> http_status e = Some 404"

text \<open>
  The surroundings: the environment, the faults of the disk (an operation on a file may fail with
  an error of its own), and the S3 service, whose three calls answer with a promise. A fetched
  object is a stream of chunks that may break off.
\<close>

record 's storage =
  av_env :: environment
  disk_fault :: "string \<Rightarrow> string \<Rightarrow> js_error option"
  s3_put :: "string \<Rightarrow> string \<Rightarrow> bytes \<Rightarrow> 's \<Rightarrow> (js_error, unit) promise \<times> 's"
  s3_get :: "string \<Rightarrow> string \<Rightarrow> 's \<Rightarrow> (js_error, (js_error, bytes list) result \<times> string option) promise"
  s3_delete :: "string \<Rightarrow> string \<Rightarrow> 's \<Rightarrow> (js_error, unit) promise \<times> 's"

record 's media =
  files :: "string \<Rightarrow> bytes option"
  objects :: 's

definition S3_OP_TIMEOUT_MS :: nat where "S3_OP_TIMEOUT_MS = 15000"

definition avatar_withTimeout :: "(js_error, 'a) promise \<Rightarrow> string \<Rightarrow> (js_error, 'a) result" where
  "avatar_withTimeout p what =
     snd (withTimeout p S3_OP_TIMEOUT_MS (plain_error (what @ '' timed out after '' @ show_nat S3_OP_TIMEOUT_MS @ ''ms'')))"

text \<open>Bucket and key of a call, evaluated in the order the code evaluates them.\<close>

definition s3_target :: "environment \<Rightarrow> string \<Rightarrow> (js_error, string \<times> string) result" where
  "s3_target env f =
     bind_result (s3Client env) (\<lambda>_. bind_result (bucketName env) (\<lambda>b. bind_result (keyForFilename f) (\<lambda>k. Inr (b, k))))"

text \<open>
  The file system: writing with flag \<open>wx\<close> does not overwrite (EEXIST), reading or unlinking a
  missing file is ENOENT; a fault is any other error.
\<close>

definition fs_error :: "string \<Rightarrow> js_error" where
  "fs_error code = \<lparr>error_code = Some code, http_status = None, error_message = code\<rparr>"

definition fault :: "'s storage \<Rightarrow> string \<Rightarrow> string \<Rightarrow> js_error option" where
  "fault e op f =
     (case disk_fault e op f of
        Some err \<Rightarrow> if error_code err \<in> {Some ''ENOENT'', Some ''EEXIST''} then None else Some err
      | None \<Rightarrow> None)"

definition fs_read :: "'s storage \<Rightarrow> string \<Rightarrow> 's media \<Rightarrow> (js_error, bytes) result" where
  "fs_read e f m =
     (case fault e ''read'' f of
        Some err \<Rightarrow> Inl err
      | None \<Rightarrow> (case files m f of None \<Rightarrow> Inl (fs_error ''ENOENT'') | Some b \<Rightarrow> Inr b))"

definition fs_unlink :: "'s storage \<Rightarrow> string \<Rightarrow> 's media \<Rightarrow> (js_error, unit) result \<times> 's media" where
  "fs_unlink e f m =
     (case fault e ''unlink'' f of
        Some err \<Rightarrow> (Inl err, m)
      | None \<Rightarrow> if files m f = None then (Inl (fs_error ''ENOENT''), m) else (Inr (), m\<lparr>files := (files m)(f := None)\<rparr>))"

definition writeLocal :: "'s storage \<Rightarrow> string \<Rightarrow> bytes \<Rightarrow> 's media \<Rightarrow> (js_error, unit) result \<times> 's media" where
  "writeLocal e f b m =
     (case fault e ''write'' f of
        Some err \<Rightarrow> (Inl err, m)
      | None \<Rightarrow> if files m f \<noteq> None then (Inl (fs_error ''EEXIST''), m) else (Inr (), m\<lparr>files := (files m)(f \<mapsto> b)\<rparr>))"

record avatar =
  av_body :: bytes
  av_size :: nat
  av_etag :: "string option"
  av_legacy :: bool

definition readLocal :: "'s storage \<Rightarrow> string \<Rightarrow> 's media \<Rightarrow> (js_error, avatar option) result" where
  "readLocal e f m =
     (case fs_read e f m of
        Inr b \<Rightarrow> Inr (Some \<lparr>av_body = b, av_size = length b, av_etag = None, av_legacy = True\<rparr>)
      | Inl err \<Rightarrow> if error_code err = Some ''ENOENT'' then Inr None else Inl err)"

definition write_s3 :: "'s storage \<Rightarrow> string \<Rightarrow> bytes \<Rightarrow> 's media \<Rightarrow> (js_error, unit) result \<times> 's media" where
  "write_s3 e f b m =
     (case s3_target (av_env e) f of
        Inl err \<Rightarrow> (Inl err, m)
      | Inr (bucket, key) \<Rightarrow>
          (let (p, s) = s3_put e bucket key b (objects m) in (avatar_withTimeout p ''S3 PutObject'', m\<lparr>objects := s\<rparr>)))"

definition writeAvatar :: "'s storage \<Rightarrow> string \<Rightarrow> bytes \<Rightarrow> 's media \<Rightarrow> (js_error, store_mode) result \<times> 's media" where
  "writeAvatar e f b m =
     (if \<not> managed_file f then (Inl (plain_error ''Refusing unsafe avatar filename''), m)
      else if b = [] then (Inl (plain_error ''Avatar buffer is empty''), m)
      else case storageMode (av_env e) of
          Inl err \<Rightarrow> (Inl err, m)
        | Inr Local_disk \<Rightarrow>
            (case writeLocal e f b m of (Inl err, m') \<Rightarrow> (Inl err, m') | (Inr _, m') \<Rightarrow> (Inr Local_disk, m'))
        | Inr S3_bucket \<Rightarrow>
            (case write_s3 e f b m of
               (Inl err, m') \<Rightarrow> (Inl (plain_error ''Unable to store avatar''), m')
             | (Inr _, m') \<Rightarrow> (Inr S3_bucket, m')))"

text \<open>One GetObject: the target, the call under its deadline, then the stream.\<close>

definition fetch_s3 :: "'s storage \<Rightarrow> string \<Rightarrow> 's media \<Rightarrow> (js_error, avatar) result" where
  "fetch_s3 e f m =
     bind_result (s3_target (av_env e) f) (\<lambda>(bucket, key).
     bind_result (avatar_withTimeout (s3_get e bucket key (objects m)) ''S3 GetObject'') (\<lambda>(stream, etag).
     bind_result stream (\<lambda>chunks. let b = concat chunks in
     Inr \<lparr>av_body = b, av_size = length b, av_etag = (case etag of Some t \<Rightarrow> if t = [] then None else Some t | None \<Rightarrow> None),
          av_legacy = False\<rparr>)))"

definition readAvatar :: "'s storage \<Rightarrow> string \<Rightarrow> 's media \<Rightarrow> (js_error, avatar option) result" where
  "readAvatar e f m =
     (if \<not> managed_file f then Inr None
      else case storageMode (av_env e) of
          Inl err \<Rightarrow> Inl err
        | Inr Local_disk \<Rightarrow> readLocal e f m
        | Inr S3_bucket \<Rightarrow>
            (case fetch_s3 e f m of
               Inr a \<Rightarrow> Inr (Some a)
             | Inl err \<Rightarrow>
                 if \<not> isMissing err then Inl (plain_error ''Unable to read avatar'')
                 else if \<not> legacyFallbackEnabled (av_env e) then Inr None
                 else readLocal e f m))"

definition unlink_local :: "'s storage \<Rightarrow> string \<Rightarrow> 's media \<Rightarrow> bool \<times> 's media" where
  "unlink_local e f m =
     (case fs_unlink e f m of
        (Inr _, m') \<Rightarrow> (True, m')
      | (Inl err, m') \<Rightarrow> (error_code err = Some ''ENOENT'', m'))"

definition deleteAvatar :: "'s storage \<Rightarrow> string \<Rightarrow> 's media \<Rightarrow> (js_error, bool) result \<times> 's media" where
  "deleteAvatar e f m =
     (if \<not> managed_file f then (Inr True, m)
      else case storageMode (av_env e) of
          Inl err \<Rightarrow> (Inl err, m)
        | Inr Local_disk \<Rightarrow> (let (ok, m') = unlink_local e f m in (Inr ok, m'))
        | Inr S3_bucket \<Rightarrow>
            (case s3_target (av_env e) f of
               Inl err \<Rightarrow> (Inr (isMissing err), m)
             | Inr (bucket, key) \<Rightarrow>
                 (let (p, s) = s3_delete e bucket key (objects m) in
                  case avatar_withTimeout p ''S3 DeleteObject'' of
                    Inr _ \<Rightarrow> (Inr True, m\<lparr>objects := s\<rparr>)
                  | Inl err \<Rightarrow> (Inr (isMissing err), m\<lparr>objects := s\<rparr>))))"

section \<open>The upload\<close>

record image_meta =
  img_width :: nat
  img_height :: nat
  img_pages :: nat
  img_format :: string

text \<open>The image library; a field of the metadata that is missing counts as 0.\<close>

record sharp =
  sharp_metadata :: "bytes \<Rightarrow> (js_error, image_meta) result"
  sharp_webp :: "bytes \<Rightarrow> (js_error, bytes) result"

definition MAX_UPLOAD_BYTES :: nat where "MAX_UPLOAD_BYTES = 2 * 1024 * 1024"

definition decodeAndNormalizeImage :: "sharp \<Rightarrow> bytes \<Rightarrow> (js_error, bytes) result" where
  "decodeAndNormalizeImage sh b =
     (if \<not> hasCompleteContainer b then Inl (plain_error ''Malformed or trailing image content'')
      else bind_result (sharp_metadata sh b) (\<lambda>meta.
        if img_width meta = 0 \<or> img_height meta = 0 \<or> img_pages meta > 1 then Inl (plain_error ''Unsupported image'')
        else if img_format meta \<notin> {''jpeg'', ''png'', ''gif'', ''webp''} then Inl (plain_error ''Unsupported image format'')
        else if img_width meta > 4096 \<or> img_height meta > 4096 then Inl (plain_error ''Image dimensions are too large'')
        else sharp_webp sh b))"

text \<open>What the form parser hands over: one file in memory, no file, or an error.\<close>

datatype multer_result = Got_file bytes | No_file | Multer_error string | Other_error "int option"

text \<open>The last error handler of the server, for an error with the given status.\<close>

definition errorHandler :: "int option \<Rightarrow> reply" where
  "errorHandler err_status =
     (let st = (case err_status of Some s \<Rightarrow> if 400 \<le> s \<and> s < 500 then nat s else 500 | None \<Rightarrow> 500) in
      reply_of st (Error (if st = 404 then ''Resource not found'' else if st = 403 then ''Request rejected'' else ''Internal server error'')))"

definition uploadErrorHandler :: "multer_result \<Rightarrow> (reply, bytes option) result" where
  "uploadErrorHandler r =
     (case r of
        Got_file b \<Rightarrow> Inr (Some b)
      | No_file \<Rightarrow> Inr None
      | Multer_error code \<Rightarrow>
          Inl (if code = ''LIMIT_FILE_SIZE'' then reply_of 413 (Error ''Avatar must not exceed 2 MB'')
               else reply_of 400 (Error ''Invalid avatar upload''))
      | Other_error s \<Rightarrow> Inl (errorHandler s))"

definition avatar_filename :: "nat \<Rightarrow> string \<Rightarrow> string" where
  "avatar_filename i uuid = ''user'' @ show_nat i @ ''-'' @ uuid @ ''.webp''"

definition upload_failure :: "js_error \<Rightarrow> reply" where
  "upload_failure err =
     (if error_code err = Some ''LIMIT_FILE_SIZE'' then reply_of 413 (Error ''Avatar must not exceed 2 MB'')
      else if error_message err = ''Unable to store avatar'' then reply_of 500 (Error ''Unable to store avatar'')
      else reply_of 400 (Error ''A valid PNG, JPEG, GIF, or WebP image is required''))"

definition inspectAndStoreAvatar ::
  "'s storage \<Rightarrow> sharp \<Rightarrow> nat \<Rightarrow> string \<Rightarrow> bytes option \<Rightarrow> 's media \<Rightarrow> (reply, string) result \<times> 's media" where
  "inspectAndStoreAvatar e sh i uuid file m =
     (case file of
        None \<Rightarrow> (Inl (reply_of 400 (Error ''A valid image is required'')), m)
      | Some b \<Rightarrow>
          (case decodeAndNormalizeImage sh b of
             Inl err \<Rightarrow> (Inl (upload_failure err), m)
           | Inr normalized \<Rightarrow>
               (case writeAvatar e (avatar_filename i uuid) normalized m of
                  (Inl err, m') \<Rightarrow> (Inl (upload_failure err), m')
                | (Inr _, m') \<Rightarrow> (Inr (avatar_filename i uuid), m'))))"

text \<open>The endpoint's own handler, after the file is stored.\<close>

definition avatar_undo :: "'s storage \<Rightarrow> string \<Rightarrow> db \<Rightarrow> 's media \<Rightarrow> reply \<times> db \<times> 's media" where
  "avatar_undo e f d m = (reply_of 500 (Error ''Unable to update avatar''), d, snd (deleteAvatar e f m))"

definition avatar_handler :: "'s storage \<Rightarrow> nat \<Rightarrow> string \<Rightarrow> db \<Rightarrow> 's media \<Rightarrow> reply \<times> db \<times> 's media" where
  "avatar_handler e i f d m =
     (case replaceAvatar i (PUBLIC_PREFIX @ f) d of
        (Inr (Some (user, previous)), d') \<Rightarrow>
          (case managedAvatarFilename previous of
             None \<Rightarrow> (reply_of 200 (User_body user), d', m)
           | Some old \<Rightarrow>
               (case deleteAvatar e old m of
                  (Inr _, m') \<Rightarrow> (reply_of 200 (User_body user), d', m')
                | (Inl _, m') \<Rightarrow> avatar_undo e f d' m'))
      | (_, d') \<Rightarrow> avatar_undo e f d' m)"

definition post_avatar ::
  "web \<Rightarrow> 's storage \<Rightarrow> sharp \<Rightarrow> int \<Rightarrow> string option \<Rightarrow> string \<Rightarrow> multer_result \<Rightarrow> db \<Rightarrow> 's media \<Rightarrow> reply \<times> db \<times> 's media" where
  "post_avatar w e sh now token uuid upload d m =
     (case authenticate w now token d of
        None \<Rightarrow> (auth_required, d, m)
      | Some p \<Rightarrow>
          (case uploadErrorHandler upload of
             Inl r \<Rightarrow> (r, d, m)
           | Inr file \<Rightarrow>
               (case inspectAndStoreAvatar e sh (p_id p) uuid file m of
                  (Inl r, m') \<Rightarrow> (r, d, m')
                | (Inr f, m') \<Rightarrow> avatar_handler e (p_id p) f d m')))"

text \<open>Serving an avatar: content type, length, caching and the body.\<close>

definition CONTENT_TYPE :: string where "CONTENT_TYPE = ''image/webp''"

datatype avatar_reply =
    Avatar_bytes "(string \<times> string) list" bytes
  | Avatar_refused reply

definition get_avatar :: "web \<Rightarrow> 's storage \<Rightarrow> int \<Rightarrow> string option \<Rightarrow> string \<Rightarrow> db \<Rightarrow> 's media \<Rightarrow> avatar_reply" where
  "get_avatar w e now token f d m =
     (case authenticate w now token d of
        None \<Rightarrow> Avatar_refused auth_required
      | Some _ \<Rightarrow>
          (case readAvatar e f m of
             Inl _ \<Rightarrow> Avatar_refused (reply_of 500 (Error ''Unable to read avatar''))
           | Inr None \<Rightarrow> Avatar_refused (reply_of 404 (Error ''Resource not found''))
           | Inr (Some a) \<Rightarrow> Avatar_bytes
               ([(''Content-Type'', CONTENT_TYPE), (''Content-Length'', show_nat (av_size a)),
                 (''Cache-Control'', ''private, max-age=3600, immutable'')] @
                (case av_etag a of None \<Rightarrow> [] | Some t \<Rightarrow> [(''ETag'', t)])) (av_body a)))"

section \<open>The contract of the stores\<close>

text \<open>What a store holds under a name, how the three operations change it, and what a read tells.\<close>

locale avatar_store =
  fixes contents :: "'m \<Rightarrow> string \<Rightarrow> bytes option"
    and put_file :: "string \<Rightarrow> bytes \<Rightarrow> 'm \<Rightarrow> ('e, 'x) result \<times> 'm"
    and get_file :: "string \<Rightarrow> 'm \<Rightarrow> ('e, avatar option) result"
    and drop_file :: "string \<Rightarrow> 'm \<Rightarrow> ('e, bool) result \<times> 'm"
  assumes write_stores: "put_file f b m = (Inr x, m') \<Longrightarrow> contents m' f = Some b"
    and write_other: "g \<noteq> f \<Longrightarrow> contents (snd (put_file f b m)) g = contents m g"
    and delete_other: "g \<noteq> f \<Longrightarrow> contents (snd (drop_file f m)) g = contents m g"
    and read_tells: "managed_file f \<Longrightarrow> get_file f m = Inr r \<Longrightarrow> map_option av_body r = contents m f"
begin

lemma replaced:
  assumes "put_file f b m = (Inr x, m1)" "old \<noteq> f"
  shows "contents (snd (drop_file old m1)) f = Some b"
    and "g \<noteq> f \<Longrightarrow> g \<noteq> old \<Longrightarrow> contents (snd (drop_file old m1)) g = contents m g"
  using write_stores [OF assms(1)] delete_other [of _ old m1] write_other [of g f b m] assms
  by auto

lemma undone: "g \<noteq> f \<Longrightarrow> contents (snd (drop_file f (snd (put_file f b m)))) g = contents m g"
  by (simp add: write_other delete_other)

lemma read_after_write:
  assumes "managed_file f" "put_file f b m = (Inr x, m')" "get_file f m' = Inr r"
  shows "map_option av_body r = Some b"
  using read_tells [OF assms(1,3)] write_stores [OF assms(2)] by simp

end

definition in_local_mode :: "'s storage \<Rightarrow> 's storage" where
  "in_local_mode e = e\<lparr>av_env := (av_env e)(''AVATAR_STORAGE'' \<mapsto> ''local'')\<rparr>"

lemma storageMode_local [simp]: "storageMode (av_env (in_local_mode e)) = Inr Local_disk"
  by (simp add: storageMode_def in_local_mode_def env_value_def Let_def) code_simp

lemma readLocal_tells: "readLocal e f m = Inr r \<Longrightarrow> map_option av_body r = files m f"
  by (auto simp: readLocal_def fs_read_def fault_def fs_error_def split: option.splits if_splits sum.splits)

interpretation disk: avatar_store files "writeAvatar (in_local_mode e)" "readAvatar (in_local_mode e)" "deleteAvatar (in_local_mode e)"
  for e :: "'s storage"
proof
  fix f g :: string and b :: bytes and m m' :: "'s media" and x
  show "files m' f = Some b" if "writeAvatar (in_local_mode e) f b m = (Inr x, m')"
    using that by (auto simp: writeAvatar_def writeLocal_def split: if_splits option.splits)
  show "files (snd (writeAvatar (in_local_mode e) f b m)) g = files m g" if "g \<noteq> f"
    using that by (auto simp: writeAvatar_def writeLocal_def split: option.split)
  show "files (snd (deleteAvatar (in_local_mode e) f m)) g = files m g" if "g \<noteq> f"
    using that by (auto simp: deleteAvatar_def unlink_local_def fs_unlink_def split: option.split)
  show "map_option av_body r = files m f" if "managed_file f" "readAvatar (in_local_mode e) f m = Inr r" for r
    using that by (auto simp: readAvatar_def intro: readLocal_tells)
qed

text \<open>
  The documented behaviour of S3, for a view \<open>obj\<close> of what the buckets hold: a successful put is
  visible at once, put and delete touch no other object, an object that is delivered is the
  stored one, and a missing one is reported as missing only when there is none.
\<close>

definition s3_documented :: "'s storage \<Rightarrow> ('s \<Rightarrow> string \<times> string \<Rightarrow> bytes option) \<Rightarrow> bool" where
  "s3_documented e obj \<longleftrightarrow>
     (\<forall>b k v s t. fst (s3_put e b k v s) = Settled t (Inr ()) \<longrightarrow> obj (snd (s3_put e b k v s)) (b, k) = Some v) \<and>
     (\<forall>b k v s x. x \<noteq> (b, k) \<longrightarrow> obj (snd (s3_put e b k v s)) x = obj s x) \<and>
     (\<forall>b k s x. x \<noteq> (b, k) \<longrightarrow> obj (snd (s3_delete e b k s)) x = obj s x) \<and>
     (\<forall>b k s t chunks etag. s3_get e b k s = Settled t (Inr (Inr chunks, etag)) \<longrightarrow> obj s (b, k) = Some (concat chunks)) \<and>
     (\<forall>b k s t err. s3_get e b k s = Settled t (Inl err) \<longrightarrow> isMissing err \<longrightarrow> obj s (b, k) = None) \<and>
     (\<forall>b k s t err etag. s3_get e b k s = Settled t (Inr (Inl err, etag)) \<longrightarrow> \<not> isMissing err)"

lemma s3_laws:
  assumes "s3_documented e obj"
  shows "s3_put e b k v s = (Settled t (Inr ()), s') \<Longrightarrow> obj s' (b, k) = Some v"
    and "x \<noteq> (b, k) \<Longrightarrow> obj (snd (s3_put e b k v s)) x = obj s x"
    and "x \<noteq> (b, k) \<Longrightarrow> obj (snd (s3_delete e b k s)) x = obj s x"
    and "s3_get e b k s = Settled t (Inr (Inr chunks, etag)) \<Longrightarrow> obj s (b, k) = Some (concat chunks)"
    and "s3_get e b k s = Settled t (Inl err) \<Longrightarrow> isMissing err \<Longrightarrow> obj s (b, k) = None"
    and "s3_get e b k s = Settled t (Inr (Inl err, etag)) \<Longrightarrow> \<not> isMissing err"
proof -
  note laws = assms [unfolded s3_documented_def]
  show "s3_put e b k v s = (Settled t (Inr ()), s') \<Longrightarrow> obj s' (b, k) = Some v"
    using laws by (metis fst_conv snd_conv)
  show "x \<noteq> (b, k) \<Longrightarrow> obj (snd (s3_put e b k v s)) x = obj s x"
    using laws by metis
  show "x \<noteq> (b, k) \<Longrightarrow> obj (snd (s3_delete e b k s)) x = obj s x"
    using laws by metis
  show "s3_get e b k s = Settled t (Inr (Inr chunks, etag)) \<Longrightarrow> obj s (b, k) = Some (concat chunks)"
    using laws by metis
  show "s3_get e b k s = Settled t (Inl err) \<Longrightarrow> isMissing err \<Longrightarrow> obj s (b, k) = None"
    using laws by metis
  show "s3_get e b k s = Settled t (Inr (Inl err, etag)) \<Longrightarrow> \<not> isMissing err"
    using laws by metis
qed

text \<open>What is stored under a name, in either mode.\<close>

definition stored :: "'s storage \<Rightarrow> ('s \<Rightarrow> string \<times> string \<Rightarrow> bytes option) \<Rightarrow> 's media \<Rightarrow> string \<Rightarrow> bytes option" where
  "stored e obj m f =
     (if storageMode (av_env e) = Inr Local_disk then files m f
      else case s3_target (av_env e) f of
          Inl _ \<Rightarrow> None
        | Inr x \<Rightarrow>
            (case obj (objects m) x of
               Some b \<Rightarrow> Some b
             | None \<Rightarrow> if legacyFallbackEnabled (av_env e) then files m f else None))"

lemma s3_target_other:
  assumes "s3_target env f = Inr x" "s3_target env g = Inr y" "f \<noteq> g"
  shows "x \<noteq> y"
  using assms by (auto simp: s3_target_def bind_result_Inr_iff keyForFilename_def split: if_splits)

lemma config_not_missing: "s3_target env f = Inl err \<Longrightarrow> \<not> isMissing err"
  by (auto simp: s3_target_def bind_result_def s3Client_def bucketName_def keyForFilename_def isMissing_def plain_error_def
      split: sum.splits option.splits if_splits)

lemma timeout_not_missing: "avatar_withTimeout p what = Inl err \<Longrightarrow> isMissing err \<Longrightarrow> \<exists>t. p = Settled t (Inl err)"
  by (auto simp: avatar_withTimeout_def withTimeout_def isMissing_def plain_error_def split: promise.splits if_splits)

lemma avatar_withTimeout_Inr: "avatar_withTimeout p what = Inr x \<Longrightarrow> \<exists>t. p = Settled t (Inr x)"
  by (auto simp: avatar_withTimeout_def withTimeout_def split: promise.splits if_splits)

lemma fetch_s3_Inr:
  assumes "s3_documented e obj" "fetch_s3 e f m = Inr a"
  shows "\<exists>x. s3_target (av_env e) f = Inr x \<and> obj (objects m) x = Some (av_body a)"
proof -
  obtain bucket key where target: "s3_target (av_env e) f = Inr (bucket, key)"
    using assms(2) by (cases "s3_target (av_env e) f") (auto simp: fetch_s3_def)
  obtain stream etag where got: "avatar_withTimeout (s3_get e bucket key (objects m)) ''S3 GetObject'' = Inr (stream, etag)"
    using assms(2) target by (cases "avatar_withTimeout (s3_get e bucket key (objects m)) ''S3 GetObject''") (auto simp: fetch_s3_def)
  obtain chunks where c: "stream = Inr chunks" "av_body a = concat chunks"
    using assms(2) target got by (cases stream) (auto simp: fetch_s3_def Let_def)
  obtain t where "s3_get e bucket key (objects m) = Settled t (Inr (Inr chunks, etag))"
    using avatar_withTimeout_Inr [OF got] c by blast
  from s3_laws(4) [OF assms(1) this] target c show ?thesis by simp
qed

lemma fetch_s3_missing:
  assumes "s3_documented e obj" "fetch_s3 e f m = Inl err" "isMissing err"
  shows "\<exists>x. s3_target (av_env e) f = Inr x \<and> obj (objects m) x = None"
proof (cases "s3_target (av_env e) f")
  case (Inl err2)
  then show ?thesis
    using assms(2,3) config_not_missing [of "av_env e" f err] by (simp add: fetch_s3_def)
next
  case target: (Inr x)
  obtain bucket key where x: "x = (bucket, key)" by (cases x)
  show ?thesis
  proof (cases "avatar_withTimeout (s3_get e bucket key (objects m)) ''S3 GetObject''")
    case (Inl err2)
    then obtain t where "s3_get e bucket key (objects m) = Settled t (Inl err)"
      using assms(2,3) target x timeout_not_missing [OF Inl] by (auto simp: fetch_s3_def)
    from s3_laws(5) [OF assms(1) this assms(3)] target x show ?thesis by simp
  next
    case (Inr y)
    obtain stream etag where y: "y = (stream, etag)" by (cases y)
    have "stream = Inl err"
      using assms(2) Inr x y target by (auto simp: fetch_s3_def bind_result_def Let_def split: sum.splits)
    then obtain t where "s3_get e bucket key (objects m) = Settled t (Inr (Inl err, etag))"
      using avatar_withTimeout_Inr [OF Inr] y by blast
    from s3_laws(6) [OF assms(1) this] assms(3) show ?thesis by blast
  qed
qed

lemma stored_other_object:
  assumes "s3_target (av_env e) f = Inr x" "g \<noteq> f" "\<And>y. y \<noteq> x \<Longrightarrow> obj s y = obj (objects m) y"
  shows "stored e obj (m\<lparr>objects := s\<rparr>) g = stored e obj m g"
proof (cases "s3_target (av_env e) g")
  case (Inr y)
  then have "y \<noteq> x"
    using s3_target_other [OF assms(1)] assms(2) by metis
  with Inr assms(3) show ?thesis by (simp add: stored_def split: option.split)
qed (simp add: stored_def)

lemma stored_other_file: "g \<noteq> f \<Longrightarrow> stored e obj (m\<lparr>files := (files m)(f := v)\<rparr>) g = stored e obj m g"
  by (simp add: stored_def split: sum.split option.split)

lemma local_other:
  "g \<noteq> f \<Longrightarrow> stored e obj (snd (writeLocal e f b m)) g = stored e obj m g"
  "g \<noteq> f \<Longrightarrow> stored e obj (snd (unlink_local e f m)) g = stored e obj m g"
  by (auto simp: writeLocal_def unlink_local_def fs_unlink_def stored_other_file split: option.split)

text \<open>Both modes meet the contract, whatever the configuration.\<close>

lemma avatar_store_contract:
  assumes "s3_documented e obj"
  shows "avatar_store (stored e obj) (writeAvatar e) (readAvatar e) (deleteAvatar e)"
proof
  fix f g :: string and b :: bytes and m m' x
  show "stored e obj m' f = Some b" if "writeAvatar e f b m = (Inr x, m')"
  proof (cases "storageMode (av_env e) = Inr Local_disk")
    case True
    then show ?thesis
      using that by (auto simp: writeAvatar_def writeLocal_def stored_def split: if_splits option.splits)
  next
    case False
    with that obtain y where w: "write_s3 e f b m = (Inr y, m')" "storageMode (av_env e) = Inr S3_bucket"
      by (auto simp: writeAvatar_def split: if_splits sum.splits store_mode.splits prod.splits)
    then obtain bucket key p s where t: "s3_target (av_env e) f = Inr (bucket, key)" "s3_put e bucket key b (objects m) = (p, s)"
      "avatar_withTimeout p ''S3 PutObject'' = Inr y" "m' = m\<lparr>objects := s\<rparr>"
      by (auto simp: write_s3_def split: sum.splits prod.splits)
    then show ?thesis
      using avatar_withTimeout_Inr [OF t(3)] s3_laws(1) [OF assms] w(2) by (fastforce simp: stored_def)
  qed
  show "stored e obj (snd (writeAvatar e f b m)) g = stored e obj m g" if "g \<noteq> f"
  proof -
    have "stored e obj (snd (write_s3 e f b m)) g = stored e obj m g"
      using that s3_laws(2) [OF assms] stored_other_object [of e f _ g obj _ m]
      by (auto simp: write_s3_def split: sum.split prod.split) (metis snd_conv)
    then show ?thesis
      using local_other(1) [OF that, of e obj b m]
      by (auto simp: writeAvatar_def split: sum.split store_mode.split prod.split)
  qed
  show "stored e obj (snd (deleteAvatar e f m)) g = stored e obj m g" if "g \<noteq> f"
  proof (cases "s3_target (av_env e) f")
    case (Inl err)
    then show ?thesis
      using local_other(2) [OF that, of e obj m] by (simp add: deleteAvatar_def split_beta split: sum.split store_mode.split)
  next
    case (Inr x)
    obtain bucket key where x: "x = (bucket, key)" by (cases x)
    have "stored e obj (m\<lparr>objects := snd (s3_delete e bucket key (objects m))\<rparr>) g = stored e obj m g"
      by (rule stored_other_object [OF Inr that]) (simp add: s3_laws(3) [OF assms] x)
    then show ?thesis
      using local_other(2) [OF that, of e obj m] Inr x
      by (simp add: deleteAvatar_def split_beta Let_def split: sum.split store_mode.split)
  qed
  show "map_option av_body r = stored e obj m f" if "managed_file f" "readAvatar e f m = Inr r" for r
  proof (cases "storageMode (av_env e) = Inr Local_disk")
    case True
    then show ?thesis
      using that readLocal_tells [of e f m r] by (simp add: readAvatar_def stored_def)
  next
    case False
    then have mode: "storageMode (av_env e) = Inr S3_bucket"
      using that by (auto simp: readAvatar_def split: sum.splits store_mode.splits)
    show ?thesis
    proof (cases "fetch_s3 e f m")
      case (Inr a)
      with that mode have "r = Some a" by (simp add: readAvatar_def)
      with fetch_s3_Inr [OF assms Inr] False show ?thesis by (auto simp: stored_def)
    next
      case (Inl err)
      with that mode have miss: "isMissing err" by (auto simp: readAvatar_def split: if_splits)
      with that mode Inl have "r = None \<and> \<not> legacyFallbackEnabled (av_env e) \<or> legacyFallbackEnabled (av_env e) \<and> readLocal e f m = Inr r"
        by (auto simp: readAvatar_def split: if_splits)
      with fetch_s3_missing [OF assms Inl miss] False readLocal_tells [of e f m r] show ?thesis
        by (auto simp: stored_def)
    qed
  qed
qed

section \<open>The effect of an upload\<close>

lemma replaceAvatar_cases:
  obtains cur where "filter (\<lambda>u. u_id u = i) (users d) = [cur]"
    "replaceAvatar i url d = (Inr (Some (profile_columns (cur\<lparr>u_avatar := Some url\<rparr>), u_avatar cur)),
       d\<lparr>users := update_where (\<lambda>u. u_id u = i) (\<lambda>u. u\<lparr>u_avatar := Some url\<rparr>) (users d)\<rparr>)"
  | "replaceAvatar i url d = (Inr None, d)"
proof -
  let ?f = "\<lambda>u. u\<lparr>u_avatar := Some url\<rparr>"
  have rows: "filter (\<lambda>u. u_id u = i) (update_where (\<lambda>u. u_id u = i) ?f us) = map ?f (filter (\<lambda>u. u_id u = i) us)" for us
    by (induction us) simp_all
  show ?thesis
  proof (cases "filter (\<lambda>u. u_id u = i) (users d)")
    case Nil
    then show ?thesis
      using that(2) by (simp add: replaceAvatar_def transaction_def)
  next
    case (Cons cur more)
    show ?thesis
    proof (cases more)
      case Nil
      then show ?thesis
        using that(1) Cons by (simp add: replaceAvatar_def transaction_def update_user_def rows)
    next
      case (Cons x xs)
      then show ?thesis
        using that(2) \<open>filter _ _ = cur # more\<close> by (simp add: replaceAvatar_def transaction_def)
    qed
  qed
qed


lemma find_single: "filter (\<lambda>u. u_id u = i) us = [cur] \<Longrightarrow> List.find (\<lambda>u. u_id u = i) us = Some cur"
  by (induction us) (auto split: if_splits)

lemma deleteAvatar_total: "storageMode (av_env e) = Inr mode \<Longrightarrow> \<exists>ok. fst (deleteAvatar e f m) = Inr ok"
  by (auto simp: deleteAvatar_def split: store_mode.split sum.split prod.split)

lemma writeAvatar_mode: "writeAvatar e f b m = (Inr mode, m') \<Longrightarrow> storageMode (av_env e) = Inr mode"
  by (auto simp: writeAvatar_def split: if_splits sum.splits store_mode.splits prod.splits)

lemma not_ok_replies [simp]:
  "status (upload_failure err) \<noteq> 200" "uploadErrorHandler x = Inl r \<Longrightarrow> status r \<noteq> 200"
  by (auto simp: upload_failure_def uploadErrorHandler_def errorHandler_def reply_of_def Let_def
      split: multer_result.splits if_splits option.splits)

definition previous_file :: "nat \<Rightarrow> db \<Rightarrow> string option" where
  "previous_file i d = (case find_user i d of None \<Rightarrow> None | Some u \<Rightarrow> managedAvatarFilename (u_avatar u))"

lemma avatar_handler_effect:
  assumes store: "avatar_store contents (writeAvatar e) (readAvatar e) (deleteAvatar e)"
    and wr: "writeAvatar e f b m0 = (Inr mode, m)"
    and fresh: "list_all (\<lambda>u. u_avatar u \<noteq> Some (PUBLIC_PREFIX @ f)) (users d)"
    and h: "avatar_handler e i f d m = (r, d', m')"
  shows "if status r = 200
     then contents m' f = Some b \<and> (\<forall>g. g \<noteq> f \<and> Some g \<noteq> previous_file i d \<longrightarrow> contents m' g = contents m0 g) \<and>
       find_user i d \<noteq> None \<and>
       d' = d\<lparr>users := update_where (\<lambda>u. u_id u = i) (\<lambda>u. u\<lparr>u_avatar := Some (PUBLIC_PREFIX @ f)\<rparr>) (users d)\<rparr>
     else d' = d \<and> (\<forall>g. g \<noteq> f \<longrightarrow> contents m' g = contents m0 g)"
proof (rule replaceAvatar_cases [of i d "PUBLIC_PREFIX @ f"])
  fix cur
  assume cur: "filter (\<lambda>u. u_id u = i) (users d) = [cur]"
    and q: "replaceAvatar i (PUBLIC_PREFIX @ f) d =
      (Inr (Some (profile_columns (cur\<lparr>u_avatar := Some (PUBLIC_PREFIX @ f)\<rparr>), u_avatar cur)),
       d\<lparr>users := update_where (\<lambda>u. u_id u = i) (\<lambda>u. u\<lparr>u_avatar := Some (PUBLIC_PREFIX @ f)\<rparr>) (users d)\<rparr>)"
  have find: "find_user i d = Some cur"
    unfolding find_user_def by (rule find_single [OF cur])
  have m0: "contents m f = Some b" "g \<noteq> f \<Longrightarrow> contents m g = contents m0 g" for g
    using avatar_store.write_stores [OF store wr] avatar_store.write_other [OF store, of g f b m0] wr by simp_all
  show ?thesis
  proof (cases "managedAvatarFilename (u_avatar cur)")
    case None
    then show ?thesis
      using h q m0 find by (auto simp: avatar_handler_def reply_of_def)
  next
    case (Some old)
    have "cur \<in> set (users d)"
      using cur by (auto simp: filter_eq_Cons_iff)
    then have ne: "old \<noteq> f"
      using fresh managedAvatarFilename_Some [OF Some] by (auto simp: list_all_iff)
    obtain ok where ok: "fst (deleteAvatar e old m) = Inr ok"
      using deleteAvatar_total [OF writeAvatar_mode [OF wr]] by blast
    then have res: "r = reply_of 200 (User_body (profile_columns (cur\<lparr>u_avatar := Some (PUBLIC_PREFIX @ f)\<rparr>)))"
      "m' = snd (deleteAvatar e old m)"
      "d' = d\<lparr>users := update_where (\<lambda>u. u_id u = i) (\<lambda>u. u\<lparr>u_avatar := Some (PUBLIC_PREFIX @ f)\<rparr>) (users d)\<rparr>"
      using h q Some by (auto simp: avatar_handler_def split: prod.splits)
    have "previous_file i d = Some old"
      using find Some by (simp add: previous_file_def)
    then show ?thesis
      using avatar_store.replaced(1) [OF store wr ne] avatar_store.replaced(2) [OF store wr ne] find
      unfolding res by (auto simp: reply_of_def)
  qed
next
  assume "replaceAvatar i (PUBLIC_PREFIX @ f) d = (Inr None, d)"
  then show ?thesis
    using h avatar_store.undone [OF store, of _ f b m0] wr by (auto simp: avatar_handler_def avatar_undo_def reply_of_def)
qed

text \<open>
  C31. An upload is all or nothing, with local files as with S3. After a 200 the new image, decoded
  and re-encoded, is what is stored under the new name, the user's row and only that row points
  to it, and of all other stored avatars only the user's previous one may be gone; after any other
  reply no row has changed and no stored avatar other than the new name is touched.
\<close>

theorem avatar_upload_effect:
  assumes "s3_documented e obj" and "authenticate w now token d = Some p"
    and "list_all (\<lambda>u. u_avatar u \<noteq> Some (PUBLIC_PREFIX @ avatar_filename (p_id p) uuid)) (users d)"
    and "post_avatar w e sh now token uuid upload d m = (r, d', m')"
  shows "let f = avatar_filename (p_id p) uuid in
     if status r = 200 then
       \<exists>b webp. upload = Got_file b \<and> hasCompleteContainer b \<and> decodeAndNormalizeImage sh b = Inr webp \<and>
         stored e obj m' f = Some webp \<and>
         (\<forall>g. g \<noteq> f \<and> Some g \<noteq> previous_file (p_id p) d \<longrightarrow> stored e obj m' g = stored e obj m g) \<and>
         d' = d\<lparr>users := update_where (\<lambda>u. u_id u = p_id p) (\<lambda>u. u\<lparr>u_avatar := Some (PUBLIC_PREFIX @ f)\<rparr>) (users d)\<rparr>
     else d' = d \<and> (\<forall>g. g \<noteq> f \<longrightarrow> stored e obj m' g = stored e obj m g)"
proof -
  let ?f = "avatar_filename (p_id p) uuid"
  note store = avatar_store_contract [OF assms(1)]
  show ?thesis
  proof (cases "uploadErrorHandler upload")
    case (Inl r2)
    then show ?thesis
      using assms(2,4) by (auto simp: post_avatar_def Let_def)
  next
    case up: (Inr got)
    show ?thesis
    proof (cases got)
      case None
      then show ?thesis
        using assms(2,4) up by (auto simp: post_avatar_def inspectAndStoreAvatar_def reply_of_def Let_def)
    next
      case some: (Some b)
      show ?thesis
      proof (cases "decodeAndNormalizeImage sh b")
        case (Inl err)
        then show ?thesis
          using assms(2,4) up some by (auto simp: post_avatar_def inspectAndStoreAvatar_def Let_def)
      next
        case img: (Inr webp)
        obtain res m1 where wr: "writeAvatar e ?f webp m = (res, m1)" by (cases "writeAvatar e ?f webp m")
        have "upload = Got_file b"
          using up some by (auto simp: uploadErrorHandler_def split: multer_result.splits)
        moreover have "hasCompleteContainer b"
          using img by (auto simp: decodeAndNormalizeImage_def split: if_splits)
        ultimately show ?thesis
        proof (cases res)
          case (Inl err)
          then show ?thesis
            using assms(2,4) up some img wr avatar_store.write_other [OF store, of _ ?f webp m]
            by (auto simp: post_avatar_def inspectAndStoreAvatar_def Let_def)
        next
          case (Inr mode)
          then have "avatar_handler e (p_id p) ?f d m1 = (r, d', m')"
            using assms(2,4) up some img wr by (simp add: post_avatar_def inspectAndStoreAvatar_def)
          from avatar_handler_effect [OF store wr [unfolded Inr] assms(3) this] img
            \<open>upload = Got_file b\<close> \<open>hasCompleteContainer b\<close> show ?thesis
            by (auto simp: Let_def split: if_splits)
        qed
      qed
    qed
  qed
qed

lemma avatar_handler_200:
  assumes "filter (\<lambda>u. u_id u = i) (users d) = [cur]" "storageMode (av_env e) = Inr mode"
  shows "status (fst (avatar_handler e i f d m)) = 200"
proof (rule replaceAvatar_cases [of i d "PUBLIC_PREFIX @ f"])
  fix c
  assume "replaceAvatar i (PUBLIC_PREFIX @ f) d =
    (Inr (Some (profile_columns (c\<lparr>u_avatar := Some (PUBLIC_PREFIX @ f)\<rparr>), u_avatar c)),
     d\<lparr>users := update_where (\<lambda>u. u_id u = i) (\<lambda>u. u\<lparr>u_avatar := Some (PUBLIC_PREFIX @ f)\<rparr>) (users d)\<rparr>)"
  then show ?thesis
    using deleteAvatar_total [OF assms(2), of _ m]
    by (auto simp: avatar_handler_def reply_of_def split: option.split prod.split sum.split) (metis fst_conv sum.distinct(1))
next
  assume "replaceAvatar i (PUBLIC_PREFIX @ f) d = (Inr None, d)"
  with assms(1) show ?thesis
    by (auto simp: replaceAvatar_def transaction_def update_user_def qbind_def split: list.splits sum.splits prod.splits)
qed

lemma post_avatar_200:
  assumes "authenticate w now token d = Some p" "decodeAndNormalizeImage sh b = Inr img"
    and "fst (writeAvatar e (avatar_filename (p_id p) uuid) img m) = Inr mode"
    and "filter (\<lambda>u. u_id u = p_id p) (users d) = [cur]"
  shows "status (fst (post_avatar w e sh now token uuid (Got_file b) d m)) = 200"
proof -
  obtain m1 where wr: "writeAvatar e (avatar_filename (p_id p) uuid) img m = (Inr mode, m1)"
    using assms(3) by (cases "writeAvatar e (avatar_filename (p_id p) uuid) img m") auto
  from avatar_handler_200 [OF assms(4) writeAvatar_mode [OF wr]] show ?thesis
    using assms(1,2) wr by (simp add: post_avatar_def uploadErrorHandler_def inspectAndStoreAvatar_def)
qed

text \<open>A disk, one user with an old avatar, and a small PNG file.\<close>

definition demo_png :: bytes where
  "demo_png = PNG_SIGNATURE @ [0, 0, 0, 0, 73, 69, 78, 68, 1, 2, 3, 4]"

definition demo_sharp :: sharp where
  "demo_sharp = \<lparr>sharp_metadata = \<lambda>_. Inr \<lparr>img_width = 1, img_height = 1, img_pages = 0, img_format = ''png''\<rparr>, sharp_webp = \<lambda>b. Inr [9, 9]\<rparr>"

text \<open>A service that keeps its objects in a map.\<close>

definition map_s3 :: "environment \<Rightarrow> (string \<times> string \<Rightarrow> bytes option) storage" where
  "map_s3 env =
     \<lparr>av_env = env, disk_fault = \<lambda>_ _. None,
      s3_put = (\<lambda>b k v s. (Settled 5 (Inr ()), s((b, k) \<mapsto> v))),
      s3_get = (\<lambda>b k s. case s (b, k) of
         None \<Rightarrow> Settled 5 (Inl \<lparr>error_code = Some ''NoSuchKey'', http_status = Some 404, error_message = []\<rparr>)
       | Some v \<Rightarrow> Settled 5 (Inr (Inr [v], None))),
      s3_delete = (\<lambda>b k s. (Settled 5 (Inr ()), s((b, k) := None)))\<rparr>"

lemma map_s3_documented: "s3_documented (map_s3 env) (\<lambda>s. s)"
  by (auto simp: s3_documented_def map_s3_def split: option.splits)

definition avatar_web :: web where
  "avatar_web =
     \<lparr>w_crypto = \<lparr>hashToken = (\<lambda>x. x), bcrypt_hash = (\<lambda>x. x), bcrypt_compare = (=), jwt_sign = (\<lambda>p t. []),
                   jwt_verify = (\<lambda>s t. Some \<lparr>p_id = 7, p_username = ''ann'', p_email = ''a@x'', p_session = 0\<rparr>)\<rparr>,
      isEmail = (\<lambda>_. True), normalizeEmail = (\<lambda>x. x), production = False, frontend_url = None,
      resolve_url = (\<lambda>p b. b @ p), smtp_accepts = (\<lambda>_. True)\<rparr>"

definition avatar_db :: db where
  "avatar_db = empty_db\<lparr>users := [\<lparr>u_id = 7, u_username = ''ann'', u_email = ''a@x'', u_password = [],
     u_avatar = Some ''/uploads/avatars/user7-0.webp'', u_bio = None, u_elo = 1200, u_verified = Some 0, u_session = 0, u_created = 0\<rparr>]\<rparr>"

definition s3_env :: environment where
  "s3_env = [''AVATAR_STORAGE'' \<mapsto> ''s3'', ''S3_AVATARS_BUCKET'' \<mapsto> ''bucket'', ''AWS_REGION'' \<mapsto> ''r'']"

definition demo_payload :: payload where
  "demo_payload = \<lparr>p_id = 7, p_username = ''ann'', p_email = ''a@x'', p_session = 0\<rparr>"

definition demo_media :: "(string \<times> string \<Rightarrow> bytes option) media" where
  "demo_media = \<lparr>files = Map.empty, objects = [(''bucket'', ''avatars/user7-0.webp'') \<mapsto> [1], (''bucket'', ''avatars/user8-0.webp'') \<mapsto> [2]]\<rparr>"

definition new_name :: string where
  "new_name = avatar_filename (p_id demo_payload) ''0a-1''"

definition other_name :: string where
  "other_name = ''user8-0.webp''"

theorem avatar_upload_effect_witness:
  "let (r, d', m') = post_avatar avatar_web (map_s3 s3_env) demo_sharp 1 (Some ''t'') ''0a-1'' (Got_file demo_png) avatar_db demo_media
   in status r = 200 \<and> stored (map_s3 s3_env) (\<lambda>s. s) m' new_name = Some [9, 9] \<and>
      stored (map_s3 s3_env) (\<lambda>s. s) m' other_name = Some [2] \<and> map u_avatar (users d') = [Some (PUBLIC_PREFIX @ new_name)]"
proof -
  obtain r d' m' where run: "post_avatar avatar_web (map_s3 s3_env) demo_sharp 1 (Some ''t'') ''0a-1'' (Got_file demo_png) avatar_db demo_media = (r, d', m')"
    using prod_cases3 by blast
  have auth: "authenticate avatar_web 1 (Some ''t'') avatar_db = Some demo_payload"
    by code_simp
  have img: "decodeAndNormalizeImage demo_sharp demo_png = Inr [9, 9]"
    by code_simp
  have other: "stored (map_s3 s3_env) (\<lambda>s. s) demo_media other_name = Some [2]"
    by code_simp
  have target: "managed_file new_name" "storageMode s3_env = Inr S3_bucket" "other_name \<noteq> new_name"
    "Some other_name \<noteq> previous_file (p_id demo_payload) avatar_db" "s3_target s3_env new_name = Inr (''bucket'', ''avatars/'' @ new_name)"
    by code_simp+
  have fresh: "list_all (\<lambda>u. u_avatar u \<noteq> Some (PUBLIC_PREFIX @ avatar_filename (p_id demo_payload) ''0a-1'')) (users avatar_db)"
    by code_simp
  have "fst (writeAvatar (map_s3 s3_env) (avatar_filename (p_id demo_payload) ''0a-1'') [9, 9] demo_media) = Inr S3_bucket"
    using target(1,2,5) unfolding new_name_def
    by (simp add: writeAvatar_def write_s3_def map_s3_def avatar_withTimeout_def withTimeout_def S3_OP_TIMEOUT_MS_def)
  moreover have "filter (\<lambda>u. u_id u = p_id demo_payload) (users avatar_db) = [hd (users avatar_db)]"
    by (simp add: avatar_db_def demo_payload_def)
  ultimately have r: "status r = 200"
    using post_avatar_200 [OF auth img] run by (metis fst_conv)
  from avatar_upload_effect [OF map_s3_documented auth fresh run]
  obtain b webp where eff: "Got_file demo_png = Got_file b" "decodeAndNormalizeImage demo_sharp b = Inr webp"
    "stored (map_s3 s3_env) (\<lambda>s. s) m' new_name = Some webp"
    "\<forall>g. g \<noteq> new_name \<and> Some g \<noteq> previous_file (p_id demo_payload) avatar_db \<longrightarrow>
       stored (map_s3 s3_env) (\<lambda>s. s) m' g = stored (map_s3 s3_env) (\<lambda>s. s) demo_media g"
    "d' = avatar_db\<lparr>users := update_where (\<lambda>u. u_id u = p_id demo_payload) (\<lambda>u. u\<lparr>u_avatar := Some (PUBLIC_PREFIX @ new_name)\<rparr>) (users avatar_db)\<rparr>"
    unfolding Let_def new_name_def [symmetric] if_P [OF r] by (elim exE conjE) (rule that)
  have "webp = [9, 9]"
    using eff(1,2) img by simp
  moreover have "map u_avatar (users d') = [Some (PUBLIC_PREFIX @ new_name)]"
    unfolding eff(5) by (simp add: avatar_db_def demo_payload_def)
  ultimately show ?thesis
    using eff(3) spec [OF eff(4), of other_name] other target(3,4) r unfolding run by simp
qed

text \<open>
  In local mode a failed write is answered like a bad image, with 400, although the store and not
  the image is at fault.
\<close>

lemma local_write_failure_is_400:
  assumes "decodeAndNormalizeImage sh b = Inr img" "managed_file (avatar_filename i uuid)" "img \<noteq> []"
    and "disk_fault e ''write'' (avatar_filename i uuid) = Some err" "error_code err = Some ''ENOSPC''"
    and "error_message err = ''ENOSPC: no space left on device''"
  shows "fst (inspectAndStoreAvatar (in_local_mode e) sh i uuid (Some b) m) =
     Inl (reply_of 400 (Error ''A valid PNG, JPEG, GIF, or WebP image is required''))"
proof -
  have "fault (in_local_mode e) ''write'' (avatar_filename i uuid) = Some err"
    using assms(4,5) by (simp add: fault_def in_local_mode_def)
  then have "fst (writeAvatar (in_local_mode e) (avatar_filename i uuid) img m) = Inl err"
    using assms(2,3) by (simp add: writeAvatar_def writeLocal_def)
  then show ?thesis
    using assms(1,5,6) by (auto simp: inspectAndStoreAvatar_def upload_failure_def split: prod.splits)
qed

end
