(* ===== verification/Server.thy ===== *)
theory Server
  imports RateLimits Migrations Avatars
begin

text \<open>
  The server process (server.js): the order of the gates every HTTP request passes, the request
  headers it is given, the probes, the last error handler (\<open>errorHandler\<close>, in Avatars), the database connection loop and the
  startup sequence. Express, cors and the rate limiting library are not under src/: mounting is
  modelled as Express documents it (a mount path matches itself and everything below it, without
  regard to case), and whether a limiter rejects a request is the parameter \<open>limited\<close>.
\<close>

section \<open>Requests\<close>

record http_request =
  rq_method :: string
  rq_path :: string
  rq_origin :: "string option"
  rq_site :: "string option"
  rq_client :: "string option"

text \<open>The origin callback of cors: allowed, or an error with status 403.\<close>

definition buildCors :: "string list \<Rightarrow> string option \<Rightarrow> (int, unit) result" where
  "buildCors allowed orig =
     (case orig of
        None \<Rightarrow> Inr ()
      | Some v \<Rightarrow> if v = [] \<or> v \<in> set allowed then Inr () else Inl 403)"

definition HEX :: string where "HEX = ''0123456789abcdef''"

definition is_hex_of :: "nat \<Rightarrow> string \<Rightarrow> bool" where
  "is_hex_of n s \<longleftrightarrow> length s = n \<and> list_all (\<lambda>c. c \<in> set HEX) s"

definition valid_traceparent :: "string \<Rightarrow> bool" where
  "valid_traceparent s \<longleftrightarrow>
     (case split_on (CHR ''-'') s of
        [a, b, c, d] \<Rightarrow> is_hex_of 2 a \<and> is_hex_of 32 b \<and> is_hex_of 16 c \<and> is_hex_of 2 d
      | _ \<Rightarrow> False)"

text \<open>The headers of the reply: the fresh id, and the caller's trace context only when well formed.\<close>

definition correlation_headers :: "string \<Rightarrow> string option \<Rightarrow> (string \<times> string) list" where
  "correlation_headers uuid traceparent =
     (''X-Request-Id'', uuid) #
     (case traceparent of Some t \<Rightarrow> if valid_traceparent t then [(''traceparent'', t)] else [] | None \<Rightarrow> [])"

text \<open>No header of a caller can smuggle a line break into the reply.\<close>

lemma traceparent_chars: "valid_traceparent s \<Longrightarrow> c \<in> set s \<Longrightarrow> c \<in> insert (CHR ''-'') (set HEX)"
proof -
  assume v: "valid_traceparent s" and c: "c \<in> set s"
  have parts: "set s \<subseteq> insert x (\<Union>p \<in> set (split_on x s). set p)" for x and s :: string
  proof (induction s)
    case (Cons a s)
    then show ?case by (cases "split_on x s") auto
  qed simp
  have "\<forall>p \<in> set (split_on (CHR ''-'') s). \<forall>d \<in> set p. d \<in> set HEX"
    using v by (auto simp: valid_traceparent_def is_hex_of_def list_all_iff split: list.splits)
  then show ?thesis
    using parts [of s "CHR ''-''"] c by auto
qed

section \<open>Admission\<close>

definition mounted :: "string \<Rightarrow> string \<Rightarrow> bool" where
  "mounted route path \<longleftrightarrow>
     (let r = to_lower route; p = to_lower path in p = r \<or> take (length r + 1) p = r @ ''/'')"

datatype admission = Drain_trigger | Preflight | Refused nat string | To_routes

text \<open>The limiters asked, in order, up to the first that rejects.\<close>

fun consult :: "(string \<Rightarrow> bool) \<Rightarrow> limiter_spec list \<Rightarrow> string \<Rightarrow> string list \<times> admission option" where
  "consult limited [] path = ([], None)"
| "consult limited (spec # specs) path =
     (if \<not> mounted (lim_route spec) path then consult limited specs path
      else if limited (lim_name spec) then ([lim_name spec], Some (Refused 429 (lim_message spec)))
      else let (asked, r) = consult limited specs path in (lim_name spec # asked, r))"

definition after_origin :: "(string \<Rightarrow> bool) \<Rightarrow> string \<Rightarrow> string list \<times> admission" where
  "after_origin limited path =
     (case consult limited ROUTE_LIMITER_SPECS path of (asked, Some r) \<Rightarrow> (asked, r) | (asked, None) \<Rightarrow> (asked, To_routes))"

definition origin_step :: "string list \<Rightarrow> bool \<Rightarrow> (string \<Rightarrow> bool) \<Rightarrow> http_request \<Rightarrow> string list \<times> admission" where
  "origin_step allowed is_prod limited rq =
     (if mounted ''/api'' (rq_path rq) \<and>
         \<not> verifyRequestOrigin allowed is_prod (rq_method rq) (rq_origin rq) (rq_site rq) (rq_client rq)
      then ([], Refused 403 ''Request origin rejected'')
      else after_origin limited (rq_path rq))"

definition global_step :: "string list \<Rightarrow> bool \<Rightarrow> (string \<Rightarrow> bool) \<Rightarrow> http_request \<Rightarrow> string list \<times> admission" where
  "global_step allowed is_prod limited rq =
     (case consult limited [GLOBAL_LIMITER_SPEC] (rq_path rq) of
        (asked, Some r) \<Rightarrow> (asked, r)
      | (asked, None) \<Rightarrow> (let (more, r) = origin_step allowed is_prod limited rq in (asked @ more, r)))"

definition admit :: "string list \<Rightarrow> bool \<Rightarrow> controller \<Rightarrow> (string \<Rightarrow> bool) \<Rightarrow> http_request \<Rightarrow> string list \<times> admission" where
  "admit allowed is_prod k limited rq =
     (case buildCors allowed (rq_origin rq) of
        Inl _ \<Rightarrow> ([], Refused 403 ''Request rejected'')
      | Inr _ \<Rightarrow>
          if rq_method rq = ''OPTIONS'' then ([], Preflight)
          else if rq_method rq = ''GET'' \<and> rq_path rq = ''/internal/enter-drain'' then ([], Drain_trigger)
          else case drainGate k (rq_path rq) of
              Reject_http s e \<Rightarrow> ([], Refused s e)
            | _ \<Rightarrow> global_step allowed is_prod limited rq)"

section \<open>Probes\<close>

text \<open>The rows of the marker query, or its failure.\<close>

definition readiness :: "controller \<Rightarrow> redis_holder option \<Rightarrow> (string, nat) result \<Rightarrow> nat \<times> string" where
  "readiness k holder marker =
     (if \<not> startupReady k \<or> shuttingDown k \<or> isDraining k then (503, ''not-ready'')
      else if redisMode holder = ''redis'' \<and> \<not> redisReady holder then (503, ''not-ready'')
      else case marker of
          Inl _ \<Rightarrow> (503, ''not-ready'')
        | Inr n \<Rightarrow> if n \<noteq> 1 then (503, ''not-ready'') else (200, ''ready''))"

definition liveness :: "nat \<times> string" where "liveness = (200, ''alive'')"

definition health :: "nat \<times> string" where "health = (308, ''/liveness'')"

section \<open>Startup\<close>

text \<open>
  The connection loop: the outcome of each attempt is an input. The value is the result (the last
  error; None when no attempt is made at all), the attempts made and the milliseconds waited.
\<close>

definition retry_delay :: "nat \<Rightarrow> nat \<Rightarrow> nat" where
  "retry_delay base attempt = min (base * 2 ^ (attempt - 1)) 5000"

function retry_from ::
  "nat \<Rightarrow> nat \<Rightarrow> (nat \<Rightarrow> (string, unit) result) \<Rightarrow> nat \<Rightarrow> string option \<Rightarrow> nat \<Rightarrow> (string option, unit) result \<times> nat \<times> nat" where
  "retry_from attempts base outcome attempt lastError waited =
     (if attempt \<le> attempts then
        case outcome attempt of
          Inr _ \<Rightarrow> (Inr (), attempt, waited)
        | Inl e \<Rightarrow> retry_from attempts base outcome (attempt + 1) (Some e)
                   (if attempt < attempts then waited + retry_delay base attempt else waited)
      else (Inl lastError, attempts, waited))"
  by pat_completeness auto
termination
  by (relation "measure (\<lambda>(attempts, _, _, attempt, _, _). attempts + 1 - attempt)") auto

declare retry_from.simps [simp del]

definition connectWithRetry :: "nat \<Rightarrow> nat \<Rightarrow> (nat \<Rightarrow> (string, unit) result) \<Rightarrow> (string option, unit) result \<times> nat \<times> nat" where
  "connectWithRetry attempts base outcome = retry_from attempts base outcome 1 None 0"

text \<open>What the outside does during a start.\<close>

record startup_inputs =
  si_parse_url :: url_parser
  si_env :: environment
  si_attempts :: nat
  si_base_delay :: nat
  si_database :: "nat \<Rightarrow> (string, unit) result"
  si_redis :: connect_answers
  si_store_shape :: "bool list"
  si_migrations :: "(string, applied) result"
  si_rebuild :: "(string, unit) result"
  si_listen :: "(string, unit) result"

text \<open>
  \<open>createApplication\<close>: the validated allowed and hop count, the Redis holder and the limiters;
  \<open>startupReady\<close> is false.
\<close>

record application =
  ap_origins :: "string list"
  ap_hops :: nat
  ap_holder :: redis_holder
  ap_limiters :: "(string \<times> limiter) list"
  ap_controller :: controller

definition createApplication :: "startup_inputs \<Rightarrow> application startup" where
  "createApplication i =
     bind_result (validateEnvironment (si_parse_url i) (si_env i)) (\<lambda>c.
     bind_result (fst (initRedis (si_env i) None)) (\<lambda>h.
     bind_result (createRateLimiters (redisMode (Some h)) (is_redis h) (si_store_shape i)) (\<lambda>ls.
     Inr \<lparr>ap_origins = origins c, ap_hops = proxyHops c, ap_holder = h, ap_limiters = ls,
          ap_controller = boot\<lparr>startupReady := False\<rparr>\<rparr>)))"

definition database_error :: "string option \<Rightarrow> string" where
  "database_error e = (case e of None \<Rightarrow> ''undefined'' | Some m \<Rightarrow> m)"

definition startServer :: "startup_inputs \<Rightarrow> application startup" where
  "startServer i =
     bind_result (createApplication i) (\<lambda>app.
     bind_result (case fst (connectWithRetry (si_attempts i) (si_base_delay i) (si_database i)) of
                    Inl e \<Rightarrow> Inl (database_error e) | Inr _ \<Rightarrow> Inr ()) (\<lambda>_.
     bind_result (snd (connectRedisOrFail (si_redis i) (Some (ap_holder app)))) (\<lambda>_.
     bind_result (bind_result (si_migrations i) assertMigrationsComplete) (\<lambda>_.
     bind_result (si_rebuild i) (\<lambda>_.
     bind_result (si_listen i) (\<lambda>_.
     Inr (app\<lparr>ap_controller := (ap_controller app)\<lparr>startupReady := True\<rparr>\<rparr>)))))))"

section \<open>Properties\<close>

lemma consult_passes:
  "snd (consult limited specs path) = None \<longleftrightarrow>
     list_all (\<lambda>spec. if mounted (lim_route spec) path then \<not> limited (lim_name spec) else True) specs"
  by (induction specs) (auto simp: split_beta Let_def)

lemma consult_refuses: "snd (consult limited specs path) = Some r \<Longrightarrow> \<exists>m. r = Refused 429 m"
  by (induction specs) (auto simp: split_beta Let_def split: if_splits)

lemma after_origin_routes:
  "snd (after_origin limited path) = To_routes \<longleftrightarrow>
     list_all (\<lambda>spec. if mounted (lim_route spec) path then \<not> limited (lim_name spec) else True) ROUTE_LIMITER_SPECS"
  using consult_refuses [of limited ROUTE_LIMITER_SPECS path]
  unfolding consult_passes [symmetric] after_origin_def by (auto split: prod.split option.split)

lemma origin_step_routes:
  "snd (origin_step allowed is_prod limited rq) = To_routes \<longleftrightarrow>
     (if mounted ''/api'' (rq_path rq)
      then verifyRequestOrigin allowed is_prod (rq_method rq) (rq_origin rq) (rq_site rq) (rq_client rq) else True) \<and>
     list_all (\<lambda>spec. if mounted (lim_route spec) (rq_path rq) then \<not> limited (lim_name spec) else True) ROUTE_LIMITER_SPECS"
  by (simp add: origin_step_def after_origin_routes)

lemma global_step_routes:
  "snd (global_step allowed is_prod limited rq) = To_routes \<longleftrightarrow>
     snd (origin_step allowed is_prod limited rq) = To_routes \<and>
     (if mounted (lim_route GLOBAL_LIMITER_SPEC) (rq_path rq) then \<not> limited (lim_name GLOBAL_LIMITER_SPEC) else True)"
  by (simp add: global_step_def split_beta Let_def)

lemma drainGate_cases: "drainGate k path = Pass \<or> (\<exists>s e. drainGate k path = Reject_http s e)"
  by (simp add: drainGate_def)


text \<open>The connection loop.\<close>

definition total_delay :: "nat \<Rightarrow> nat \<Rightarrow> nat \<Rightarrow> nat" where
  "total_delay base from to = (\<Sum>a\<leftarrow>[from..<to]. retry_delay base a)"

lemma total_delay_step: "from < to \<Longrightarrow> total_delay base from to = retry_delay base from + total_delay base (Suc from) to"
  by (simp add: total_delay_def upt_conv_Cons)

lemma total_delay_bound: "total_delay base from to \<le> 5000 * (to - from)"
proof -
  have "total_delay base from to \<le> (\<Sum>a\<leftarrow>[from..<to]. 5000)"
    unfolding total_delay_def by (rule sum_list_mono) (simp add: retry_delay_def)
  then show ?thesis by (simp add: sum_list_triv)
qed

lemma retry_from_spec:
  "retry_from attempts base outcome attempt e waited =
     (case List.find (\<lambda>a. outcome a = Inr ()) [attempt..<Suc attempts] of
        Some a \<Rightarrow> (Inr (), a, waited + total_delay base attempt a)
      | None \<Rightarrow>
          (Inl (if attempt \<le> attempts then Some (projl (outcome attempts)) else e), attempts, waited + total_delay base attempt attempts))"
proof (induction attempts base outcome attempt e waited rule: retry_from.induct)
  case (1 attempts base outcome attempt e waited)
  show ?case
  proof (cases "attempt \<le> attempts")
    case False
    then show ?thesis
      by (simp add: retry_from.simps [of attempts base outcome attempt] total_delay_def)
  next
    case more: True
    then have upt: "[attempt..<Suc attempts] = attempt # [Suc attempt..<Suc attempts]"
      by (simp add: upt_conv_Cons del: upt_Suc)
    show ?thesis
    proof (cases "outcome attempt")
      case (Inr u)
      then show ?thesis
        using more unfolding upt by (simp add: retry_from.simps [of attempts base outcome attempt] total_delay_def)
    next
      case (Inl err)
      let ?w = "if attempt < attempts then waited + retry_delay base attempt else waited"
      have rec: "retry_from attempts base outcome attempt e waited = retry_from attempts base outcome (attempt + 1) (Some err) ?w"
        using more Inl by (simp add: retry_from.simps [of attempts base outcome attempt])
      have found: "a \<in> {Suc attempt..attempts}" if "List.find (\<lambda>a. outcome a = Inr ()) [Suc attempt..<Suc attempts] = Some a" for a
        using find_Some_in [OF that] by auto
      show ?thesis
        unfolding rec "1.IH" [OF more Inl] upt
        using Inl more total_delay_step [of attempt attempts base] total_delay_step [of attempt _ base] found
        by (cases "attempt = attempts") (auto simp: total_delay_def simp del: upt_Suc split: option.split)
    qed
  qed
qed

text \<open>
  C32. The connection loop always ends. It returns exactly when one of its attempts succeeds, then
  after the first such attempt; otherwise it fails with the error of the last attempt (with no
  error value at all when it is told to make none); before attempt n + 1 it waits the base delay
  doubled n - 1 times, at most five seconds, and never after the last attempt.
\<close>

theorem connection_loop:
  "let (r, tries, waited) = connectWithRetry attempts base outcome in
     (case List.find (\<lambda>a. outcome a = Inr ()) [1..<Suc attempts] of
        Some a \<Rightarrow> r = Inr () \<and> tries = a
      | None \<Rightarrow> r = Inl (if attempts = 0 then None else Some (projl (outcome attempts))) \<and> tries = attempts) \<and>
     waited = (\<Sum>n\<leftarrow>[1..<tries]. min (base * 2 ^ (n - 1)) 5000) \<and> waited \<le> 5000 * (attempts - 1)"
proof -
  have small: "a \<le> attempts" if "List.find (\<lambda>a. outcome a = Inr ()) [1..<Suc attempts] = Some a" for a
    using find_Some_in [OF that] by auto
  have bound: "total_delay base 1 n \<le> 5000 * (attempts - 1)" if "n \<le> attempts" for n
    using total_delay_bound [of base 1 n] that by (meson diff_le_mono le_trans mult_le_mono2)
  show ?thesis
    unfolding connectWithRetry_def retry_from_spec Let_def
    using small bound
    by (auto simp: total_delay_def retry_delay_def simp del: upt_Suc split: option.split)
qed

text \<open>A running controller serves: its two flags follow its state.\<close>

definition flags_ok :: "controller \<Rightarrow> bool" where
  "flags_ok k \<longleftrightarrow> one_run k \<and> (currentState k = RUNNING \<longrightarrow> startupReady k \<and> \<not> shuttingDown k)"

lemma step_flags:
  assumes "flags_ok k"
  shows "flags_ok (shutdown_step c e k ev)"
proof -
  have "currentState (shutdown_step c e k ev) = RUNNING \<longrightarrow>
      startupReady (shutdown_step c e k ev) \<and> \<not> shuttingDown (shutdown_step c e k ev)"
    using assms by (cases ev) (auto simp: flags_ok_def controller_defs Let_def split: option.split)
  with assms step_one_run [of k c e ev] show ?thesis
    by (simp add: flags_ok_def)
qed

interpretation serving: invariant_machine "shutdown_step c e" flags_ok for c e
  by unfold_locales (rule step_flags)

lemma readiness_when_flags_ok:
  assumes "flags_ok k"
  shows "readiness k h marker = (200, ''ready'') \<longleftrightarrow> currentState k = RUNNING \<and> redisReady h \<and> marker = Inr 1"
proof -
  have "\<not> redisReady h \<Longrightarrow> redisMode h = ''redis''"
    by (auto simp: redisReady_def redisMode_def split: option.splits redis_holder.splits)
  then show ?thesis
    using assms by (auto simp: readiness_def flags_ok_def isDraining_def split: sum.splits)
qed

lemma connected_attempt:
  assumes "fst (connectWithRetry attempts base outcome) = Inr ()"
  shows "\<exists>a. 1 \<le> a \<and> a \<le> attempts \<and> outcome a = Inr ()"
proof -
  obtain a where "List.find (\<lambda>a. outcome a = Inr ()) [1..<Suc attempts] = Some a"
    using assms by (cases "List.find (\<lambda>a. outcome a = Inr ()) [1..<Suc attempts]")
      (auto simp: connectWithRetry_def retry_from_spec simp del: upt_Suc)
  from find_Some_in [OF this] show ?thesis by auto
qed

lemma startServer_Inr:
  assumes "startServer i = Inr app"
  obtains app0 rows where "createApplication i = Inr app0" "fst (connectWithRetry (si_attempts i) (si_base_delay i) (si_database i)) = Inr ()"
    "snd (connectRedisOrFail (si_redis i) (Some (ap_holder app0))) = Inr ()" "si_migrations i = Inr rows"
    "assertMigrationsComplete rows = Inr ()" "app = app0\<lparr>ap_controller := boot\<rparr>"
proof -
  obtain app0 where app0: "createApplication i = Inr app0"
    using assms by (auto simp: startServer_def bind_result_Inr_iff)
  then have k: "ap_controller app0 = boot\<lparr>startupReady := False\<rparr>"
    by (auto simp: createApplication_def bind_result_Inr_iff)
  have "boot\<lparr>startupReady := False, startupReady := True\<rparr> = boot"
    by (simp add: boot_def)
  with assms app0 k show thesis
    by (auto simp: startServer_def bind_result_Inr_iff split: sum.splits intro: that)
qed

text \<open>
  C34. Nothing is served before everything is there, and readiness tells the truth. A server that
  has started reached its database in one of the allowed attempts, found all required migrations
  recorded with checksums and, in Redis mode, got every client connected and a ping answered;
  from then on, whatever shutdown events arrive, the readiness probe answers 200 exactly while
  the process is not draining, the store client is ready and the schema marker is found.
\<close>

theorem serving_is_gated:
  assumes "startServer i = Inr app"
  shows "(\<exists>a. 1 \<le> a \<and> a \<le> si_attempts i \<and> si_database i a = Inr ()) \<and>
     (\<exists>rows. si_migrations i = Inr rows \<and> assertMigrationsComplete rows = Inr ()) \<and>
     (is_redis (ap_holder app) \<longrightarrow>
        (\<forall>p \<in> set (connects (si_redis i)). \<exists>t. p = Settled t (Inr ()) \<and> t < STARTUP_CONNECT_TIMEOUT_MS) \<and>
        (\<exists>t < COMMAND_TIMEOUT_MS. ping (si_redis i) = Settled t (Inr ()))) \<and>
     (let k = run_steps (shutdown_step c e) (ap_controller app) es in
        readiness k h marker = (200, ''ready'') \<longleftrightarrow> currentState k = RUNNING \<and> redisReady h \<and> marker = Inr 1)"
proof -
  obtain app0 rows where s: "createApplication i = Inr app0"
    "fst (connectWithRetry (si_attempts i) (si_base_delay i) (si_database i)) = Inr ()"
    "snd (connectRedisOrFail (si_redis i) (Some (ap_holder app0))) = Inr ()" "si_migrations i = Inr rows"
    "assertMigrationsComplete rows = Inr ()" "app = app0\<lparr>ap_controller := boot\<rparr>"
    using startServer_Inr [OF assms] by blast
  have "flags_ok boot"
    by (simp add: flags_ok_def) (simp add: boot_def)
  then have "flags_ok (run_steps (shutdown_step c e) (ap_controller app) es)"
    using s(6) by (simp add: serving.run_inv)
  moreover have "(\<forall>p \<in> set (connects (si_redis i)). \<exists>t. p = Settled t (Inr ()) \<and> t < STARTUP_CONNECT_TIMEOUT_MS) \<and>
        (\<exists>t < COMMAND_TIMEOUT_MS. ping (si_redis i) = Settled t (Inr ()))" if r: "is_redis (ap_holder app)"
  proof -
    obtain rs cs where h: "ap_holder app0 = Redis_holder rs cs"
      using r s(6) by (cases "ap_holder app0") auto
    show ?thesis
      using connectRedisOrFail_Inr [OF s(3) [unfolded h]] by blast
  qed
  ultimately show ?thesis
    using connected_attempt [OF s(2)] s(4,5) readiness_when_flags_ok by (auto simp: Let_def)
qed

text \<open>A local-mode start whose database answers at the second attempt.\<close>

definition demo_inputs :: startup_inputs where
  "demo_inputs =
     \<lparr>si_parse_url = (\<lambda>u. Some (''http:'', u)), si_env = [''JWT_SECRET'' \<mapsto> ''0123456789abcdef0123456789abcdef''],
      si_attempts = 3, si_base_delay = 250, si_database = (\<lambda>a. if a < 2 then Inl ''refused'' else Inr ()),
      si_redis = \<lparr>connects = [], ping = promise.Pending\<rparr>, si_store_shape = [True, True],
      si_migrations = Inr (map (\<lambda>f. (f, Some ''sum'')) REQUIRED_MIGRATIONS), si_rebuild = Inr (), si_listen = Inr ()\<rparr>"

theorem serving_is_gated_witness:
  "\<exists>app. startServer demo_inputs = Inr app \<and> readiness (ap_controller app) None (Inr 1) = (200, ''ready'') \<and>
     readiness (shutdown_step default_caps silent_env (ap_controller app) (Signal SIGTERM 9)) None (Inr 1) = (503, ''not-ready'')"
proof -
  have env: "validateEnvironment (si_parse_url demo_inputs) (si_env demo_inputs) =
      Inr \<lparr>jwtSecret = ''0123456789abcdef0123456789abcdef'', origins = [''http://localhost:3000''], proxyHops = 1\<rparr>"
    by code_simp
  have redis: "fst (initRedis (si_env demo_inputs) None) = Inr Local_holder"
    by code_simp
  have limiters: "\<exists>ls. createRateLimiters (redisMode (Some Local_holder)) False (si_store_shape demo_inputs) = Inr ls"
    by (simp add: createRateLimiters_def redisMode_def ROUTE_LIMITER_SPECS_def)
  have database: "fst (connectWithRetry (si_attempts demo_inputs) (si_base_delay demo_inputs) (si_database demo_inputs)) = Inr ()"
    by (simp add: connectWithRetry_def retry_from_spec demo_inputs_def upt_rec)
  have gate: "snd (connectRedisOrFail (si_redis demo_inputs) (Some Local_holder)) = Inr ()"
    by (simp add: connectRedisOrFail_def getRedis_def)
  have migrations: "bind_result (si_migrations demo_inputs) assertMigrationsComplete = Inr ()"
    by (simp add: demo_inputs_def assertMigrationsComplete_def REQUIRED_MIGRATIONS_def has_checksum_def)
  obtain ls where ls: "createRateLimiters (redisMode (Some Local_holder)) False (si_store_shape demo_inputs) = Inr ls"
    using limiters by blast
  have rest: "si_rebuild demo_inputs = Inr ()" "si_listen demo_inputs = Inr ()"
    by (simp_all add: demo_inputs_def)
  obtain app where app: "startServer demo_inputs = Inr app"
    by (simp add: startServer_def createApplication_def env redis ls database gate migrations rest)
  have k: "ap_controller app = boot"
    by (rule startServer_Inr [OF app]) simp
  have "readiness (ap_controller app) None (Inr 1) = (200, ''ready'')"
    using serving_is_gated [OF app, of default_caps silent_env "[]" None "Inr 1"] k
    by (simp add: Let_def redisReady_def boot_def)
  moreover have "readiness (shutdown_step default_caps silent_env (ap_controller app) (Signal SIGTERM 9)) None (Inr 1) \<noteq> (200, ''ready'')"
    using serving_is_gated [OF app, of default_caps silent_env "[Signal SIGTERM 9]" None "Inr 1"] k
    by (simp add: Let_def boot_def controller_defs)
  moreover have "readiness x None (Inr 1) \<in> {(200, ''ready''), (503, ''not-ready'')}" for x
    by (simp add: readiness_def)
  ultimately show ?thesis using app by blast
qed

end
