(* ===== verification/LogSanitize.thy ===== *)
theory LogSanitize
  imports Prelude
begin

text \<open>
  config/logSanitize.js and the use config/logger.js makes of it: the patterns scrubbed from
  every string, the access log's URL scrubber, and \<open>redact\<close>, which rebuilds a value of the
  JavaScript heap as a tree before it is serialised. The regular expressions are written out
  as matchers; each one is deterministic, so a matcher answers the length of the text it takes.
  Objects live in a heap, because \<open>redact\<close> stops at an object it has seen before, and a log
  value may be circular. Property getters that throw are outside the model.
\<close>

section \<open>Character classes\<close>

definition is_lower :: "char \<Rightarrow> bool" where
  "is_lower c \<longleftrightarrow> 97 \<le> (of_char c :: nat) \<and> (of_char c :: nat) \<le> 122"

definition is_upper :: "char \<Rightarrow> bool" where
  "is_upper c \<longleftrightarrow> 65 \<le> (of_char c :: nat) \<and> (of_char c :: nat) \<le> 90"

definition is_dec :: "char \<Rightarrow> bool" where
  "is_dec c \<longleftrightarrow> 48 \<le> (of_char c :: nat) \<and> (of_char c :: nat) \<le> 57"

definition is_alnum :: "char \<Rightarrow> bool" where
  "is_alnum c \<longleftrightarrow> is_lower c \<or> is_upper c \<or> is_dec c"

text \<open>\<open>\w\<close>, and the word boundary \<open>\b\<close> between the character before and the rest.\<close>

definition is_word :: "char \<Rightarrow> bool" where
  "is_word c \<longleftrightarrow> is_alnum c \<or> c = CHR ''_''"

definition boundary :: "char option \<Rightarrow> string \<Rightarrow> bool" where
  "boundary before rest \<longleftrightarrow>
     (case before of None \<Rightarrow> False | Some c \<Rightarrow> is_word c) \<noteq> (case rest of [] \<Rightarrow> False | c # _ \<Rightarrow> is_word c)"

text \<open>\<open>[A-Za-z0-9_-]\<close>, the alphabet of a JWT segment, and \<open>[^\s"'`]\<close>, that of a connection string.\<close>

definition is_token :: "char \<Rightarrow> bool" where
  "is_token c \<longleftrightarrow> is_word c \<or> c = CHR ''-''"

definition is_conn :: "char \<Rightarrow> bool" where
  "is_conn c \<longleftrightarrow> \<not> (is_space c \<or> c = CHR 0xA0 \<or> c = CHR 0x22 \<or> c = CHR 0x27 \<or> c = CHR 0x60)"

section \<open>Matchers\<close>

text \<open>
  A matcher looks at the character before the position and the text from it, and answers how
  many characters it takes and what replaces them.
\<close>

type_synonym matcher = "char option \<Rightarrow> string \<Rightarrow> (nat \<times> string) option"

text \<open>\<open>text.replace(re, replacement)\<close> for a global pattern that never matches the empty text.\<close>

function replace_all :: "matcher \<Rightarrow> char option \<Rightarrow> string \<Rightarrow> string" where
  "replace_all m before [] = []"
| "replace_all m before (c # cs) =
     (case m before (c # cs) of
        None \<Rightarrow> c # replace_all m (Some c) cs
      | Some (n, r) \<Rightarrow> r @ replace_all m (Some (last (take (Suc (n - 1)) (c # cs)))) (drop (n - 1) cs))"
  by pat_completeness auto
termination by (relation "measure (\<lambda>(_, _, s). length s)") auto

text \<open>\<open>eyJ[A-Za-z0-9_-]{8,}\.[A-Za-z0-9_-]{8,}(\.[A-Za-z0-9_-]{8,})?\<close>\<close>

definition jwt_len :: "string \<Rightarrow> nat option" where
  "jwt_len s =
     (if take 3 s \<noteq> ''eyJ'' then None
      else let a = takeWhile is_token (drop 3 s); r = drop (3 + length a) s in
        if length a < 8 \<or> take 1 r \<noteq> ''.'' then None
        else let b = takeWhile is_token (drop 1 r); r2 = drop (1 + length b) r in
          if length b < 8 then None
          else let c = takeWhile is_token (drop 1 r2) in
            Some (4 + length a + length b + (if take 1 r2 = ''.'' \<and> 8 \<le> length c then 1 + length c else 0)))"

definition jwt_matcher :: matcher where
  "jwt_matcher before s = map_option (\<lambda>n. (n, ''[REDACTED_JWT]'')) (jwt_len s)"

definition jwt_word_matcher :: matcher where
  "jwt_word_matcher before s = (if boundary before s then jwt_matcher before s else None)"

text \<open>
  \<open>\b(postgres(ql)?|mysql|mongodb(\+srv)?|redis(rediss)?):\/\/[^\s"'`]+\<close>, ignoring case. The
  schemes are the texts the group can stand for, the longer alternative first.
\<close>

definition schemes :: "string list" where
  "schemes = [''postgresql'', ''postgres'', ''mysql'', ''mongodb+srv'', ''mongodb'', ''redisrediss'', ''redis'']"

definition conn_matcher :: matcher where
  "conn_matcher before s =
     (if \<not> boundary before s then None
      else case List.find (\<lambda>w. prefix (w @ ''://'') (to_lower s)) schemes of
          None \<Rightarrow> None
        | Some w \<Rightarrow>
            let n = length w; run = takeWhile is_conn (drop (n + 3) s) in
            if run = [] then None else Some (n + 3 + length run, take n s @ ''://[REDACTED]''))"

text \<open>\<open>\bAKIA[0-9A-Z]{16}\b\<close>\<close>

definition aws_matcher :: matcher where
  "aws_matcher before s =
     (if boundary before s \<and> take 4 s = ''AKIA'' \<and> 20 \<le> length s \<and>
         list_all (\<lambda>c. is_dec c \<or> is_upper c) (take 16 (drop 4 s)) \<and> boundary (Some (s ! 19)) (drop 20 s)
      then Some (20, ''[REDACTED_AWS_KEY]'') else None)"

text \<open>\<open>\bxox[baprs]-[A-Za-z0-9-]+\b\<close>: the longest run that ends at a word boundary.\<close>

definition slack_matcher :: matcher where
  "slack_matcher before s =
     (if boundary before s \<and> take 3 s = ''xox'' \<and> 5 \<le> length s \<and> s ! 3 \<in> set ''baprs'' \<and> s ! 4 = CHR ''-''
      then let run = takeWhile (\<lambda>c. is_alnum c \<or> c = CHR ''-'') (drop 5 s) in
        (case List.find (\<lambda>n. boundary (Some (run ! (n - 1))) (drop (5 + n) s)) (rev [1..<Suc (length run)]) of
           None \<Rightarrow> None
         | Some n \<Rightarrow> Some (5 + n, ''[REDACTED]''))
      else None)"

definition PATTERNS :: "matcher list" where
  "PATTERNS = [conn_matcher, aws_matcher, jwt_word_matcher, slack_matcher]"

definition scrubString :: "string \<Rightarrow> string" where
  "scrubString text = fold (\<lambda>m out. replace_all m None out) PATTERNS text"

section \<open>Sensitive names\<close>

definition SENSITIVE_KEYS :: "string list" where
  "SENSITIVE_KEYS = [''password'', ''passwd'', ''secret'', ''token'', ''cookie'', ''authorization'', ''jwt'', ''session'',
     ''apikey'', ''api-key'', ''api_key'', ''privatekey'', ''private-key'', ''private_key'', ''credential'',
     ''set-cookie'', ''email'']"

definition sensitive_key :: "string \<Rightarrow> bool" where
  "sensitive_key key \<longleftrightarrow> list_ex (\<lambda>w. sublist w (to_lower key)) SENSITIVE_KEYS \<or> to_lower key = ''auth''"

definition SENSITIVE_QUERY_KEYS :: "string list" where
  "SENSITIVE_QUERY_KEYS = [''token'', ''code'', ''secret'', ''password'', ''passwd'', ''key'', ''auth'', ''session'', ''jwt'', ''email'']"

definition sensitive_query_key :: "string \<Rightarrow> bool" where
  "sensitive_query_key key \<longleftrightarrow> list_ex (\<lambda>w. sublist w (to_lower key)) SENSITIVE_QUERY_KEYS"

definition REDACTED :: string where
  "REDACTED = ''[REDACTED]''"

section \<open>The URL of the access log\<close>

definition pair_key :: "string \<Rightarrow> string" where
  "pair_key pair = takeWhile (\<lambda>c. c \<noteq> CHR ''='') pair"

definition scrub_pair :: "string \<Rightarrow> string" where
  "scrub_pair pair = (if sensitive_query_key (pair_key pair) then pair_key pair @ ''='' @ REDACTED else pair)"

definition sanitizeUrl :: "string \<Rightarrow> string" where
  "sanitizeUrl rawUrl =
     (let text = replace_all jwt_matcher None rawUrl in
      case index_of text CHR ''?'' of
        None \<Rightarrow> text
      | Some i \<Rightarrow> take i text @ ''?'' @ join_with ''&'' (map scrub_pair (split_on CHR ''&'' (drop (Suc i) text))))"

text \<open>The pairs of a URL's query.\<close>

definition query_pairs :: "string \<Rightarrow> string list" where
  "query_pairs url =
     (case index_of url CHR ''?'' of None \<Rightarrow> [] | Some i \<Rightarrow> split_on CHR ''&'' (drop (Suc i) url))"

lemma pair_key_scrub [simp]: "pair_key (scrub_pair p) = pair_key p"
proof -
  have k: "\<forall>c \<in> set (pair_key p). c \<noteq> CHR ''=''"
    by (auto simp: pair_key_def dest: set_takeWhileD)
  then have "takeWhile (\<lambda>c. c \<noteq> CHR ''='') (pair_key p @ CHR ''='' # REDACTED) = pair_key p"
    by simp
  then show ?thesis
    by (simp add: scrub_pair_def pair_key_def)
qed

lemma scrub_pair_hides: "sensitive_query_key (pair_key p) \<Longrightarrow> scrub_pair p = pair_key p @ ''='' @ REDACTED"
  by (simp add: scrub_pair_def)

lemma scrub_pair_keeps: "\<not> sensitive_query_key (pair_key p) \<Longrightarrow> scrub_pair p = p"
  by (simp add: scrub_pair_def)

lemma scrub_pair_idem [simp]: "scrub_pair (scrub_pair p) = scrub_pair p"
  by (metis pair_key_scrub scrub_pair_hides scrub_pair_keeps)

lemma scrub_pair_no_amp: "CHR ''&'' \<notin> set p \<Longrightarrow> CHR ''&'' \<notin> set (scrub_pair p)"
  by (auto simp: scrub_pair_def pair_key_def REDACTED_def dest: set_takeWhileD)

lemma split_on_no_sep_in: "p \<in> set (split_on c s) \<Longrightarrow> c \<notin> set p"
  by (induction s arbitrary: p) (auto split: list.splits if_splits)

lemma join_split_on: "join_with [c] (split_on c s) = s"
proof (induction s)
  case (Cons x xs)
  then show ?case
    by (cases "split_on c xs") (auto, (metis append_Cons append_Nil join_with.simps(2,3) list.exhaust)+)
qed simp

lemma index_of_first: "index_of xs x = Some i \<Longrightarrow> x \<notin> set (take i xs)"
  by (induction xs arbitrary: i) (auto split: if_splits)

lemma index_of_append_notin: "x \<notin> set xs \<Longrightarrow> index_of (xs @ x # ys) x = Some (length xs)"
  by (induction xs) auto

text \<open>The query of a scrubbed URL is the scrubbed query of its text with the tokens replaced.\<close>

lemma query_pairs_sanitizeUrl:
  "query_pairs (sanitizeUrl u) = map scrub_pair (query_pairs (replace_all jwt_matcher None u))"
proof (cases "index_of (replace_all jwt_matcher None u) CHR ''?''")
  case None
  then show ?thesis
    by (simp add: sanitizeUrl_def query_pairs_def Let_def)
next
  case (Some i)
  let ?t = "replace_all jwt_matcher None u"
  let ?ps = "map scrub_pair (split_on CHR ''&'' (drop (Suc i) ?t))"
  have "i < length ?t"
    using index_of_Some [OF Some] by simp
  moreover have "index_of (take i ?t @ CHR ''?'' # join_with ''&'' ?ps) CHR ''?'' = Some (length (take i ?t))"
    by (intro index_of_append_notin index_of_first [OF Some])
  moreover have "split_on CHR ''&'' (join_with ''&'' ?ps) = ?ps"
    by (rule split_on_join) (use scrub_pair_no_amp split_on_no_sep_in in fastforce)+
  ultimately show ?thesis
    using Some by (simp add: sanitizeUrl_def query_pairs_def Let_def)
qed

section \<open>No token survives in a URL\<close>

text \<open>The shape of a JWT, stated without the matcher.\<close>

definition jwt_text :: "string \<Rightarrow> bool" where
  "jwt_text w \<longleftrightarrow>
     (\<exists>a b. w = ''eyJ'' @ a @ ''.'' @ b \<and> 8 \<le> length a \<and> 8 \<le> length b \<and> list_all is_token (a @ b))"

lemma token_chars [simp]: "is_token CHR ''e''" "is_token CHR ''y''" "is_token CHR ''J''"
  by (simp_all add: is_token_def is_word_def is_alnum_def is_lower_def is_upper_def)

lemma jwt_text_chars: "jwt_text w \<Longrightarrow> c \<in> set w \<Longrightarrow> is_token c \<or> c = CHR ''.''"
  by (auto simp: jwt_text_def list_all_iff)

lemma jwt_text_nonempty: "jwt_text w \<Longrightarrow> w \<noteq> []"
  by (auto simp: jwt_text_def)

lemma dot_no_token [simp]: "\<not> is_token CHR ''.''"
  by (simp add: is_token_def is_word_def is_alnum_def is_lower_def is_upper_def is_dec_def)

lemma jwt_len_complete:
  assumes "jwt_text w" and "prefix w s"
  shows "jwt_len s \<noteq> None"
proof -
  obtain a b r where s: "s = ''eyJ'' @ a @ ''.'' @ b @ r" and a: "list_all is_token a" "8 \<le> length a"
    and b: "list_all is_token b" "8 \<le> length b"
    using assms by (auto simp: jwt_text_def prefix_def)
  have d3: "drop 3 s = a @ ''.'' @ b @ r"
    by (simp add: s)
  have d: "drop (3 + length a) s = ''.'' @ b @ r"
    by (subst add.commute, subst drop_drop [symmetric], subst d3) simp
  have "takeWhile is_token (a @ CHR ''.'' # b @ r) = a"
    using a(1) by (simp add: takeWhile_append2 list_all_iff)
  moreover have "8 \<le> length (takeWhile is_token (b @ r))"
    using b by (simp add: takeWhile_append2 list_all_iff)
  ultimately show ?thesis
    using a(2) d3 d by (simp add: jwt_len_def Let_def) (simp add: s)
qed

lemma sublist_sep:
  assumes "x \<notin> set w" and "sublist w (ys @ x # zs)"
  shows "sublist w ys \<or> sublist w zs"
  using assms
proof (induction ys)
  case Nil
  then show ?case
    by (cases w) (auto simp: sublist_Cons_right)
next
  case (Cons y ys)
  show ?case
  proof (cases "sublist w (ys @ x # zs)")
    case True
    then show ?thesis
      using Cons by (auto simp: sublist_Cons_right)
  next
    case False
    then have "prefix w ((y # ys) @ x # zs)"
      using Cons.prems(2) by (simp add: sublist_Cons_right)
    then have "prefix w (y # ys)"
      using Cons.prems(1) by (auto simp only: prefix_append prefix_Cons set_append list.set)
    then show ?thesis
      by (simp add: sublist_Cons_right)
  qed
qed

definition jwt_free :: "string \<Rightarrow> bool" where
  "jwt_free s \<longleftrightarrow> \<not> (\<exists>w. jwt_text w \<and> sublist w s)"

lemma jwt_free_sublist: "jwt_free s \<Longrightarrow> sublist t s \<Longrightarrow> jwt_free t"
  by (auto simp: jwt_free_def dest: sublist_order.order.trans)

lemma jwt_free_sep:
  "\<not> is_token x \<Longrightarrow> x \<noteq> CHR ''.'' \<Longrightarrow> jwt_free (ys @ x # zs) \<longleftrightarrow> jwt_free ys \<and> jwt_free zs"
  unfolding jwt_free_def using sublist_sep jwt_text_chars
  by (metis sublist_append_leftI sublist_append_rightI sublist_Cons_right sublist_order.order.trans)

lemma jwt_free_Nil [simp]: "jwt_free []"
  by (auto simp: jwt_free_def jwt_text_def)

lemma jwt_free_short: "length s < 20 \<Longrightarrow> jwt_free s"
  by (auto simp: jwt_free_def jwt_text_def dest!: sublist_length_le)

text \<open>A scrubbed text is a piece of the original up to its first replacement.\<close>

lemma replace_jwt_prefix:
  "\<exists>pre. prefix pre s \<and> (replace_all jwt_matcher before s = pre \<or>
     (\<exists>r. replace_all jwt_matcher before s = pre @ CHR ''['' # r))"
proof (induction jwt_matcher before s rule: replace_all.induct)
  case (2 before c cs)
  show ?case
  proof (cases "jwt_matcher before (c # cs)")
    case None
    then obtain pre where "prefix pre cs"
      "replace_all jwt_matcher (Some c) cs = pre \<or> (\<exists>r. replace_all jwt_matcher (Some c) cs = pre @ CHR ''['' # r)"
      using 2(1) by blast
    then show ?thesis
      using None by (intro exI [of _ "c # pre"]) auto
  next
    case (Some nr)
    then obtain n where "nr = (n, ''[REDACTED_JWT]'')"
      by (auto simp: jwt_matcher_def)
    then show ?thesis
      using Some by (intro exI [of _ "[]"]) simp
  qed
qed simp

lemma prefix_before_sep: "prefix w (p @ x # r) \<Longrightarrow> x \<notin> set w \<Longrightarrow> prefix w p"
  by (auto simp: prefix_append prefix_Cons)

lemma jwt_free_replace: "jwt_free (replace_all jwt_matcher before s)"
proof (induction jwt_matcher before s rule: replace_all.induct)
  case (2 before c cs)
  show ?case
  proof (cases "jwt_matcher before (c # cs)")
    case None
    let ?out = "replace_all jwt_matcher (Some c) cs"
    have free: "jwt_free ?out"
      using None by (rule 2(1))
    have "\<not> prefix w (c # ?out)" if w: "jwt_text w" for w
    proof
      assume p: "prefix w (c # ?out)"
      obtain pre where pre: "prefix pre cs" "?out = pre \<or> (\<exists>r. ?out = pre @ CHR ''['' # r)"
        using replace_jwt_prefix by blast
      have "CHR ''['' \<notin> set w"
        using jwt_text_chars [OF w, of "CHR ''[''"]
        by (auto simp: is_token_def is_word_def is_alnum_def is_lower_def is_upper_def is_dec_def)
      then have "prefix w (c # pre)"
        using p pre(2) prefix_before_sep [of w "c # pre"] by auto
      then have "prefix w (c # cs)"
        using pre(1) by (meson Cons_prefix_Cons prefix_order.trans)
      then show False
        using None jwt_len_complete [OF w] by (auto simp: jwt_matcher_def)
    qed
    then show ?thesis
      using None free by (auto simp: jwt_free_def sublist_Cons_right)
  next
    case (Some nr)
    obtain n where nr: "nr = (n, ''[REDACTED_JWT]'')"
      using Some by (auto simp: jwt_matcher_def)
    let ?rest = "replace_all jwt_matcher (Some (last (take (Suc (n - 1)) (c # cs)))) (drop (n - 1) cs)"
    have "jwt_free ?rest"
      using 2(2) [OF Some nr [symmetric]] by simp
    then have "jwt_free (''[REDACTED_JWT'' @ CHR '']'' # ?rest)"
      by (subst jwt_free_sep)
        (auto simp: is_token_def is_word_def is_alnum_def is_lower_def is_upper_def is_dec_def intro: jwt_free_short)
    then show ?thesis
      using Some nr by simp
  qed
qed simp

definition separator :: "char \<Rightarrow> bool" where
  "separator x \<longleftrightarrow> \<not> is_token x \<and> x \<noteq> CHR ''.''"

lemma separators [simp]: "separator CHR ''?''" "separator CHR ''&''" "separator CHR ''=''" "separator CHR '']''"
  by (simp_all add: separator_def is_token_def is_word_def is_alnum_def is_lower_def is_upper_def is_dec_def)

lemma jwt_free_at: "separator x \<Longrightarrow> jwt_free (ys @ x # zs) \<longleftrightarrow> jwt_free ys \<and> jwt_free zs"
  by (simp add: separator_def jwt_free_sep)

lemma jwt_free_join: "separator x \<Longrightarrow> jwt_free (join_with [x] ps) \<longleftrightarrow> (\<forall>p \<in> set ps. jwt_free p)"
  by (induction "[x]" ps rule: join_with.induct) (auto simp: jwt_free_at)

lemma jwt_free_split: "separator x \<Longrightarrow> jwt_free s \<Longrightarrow> p \<in> set (split_on x s) \<Longrightarrow> jwt_free p"
  using jwt_free_join [of x "split_on x s"] by (simp add: join_split_on)

lemma jwt_free_scrub_pair:
  assumes "jwt_free p"
  shows "jwt_free (scrub_pair p)"
proof (cases "sensitive_query_key (pair_key p)")
  case True
  have "jwt_free (pair_key p)"
    using assms by (rule jwt_free_sublist) (simp add: pair_key_def)
  moreover have "jwt_free REDACTED"
    by (rule jwt_free_short) (simp add: REDACTED_def)
  ultimately show ?thesis
    using True by (simp add: scrub_pair_hides jwt_free_at)
qed (use assms in \<open>simp add: scrub_pair_keeps\<close>)

lemma jwt_free_sanitizeUrl: "jwt_free (sanitizeUrl u)"
proof (cases "index_of (replace_all jwt_matcher None u) CHR ''?''")
  case None
  then show ?thesis
    by (simp add: sanitizeUrl_def Let_def jwt_free_replace)
next
  case (Some i)
  let ?t = "replace_all jwt_matcher None u"
  have "jwt_free (take i ?t)" "jwt_free (drop (Suc i) ?t)"
    using jwt_free_replace by (auto intro: jwt_free_sublist)
  then show ?thesis
    using Some
    by (auto simp: sanitizeUrl_def Let_def jwt_free_at jwt_free_join
        intro!: jwt_free_scrub_pair intro: jwt_free_split [of "CHR ''&''"])
qed

text \<open>
  No request URL reaches the access log with a secret in it: the value of every query
  parameter whose name mentions a token, code, secret, password, key, session, JWT or email is
  replaced, every other parameter is printed as it came (with its tokens replaced), and the text
  printed contains no JWT at all, neither in the path nor in the query.
\<close>

theorem sanitizeUrl_hides:
  "query_pairs (sanitizeUrl u) =
     map (\<lambda>p. if sensitive_query_key (pair_key p) then pair_key p @ ''=[REDACTED]'' else p)
       (query_pairs (replace_all jwt_matcher None u)) \<and>
   jwt_free (sanitizeUrl u)"
  using query_pairs_sanitizeUrl [of u] jwt_free_sanitizeUrl [of u]
  by (simp add: scrub_pair_def REDACTED_def cong: if_cong)

section \<open>Redacting a log value\<close>

text \<open>
  Values: strings, other primitives (which are printed as they are) and references to objects.
  An object is an \<open>Error\<close>, an array, or any other object given by its own enumerable entries.
\<close>

datatype 'p js_value = Js_string string | Js_prim 'p | Js_ref nat

datatype 'p js_object =
    Js_error string string string
  | Js_array "'p js_value list"
  | Js_entries "(string \<times> 'p js_value) list"

type_synonym 'p js_heap = "nat \<Rightarrow> 'p js_object"

datatype 'p log_tree = Log_string string | Log_prim 'p | Log_array "'p log_tree list" | Log_object "(string \<times> 'p log_tree) list"

text \<open>The set of objects seen is shared by the whole walk.\<close>

function (sequential)
  redact :: "'p js_heap \<Rightarrow> nat \<Rightarrow> nat list \<Rightarrow> 'p js_value \<Rightarrow> 'p log_tree \<times> nat list" and
  redact_items :: "'p js_heap \<Rightarrow> nat \<Rightarrow> nat list \<Rightarrow> 'p js_value list \<Rightarrow> 'p log_tree list \<times> nat list" and
  redact_entries :: "'p js_heap \<Rightarrow> nat \<Rightarrow> nat list \<Rightarrow> (string \<times> 'p js_value) list \<Rightarrow> (string \<times> 'p log_tree) list \<times> nat list"
where
  "redact h depth seen v =
     (if 10 < depth then (Log_string REDACTED, seen)
      else case v of
          Js_string s \<Rightarrow> (Log_string (scrubString s), seen)
        | Js_prim p \<Rightarrow> (Log_prim p, seen)
        | Js_ref a \<Rightarrow>
            if a \<in> set seen then (Log_string ''[CIRCULAR]'', seen)
            else (case h a of
                Js_error name message stack \<Rightarrow>
                  (Log_object [(''name'', Log_string name), (''message'', Log_string (scrubString message)),
                     (''stack'', Log_string (scrubString stack))], a # seen)
              | Js_array items \<Rightarrow>
                  (let (ts, seen') = redact_items h (depth + 1) (a # seen) items in (Log_array ts, seen'))
              | Js_entries es \<Rightarrow>
                  (let (ts, seen') = redact_entries h (depth + 1) (a # seen) es in (Log_object ts, seen'))))"
| "redact_items h depth seen [] = ([], seen)"
| "redact_items h depth seen (v # vs) =
     (let (t, seen1) = redact h depth seen v; (ts, seen2) = redact_items h depth seen1 vs in (t # ts, seen2))"
| "redact_entries h depth seen [] = ([], seen)"
| "redact_entries h depth seen ((k, v) # es) =
     (if sensitive_key k
      then let (ts, seen2) = redact_entries h depth seen es in ((k, Log_string REDACTED) # ts, seen2)
      else let (t, seen1) = redact h depth seen v; (ts, seen2) = redact_entries h depth seen1 es in ((k, t) # ts, seen2))"
  by pat_completeness auto
termination
  by (relation "measures
      [\<lambda>x. case x of Inl (_, d, _, _) \<Rightarrow> 2 * (11 - d) | Inr (Inl (_, d, _, _)) \<Rightarrow> 2 * (11 - d) + 1
                   | Inr (Inr (_, d, _, _)) \<Rightarrow> 2 * (11 - d) + 1,
       \<lambda>x. case x of Inl _ \<Rightarrow> 0 | Inr (Inl (_, _, _, vs)) \<Rightarrow> length vs | Inr (Inr (_, _, _, es)) \<Rightarrow> length es]") auto

declare redact.simps [simp del]

text \<open>The format installed in the logger: a fresh walk from the record of the log call.\<close>

definition redactionFormat :: "'p js_heap \<Rightarrow> 'p js_value \<Rightarrow> 'p log_tree" where
  "redactionFormat h info = fst (redact h 0 [] info)"

section \<open>What the log cannot depend on\<close>

text \<open>Two objects that differ at most in the values kept under sensitive names.\<close>

definition same_entry :: "string \<times> 'p js_value \<Rightarrow> string \<times> 'p js_value \<Rightarrow> bool" where
  "same_entry e e' \<longleftrightarrow> fst e = fst e' \<and> (sensitive_key (fst e) \<or> snd e = snd e')"

fun same_public :: "'p js_object \<Rightarrow> 'p js_object \<Rightarrow> bool" where
  "same_public (Js_entries es) (Js_entries es') \<longleftrightarrow> list_all2 same_entry es es'"
| "same_public o1 o2 \<longleftrightarrow> o1 = o2"

lemma redact_same_public:
  "\<forall>a. same_public (h a) (h' a) \<Longrightarrow> redact h depth seen v = redact h' depth seen v"
  "\<forall>a. same_public (h a) (h' a) \<Longrightarrow> redact_items h depth seen vs = redact_items h' depth seen vs"
  "\<forall>a. same_public (h a) (h' a) \<Longrightarrow> list_all2 same_entry es es' \<Longrightarrow>
     redact_entries h depth seen es = redact_entries h' depth seen es'"
proof (induction h depth seen v and h depth seen vs and h depth seen es arbitrary: and and es'
    rule: redact_redact_items_redact_entries.induct)
  case (1 h depth seen v)
  show ?case
  proof (cases v)
    case (Js_ref a)
    show ?thesis
    proof (cases "10 < depth \<or> a \<in> set seen")
      case False
      note step = redact.simps [of h] redact.simps [of h']
      show ?thesis
      proof (cases "h a")
        case (Js_entries es)
        then obtain es' where es': "h' a = Js_entries es'" "list_all2 same_entry es es'"
          using "1.prems" by (cases "h' a") (auto dest: spec [of _ a])
        have "redact_entries h (depth + 1) (a # seen) es = redact_entries h' (depth + 1) (a # seen) es'"
          using 1(2) [of a es es'] False Js_ref Js_entries "1.prems" es'(2) by simp
        then show ?thesis
          using False Js_ref Js_entries es'(1) by (simp add: step)
      next
        case (Js_array items)
        then have "h' a = Js_array items"
          using "1.prems" by (cases "h' a") (auto dest: spec [of _ a])
        moreover have "redact_items h (depth + 1) (a # seen) items = redact_items h' (depth + 1) (a # seen) items"
          using 1(1) [of a items] False Js_ref Js_array "1.prems" by simp
        ultimately show ?thesis
          using False Js_ref Js_array by (simp add: step)
      next
        case (Js_error n m st)
        then have "h' a = Js_error n m st"
          using "1.prems" by (cases "h' a") (auto dest: spec [of _ a])
        then show ?thesis
          using False Js_ref Js_error by (simp add: step)
      qed
    qed (auto simp: Js_ref redact.simps [of h] redact.simps [of h'])
  qed (simp_all add: redact.simps [of h] redact.simps [of h'])
next
  case (3 h depth seen v vs)
  obtain t s1 where r: "redact h depth seen v = (t, s1)"
    by fastforce
  then have "redact h' depth seen v = (t, s1)" "redact_items h depth s1 vs = redact_items h' depth s1 vs"
    using 3 by auto
  then show ?case
    by (simp add: r)
next
  case (5 h depth seen k v es)
  from "5.prems"(2) obtain v' rest where es': "es' = (k, v') # rest" "sensitive_key k \<or> v = v'"
    and rest: "list_all2 same_entry es rest"
    by (auto simp: list_all2_Cons1 same_entry_def [of "(k, v)"])
  show ?case
  proof (cases "sensitive_key k")
    case True
    then show ?thesis
      using 5(1) [OF True "5.prems"(1) rest] es'(1) by simp
  next
    case False
    obtain t s1 where r: "redact h depth seen v = (t, s1)"
      by fastforce
    then have "redact h' depth seen v = (t, s1)"
      using 5(2) [OF False "5.prems"(1)] by simp
    moreover have "redact_entries h depth s1 es = redact_entries h' depth s1 rest"
      using 5(3) [OF False r [symmetric] refl "5.prems"(1) rest] .
    ultimately show ?thesis
      using False es' r by simp
  qed
qed auto

text \<open>How deep the containers of a tree nest; a walk never leaves the eleven levels it may enter.\<close>

fun tree_depth :: "'p log_tree \<Rightarrow> nat" where
  "tree_depth (Log_array ts) = Suc (foldr max (map tree_depth ts) 0)"
| "tree_depth (Log_object es) = Suc (foldr max (map (\<lambda>(_, t). tree_depth t) es) 0)"
| "tree_depth _ = 0"

lemma foldr_max_le: "foldr max (xs :: nat list) 0 \<le> n \<longleftrightarrow> (\<forall>x \<in> set xs. x \<le> n)"
  by (induction xs) auto

lemma suc_le_room: "\<not> 10 < d \<Longrightarrow> Suc m \<le> 11 - d \<longleftrightarrow> m \<le> 10 - (d :: nat)"
  by arith

lemma redact_depth:
  "tree_depth (fst (redact h depth seen v)) \<le> 11 - depth"
  "\<forall>t \<in> set (fst (redact_items h depth seen vs)). tree_depth t \<le> 11 - depth"
  "\<forall>(k, t) \<in> set (fst (redact_entries h depth seen es)). tree_depth t \<le> 11 - depth"
proof (induction h depth seen v and h depth seen vs and h depth seen es rule: redact_redact_items_redact_entries.induct)
  case (1 h depth seen v)
  show ?case
  proof (cases v)
    case (Js_ref a)
    then show ?thesis
      using 1 by (cases "h a") (auto simp: redact.simps split_beta foldr_max_le suc_le_room)
  qed (simp_all add: redact.simps)
next
  case (3 h depth seen v vs)
  then show ?case by (cases "redact h depth seen v") (auto simp: split_beta)
next
  case (5 h depth seen k v es)
  then show ?case by (cases "redact h depth seen v") (auto simp: split_beta)
qed auto

text \<open>
  C36. A log line does not depend on anything kept under a sensitive name: two heaps that agree
  except in the values of such entries, at any object and any depth, give the same redacted
  value. The walk returns for every heap, circular ones included, and what it builds nests at
  most eleven levels deep.
\<close>

theorem redact_noninterference:
  assumes "\<forall>a. same_public (h a) (h' a)"
  shows "redactionFormat h v = redactionFormat h' v \<and> tree_depth (redactionFormat h v) \<le> 11"
  using redact_same_public(1) [OF assms] redact_depth(1) [of h 0 "[]" v] by (simp add: redactionFormat_def)

text \<open>A circular log record with a nested password.\<close>

definition demo_log :: "string \<Rightarrow> nat js_heap" where
  "demo_log pw a =
     (if a = 0 then Js_entries [(''level'', Js_string ''info''), (''self'', Js_ref 0), (''ctx'', Js_ref 1)]
      else Js_entries [(''userPassword'', Js_string pw), (''n'', Js_prim 3)])"

theorem redact_noninterference_witness:
  "redactionFormat (demo_log ''hunter2'') (Js_ref 0) = redactionFormat (demo_log ''swordfish'') (Js_ref 0) \<and>
   tree_depth (redactionFormat (demo_log ''hunter2'') (Js_ref 0)) \<le> 11"
proof (rule redact_noninterference)
  have "sensitive_key ''userPassword''"
    by code_simp
  then show "\<forall>a. same_public (demo_log ''hunter2'' a) (demo_log ''swordfish'' a)"
    by (simp add: demo_log_def same_entry_def)
qed

section \<open>A scheme that is missed\<close>

lemma replace_all_none:
  "(\<And>b t. suffix t s \<Longrightarrow> m b t = None) \<Longrightarrow> replace_all m before s = s"
proof (induction s arbitrary: before)
  case (Cons c cs)
  then show ?case by (simp add: suffix_Cons)
qed simp

definition plain_char :: "char \<Rightarrow> bool" where
  "plain_char c \<longleftrightarrow> is_lower c \<or> is_dec c \<or> c \<in> set '':@.''"

lemma plain_charD [simp]:
  "\<not> plain_char CHR ''A''" "\<not> plain_char CHR ''J''" "\<not> plain_char CHR ''-''" "\<not> plain_char CHR ''/''"
  by (simp_all add: plain_char_def is_lower_def is_dec_def)

lemma plain_rediss:
  assumes "list_all plain_char w" and "suffix t (''rediss://'' @ w)"
  shows "\<forall>c \<in> set t. plain_char c \<or> c = CHR ''/''"
proof -
  have "list_all (\<lambda>c. plain_char c \<or> c = CHR ''/'') ''rediss://''"
    by (simp add: plain_char_def is_lower_def)
  then have "list_all (\<lambda>c. plain_char c \<or> c = CHR ''/'') (''rediss://'' @ w)"
    using assms(1) by (auto simp: list_all_iff)
  then show ?thesis
    using set_mono_suffix [OF assms(2)] by (auto simp: list_all_iff)
qed

lemma to_lower_slash: "to_lower_char c = CHR ''/'' \<Longrightarrow> c = CHR ''/''"
proof (cases "65 \<le> (of_char c :: nat) \<and> (of_char c :: nat) \<le> 90")
  case True
  assume "to_lower_char c = CHR ''/''"
  then have "(of_char (char_of ((of_char c :: nat) + 32)) :: nat) = of_char CHR ''/''"
    using True by (simp add: to_lower_char_def)
  then show ?thesis
    using True by simp
qed (simp add: to_lower_char_def)

lemma no_scheme:
  assumes "list_all plain_char w" and "suffix t (''rediss://'' @ w)" and "v \<in> set schemes"
  shows "\<not> prefix (v @ ''://'') (to_lower t)"
proof (cases "suffix t w")
  case True
  have "CHR ''/'' \<notin> set t"
    using assms(1) set_mono_suffix [OF True] plain_charD(4) unfolding list_all_iff by blast
  then have "CHR ''/'' \<notin> set (to_lower t)"
    using to_lower_slash by (force simp: to_lower_def)
  then show ?thesis
    using set_mono_prefix [of "v @ ''://''" "to_lower t"] by auto
next
  case False
  then obtain l where "t = l @ w" "suffix l ''rediss://''" "l \<noteq> []"
    using assms(2) False unfolding suffix_append by fastforce
  then show ?thesis
    using assms(3) by (auto simp: suffix_Cons schemes_def to_lower_def to_lower_char_def)
qed

lemma matchers_miss:
  assumes "list_all plain_char w" and "suffix t (''rediss://'' @ w)"
  shows "conn_matcher b t = None" "aws_matcher b t = None" "jwt_word_matcher b t = None" "slack_matcher b t = None"
proof -
  have chars: "CHR ''A'' \<notin> set t" "CHR ''J'' \<notin> set t" "CHR ''-'' \<notin> set t"
    using plain_rediss [OF assms] by auto
  have "List.find (\<lambda>v. prefix (v @ ''://'') (to_lower t)) schemes = None"
    unfolding find_None_iff using no_scheme [OF assms] by blast
  then show "conn_matcher b t = None"
    by (simp add: conn_matcher_def)
  show "aws_matcher b t = None"
    using chars(1) set_take_subset [of 4 t] by (auto simp: aws_matcher_def)
  show "jwt_word_matcher b t = None"
    using chars(2) set_take_subset [of 3 t] by (auto simp: jwt_word_matcher_def jwt_matcher_def jwt_len_def)
  have "t ! 4 \<noteq> CHR ''-''" if "5 \<le> length t"
  proof -
    have "t ! 4 \<in> set t"
      using that by (intro nth_mem) linarith
    then show ?thesis
      using chars(3) by metis
  qed
  then show "slack_matcher b t = None"
    unfolding slack_matcher_def by presburger
qed

text \<open>
  The scrubber of connection strings misses the TLS scheme of Redis: a \<open>rediss://\<close> URL is
  logged with its password, whatever plain user, password and host it has, while the same text
  under \<open>redis://\<close> is replaced. The pattern's group reads \<open>redis(rediss)?\<close>, which stands for
  redis or redisrediss.
\<close>

theorem rediss_url_not_scrubbed:
  assumes "list_all plain_char w"
  shows "scrubString (''rediss://'' @ w) = ''rediss://'' @ w"
  using matchers_miss [OF assms] by (simp only: scrubString_def PATTERNS_def fold_simps comp_def id_def replace_all_none)

theorem rediss_url_not_scrubbed_witness:
  "scrubString (''rediss://'' @ ''app:hunter2@cache.local'') = ''rediss://'' @ ''app:hunter2@cache.local'' \<and>
   scrubString (''redis://'' @ ''app:hunter2@cache.local'') = ''redis://[REDACTED]''"
proof
  show "scrubString (''rediss://'' @ ''app:hunter2@cache.local'') = ''rediss://'' @ ''app:hunter2@cache.local''"
    by (rule rediss_url_not_scrubbed) (simp add: plain_char_def is_lower_def is_dec_def)
  show "scrubString (''redis://'' @ ''app:hunter2@cache.local'') = ''redis://[REDACTED]''"
    by code_simp
qed

end
