(* ===== verification/MetricsRegistry.thy ===== *)
theory MetricsRegistry
  imports Prelude Complex_Main "HOL-Library.AList"
begin

text \<open>
  metrics/registry.js: counters, gauges and histograms with a fixed set of label names, and the
  text exposition. A number of the source is a real number, an infinity or NaN (rounding is left
  out); a \<open>Map\<close> is an association list in insertion order, which \<open>AList.update\<close> keeps; a label
  object is the list of its entries. An operation that throws answers the message and leaves the
  metric as it was. The decimal text of a number is a parameter of the exposition.
\<close>

section \<open>Numbers\<close>

datatype number = Fin real | Inf bool | NaN

fun is_finite :: "number \<Rightarrow> bool" where
  "is_finite (Fin _) = True"
| "is_finite _ = False"

text \<open>\<open>x >= 0\<close>, \<open>x <= b\<close> for a finite \<open>b\<close>, and addition; \<open>Inf True\<close> is the positive infinity.\<close>

fun nonneg :: "number \<Rightarrow> bool" where
  "nonneg (Fin x) = (0 \<le> x)"
| "nonneg (Inf pos) = pos"
| "nonneg NaN = False"

fun at_most :: "number \<Rightarrow> real \<Rightarrow> bool" where
  "at_most (Fin x) b = (x \<le> b)"
| "at_most (Inf pos) b = (\<not> pos)"
| "at_most NaN b = False"

fun num_add :: "number \<Rightarrow> number \<Rightarrow> number" where
  "num_add (Fin x) (Fin y) = Fin (x + y)"
| "num_add (Inf p) (Fin y) = Inf p"
| "num_add (Fin x) (Inf q) = Inf q"
| "num_add (Inf p) (Inf q) = (if p = q then Inf p else NaN)"
| "num_add NaN _ = NaN"
| "num_add _ NaN = NaN"

fun num_neg :: "number \<Rightarrow> number" where
  "num_neg (Fin x) = Fin (- x)"
| "num_neg (Inf p) = Inf (\<not> p)"
| "num_neg NaN = NaN"

section \<open>Labels\<close>

type_synonym labels = "(string \<times> string) list"

definition MAX_LABEL_VALUE_LENGTH :: nat where
  "MAX_LABEL_VALUE_LENGTH = 128"

definition RESERVED_LABEL_NAMES :: "string list" where
  "RESERVED_LABEL_NAMES =
     [''userid'', ''user_id'', ''user'', ''username'', ''email'', ''socketid'', ''socket_id'', ''socket'',
      ''jwt'', ''token'', ''sessionid'', ''session_id'', ''session'',
      ''requestid'', ''request_id'', ''request'', ''trace_id'', ''traceid'', ''span_id'',
      ''gameid'', ''game_id'', ''game'', ''roomid'', ''room_id'', ''room'',
      ''ip'', ''client_ip'', ''clientip'', ''path'', ''url'', ''query'', ''body'',
      ''password'', ''secret'', ''cookie'', ''authorization'']"

definition is_line_break :: "char \<Rightarrow> bool" where
  "is_line_break c \<longleftrightarrow> c = CHR 0x0A \<or> c = CHR 0x0D"

text \<open>\<open>text.replace(/[\r\n]+/g, " ")\<close>: a run of line breaks becomes one space.\<close>

fun collapse_breaks :: "string \<Rightarrow> string" where
  "collapse_breaks [] = []"
| "collapse_breaks (c # cs) =
     (if is_line_break c
      then (if (case cs of [] \<Rightarrow> False | d # _ \<Rightarrow> is_line_break d) then [] else '' '') @ collapse_breaks cs
      else c # collapse_breaks cs)"

definition sanitizeLabelValue :: "string \<Rightarrow> string" where
  "sanitizeLabelValue value =
     (let text = collapse_breaks value in
      if length text > MAX_LABEL_VALUE_LENGTH then take MAX_LABEL_VALUE_LENGTH text else text)"

fun escape_char :: "char \<Rightarrow> string \<Rightarrow> string" where
  "escape_char e [] = []"
| "escape_char e (c # cs) = (if c = e then [CHR 0x5C, c] else [c]) @ escape_char e cs"

definition escapeLabelValue :: "string \<Rightarrow> string" where
  "escapeLabelValue text = escape_char CHR 0x22 (escape_char CHR 0x5C text)"

text \<open>\<open>labels[name] ?? ""\<close>\<close>

definition label_value :: "labels \<Rightarrow> string \<Rightarrow> string" where
  "label_value labels name = (case map_of labels name of None \<Rightarrow> [] | Some v \<Rightarrow> v)"

text \<open>\<open>JSON.stringify\<close> of a string.\<close>

definition hex_digit :: "nat \<Rightarrow> char" where
  "hex_digit n = ''0123456789abcdef'' ! n"

definition json_char :: "char \<Rightarrow> string" where
  "json_char c =
     (if c = CHR 0x22 \<or> c = CHR 0x5C then [CHR 0x5C, c]
      else if c = CHR 0x08 then [CHR 0x5C, CHR ''b'']
      else if c = CHR 0x09 then [CHR 0x5C, CHR ''t'']
      else if c = CHR 0x0A then [CHR 0x5C, CHR ''n'']
      else if c = CHR 0x0C then [CHR 0x5C, CHR ''f'']
      else if c = CHR 0x0D then [CHR 0x5C, CHR ''r'']
      else if (of_char c :: nat) < 32
        then [CHR 0x5C, CHR ''u'', CHR ''0'', CHR ''0'', hex_digit (of_char c div 16), hex_digit (of_char c mod 16)]
      else [c])"

definition json_string :: "string \<Rightarrow> string" where
  "json_string s = [CHR 0x22] @ concat (map json_char s) @ [CHR 0x22]"

definition labelsKey :: "string list \<Rightarrow> labels \<Rightarrow> string" where
  "labelsKey labelNames labels =
     join_with '','' (map (\<lambda>name. name @ ''='' @ json_string (sanitizeLabelValue (label_value labels name))) labelNames)"

definition renderLabels :: "string list \<Rightarrow> labels \<Rightarrow> string" where
  "renderLabels labelNames labels =
     (if labelNames = [] then []
      else ''{'' @ join_with '','' (map (\<lambda>name. name @ ''='' @ [CHR 0x22] @
             escapeLabelValue (sanitizeLabelValue (label_value labels name)) @ [CHR 0x22]) labelNames) @ ''}'')"

text \<open>\<open>NAME_RE\<close> is \<open>^[a-zA-Z_:][a-zA-Z0-9_:]*$\<close>.\<close>

definition name_start :: "char \<Rightarrow> bool" where
  "name_start c \<longleftrightarrow> 97 \<le> (of_char c :: nat) \<and> (of_char c :: nat) \<le> 122 \<or> 65 \<le> (of_char c :: nat) \<and> (of_char c :: nat) \<le> 90 \<or>
     c = CHR ''_'' \<or> c = CHR '':''"

definition valid_name :: "string \<Rightarrow> bool" where
  "valid_name name \<longleftrightarrow>
     (case name of [] \<Rightarrow> False | c # cs \<Rightarrow> name_start c \<and> list_all (\<lambda>d. name_start d \<or> is_digit d) cs)"

fun validateLabelNames :: "string \<Rightarrow> string list \<Rightarrow> (string, unit) result" where
  "validateLabelNames metricName [] = Inr ()"
| "validateLabelNames metricName (name # names) =
     (if \<not> valid_name name then Inl (''metric '' @ metricName @ '': invalid label name '' @ json_string name)
      else if to_lower name \<in> set RESERVED_LABEL_NAMES
      then Inl (''metric '' @ metricName @ '': reserved (unbounded/PII) label name '' @ json_string name)
      else validateLabelNames metricName names)"

fun validateSample :: "string \<Rightarrow> string list \<Rightarrow> string list \<Rightarrow> (string, unit) result" where
  "validateSample metricName labelNames [] = Inr ()"
| "validateSample metricName labelNames (name # given) =
     (if name \<notin> set labelNames
      then Inl (''metric '' @ metricName @ '': undeclared label '' @ json_string name @ '' (would explode cardinality)'')
      else validateSample metricName labelNames given)"

lemma validateLabelNames_iff:
  "validateLabelNames m names = Inr () \<longleftrightarrow>
     (\<forall>n \<in> set names. valid_name n \<and> to_lower n \<notin> set RESERVED_LABEL_NAMES)"
  by (induction names) auto

lemma validateSample_iff: "validateSample m names given = Inr () \<longleftrightarrow> set given \<subseteq> set names"
  by (induction given) auto

section \<open>Metrics\<close>

record 'c metric =
  m_label :: string
  m_help :: string
  labelNames :: "string list"
  series :: "(string \<times> labels \<times> 'c) list"

type_synonym counter = "number metric"

definition new_metric :: "string \<Rightarrow> string \<Rightarrow> string list \<Rightarrow> (string, 'c metric) result" where
  "new_metric name hlp names =
     bind_result (validateLabelNames name names)
       (\<lambda>_. Inr \<lparr>m_label = name, m_help = hlp, labelNames = names, series = []\<rparr>)"

definition sample_key :: "('c, 'z) metric_scheme \<Rightarrow> labels \<Rightarrow> string" where
  "sample_key m labels = labelsKey (labelNames m) labels"

definition check_sample :: "('c, 'z) metric_scheme \<Rightarrow> labels \<Rightarrow> (string, unit) result" where
  "check_sample m labels = validateSample (m_label m) (labelNames m) (map fst labels)"

text \<open>The cell of a series, or \<open>fresh\<close> in a new cell with the labels of the call.\<close>

definition cell_or :: "'c \<Rightarrow> ('c, 'z) metric_scheme \<Rightarrow> labels \<Rightarrow> labels \<times> 'c" where
  "cell_or fresh m labels =
     (case map_of (series m) (sample_key m labels) of Some cl \<Rightarrow> cl | None \<Rightarrow> (labels, fresh))"

definition counter_inc :: "labels \<Rightarrow> number \<Rightarrow> counter \<Rightarrow> (string, counter) result" where
  "counter_inc labels value m =
     bind_result (check_sample m labels) (\<lambda>_.
       if \<not> nonneg value then Inl (''metric '' @ m_label m @ '': counter increment must be >= 0'')
       else let (ls, v) = cell_or (Fin 0) m labels in
         Inr (m\<lparr>series := AList.update (sample_key m labels) (ls, num_add v value) (series m)\<rparr>))"

text \<open>
  A gauge has collectors beside its series: what the function answers when it is sampled, None
  when it throws.
\<close>

record gauge = "number metric" +
  collectors :: "(labels \<times> number option) list"

definition new_gauge :: "string \<Rightarrow> string \<Rightarrow> string list \<Rightarrow> (string, gauge) result" where
  "new_gauge name hlp names =
     bind_result (validateLabelNames name names)
       (\<lambda>_. Inr \<lparr>m_label = name, m_help = hlp, labelNames = names, series = [], collectors = []\<rparr>)"

definition gauge_read :: "labels \<Rightarrow> gauge \<Rightarrow> (string, number) result" where
  "gauge_read labels m =
     bind_result (check_sample m labels) (\<lambda>_.
       Inr (case map_of (series m) (sample_key m labels) of Some (_, v) \<Rightarrow> v | None \<Rightarrow> Fin 0))"

definition gauge_write :: "labels \<Rightarrow> number \<Rightarrow> gauge \<Rightarrow> (string, gauge) result" where
  "gauge_write labels value m =
     bind_result (check_sample m labels) (\<lambda>_.
       if \<not> is_finite value then Inl (''metric '' @ m_label m @ '': gauge value must be finite'')
       else Inr (m\<lparr>series := AList.update (sample_key m labels) (labels, value) (series m)\<rparr>))"

definition gauge_inc :: "labels \<Rightarrow> number \<Rightarrow> gauge \<Rightarrow> (string, gauge) result" where
  "gauge_inc labels value m = bind_result (gauge_read labels m) (\<lambda>v. gauge_write labels (num_add v value) m)"

definition gauge_dec :: "labels \<Rightarrow> number \<Rightarrow> gauge \<Rightarrow> (string, gauge) result" where
  "gauge_dec labels value m = gauge_inc labels (num_neg value) m"

definition gauge_collect :: "labels \<Rightarrow> number option \<Rightarrow> gauge \<Rightarrow> (string, gauge) result" where
  "gauge_collect labels fn m =
     bind_result (check_sample m labels) (\<lambda>_. Inr (m\<lparr>collectors := collectors m @ [(labels, fn)]\<rparr>))"

text \<open>A histogram cell counts, for every bucket bound, the observations at most as large.\<close>

record hist_cell =
  counts :: "nat list"
  total :: number
  observations :: nat

record histogram = "hist_cell metric" +
  buckets :: "real list"

definition default_buckets :: "real list" where
  "default_buckets = [0.005, 0.01, 0.025, 0.05, 0.1, 0.25, 0.5, 1, 2.5, 5, 10]"

definition new_histogram :: "string \<Rightarrow> string \<Rightarrow> string list \<Rightarrow> real list \<Rightarrow> (string, histogram) result" where
  "new_histogram name hlp names bs =
     bind_result (validateLabelNames name names)
       (\<lambda>_. Inr \<lparr>m_label = name, m_help = hlp, labelNames = names, series = [], buckets = sort bs\<rparr>)"

definition empty_cell :: "real list \<Rightarrow> hist_cell" where
  "empty_cell bs = \<lparr>counts = map (\<lambda>_. 0) bs, total = Fin 0, observations = 0\<rparr>"

definition add_observation :: "real list \<Rightarrow> number \<Rightarrow> hist_cell \<Rightarrow> hist_cell" where
  "add_observation bs value cl =
     \<lparr>counts = map2 (\<lambda>b n. if at_most value b then n + 1 else n) bs (counts cl),
      total = num_add (total cl) value, observations = observations cl + 1\<rparr>"

definition observe :: "labels \<Rightarrow> number \<Rightarrow> histogram \<Rightarrow> (string, histogram) result" where
  "observe labels value m =
     bind_result (check_sample m labels) (\<lambda>_.
       if \<not> nonneg value then Inl (''metric '' @ m_label m @ '': histogram observation must be >= 0'')
       else let (ls, cl) = cell_or (empty_cell (buckets m)) m labels in
         Inr (m\<lparr>series := AList.update (sample_key m labels) (ls, add_observation (buckets m) value cl) (series m)\<rparr>))"

section \<open>The exposition\<close>

definition head_lines :: "string \<Rightarrow> ('c, 'z) metric_scheme \<Rightarrow> string list" where
  "head_lines kind m = [''# HELP '' @ m_label m @ '' '' @ m_help m, ''# TYPE '' @ m_label m @ '' '' @ kind]"

definition value_line :: "(number \<Rightarrow> string) \<Rightarrow> ('c, 'z) metric_scheme \<Rightarrow> labels \<Rightarrow> number \<Rightarrow> string" where
  "value_line show_number m labels v = m_label m @ renderLabels (labelNames m) labels @ '' '' @ show_number v"

definition counter_exposition :: "(number \<Rightarrow> string) \<Rightarrow> counter \<Rightarrow> string list" where
  "counter_exposition show_number m =
     head_lines ''counter'' m @ map (\<lambda>(_, labels, v). value_line show_number m labels v) (series m)"

definition sampled :: "number option \<Rightarrow> number" where
  "sampled fn = (case fn of Some v \<Rightarrow> if is_finite v then v else Fin 0 | None \<Rightarrow> Fin 0)"

definition gauge_exposition :: "(number \<Rightarrow> string) \<Rightarrow> gauge \<Rightarrow> string list" where
  "gauge_exposition show_number m =
     head_lines ''gauge'' m @ map (\<lambda>(_, labels, v). value_line show_number m labels v) (series m) @
     map (\<lambda>(labels, fn). value_line show_number m labels (sampled fn)) (collectors m)"

definition with_le :: "string \<Rightarrow> string \<Rightarrow> string" where
  "with_le base le =
     (if base \<noteq> [] then butlast base @ '',le='' @ [CHR 0x22] @ le @ [CHR 0x22] @ ''}''
      else ''{le='' @ [CHR 0x22] @ le @ [CHR 0x22] @ ''}'')"

definition cell_lines :: "(number \<Rightarrow> string) \<Rightarrow> histogram \<Rightarrow> labels \<Rightarrow> hist_cell \<Rightarrow> string list" where
  "cell_lines show_number m labels cl =
     (let base = renderLabels (labelNames m) labels in
      map2 (\<lambda>b n. m_label m @ ''_bucket'' @ with_le base (show_number (Fin b)) @ '' '' @ show_nat n) (buckets m) (counts cl) @
      [m_label m @ ''_bucket'' @ with_le base ''+Inf'' @ '' '' @ show_nat (observations cl),
       m_label m @ ''_sum'' @ base @ '' '' @ show_number (total cl),
       m_label m @ ''_count'' @ base @ '' '' @ show_nat (observations cl)])"

definition histogram_exposition :: "(number \<Rightarrow> string) \<Rightarrow> histogram \<Rightarrow> string list" where
  "histogram_exposition show_number m =
     head_lines ''histogram'' m @ concat (map (\<lambda>(_, labels, cl). cell_lines show_number m labels cl) (series m))"

datatype any_metric = Counter_metric counter | Gauge_metric gauge | Histogram_metric histogram

fun metric_lines :: "(number \<Rightarrow> string) \<Rightarrow> any_metric \<Rightarrow> string list" where
  "metric_lines show_number (Counter_metric m) = counter_exposition show_number m"
| "metric_lines show_number (Gauge_metric m) = gauge_exposition show_number m"
| "metric_lines show_number (Histogram_metric m) = histogram_exposition show_number m"

definition registry_exposition :: "(number \<Rightarrow> string) \<Rightarrow> any_metric list \<Rightarrow> string" where
  "registry_exposition show_number ms =
     join_with [CHR 0x0A] (concat (map (metric_lines show_number) ms)) @ [CHR 0x0A]"

section \<open>Label values are bounded and one series belongs to one label set\<close>

lemma collapse_breaks_none: "c \<in> set (collapse_breaks s) \<Longrightarrow> \<not> is_line_break c"
  by (induction s) (auto simp: is_line_break_def split: if_splits)

lemma sanitize_length: "length (sanitizeLabelValue v) \<le> MAX_LABEL_VALUE_LENGTH"
  by (simp add: sanitizeLabelValue_def Let_def)

lemma sanitize_one_line: "c \<in> set (sanitizeLabelValue v) \<Longrightarrow> \<not> is_line_break c"
  unfolding sanitizeLabelValue_def Let_def by (metis collapse_breaks_none in_set_takeD)

text \<open>The code of a character is recognised by its first two symbols, so codes can be read back.\<close>

definition code_length :: "string \<Rightarrow> nat" where
  "code_length s = (if hd s \<noteq> CHR 0x5C then 1 else if s ! 1 = CHR ''u'' then 6 else 2)"

lemma code_length_json: "code_length (json_char c @ s) = length (json_char c)"
  by (auto simp: json_char_def code_length_def)

lemma hex_digit_inj: "m < 16 \<Longrightarrow> n < 16 \<Longrightarrow> hex_digit m = hex_digit n \<Longrightarrow> m = n"
proof -
  have "distinct ''0123456789abcdef''" "length ''0123456789abcdef'' = 16"
    by simp_all
  then show "m < 16 \<Longrightarrow> n < 16 \<Longrightarrow> hex_digit m = hex_digit n \<Longrightarrow> m = n"
    unfolding hex_digit_def by (metis nth_eq_iff_index_eq)
qed

lemma control_char_inj:
  assumes "(of_char c :: nat) < 32" "(of_char d :: nat) < 32"
    and "hex_digit (of_char c div 16) = hex_digit (of_char d div 16)"
    and "hex_digit (of_char c mod 16) = hex_digit (of_char d mod 16)"
  shows "c = d"
proof -
  have "(of_char c :: nat) div 16 = of_char d div 16"
    using assms by (intro hex_digit_inj) auto
  moreover have "(of_char c :: nat) mod 16 = of_char d mod 16"
    using assms(4) by (intro hex_digit_inj) auto
  ultimately have "(of_char c :: nat) = of_char d"
    by (metis div_mult_mod_eq)
  then show ?thesis
    by simp
qed

lemma json_char_inj: "json_char c = json_char d \<Longrightarrow> c = d"
  by (auto simp: json_char_def intro: control_char_inj split: if_splits)

lemma json_char_prefix:
  assumes "json_char c @ s = json_char d @ t"
  shows "c = d \<and> s = t"
proof -
  have "length (json_char c) = length (json_char d)"
    using assms code_length_json by metis
  then show ?thesis
    using assms json_char_inj by simp
qed

lemma json_char_no_quote [simp]: "json_char c \<noteq> CHR 0x22 # s" "CHR 0x22 # s \<noteq> json_char c" "json_char c \<noteq> []"
  by (auto simp: json_char_def)

lemma json_body_inj:
  "concat (map json_char s) @ CHR 0x22 # r = concat (map json_char t) @ CHR 0x22 # q \<Longrightarrow> s = t \<and> r = q"
proof (induction s arbitrary: t)
  case Nil
  then show ?case
    by (cases t) (auto simp: Cons_eq_append_conv)
next
  case (Cons c s)
  then show ?case
  proof (cases t)
    case Nil
    then show ?thesis
      using Cons.prems by (auto simp: append_eq_Cons_conv)
  next
    case (Cons d u)
    then show ?thesis
      using Cons.prems Cons.IH json_char_prefix by simp blast
  qed
qed

lemma labelsKey_inj:
  "labelsKey names l = labelsKey names l' \<longleftrightarrow>
     (\<forall>n \<in> set names. sanitizeLabelValue (label_value l n) = sanitizeLabelValue (label_value l' n))"
proof -
  define v v' where "v n = sanitizeLabelValue (label_value l n)" and "v' n = sanitizeLabelValue (label_value l' n)" for n
  have "join_with '','' (map (\<lambda>n. n @ ''='' @ json_string (v n)) names) =
      join_with '','' (map (\<lambda>n. n @ ''='' @ json_string (v' n)) names) \<longleftrightarrow> (\<forall>n \<in> set names. v n = v' n)"
  proof (induction names)
    case (Cons n ns)
    show ?case
    proof (cases ns)
      case Nil
      then show ?thesis
        using json_body_inj [of "v n" "[]" "v' n" "[]"] by (auto simp: json_string_def)
    next
      case (Cons k ks)
      then show ?thesis
        using Cons.IH json_body_inj [of "v n" _ "v' n"] by (auto simp: json_string_def)
    qed
  qed simp
  then show ?thesis
    by (simp add: labelsKey_def v_def v'_def)
qed

section \<open>A metric is the summary of what was observed\<close>

text \<open>Callers drop a failed observation (\<open>try ... catch\<close> with an empty handler).\<close>

definition attempt :: "('m \<Rightarrow> (string, 'm) result) \<Rightarrow> 'm \<Rightarrow> 'm" where
  "attempt f m = (case f m of Inl _ \<Rightarrow> m | Inr m' \<Rightarrow> m')"

definition attempt_all :: "(labels \<Rightarrow> number \<Rightarrow> 'm \<Rightarrow> (string, 'm) result) \<Rightarrow> (labels \<times> number) list \<Rightarrow> 'm \<Rightarrow> 'm" where
  "attempt_all f obs m = fold (\<lambda>(l, v). attempt (f l v)) obs m"

lemma attempt_all_simps [simp]:
  "attempt_all f [] m = m"
  "attempt_all f ((l, v) # obs) m = attempt_all f obs (attempt (f l v) m)"
  "attempt_all f (obs @ obs') m = attempt_all f obs' (attempt_all f obs m)"
  by (simp_all add: attempt_all_def)

text \<open>The observations a metric with these label names accepts, and those of one label set.\<close>

definition accepted :: "string list \<Rightarrow> labels \<times> number \<Rightarrow> bool" where
  "accepted names lv \<longleftrightarrow> set (map fst (fst lv)) \<subseteq> set names \<and> nonneg (snd lv)"

definition same_labels :: "string list \<Rightarrow> labels \<Rightarrow> labels \<Rightarrow> bool" where
  "same_labels names l l' \<longleftrightarrow>
     (\<forall>n \<in> set names. sanitizeLabelValue (label_value l n) = sanitizeLabelValue (label_value l' n))"

definition observed :: "string list \<Rightarrow> labels \<Rightarrow> (labels \<times> number) list \<Rightarrow> number list" where
  "observed names ls obs = map snd (filter (\<lambda>lv. accepted names lv \<and> same_labels names ls (fst lv)) obs)"

lemma observed_simps [simp]:
  "observed names ls [] = []"
  "observed names ls (obs @ [(l, v)]) =
     observed names ls obs @ (if accepted names (l, v) \<and> same_labels names ls l then [v] else [])"
  by (simp_all add: observed_def)

text \<open>
  What counters and histograms share: an accepted observation folds its value into the cell of
  its series, which starts fresh, and touches nothing else.
\<close>

locale summary_metric =
  fixes record_op :: "labels \<Rightarrow> number \<Rightarrow> ('c, 'z) metric_scheme \<Rightarrow> (string, ('c, 'z) metric_scheme) result"
    and fresh :: "('c, 'z) metric_scheme \<Rightarrow> 'c"
    and add_value :: "('c, 'z) metric_scheme \<Rightarrow> number \<Rightarrow> 'c \<Rightarrow> 'c"
  assumes accepts: "accepted (labelNames m) (l, v) \<Longrightarrow> record_op l v m =
      Inr (let (ls, cl) = cell_or (fresh m) m l in
        m\<lparr>series := AList.update (sample_key m l) (ls, add_value m v cl) (series m)\<rparr>)"
    and rejects: "\<not> accepted (labelNames m) (l, v) \<Longrightarrow> \<exists>e. record_op l v m = Inl e"
    and fresh_static: "fresh (m\<lparr>series := s\<rparr>) = fresh m"
    and add_static: "add_value (m\<lparr>series := s\<rparr>) = add_value m"
begin

lemma attempt_effect:
  "\<exists>s. attempt (record_op l v) m = m\<lparr>series := s\<rparr>"
  "map_option snd (map_of (series (attempt (record_op l v) m)) k) =
     (if accepted (labelNames m) (l, v) \<and> k = sample_key m l
      then Some (add_value m v (case map_of (series m) k of Some cl \<Rightarrow> snd cl | None \<Rightarrow> fresh m))
      else map_option snd (map_of (series m) k))"
proof -
  show "\<exists>s. attempt (record_op l v) m = m\<lparr>series := s\<rparr>"
  proof (cases "accepted (labelNames m) (l, v)")
    case True
    then show ?thesis
      by (auto simp: attempt_def accepts split_beta)
  next
    case False
    then have "attempt (record_op l v) m = m\<lparr>series := series m\<rparr>"
      using rejects [of m l v] by (auto simp: attempt_def)
    then show ?thesis ..
  qed
  show "map_option snd (map_of (series (attempt (record_op l v) m)) k) =
     (if accepted (labelNames m) (l, v) \<and> k = sample_key m l
      then Some (add_value m v (case map_of (series m) k of Some cl \<Rightarrow> snd cl | None \<Rightarrow> fresh m))
      else map_option snd (map_of (series m) k))"
  proof (cases "accepted (labelNames m) (l, v)")
    case True
    then show ?thesis
      by (auto simp: attempt_def accepts split_beta update_conv cell_or_def split: option.splits)
  next
    case False
    then show ?thesis
      using rejects [of m l v] by (auto simp: attempt_def)
  qed
qed

lemma run_static: "\<exists>s. attempt_all record_op obs m = m\<lparr>series := s\<rparr>"
proof (induction obs rule: rev_induct)
  case Nil
  have "attempt_all record_op [] m = m\<lparr>series := series m\<rparr>"
    by simp
  then show ?case ..
next
  case (snoc lv obs)
  obtain l v where lv: "lv = (l, v)"
    by fastforce
  obtain s where "attempt_all record_op obs m = m\<lparr>series := s\<rparr>"
    using snoc by blast
  then show ?case
    using attempt_effect(1) [of l v "m\<lparr>series := s\<rparr>"] by (auto simp: lv)
qed

lemma run_summary:
  assumes "series m = []"
  shows "map_option snd (map_of (series (attempt_all record_op obs m)) (sample_key m ls)) =
     (let vs = observed (labelNames m) ls obs in if vs = [] then None else Some (fold (add_value m) vs (fresh m)))"
proof (induction obs rule: rev_induct)
  case Nil
  then show ?case by (simp add: assms)
next
  case (snoc lv obs)
  obtain l v where lv: "lv = (l, v)"
    by fastforce
  obtain s where s: "attempt_all record_op obs m = m\<lparr>series := s\<rparr>"
    using run_static by blast
  have key: "sample_key m ls = sample_key m l \<longleftrightarrow> same_labels (labelNames m) ls l"
    by (simp add: sample_key_def labelsKey_inj same_labels_def)
  have same: "sample_key (m\<lparr>series := s\<rparr>) l = sample_key m l"
    by (simp add: sample_key_def)
  show ?case
    using snoc
    by (auto simp: lv s same attempt_effect(2) key fresh_static add_static Let_def split: option.splits if_splits)
qed

end

lemma check_sample_ok: "check_sample m l = Inr () \<longleftrightarrow> set (map fst l) \<subseteq> set (labelNames m)"
  by (simp add: check_sample_def validateSample_iff)

lemma accepted_check: "accepted (labelNames m) (l, v) \<longleftrightarrow> check_sample m l = Inr () \<and> nonneg v"
  by (simp add: accepted_def check_sample_ok)

interpretation counter_ops: summary_metric counter_inc "\<lambda>_. Fin 0" "\<lambda>_ v x. num_add x v"
  by unfold_locales (auto simp: accepted_check counter_inc_def Let_def split_beta bind_result_def split: sum.split)

interpretation histogram_ops: summary_metric observe "\<lambda>m. empty_cell (buckets m)" "\<lambda>m. add_observation (buckets m)"
  by unfold_locales (auto simp: accepted_check observe_def Let_def split_beta bind_result_def split: sum.split)

section \<open>Counters and histograms against their observations\<close>

lemma new_metric_ok:
  "new_metric name h names = Inr m \<Longrightarrow> m_label m = name \<and> labelNames m = names \<and> series m = []"
  by (auto simp: new_metric_def bind_result_Inr_iff)

lemma new_histogram_ok:
  "new_histogram name h names bs = Inr m \<Longrightarrow>
     m_label m = name \<and> labelNames m = names \<and> series m = [] \<and> buckets m = sort bs"
  by (auto simp: new_histogram_def bind_result_Inr_iff)

lemma counter_is_sum:
  assumes "new_metric name h names = Inr m"
  shows "map_option snd (map_of (series (attempt_all counter_inc obs m)) (labelsKey names ls)) =
     (let vs = observed names ls obs in if vs = [] then None else Some (foldl num_add (Fin 0) vs))"
  using counter_ops.run_summary [of m obs ls] new_metric_ok [OF assms]
  by (auto simp: sample_key_def foldl_conv_fold Let_def)

lemma fold_observation:
  "fold (add_observation bs) vs \<lparr>counts = map f bs, total = x, observations = n\<rparr> =
     \<lparr>counts = map (\<lambda>b. f b + length (filter (\<lambda>v. at_most v b) vs)) bs, total = foldl num_add x vs,
      observations = n + length vs\<rparr>"
proof (induction vs arbitrary: f x n)
  case (Cons v vs)
  have "map2 (\<lambda>b n. if at_most v b then n + 1 else n) bs (map f bs) = map (\<lambda>b. if at_most v b then f b + 1 else f b) bs"
    by (induction bs) auto
  then have "add_observation bs v \<lparr>counts = map f bs, total = x, observations = n\<rparr> =
      \<lparr>counts = map (\<lambda>b. if at_most v b then f b + 1 else f b) bs, total = num_add x v, observations = n + 1\<rparr>"
    by (simp add: add_observation_def)
  then show ?case
    by (simp add: Cons.IH)
qed simp

text \<open>
  A histogram is the summary of the observations it accepted. After any sequence of
  observations the series of a label set holds, for every bucket bound in ascending order, the
  number of accepted observations with that label set at most as large, their sum and their
  number, and there is no series when there was none; an observation with an undeclared label
  or a negative or NaN value changes nothing, and two label sets share a series exactly when
  their values agree after line breaks are folded and values are cut to 128 characters.
\<close>

theorem histogram_summary:
  assumes "new_histogram name h names bs = Inr m"
  shows "map_option snd (map_of (series (attempt_all observe obs m)) (labelsKey names ls)) =
     (let vs = observed names ls obs in
      if vs = [] then None
      else Some \<lparr>counts = map (\<lambda>b. length (filter (\<lambda>v. at_most v b) vs)) (sort bs),
                 total = foldl num_add (Fin 0) vs, observations = length vs\<rparr>)"
proof -
  have m: "labelNames m = names" "series m = []" "buckets m = sort bs"
    using new_histogram_ok [OF assms] by simp_all
  show ?thesis
    using histogram_ops.run_summary [of m obs ls, OF m(2)]
    by (auto simp: sample_key_def empty_cell_def fold_observation Let_def m)
qed

theorem histogram_summary_witness:
  "\<exists>m. new_histogram ''latency'' ''h'' [''route''] [5, 1] = Inr m \<and>
     map_option snd (map_of (series (attempt_all observe
       [([(''route'', ''/a'')], Fin 3), ([(''user'', ''ann'')], Fin 1), ([(''route'', ''/a'')], NaN)] m))
       (labelsKey [''route''] [(''route'', ''/a'')])) =
     Some \<lparr>counts = [0, 1], total = Fin 3, observations = 1\<rparr>"
proof -
  have "\<exists>m. new_histogram ''latency'' ''h'' [''route''] [5, 1] = Inr m"
    by (simp add: new_histogram_def bind_result_Inr_iff validateLabelNames_iff valid_name_def name_start_def
        RESERVED_LABEL_NAMES_def to_lower_def to_lower_char_def)
  then obtain m where m: "new_histogram ''latency'' ''h'' [''route''] [5, 1] = Inr m" ..
  show ?thesis
    using histogram_summary [OF m, of "[([(''route'', ''/a'')], Fin 3), ([(''user'', ''ann'')], Fin 1), ([(''route'', ''/a'')], NaN)]"
        "[(''route'', ''/a'')]"] m
    by (auto simp: observed_def accepted_def same_labels_def)
qed

end
