(* ===== verification/Metrics.thy ===== *)
theory Metrics
  imports MetricsRegistry Shutdown
begin

text \<open>
  The metrics the server keeps, on top of the registry: the catalogue of metrics/index.js, the
  HTTP middleware of metrics/http.js with the in-flight gauge that the shutdown's HTTP phase
  polls, and the hooks of metrics/socket.js, redis.js, shutdown.js, db.js and s3.js, which fold
  every label into a fixed set before it reaches a metric. A hook is a function on the metric it
  increments; times are nanoseconds of a monotonic clock.
\<close>

section \<open>The catalogue\<close>

datatype metric_kind = Counter_kind | Gauge_kind | Histogram_kind "real list"

text \<open>Name, label names and kind of every metric, in the order of registration; help texts left out.\<close>

definition catalogue :: "(string \<times> string list \<times> metric_kind) list" where
  "catalogue =
    [(''http_requests_total'', [''method'', ''route'', ''status_class''], Counter_kind),
     (''http_request_duration_seconds'', [''method'', ''route'', ''status_class''], Histogram_kind default_buckets),
     (''http_requests_in_flight'', [], Gauge_kind),
     (''http_request_size_bytes'', [''method'', ''route''], Histogram_kind [256, 1024, 4096, 16384, 32768, 65536]),
     (''app_errors_total'', [''component''], Counter_kind),
     (''process_uptime_seconds'', [], Gauge_kind),
     (''eventloop_lag_seconds'', [], Gauge_kind),
     (''db_pool_connections'', [''state''], Gauge_kind),
     (''db_query_duration_seconds'', [''operation''], Histogram_kind default_buckets),
     (''db_query_errors_total'', [''operation''], Counter_kind),
     (''socket_io_connects_total'', [], Counter_kind),
     (''socket_io_disconnects_total'', [''reason''], Counter_kind),
     (''socket_io_auth_failures_total'', [], Counter_kind),
     (''socket_io_connections_active'', [], Gauge_kind),
     (''socket_io_rooms_active'', [], Gauge_kind),
     (''room_operation_failures_total'', [], Counter_kind),
     (''room_hydrations_total'', [''outcome''], Counter_kind),
     (''presence_checks_total'', [''outcome''], Counter_kind),
     (''s3_operations_total'', [''operation'', ''result''], Counter_kind),
     (''s3_operation_duration_seconds'', [''operation''], Histogram_kind [0.05, 0.1, 0.25, 0.5, 1, 2.5, 5, 15]),
     (''s3_legacy_fallback_reads_total'', [], Counter_kind),
     (''redis_client_errors_total'', [''client''], Counter_kind),
     (''redis_connected'', [''client''], Gauge_kind),
     (''redis_reconnects_total'', [''client''], Counter_kind),
     (''redis_command_duration_seconds'', [''client'', ''command''], Histogram_kind [0.001, 0.005, 0.01, 0.025, 0.05, 0.1, 0.25, 1, 5]),
     (''rematch_redis_errors_total'', [''operation''], Counter_kind),
     (''rate_limit_degraded_total'', [''limiter''], Counter_kind),
     (''shutdown_state'', [], Gauge_kind),
     (''shutdown_rejected_total'', [''source''], Counter_kind),
     (''shutdown_phase_total'', [''phase'', ''result''], Counter_kind),
     (''shutdown_signals_total'', [''signal'', ''action''], Counter_kind),
     (''chess_build_info'', [''version'', ''commit''], Gauge_kind)]"

text \<open>The server starts: no declaration of the catalogue is refused, and no two share a name.\<close>

lemma catalogue_accepted:
  "list_all (\<lambda>(name, names, k). validateLabelNames name names = Inr ()) catalogue \<and> distinct (map fst catalogue)"
proof
  show "list_all (\<lambda>(name, names, k). validateLabelNames name names = Inr ()) catalogue"
    by code_simp
  show "distinct (map fst catalogue)"
    by (simp add: catalogue_def)
qed

definition buildInfo :: "string option \<Rightarrow> string option \<Rightarrow> labels" where
  "buildInfo version commit =
     (let or_unknown = (\<lambda>v. case v of None \<Rightarrow> ''unknown'' | Some s \<Rightarrow> if s = [] then ''unknown'' else s) in
      [(''version'', take 32 (or_unknown version)), (''commit'', take 40 (or_unknown commit))])"

section \<open>HTTP requests\<close>

definition EXCLUDED_PATHS :: "string list" where
  "EXCLUDED_PATHS = [''/metrics'', ''/liveness'', ''/readiness'', ''/health'', ''/internal/enter-drain'']"

definition MAX_ROUTE_LABEL :: nat where
  "MAX_ROUTE_LABEL = 128"

text \<open>The route pattern of a request, when a route matched it, with the mount point before it.\<close>

definition routeLabel :: "string \<Rightarrow> string option \<Rightarrow> string" where
  "routeLabel baseUrl route =
     (let pattern = (case route of None \<Rightarrow> [] | Some p \<Rightarrow> if p = [] then [] else baseUrl @ p) in
      if pattern = [] then ''unmatched''
      else if length pattern > MAX_ROUTE_LABEL then ''unmatched'' else pattern)"

definition statusClass :: "nat \<Rightarrow> string" where
  "statusClass code =
     (if 200 \<le> code \<and> code < 300 then ''2xx''
      else if 300 \<le> code \<and> code < 400 then ''3xx''
      else if 400 \<le> code \<and> code < 500 then ''4xx''
      else if 500 \<le> code \<and> code < 600 then ''5xx''
      else ''other'')"

text \<open>What one call of the middleware closes over.\<close>

record pending =
  p_settled :: bool
  p_started :: int
  p_length :: number
  p_method :: string

record http_metrics =
  inFlight :: gauge
  requestsTotal :: counter
  requestDuration :: histogram
  requestSize :: histogram
  closures :: "pending list"

definition http_metrics0 :: http_metrics where
  "http_metrics0 =
     \<lparr>inFlight = \<lparr>m_label = ''http_requests_in_flight'', m_help = ''HTTP requests currently being handled.'',
                  labelNames = [], series = [], collectors = []\<rparr>,
      requestsTotal = \<lparr>m_label = ''http_requests_total'', m_help = ''Completed HTTP requests.'',
                       labelNames = [''method'', ''route'', ''status_class''], series = []\<rparr>,
      requestDuration = \<lparr>m_label = ''http_request_duration_seconds'', m_help = ''HTTP request duration in seconds.'',
                         labelNames = [''method'', ''route'', ''status_class''], series = [], buckets = default_buckets\<rparr>,
      requestSize = \<lparr>m_label = ''http_request_size_bytes'', m_help = ''HTTP request Content-Length in bytes (observed).'',
                     labelNames = [''method'', ''route''], series = [], buckets = [256, 1024, 4096, 16384, 32768, 65536]\<rparr>,
      closures = []\<rparr>"

definition getInflightRequests :: "http_metrics \<Rightarrow> nat" where
  "getInflightRequests st =
     (case gauge_read [] (inFlight st) of
        Inr (Fin x) \<Rightarrow> if 0 < x then nat \<lfloor>x\<rfloor> else 0
      | _ \<Rightarrow> 0)"

definition metricsMiddleware :: "string \<Rightarrow> string \<Rightarrow> number \<Rightarrow> int \<Rightarrow> http_metrics \<Rightarrow> http_metrics" where
  "metricsMiddleware path method len now st =
     (if path \<in> set EXCLUDED_PATHS then st
      else st\<lparr>inFlight := attempt (gauge_inc [] (Fin 1)) (inFlight st),
              closures := closures st @ [\<lparr>p_settled = False, p_started = now, p_length = len, p_method = method\<rparr>]\<rparr>)"

text \<open>
  \<open>settle\<close> of the i-th request that was counted, on \<open>finish\<close> (with the route and the status known
  then) or on \<open>close\<close>. The body is one \<open>try\<close>: what comes after a failed metric is skipped.
\<close>

definition record_finished :: "pending \<Rightarrow> string \<Rightarrow> nat \<Rightarrow> int \<Rightarrow> http_metrics \<Rightarrow> http_metrics" where
  "record_finished p route code now st =
     (let seconds = of_int (now - p_started p) / 10 ^ 9;
          method = to_upper (take 16 (if p_method p = [] then ''UNKNOWN'' else p_method p));
          labels = [(''method'', method), (''route'', route), (''status_class'', statusClass code)] in
      case counter_inc labels (Fin 1) (requestsTotal st) of
        Inl _ \<Rightarrow> st
      | Inr c \<Rightarrow>
          (let st = st\<lparr>requestsTotal := c\<rparr> in
           case observe labels (Fin (max 0 seconds)) (requestDuration st) of
             Inl _ \<Rightarrow> st
           | Inr d \<Rightarrow>
               (let st = st\<lparr>requestDuration := d\<rparr> in
                if is_finite (p_length p) \<and> nonneg (p_length p) \<and> p_length p \<noteq> Fin 0
                then st\<lparr>requestSize := attempt (observe [(''method'', method), (''route'', route)] (p_length p)) (requestSize st)\<rparr>
                else st)))"

definition settle :: "nat \<Rightarrow> (string \<times> nat) option \<Rightarrow> int \<Rightarrow> http_metrics \<Rightarrow> http_metrics" where
  "settle i finished now st =
     (if length (closures st) \<le> i \<or> p_settled (closures st ! i) then st
      else let p = closures st ! i; st = st\<lparr>closures := (closures st)[i := p\<lparr>p_settled := True\<rparr>]\<rparr> in
        case gauge_dec [] (Fin 1) (inFlight st) of
          Inl _ \<Rightarrow> st
        | Inr g \<Rightarrow>
            (let st = st\<lparr>inFlight := g\<rparr> in
             case finished of None \<Rightarrow> st | Some (route, code) \<Rightarrow> record_finished p route code now st))"

datatype http_event =
    Request_arrives string string number int
  | Response_finishes nat string nat int
  | Connection_closes nat int

fun http_step :: "http_metrics \<Rightarrow> http_event \<Rightarrow> http_metrics" where
  "http_step st (Request_arrives path method len now) = metricsMiddleware path method len now st"
| "http_step st (Response_finishes i route code now) = settle i (Some (route, code)) now st"
| "http_step st (Connection_closes i now) = settle i None now st"

section \<open>The gauge is the set of open requests\<close>

text \<open>The specification: how many requests were counted and which of them are still open.\<close>

fun spec_step :: "nat \<times> nat set \<Rightarrow> http_event \<Rightarrow> nat \<times> nat set" where
  "spec_step (n, live) (Request_arrives path _ _ _) =
     (if path \<in> set EXCLUDED_PATHS then (n, live) else (n + 1, insert n live))"
| "spec_step (n, live) (Response_finishes i _ _ _) = (n, live - {i})"
| "spec_step (n, live) (Connection_closes i _) = (n, live - {i})"

definition open_requests :: "http_event list \<Rightarrow> nat set" where
  "open_requests es = snd (run_steps spec_step (0, {}) es)"

text \<open>A gauge without labels and the whole number it shows.\<close>

definition shows_nat :: "gauge \<Rightarrow> nat \<Rightarrow> bool" where
  "shows_nat g n \<longleftrightarrow> labelNames g = [] \<and> gauge_read [] g = Inr (Fin (real n))"

lemma shows_nat_inc:
  assumes "shows_nat g n"
  shows "shows_nat (attempt (gauge_inc [] (Fin 1)) g) (n + 1)"
  using assms
  by (auto simp: shows_nat_def gauge_inc_def gauge_write_def gauge_read_def attempt_def check_sample_def sample_key_def
      update_conv labelsKey_def split: option.splits)

lemma shows_nat_dec:
  assumes "shows_nat g n" and "0 < n"
  obtains g' where "gauge_dec [] (Fin 1) g = Inr g'" "shows_nat g' (n - 1)"
  using assms
  by (auto simp: shows_nat_def gauge_dec_def gauge_inc_def gauge_write_def gauge_read_def check_sample_def sample_key_def
      update_conv labelsKey_def of_nat_diff split: option.splits)

definition http_rel :: "nat \<times> nat set \<Rightarrow> http_metrics \<Rightarrow> bool" where
  "http_rel sp st \<longleftrightarrow>
     fst sp = length (closures st) \<and> snd sp = {i. i < length (closures st) \<and> \<not> p_settled (closures st ! i)} \<and>
     shows_nat (inFlight st) (card (snd sp))"

lemma http_rel_settle:
  assumes "http_rel (n, live) st"
  shows "http_rel (n, live - {i}) (settle i fin now st)"
proof (cases "i \<in> live")
  case False
  then show ?thesis
    using assms by (auto simp: http_rel_def settle_def)
next
  case True
  let ?p = "closures st ! i"
  let ?st = "st\<lparr>closures := (closures st)[i := ?p\<lparr>p_settled := True\<rparr>]\<rparr>"
  have i: "i < length (closures st)" "\<not> p_settled ?p" and fin: "finite live"
    using assms True by (auto simp: http_rel_def)
  have "0 < card live"
    using True fin by (auto simp: card_gt_0_iff)
  with assms obtain g where g: "gauge_dec [] (Fin 1) (inFlight st) = Inr g" "shows_nat g (card live - 1)"
    using shows_nat_dec [of "inFlight st" "card live"] by (auto simp: http_rel_def)
  have "closures (settle i fin now st) = closures ?st \<and> inFlight (settle i fin now st) = g"
    using i g(1)
    by (auto simp: settle_def record_finished_def Let_def split: option.split sum.split)
  moreover have "live - {i} = {j. j < length (closures ?st) \<and> \<not> p_settled (closures ?st ! j)}"
    using assms i by (auto simp: http_rel_def nth_list_update)
  moreover have "card live - 1 = card (live - {i})" "n = length (closures ?st)"
    using True assms by (simp_all add: http_rel_def)
  ultimately show ?thesis
    unfolding http_rel_def fst_conv snd_conv using g(2) by metis
qed

lemma http_rel_arrives:
  assumes "http_rel (n, live) st" and "path \<notin> set EXCLUDED_PATHS"
  shows "http_rel (n + 1, insert n live) (metricsMiddleware path method len now st)"
proof -
  have "n \<notin> live" "finite live" "live \<subseteq> {..<n}"
    using assms(1) by (auto simp: http_rel_def)
  then show ?thesis
    using assms shows_nat_inc [of "inFlight st" "card live"]
    by (auto simp: http_rel_def metricsMiddleware_def nth_append less_Suc_eq)
qed

lemma http_rel_step: "http_rel sp st \<Longrightarrow> http_rel (spec_step sp e) (http_step st e)"
proof (cases e)
  case (Request_arrives path meth size now)
  assume "http_rel sp st"
  then show ?thesis
    using Request_arrives http_rel_arrives by (cases sp; cases "path \<in> set EXCLUDED_PATHS") (simp_all add: metricsMiddleware_def)
qed (cases sp, simp add: http_rel_settle)+

lemma http_rel_run: "http_rel sp st \<Longrightarrow> http_rel (run_steps spec_step sp es) (run_steps http_step st es)"
  by (induction es arbitrary: sp st) (simp_all add: http_rel_step)

lemma shows_nat_inflight: "shows_nat (inFlight st) n \<Longrightarrow> getInflightRequests st = n"
  by (simp add: shows_nat_def getInflightRequests_def)

text \<open>
  C37. The in-flight gauge never leaks: after any sequence of arrivals, completed responses and
  closed connections, in any order and with repetitions, it shows exactly the number of counted
  requests that have neither finished nor closed. So when the shutdown polls it, the HTTP phase
  reports that it completed exactly when no request was open at the moment it stopped waiting.
\<close>

theorem inflight_is_open_requests:
  "getInflightRequests (run_steps http_step http_metrics0 es) = card (open_requests es) \<and>
   finite (open_requests es) \<and>
   (case phaseHttp (\<lambda>t. Some (getInflightRequests (run_steps http_step http_metrics0 (trace t)))) budget of
      (r, t) \<Rightarrow> (r = Completed \<longleftrightarrow> open_requests (trace t) = {}) \<and> t \<le> budget)"
proof -
  have init: "http_rel (0, {}) http_metrics0"
    by (simp add: http_rel_def http_metrics0_def shows_nat_def gauge_read_def check_sample_def)
  have rel: "http_rel (run_steps spec_step (0, {}) es) (run_steps http_step http_metrics0 es)" for es
    using init by (rule http_rel_run)
  have n: "getInflightRequests (run_steps http_step http_metrics0 es) = card (open_requests es)" for es
    using rel [of es] shows_nat_inflight unfolding http_rel_def open_requests_def by blast
  have fin: "finite (open_requests es)" for es
    using rel [of es] by (simp add: http_rel_def open_requests_def)
  show ?thesis
    using fin phase_times(2) [of "\<lambda>t. Some (card (open_requests (trace t)))" budget]
    by (auto simp: n phaseHttp_def in_flight_def Let_def card_gt_0_iff)
qed

section \<open>Hooks with a fixed set of labels\<close>

text \<open>A value of the allowlist, or the member it collapses to.\<close>

definition allow :: "string list \<Rightarrow> string \<Rightarrow> string \<Rightarrow> string" where
  "allow xs other x = (if x \<in> set xs then x else other)"

definition KNOWN_DISCONNECT_REASONS :: "string list" where
  "KNOWN_DISCONNECT_REASONS = [''client namespace disconnect'', ''server namespace disconnect'', ''ping timeout'',
     ''transport close'', ''transport error'', ''forced close'', ''parse error'']"

definition normalizeReason :: "string \<Rightarrow> string" where
  "normalizeReason = allow KNOWN_DISCONNECT_REASONS ''other''"

definition HYDRATION_OUTCOMES :: "string list" where
  "HYDRATION_OUTCOMES = [''created'', ''refreshed'', ''not_found'', ''invalid'', ''error'']"

definition PRESENCE_OUTCOMES :: "string list" where
  "PRESENCE_OUTCOMES = [''ok'', ''failed'']"

definition onDisconnect :: "string \<Rightarrow> counter \<Rightarrow> counter" where
  "onDisconnect reason = attempt (counter_inc [(''reason'', normalizeReason reason)] (Fin 1))"

definition onHydration :: "string \<Rightarrow> counter \<Rightarrow> counter" where
  "onHydration outcome = attempt (counter_inc [(''outcome'', allow HYDRATION_OUTCOMES ''error'' outcome)] (Fin 1))"

definition onPresenceCheck :: "string \<Rightarrow> counter \<Rightarrow> counter" where
  "onPresenceCheck outcome = attempt (counter_inc [(''outcome'', allow PRESENCE_OUTCOMES ''failed'' outcome)] (Fin 1))"

text \<open>\<open>onConnect\<close>, \<open>onAuthFailure\<close>, \<open>onRoomOperationFailure\<close> and \<open>observeLegacyFallback\<close>.\<close>

definition count_one :: "counter \<Rightarrow> counter" where
  "count_one = attempt (counter_inc [] (Fin 1))"

definition CLIENTS :: "string list" where
  "CLIENTS = [''adapter-pub'', ''adapter-sub'', ''store'']"

definition COMMANDS :: "string list" where
  "COMMANDS = [''sadd'', ''srem'', ''scard'', ''expire'', ''del'', ''ping'', ''incr'', ''ttl'']"

definition REMATCH_OPS :: "string list" where
  "REMATCH_OPS = [''add'', ''remove'', ''clear'']"

definition safeClient :: "string \<Rightarrow> string" where
  "safeClient = allow CLIENTS ''store''"

text \<open>A client that failed is counted under its name.\<close>

definition onClientError :: "string \<Rightarrow> counter \<Rightarrow> counter" where
  "onClientError clientName = attempt (counter_inc [(''client'', safeClient clientName)] (Fin 1))"

definition collectConnected :: "string \<Rightarrow> number option \<Rightarrow> gauge \<Rightarrow> gauge" where
  "collectConnected clientName statusFn = attempt (gauge_collect [(''client'', safeClient clientName)] statusFn)"

text \<open>The outcome of the command is passed on; an error is counted, the duration observed in any case.\<close>

definition observeCommand ::
  "string \<Rightarrow> string \<Rightarrow> (string, 'a) result \<Rightarrow> int \<Rightarrow> counter \<times> histogram \<Rightarrow> (string, 'a) result \<times> counter \<times> histogram" where
  "observeCommand clientName command outcome nanos st =
     (let (errors, durations) = st in
      (outcome,
       (case outcome of Inl _ \<Rightarrow> onClientError clientName errors | Inr _ \<Rightarrow> errors),
       attempt (observe [(''client'', safeClient clientName), (''command'', allow COMMANDS ''OTHER'' command)]
         (Fin (max 0 (of_int nanos / 10 ^ 9)))) durations))"

definition onRematchRedisError :: "string \<Rightarrow> counter \<Rightarrow> counter" where
  "onRematchRedisError operation = attempt (counter_inc [(''operation'', allow REMATCH_OPS ''add'' operation)] (Fin 1))"

definition REJECT_SOURCES :: "string list" where
  "REJECT_SOURCES = [''http'', ''socket'', ''room'']"

definition PHASES :: "string list" where
  "PHASES = [''settle'', ''http'', ''room'', ''socket'', ''cache'', ''pg'']"

definition PHASE_RESULTS :: "string list" where
  "PHASE_RESULTS = [''completed'', ''timeout'', ''forced'']"

definition SIGNALS :: "string list" where
  "SIGNALS = [''SIGTERM'', ''SIGINT'']"

definition SIGNAL_ACTIONS :: "string list" where
  "SIGNAL_ACTIONS = [''accepted'', ''ignored'']"

definition setShutdownState :: "number \<Rightarrow> gauge \<Rightarrow> gauge" where
  "setShutdownState value = attempt (gauge_write [] value)"

definition onRejectedWork :: "string \<Rightarrow> counter \<Rightarrow> counter" where
  "onRejectedWork source = attempt (counter_inc [(''source'', allow REJECT_SOURCES ''http'' source)] (Fin 1))"

definition onPhase :: "string \<Rightarrow> string \<Rightarrow> counter \<Rightarrow> counter" where
  "onPhase phase res =
     attempt (counter_inc [(''phase'', allow PHASES ''settle'' phase), (''result'', allow PHASE_RESULTS ''completed'' res)] (Fin 1))"

definition onSignal_metric :: "string \<Rightarrow> string \<Rightarrow> counter \<Rightarrow> counter" where
  "onSignal_metric sig action =
     attempt (counter_inc [(''signal'', allow SIGNALS ''SIGTERM'' sig), (''action'', allow SIGNAL_ACTIONS ''ignored'' action)] (Fin 1))"

text \<open>The SQL verb of a statement; the text is trimmed and cut at the first white space.\<close>

definition OPERATIONS :: "string list" where
  "OPERATIONS = [''SELECT'', ''INSERT'', ''UPDATE'', ''DELETE'', ''WITH'', ''BEGIN'', ''COMMIT'', ''ROLLBACK'', ''SAVEPOINT'',
     ''SET'', ''SHOW'', ''EXPLAIN'', ''LISTEN'', ''NOTIFY'']"

definition operationOf :: "string \<Rightarrow> string" where
  "operationOf text =
     (let verb = filter (\<lambda>c. 65 \<le> (of_char c :: nat) \<and> (of_char c :: nat) \<le> 90) (to_upper (takeWhile (\<lambda>c. \<not> is_space c) (trim text))) in
      allow OPERATIONS ''OTHER'' verb)"

definition onQueryError :: "string \<Rightarrow> counter \<Rightarrow> counter" where
  "onQueryError text = attempt (counter_inc [(''operation'', operationOf text)] (Fin 1))"

definition instrumented_query ::
  "string \<Rightarrow> (string, 'a) result \<Rightarrow> int \<Rightarrow> counter \<times> histogram \<Rightarrow> (string, 'a) result \<times> counter \<times> histogram" where
  "instrumented_query text outcome nanos st =
     (let (errors, durations) = st in
      (outcome,
       (case outcome of Inl _ \<Rightarrow> onQueryError text errors | Inr _ \<Rightarrow> errors),
       attempt (observe [(''operation'', operationOf text)] (Fin (max 0 (of_int nanos / 10 ^ 9)))) durations))"

text \<open>S3 operations; \<open>Number(seconds) || 0\<close> turns NaN into 0.\<close>

definition S3_OPERATIONS :: "string list" where
  "S3_OPERATIONS = [''put'', ''get'', ''delete'']"

definition S3_RESULTS :: "string list" where
  "S3_RESULTS = [''ok'', ''missing'', ''error'']"

definition safeOp :: "string \<Rightarrow> string" where
  "safeOp = allow S3_OPERATIONS ''get''"

definition count_s3 :: "string \<Rightarrow> string \<Rightarrow> counter \<Rightarrow> counter" where
  "count_s3 operation res =
     attempt (counter_inc [(''operation'', safeOp operation), (''result'', allow S3_RESULTS ''error'' res)] (Fin 1))"

definition observeS3 :: "string \<Rightarrow> string \<Rightarrow> number \<Rightarrow> counter \<times> histogram \<Rightarrow> counter \<times> histogram" where
  "observeS3 operation res seconds st =
     (let (ops, durations) = st in
      (count_s3 operation res ops,
       attempt (observe [(''operation'', safeOp operation)] (case seconds of NaN \<Rightarrow> Fin 0 | x \<Rightarrow> if nonneg x then x else Fin 0)) durations))"

text \<open>The runtime sampler: milliseconds of delay beyond the tick, as seconds.\<close>

definition TICK_MS :: int where
  "TICK_MS = 1000"

definition sampler_tick :: "int \<Rightarrow> int \<times> gauge \<Rightarrow> int \<times> gauge" where
  "sampler_tick now st =
     (now, attempt (gauge_write [] (Fin (max 0 (of_int (now - fst st - TICK_MS) / 1000)))) (snd st))"

section \<open>The number of series is bounded\<close>

definition counter0 :: "string \<Rightarrow> string list \<Rightarrow> counter" where
  "counter0 name names = \<lparr>m_label = name, m_help = [], labelNames = names, series = []\<rparr>"

definition keys_within :: "string list \<Rightarrow> string set \<Rightarrow> counter \<Rightarrow> bool" where
  "keys_within names K m \<longleftrightarrow> labelNames m = names \<and> distinct (map fst (series m)) \<and> fst ` set (series m) \<subseteq> K"

lemma keys_within_inc:
  assumes "keys_within names K m" and "labelsKey names l \<in> K"
  shows "keys_within names K (attempt (counter_inc l v) m)"
proof (cases "accepted (labelNames m) (l, v)")
  case True
  then show ?thesis
    using assms
    by (auto simp: keys_within_def attempt_def counter_ops.accepts split_beta sample_key_def distinct_update dom_update)
next
  case False
  then show ?thesis
    using assms counter_ops.rejects [of m l v] by (auto simp: attempt_def)
qed

lemma series_bound:
  assumes "\<And>x. lab x \<in> set combos"
  shows "length (series (fold (\<lambda>x. attempt (counter_inc (lab x) (Fin 1))) xs (counter0 name names))) \<le> length combos"
proof -
  let ?K = "labelsKey names ` set combos"
  have fold: "keys_within names ?K (fold (\<lambda>x. attempt (counter_inc (lab x) (Fin 1))) xs m)"
    if "keys_within names ?K m" for m
    using that
  proof (induction xs arbitrary: m)
    case (Cons x xs)
    have "labelsKey names (lab x) \<in> ?K"
      using assms by blast
    then show ?case
      using Cons keys_within_inc by simp
  qed simp
  have within: "keys_within names ?K (fold (\<lambda>x. attempt (counter_inc (lab x) (Fin 1))) xs (counter0 name names))"
    by (rule fold) (simp add: keys_within_def counter0_def)
  let ?s = "series (fold (\<lambda>x. attempt (counter_inc (lab x) (Fin 1))) xs (counter0 name names))"
  have d: "distinct (map fst ?s)" and sub: "fst ` set ?s \<subseteq> ?K"
    using within unfolding keys_within_def by blast+
  have "length ?s = card (fst ` set ?s)"
    using distinct_card [OF d] by simp
  also have "\<dots> \<le> card ?K"
    using sub by (intro card_mono) simp_all
  also have "\<dots> \<le> length combos"
    using card_image_le [of "set combos" "labelsKey names"] card_length [of combos] by simp
  finally show ?thesis .
qed

lemma allow_mem: "allow xs other x \<in> set (other # xs)"
  by (simp add: allow_def)

lemma one_label_bound:
  assumes "\<And>x. lab x \<in> set vs"
  shows "length (series (fold (\<lambda>x. attempt (counter_inc [(n, lab x)] (Fin 1))) xs (counter0 name names))) \<le> length vs"
  using series_bound [of "\<lambda>x. [(n, lab x)]" "map (\<lambda>v. [(n, v)]) vs"] assms by simp

lemma two_label_bound:
  assumes "\<And>x. lab x \<in> set vs" "\<And>x. lab2 x \<in> set ws"
  shows "length (series (fold (\<lambda>x. attempt (counter_inc [(n, lab x), (k, lab2 x)] (Fin 1))) xs (counter0 name names)))
    \<le> length vs * length ws"
proof -
  have "[(n, lab x), (k, lab2 x)] \<in> set (map (\<lambda>(v, w). [(n, v), (k, w)]) (List.product vs ws))" for x
    using assms by (auto intro!: image_eqI [of _ _ "(lab x, lab2 x)"])
  from series_bound [OF this] show ?thesis
    by (simp add: length_product)
qed

lemma allow_closed: "other \<in> set xs \<Longrightarrow> allow xs other x \<in> set xs"
  by (simp add: allow_def)

text \<open>
  No caller can make a counter of the hooks grow without bound: whatever strings the hooks
  are called with, and however often, the disconnect counter keeps at most 8 series, the
  hydration counter 5, the query error counter 15, the Redis error counter 3, the counters of
  shutdown phases and of S3 operations at most 6 times 3 and 3 times 3.
\<close>

theorem telemetry_series_bounded:
  "length (series (fold onDisconnect xs (counter0 ''socket_io_disconnects_total'' [''reason'']))) \<le> 8 \<and>
   length (series (fold onHydration xs (counter0 ''room_hydrations_total'' [''outcome'']))) \<le> 5 \<and>
   length (series (fold onQueryError xs (counter0 ''db_query_errors_total'' [''operation'']))) \<le> 15 \<and>
   length (series (fold onClientError xs (counter0 ''redis_client_errors_total'' [''client'']))) \<le> 3 \<and>
   length (series (fold (\<lambda>(p, r). onPhase p r) ps (counter0 ''shutdown_phase_total'' [''phase'', ''result'']))) \<le> 18 \<and>
   length (series (fold (\<lambda>(p, r). count_s3 p r) ps (counter0 ''s3_operations_total'' [''operation'', ''result'']))) \<le> 9"
proof (intro conjI)
  show "length (series (fold onDisconnect xs (counter0 ''socket_io_disconnects_total'' [''reason'']))) \<le> 8"
    unfolding onDisconnect_def [abs_def] normalizeReason_def
    by (rule one_label_bound [THEN order_trans], rule allow_mem) (simp add: KNOWN_DISCONNECT_REASONS_def)
  show "length (series (fold onHydration xs (counter0 ''room_hydrations_total'' [''outcome'']))) \<le> 5"
    unfolding onHydration_def [abs_def]
    by (rule one_label_bound [THEN order_trans], rule allow_closed) (simp_all add: HYDRATION_OUTCOMES_def)
  show "length (series (fold onQueryError xs (counter0 ''db_query_errors_total'' [''operation'']))) \<le> 15"
    unfolding onQueryError_def [abs_def] operationOf_def Let_def
    by (rule one_label_bound [THEN order_trans], rule allow_mem) (simp add: OPERATIONS_def)
  show "length (series (fold onClientError xs (counter0 ''redis_client_errors_total'' [''client'']))) \<le> 3"
    unfolding onClientError_def [abs_def] safeClient_def
    by (rule one_label_bound [THEN order_trans], rule allow_closed) (simp_all add: CLIENTS_def)
  show "length (series (fold (\<lambda>(p, r). onPhase p r) ps (counter0 ''shutdown_phase_total'' [''phase'', ''result'']))) \<le> 18"
    unfolding onPhase_def [abs_def] case_prod_unfold
    by (rule two_label_bound [THEN order_trans], rule allow_closed, simp add: PHASES_def, rule allow_closed)
      (simp_all add: PHASES_def PHASE_RESULTS_def)
  show "length (series (fold (\<lambda>(p, r). count_s3 p r) ps (counter0 ''s3_operations_total'' [''operation'', ''result'']))) \<le> 9"
    unfolding count_s3_def [abs_def] case_prod_unfold safeOp_def
    by (rule two_label_bound [THEN order_trans], rule allow_closed, simp add: S3_OPERATIONS_def, rule allow_closed)
      (simp_all add: S3_OPERATIONS_def S3_RESULTS_def)
qed

end
