(* ===== verification/ClientSession.thy ===== *)
theory ClientSession
  imports AuthSafety "HOL-Library.AList"
begin

text \<open>
  The session of the browser: \<open>request\<close> of api/client.js, which refreshes an expired access token
  once and repeats the call, utils/authStorage.js, and the account state of App.js. The browser's
  cookie jar and the server's database are one state, so a call of the client is a function from
  that state to its result and the next state; the server's side is the endpoints of AuthRoutes.
  Which requests reach the server and when are arguments.
\<close>

section \<open>The cookie jar\<close>

type_synonym jar = "(string \<times> string \<times> int option) list"

definition store_cookie :: "int \<Rightarrow> cookie \<Rightarrow> jar \<Rightarrow> jar" where
  "store_cookie now c jar =
     (case c of
        Set_cookie n v opts \<Rightarrow> AList.update n (v, map_option (\<lambda>age. now + age) (maxAge opts)) jar
      | Clear_cookie n opts \<Rightarrow> AList.delete n jar)"

definition store_cookies :: "int \<Rightarrow> reply \<Rightarrow> jar \<Rightarrow> jar" where
  "store_cookies now r jar = fold (store_cookie now) (cookies r) jar"

definition cookie_of :: "int \<Rightarrow> jar \<Rightarrow> string \<Rightarrow> string option" where
  "cookie_of now jar n =
     (case map_of jar n of
        None \<Rightarrow> None
      | Some (v, expires) \<Rightarrow> (case expires of None \<Rightarrow> Some v | Some e \<Rightarrow> if now < e then Some v else None))"

section \<open>Requests\<close>

text \<open>An endpoint gets the time, the two cookies of the request and the database.\<close>

type_synonym endpoint = "int \<Rightarrow> string option \<Rightarrow> string option \<Rightarrow> db \<Rightarrow> reply \<times> db"

record world =
  cookie_jar :: jar
  server :: db

datatype api_error = Network_failure | Api_error string

text \<open>\<open>fetch\<close>: None when the request does not reach the server.\<close>

definition send :: "endpoint \<Rightarrow> int \<Rightarrow> jar \<Rightarrow> db \<Rightarrow> reply \<times> db" where
  "send ep now jar d = ep now (cookie_of now jar ACCESS_COOKIE) (cookie_of now jar REFRESH_COOKIE) d"

definition fetch :: "bool \<Rightarrow> endpoint \<Rightarrow> int \<Rightarrow> world \<Rightarrow> reply option \<times> world" where
  "fetch reaches ep now wd =
     (if \<not> reaches then (None, wd)
      else let (r, d) = send ep now (cookie_jar wd) (server wd) in
        (Some r, \<lparr>cookie_jar = store_cookies now r (cookie_jar wd), server = d\<rparr>))"

definition response_ok :: "reply \<Rightarrow> bool" where
  "response_ok r \<longleftrightarrow> 200 \<le> status r \<and> status r < 300"

definition parse_response :: "string \<Rightarrow> reply \<Rightarrow> (api_error, body) result" where
  "parse_response fallback r =
     (if response_ok r then Inr (body r)
      else Inl (Api_error (case body r of Error m \<Rightarrow> if m = [] then fallback else m | _ \<Rightarrow> fallback)))"

definition LOGIN_PATH :: string where "LOGIN_PATH = ''/api/auth/login''"
definition REFRESH_PATH :: string where "REFRESH_PATH = ''/api/auth/refresh''"

definition refresh_endpoint :: "web \<Rightarrow> string \<Rightarrow> endpoint" where
  "refresh_endpoint w nextRaw now access raw d = refresh w now nextRaw raw d"

text \<open>Whether a reply makes the client refresh the session.\<close>

definition needs_refresh :: "string \<Rightarrow> bool \<Rightarrow> reply \<Rightarrow> bool" where
  "needs_refresh path retry r \<longleftrightarrow> status r = 401 \<and> retry \<and> path \<noteq> LOGIN_PATH \<and> path \<noteq> REFRESH_PATH"

text \<open>
  \<open>request\<close>: the i-th fetch of the call happens at \<open>clock i\<close> and reaches the server when \<open>net i\<close>.
  The recursive call has \<open>retry: false\<close>, so it fetches once.
\<close>

definition request_once :: "bool \<Rightarrow> endpoint \<Rightarrow> int \<Rightarrow> world \<Rightarrow> (api_error, body) result \<times> world" where
  "request_once reaches ep now wd =
     (case fetch reaches ep now wd of
        (None, wd') \<Rightarrow> (Inl Network_failure, wd')
      | (Some r, wd') \<Rightarrow> (parse_response ''Request failed'' r, wd'))"

definition request ::
  "web \<Rightarrow> (nat \<Rightarrow> bool) \<Rightarrow> (nat \<Rightarrow> int) \<Rightarrow> string \<Rightarrow> string \<Rightarrow> bool \<Rightarrow> endpoint \<Rightarrow> world \<Rightarrow> (api_error, body) result \<times> world" where
  "request w net clock nextRaw path retry ep wd =
     (case fetch (net 0) ep (clock 0) wd of
        (None, wd0) \<Rightarrow> (Inl Network_failure, wd0)
      | (Some r, wd0) \<Rightarrow>
          if needs_refresh path retry r then
            (case fetch (net 1) (refresh_endpoint w nextRaw) (clock 1) wd0 of
               (None, wd1) \<Rightarrow> (Inl Network_failure, wd1)
             | (Some refreshed, wd1) \<Rightarrow>
                 if response_ok refreshed then request_once (net 2) ep (clock 2) wd1
                 else (parse_response ''Request failed'' r, wd1))
          else (parse_response ''Request failed'' r, wd0))"

text \<open>\<open>refreshSession\<close>, \<open>logout\<close>, \<open>getProfile\<close>; the upload, which is a bare fetch; \<open>saveScore\<close>, which hides errors.\<close>

definition refreshSession :: "web \<Rightarrow> (nat \<Rightarrow> bool) \<Rightarrow> (nat \<Rightarrow> int) \<Rightarrow> string \<Rightarrow> world \<Rightarrow> (api_error, body) result \<times> world" where
  "refreshSession w net clock nextRaw = request w net clock nextRaw REFRESH_PATH False (refresh_endpoint w nextRaw)"

definition logout_request :: "web \<Rightarrow> (nat \<Rightarrow> bool) \<Rightarrow> (nat \<Rightarrow> int) \<Rightarrow> world \<Rightarrow> (api_error, body) result \<times> world" where
  "logout_request w net clock =
     request w net clock [] ''/api/auth/logout'' False (\<lambda>now access raw. logout w now access)"

definition getProfile :: "web \<Rightarrow> (nat \<Rightarrow> bool) \<Rightarrow> (nat \<Rightarrow> int) \<Rightarrow> string \<Rightarrow> world \<Rightarrow> (api_error, body) result \<times> world" where
  "getProfile w net clock nextRaw =
     request w net clock nextRaw ''/api/auth/profile'' True (\<lambda>now access raw. profile w now access)"

definition uploadAvatar :: "bool \<Rightarrow> endpoint \<Rightarrow> int \<Rightarrow> world \<Rightarrow> (api_error, body) result \<times> world" where
  "uploadAvatar reaches ep now wd =
     (case fetch reaches ep now wd of
        (None, wd') \<Rightarrow> (Inl Network_failure, wd')
      | (Some r, wd') \<Rightarrow> (parse_response ''Upload failed'' r, wd'))"

definition saveScore ::
  "web \<Rightarrow> (nat \<Rightarrow> bool) \<Rightarrow> (nat \<Rightarrow> int) \<Rightarrow> string \<Rightarrow> bool \<Rightarrow> endpoint \<Rightarrow> world \<Rightarrow> body option \<times> world" where
  "saveScore w net clock nextRaw session ep wd =
     (if \<not> session then (None, wd)
      else case request w net clock nextRaw ''/api/leaderboard/save'' True ep wd of
          (Inl _, wd') \<Rightarrow> (None, wd')
        | (Inr b, wd') \<Rightarrow> (Some b, wd'))"

section \<open>An expired access token is renewed\<close>

text \<open>A refresh token the server will exchange, of a verified user.\<close>

definition live_session :: "web \<Rightarrow> int \<Rightarrow> string \<Rightarrow> refresh_token \<Rightarrow> user_row \<Rightarrow> db \<Rightarrow> bool" where
  "live_session w now raw t u d \<longleftrightarrow>
     raw \<noteq> [] \<and> refresh_row (hashToken (w_crypto w) raw) d = Some t \<and> now < rt_expires t \<and> rt_revoked t = None \<and>
     rt_consumed t = None \<and> find_user (rt_user t) d = Some u \<and> u_verified u \<noteq> None \<and>
     distinct (map rt_id (refresh_tokens d))"

text \<open>What a successful exchange leaves behind.\<close>

definition unused_hash :: "web \<Rightarrow> string \<Rightarrow> db \<Rightarrow> bool" where
  "unused_hash w raw d \<longleftrightarrow> list_all (\<lambda>t. rt_hash t \<noteq> hashToken (w_crypto w) raw) (refresh_tokens d)"

definition consumed_by :: "web \<Rightarrow> int \<Rightarrow> refresh_token \<Rightarrow> string \<Rightarrow> refresh_token" where
  "consumed_by w now t nextRaw = t\<lparr>rt_consumed := Some now, rt_replaced := Some (hashToken (w_crypto w) nextRaw)\<rparr>"

definition rotated_db :: "web \<Rightarrow> int \<Rightarrow> refresh_token \<Rightarrow> string \<Rightarrow> db \<Rightarrow> db" where
  "rotated_db w now t nextRaw d =
     d\<lparr>refresh_tokens := update_where (\<lambda>x. rt_id x = rt_id t \<and> rt_consumed x = None) (\<lambda>x. consumed_by w now x nextRaw) (refresh_tokens d) @
         [\<lparr>rt_id = next_id d, rt_user = rt_user t, rt_family = rt_family t, rt_hash = hashToken (w_crypto w) nextRaw,
           rt_expires = now + REFRESH_MAX_AGE_MS, rt_consumed = None, rt_revoked = None, rt_replaced = None\<rparr>],
       next_id := Suc (next_id d)\<rparr>"

lemma one_open_row:
  assumes "distinct (map rt_id ts)" and "t \<in> set ts" and "rt_consumed t = None"
  shows "length (filter (\<lambda>x. rt_id x = rt_id t \<and> rt_consumed x = None) ts) = 1"
  using assms
proof (induction ts)
  case (Cons x ts)
  show ?case
  proof (cases "x = t")
    case True
    then have "rt_id t \<notin> rt_id ` set ts"
      using Cons.prems(1) by simp
    then have "filter (\<lambda>y. rt_id y = rt_id t \<and> rt_consumed y = None) ts = []"
      by (simp add: filter_empty_conv image_iff) metis
    then show ?thesis
      using True Cons.prems(3) by simp
  next
    case False
    then have "t \<in> set ts"
      using Cons.prems(2) by simp
    then have "rt_id x \<noteq> rt_id t"
      using Cons.prems(1) by force
    then show ?thesis
      using Cons \<open>t \<in> set ts\<close> by simp
  qed
qed simp

lemma rotate_live:
  assumes "live_session w now raw t u d" and "unused_hash w nextRaw d"
  shows "rotateRefreshToken (w_crypto w) now raw nextRaw d = (Inr (Some (nextRaw, u)), rotated_db w now t nextRaw d)"
proof -
  have t: "t \<in> set (refresh_tokens d)" and user: "find_user (rt_user t) d = Some u" and consumed: "rt_consumed t = None"
    using assms(1) by (auto simp: live_session_def refresh_row_def dest: find_Some_in)
  have one: "length (filter (\<lambda>x. rt_id x = rt_id t \<and> rt_consumed x = None) (refresh_tokens d)) = 1"
    using assms(1) t consumed by (intro one_open_row) (auto simp: live_session_def)
  have use: "use_refresh now (rt_id t) (hashToken (w_crypto w) nextRaw) d =
      (Inr (), d\<lparr>refresh_tokens := update_where (\<lambda>x. rt_id x = rt_id t \<and> rt_consumed x = None)
                  (\<lambda>x. consumed_by w now x nextRaw) (refresh_tokens d)\<rparr>)"
    using one by (simp add: use_refresh_def consumed_by_def qbind_def)
  have "list_all (\<lambda>x. rt_hash x \<noteq> hashToken (w_crypto w) nextRaw)
      (update_where (\<lambda>x. rt_id x = rt_id t \<and> rt_consumed x = None) (\<lambda>x. consumed_by w now x nextRaw) (refresh_tokens d))"
    using assms(2) by (auto simp: unused_hash_def list_all_iff set_update_where consumed_by_def)
  then have "exchange (w_crypto w) now t nextRaw d = (Inr (Some (nextRaw, u)), rotated_db w now t nextRaw d)"
    using user
    by (auto simp: exchange_def use qbind_def insert_refresh_def rotated_db_def user_ref_def user_exists_def find_user_def
        list_all_iff list_ex_iff guard_q_def dest: find_Some_in split: option.splits intro!: rev_image_eqI)
  then show ?thesis
    using assms(1)
    by (cases rule: rotate_cases [of "w_crypto w" raw d now nextRaw]) (auto simp: live_session_def transaction_def)
qed

definition session_reply :: "web \<Rightarrow> int \<Rightarrow> string \<Rightarrow> user_row \<Rightarrow> reply" where
  "session_reply w now nextRaw u =
     setRefreshCookie w nextRaw (setAccessCookie w (signAccessToken w now u)
       (reply_of 200 (User_body (publicFields (token_user_columns u)))))"

lemma refresh_live:
  assumes "live_session w now raw t u d" and "unused_hash w nextRaw d"
  shows "refresh w now nextRaw (Some raw) d = (session_reply w now nextRaw u, rotated_db w now t nextRaw d)"
  using rotate_live [OF assms] assms(1)
  by (auto simp: refresh_result live_session_def session_reply_def)

lemma rotated_users [simp]: "users (rotated_db w now t n d) = users d" "find_user i (rotated_db w now t n d) = find_user i d"
  by (simp_all add: rotated_db_def find_user_def)

text \<open>The same token presented again is a reuse: the family is revoked and the cookies are cleared.\<close>

lemma find_updated:
  "List.find (\<lambda>x. rt_hash x = h) ts = Some t \<Longrightarrow> P t \<Longrightarrow> (\<And>x. rt_hash (f x) = rt_hash x) \<Longrightarrow>
     List.find (\<lambda>x. rt_hash x = h) (update_where P f ts @ us) = Some (f t)"
  by (induction ts) (auto split: if_splits)

lemma refresh_again:
  assumes "live_session w now raw t u d" and "unused_hash w nextRaw d" and "now2 < rt_expires t"
  shows "fst (refresh w now2 n2 (Some raw) (rotated_db w now t nextRaw d)) = clearAuthCookies w auth_required \<and>
         family_dead (rt_family t) (snd (refresh w now2 n2 (Some raw) (rotated_db w now t nextRaw d)))"
proof -
  let ?d = "rotated_db w now t nextRaw d" and ?h = "hashToken (w_crypto w) raw"
  have row: "refresh_row ?h ?d = Some (consumed_by w now t nextRaw)"
    using assms(1) unfolding refresh_row_def rotated_db_def live_session_def
    by (auto intro!: find_updated simp: consumed_by_def refresh_row_def)
  have used: "rt_consumed (consumed_by w now t nextRaw) \<noteq> None" "rt_revoked (consumed_by w now t nextRaw) = None"
    "now2 < rt_expires (consumed_by w now t nextRaw)" "rt_family (consumed_by w now t nextRaw) = rt_family t"
    using assms(1,3) by (simp_all add: consumed_by_def live_session_def)
  note reuse = rotate_used [OF row used(1-3), of n2]
  have "raw \<noteq> []"
    using assms(1) by (simp add: live_session_def)
  then show ?thesis
    using reuse used(4)
    by (auto simp: refresh_result split: prod.split sum.split)
qed

text \<open>The cookies after a refresh that succeeded, and after one that was refused.\<close>

lemma cookie_after_session:
  "cookie_of t (store_cookies now (session_reply w now n u) jar) REFRESH_COOKIE =
     (if t < now + REFRESH_MAX_AGE_MS then Some n else None)"
  "cookie_of t (store_cookies now (session_reply w now n u) jar) ACCESS_COOKIE =
     (if t < now + 900000 then Some (signAccessToken w now u) else None)"
  by (simp_all add: cookie_of_def store_cookies_def session_reply_def setRefreshCookie_def setAccessCookie_def reply_of_def
      store_cookie_def cookieOptions_def update_conv REFRESH_COOKIE_def ACCESS_COOKIE_def REFRESH_MAX_AGE_MS_def)

lemma cookie_after_refusal:
  "cookie_of t (store_cookies now (clearAuthCookies w auth_required) jar) REFRESH_COOKIE = None"
  "cookie_of t (store_cookies now (clearAuthCookies w auth_required) jar) ACCESS_COOKIE = None"
  by (simp_all add: cookie_of_def store_cookies_def clearAuthCookies_def auth_required_def reply_of_def store_cookie_def
      delete_conv REFRESH_COOKIE_def ACCESS_COOKIE_def)

definition protected :: "web \<Rightarrow> (int \<Rightarrow> payload \<Rightarrow> db \<Rightarrow> reply \<times> db) \<Rightarrow> endpoint" where
  "protected w serve now access raw d = authMiddleware w now access (serve now) d"

definition payload_of :: "user_row \<Rightarrow> payload" where
  "payload_of u = \<lparr>p_id = u_id u, p_username = u_username u, p_email = u_email u, p_session = u_session u\<rparr>"

lemma protected_refused:
  "authenticate w now access d = None \<Longrightarrow> protected w serve now access raw d = (auth_required, d)"
  by (simp add: protected_def authMiddleware_def)

lemma no_cookies [simp]: "store_cookies now auth_required jar = jar"
  by (simp add: store_cookies_def auth_required_def reply_of_def)

lemma session_reply_ok [simp]: "response_ok (session_reply w now n u)"
  by (simp add: response_ok_def session_reply_def setRefreshCookie_def setAccessCookie_def reply_of_def)

lemma refused_not_ok [simp]: "\<not> response_ok (clearAuthCookies w auth_required)" "\<not> response_ok auth_required"
  by (simp_all add: response_ok_def)

lemma parse_auth_required [simp]:
  "parse_response f auth_required = Inl (Api_error ''Authentication required'')"
  by (simp add: parse_response_def auth_required_def reply_of_def response_ok_def)

text \<open>
  C38. A user whose access token has expired does not notice: a call to a protected endpoint is
  answered 401, the client exchanges the refresh token, and the call is repeated and answered as
  the endpoint answers this user on the database after the exchange; the jar then holds the next
  refresh token. The access token is assumed to verify within its fifteen minutes, as jsonwebtoken
  documents.
\<close>

theorem expired_session_renewed:
  assumes live: "live_session w (clock 1) raw t u d" and unused: "unused_hash w nextRaw d"
    and expired: "authenticate w (clock 0) (cookie_of (clock 0) jar ACCESS_COOKIE) d = None"
    and cookie: "cookie_of (clock 1) jar REFRESH_COOKIE = Some raw"
    and time: "clock 2 < clock 1 + 900000"
    and jwt: "verifyAccessToken w (clock 2) (signAccessToken w (clock 1) u) = Some (payload_of u)"
      "signAccessToken w (clock 1) u \<noteq> []"
    and net: "net 0" "net 1" "net 2" and path: "path \<noteq> LOGIN_PATH" "path \<noteq> REFRESH_PATH"
    and answer: "serve (clock 2) (payload_of u) (rotated_db w (clock 1) t nextRaw d) = (r, d')"
  shows "\<exists>jar'. request w net clock nextRaw path True (protected w serve) \<lparr>cookie_jar = jar, server = d\<rparr> =
      (parse_response ''Request failed'' r, \<lparr>cookie_jar = store_cookies (clock 2) r jar', server = d'\<rparr>) \<and>
    cookie_of (clock 2) jar' REFRESH_COOKIE = Some nextRaw"
proof -
  let ?s = "session_reply w (clock 1) nextRaw u" and ?d = "rotated_db w (clock 1) t nextRaw d"
  let ?jar = "store_cookies (clock 1) ?s jar"
  have first: "fetch True (protected w serve) (clock 0) \<lparr>cookie_jar = jar, server = d\<rparr> =
      (Some auth_required, \<lparr>cookie_jar = jar, server = d\<rparr>)"
    by (simp add: fetch_def send_def protected_refused [OF expired])
  have second: "fetch True (refresh_endpoint w nextRaw) (clock 1) \<lparr>cookie_jar = jar, server = d\<rparr> =
      (Some ?s, \<lparr>cookie_jar = ?jar, server = ?d\<rparr>)"
    by (simp add: fetch_def send_def refresh_endpoint_def cookie refresh_live [OF live unused] del: One_nat_def)
  have user: "find_user (u_id u) ?d = Some u" "u_verified u \<noteq> None"
    using live find_user_id by (fastforce simp: live_session_def)+
  then have "authenticate w (clock 2) (cookie_of (clock 2) ?jar ACCESS_COOKIE) ?d = Some (payload_of u)"
    using time jwt by (simp add: authenticate_def cookie_after_session activeSession_def payload_of_def del: One_nat_def)
  then have third: "request_once True (protected w serve) (clock 2) \<lparr>cookie_jar = ?jar, server = ?d\<rparr> =
      (parse_response ''Request failed'' r, \<lparr>cookie_jar = store_cookies (clock 2) r ?jar, server = d'\<rparr>)"
    by (simp add: request_once_def fetch_def send_def protected_def authMiddleware_def answer del: One_nat_def)
  have "request w net clock nextRaw path True (protected w serve) \<lparr>cookie_jar = jar, server = d\<rparr> =
      (parse_response ''Request failed'' r, \<lparr>cookie_jar = store_cookies (clock 2) r ?jar, server = d'\<rparr>)"
    using net path by (simp add: request_def first second third needs_refresh_def del: One_nat_def)
  moreover have "cookie_of (clock 2) ?jar REFRESH_COOKIE = Some nextRaw"
    using time by (simp add: cookie_after_session REFRESH_MAX_AGE_MS_def del: One_nat_def)
  ultimately show ?thesis
    by blast
qed

text \<open>Ann's access token is gone, her refresh token is \<open>tok1\<close>; she opens her profile.\<close>

definition demo_jar :: jar where
  "demo_jar = [(REFRESH_COOKIE, ''tok1'', None)]"

definition demo_clock :: "nat \<Rightarrow> int" where
  "demo_clock i = 20 + int i"

definition profile_answer :: "int \<Rightarrow> payload \<Rightarrow> db \<Rightarrow> reply \<times> db" where
  "profile_answer now p =
     try_reply (qbind (user_findById (p_id p)) (\<lambda>user.
        case user of None \<Rightarrow> qreturn (reply_of 404 (Error ''Resource not found'')) | Some u \<Rightarrow> qreturn (reply_of 200 (Json_body u))))
       (reply_of 500 (Error ''Unable to load profile''))"

lemma profile_protected: "(\<lambda>now access raw. profile w now access) = protected w profile_answer"
  by (intro ext) (simp add: profile_def protected_def profile_answer_def [abs_def])

definition demo_row :: refresh_token where
  "demo_row = \<lparr>rt_id = 2, rt_user = 1, rt_family = ''fam'', rt_hash = ''tok1'', rt_expires = 10 + REFRESH_MAX_AGE_MS,
     rt_consumed = None, rt_revoked = None, rt_replaced = None\<rparr>"

lemma demo_live:
  "live_session demo_web (demo_clock 1) ''tok1'' demo_row demo_member demo_login" "unused_hash demo_web ''tok2'' demo_login"
  "unused_hash demo_web ''tok3'' demo_login"
  unfolding live_session_def unused_hash_def by code_simp+

theorem expired_session_renewed_witness:
  "fst (getProfile demo_web (\<lambda>_. True) demo_clock ''tok2'' \<lparr>cookie_jar = demo_jar, server = demo_login\<rparr>) =
     Inr (Json_body (profile_columns demo_member))"
proof -
  have 1: "authenticate demo_web (demo_clock 0) (cookie_of (demo_clock 0) demo_jar ACCESS_COOKIE) demo_login = None"
    by code_simp
  have 2: "cookie_of (demo_clock 1) demo_jar REFRESH_COOKIE = Some ''tok1''"
    by code_simp
  have 3: "demo_clock 2 < demo_clock 1 + 900000"
    by code_simp
  have 4: "verifyAccessToken demo_web (demo_clock 2) (signAccessToken demo_web (demo_clock 1) demo_member) =
      Some (payload_of demo_member)"
    by code_simp
  have 5: "signAccessToken demo_web (demo_clock 1) demo_member \<noteq> []"
    by code_simp
  have 6: "''/api/auth/profile'' \<noteq> LOGIN_PATH" "''/api/auth/profile'' \<noteq> REFRESH_PATH"
    by code_simp+
  have 7: "fst (profile_answer (demo_clock 2) (payload_of demo_member) (rotated_db demo_web (demo_clock 1) demo_row ''tok2'' demo_login)) =
      reply_of 200 (Json_body (profile_columns demo_member))"
    by code_simp
  obtain r d' where 8: "profile_answer (demo_clock 2) (payload_of demo_member)
      (rotated_db demo_web (demo_clock 1) demo_row ''tok2'' demo_login) = (r, d')"
    by fastforce
  have "parse_response ''Request failed'' r = Inr (Json_body (profile_columns demo_member))"
    using 7 unfolding 8 by (simp add: parse_response_def response_ok_def reply_of_def)
  then show ?thesis
    using expired_session_renewed [where net = "\<lambda>_. True" and clock = demo_clock and serve = profile_answer, OF demo_live(1,2) 1 2 3 4 5 TrueI TrueI TrueI 6 8]
    by (auto simp: getProfile_def profile_protected)
qed

section \<open>Two calls at the same time\<close>

text \<open>
  Several components start their calls together (\<open>Promise.all\<close>). The two calls send each of their
  requests before the other's answer has arrived, so both refresh with the cookie the jar held
  before either exchange; the server handles them one after the other and the answers arrive in
  that order. All requests reach the server.
\<close>

definition refresh_leg :: "web \<Rightarrow> string \<Rightarrow> int \<Rightarrow> jar \<Rightarrow> bool \<Rightarrow> db \<Rightarrow> reply option \<times> db" where
  "refresh_leg w nextRaw now jar needed d =
     (if needed then let (f, d') = send (refresh_endpoint w nextRaw) now jar d in (Some f, d') else (None, d))"

definition store_reply :: "int \<Rightarrow> reply option \<Rightarrow> jar \<Rightarrow> jar" where
  "store_reply now f jar = (case f of None \<Rightarrow> jar | Some r \<Rightarrow> store_cookies now r jar)"

definition last_leg :: "reply option \<Rightarrow> reply \<Rightarrow> endpoint \<Rightarrow> int \<Rightarrow> world \<Rightarrow> (api_error, body) result \<times> world" where
  "last_leg refreshed first ep now wd =
     (case refreshed of
        Some f \<Rightarrow> if response_ok f then request_once True ep now wd else (parse_response ''Request failed'' first, wd)
      | None \<Rightarrow> (parse_response ''Request failed'' first, wd))"

definition parallel_requests ::
  "web \<Rightarrow> (nat \<Rightarrow> int) \<Rightarrow> string \<Rightarrow> string \<Rightarrow> string \<times> endpoint \<Rightarrow> string \<times> endpoint \<Rightarrow> world \<Rightarrow>
   (api_error, body) result \<times> (api_error, body) result \<times> world" where
  "parallel_requests w clock nextA nextB a b wd =
     (let (pathA, epA) = a; (pathB, epB) = b;
          (ra, d1) = send epA (clock 0) (cookie_jar wd) (server wd);
          (rb, d2) = send epB (clock 0) (cookie_jar wd) d1;
          jar0 = store_cookies (clock 0) rb (store_cookies (clock 0) ra (cookie_jar wd));
          (fa, d3) = refresh_leg w nextA (clock 1) jar0 (needs_refresh pathA True ra) d2;
          (fb, d4) = refresh_leg w nextB (clock 1) jar0 (needs_refresh pathB True rb) d3;
          jar1 = store_reply (clock 1) fb (store_reply (clock 1) fa jar0);
          (xa, wd1) = last_leg fa ra epA (clock 2) \<lparr>cookie_jar = jar1, server = d4\<rparr>;
          (xb, wd2) = last_leg fb rb epB (clock 2) wd1
      in (xa, xb, wd2))"



section \<open>The account state of the application\<close>

text \<open>
  What App.js and sessionStorage keep: the stored user (None when the item is missing or does not
  parse), the user and the token flag of the component, and whether the first refresh is over.
\<close>

record account_state =
  stored_user :: "js_object option"
  app_user :: "js_object option"
  app_token :: bool
  session_ready :: bool

definition storeAuth :: "js_object option \<Rightarrow> account_state \<Rightarrow> account_state" where
  "storeAuth u st = st\<lparr>stored_user := u\<rparr>"

definition clearAuth :: "account_state \<Rightarrow> account_state" where
  "clearAuth st = st\<lparr>stored_user := None\<rparr>"

definition getStoredToken :: "account_state \<Rightarrow> bool" where
  "getStoredToken st \<longleftrightarrow> stored_user st \<noteq> None"

definition app_start :: "js_object option \<Rightarrow> bool \<Rightarrow> account_state" where
  "app_start stored accountAction =
     \<lparr>stored_user = stored, app_user = stored, app_token = (stored \<noteq> None), session_ready = accountAction\<rparr>"

definition data_user :: "body \<Rightarrow> js_object option" where
  "data_user b = (case b of User_body u \<Rightarrow> Some u | _ \<Rightarrow> None)"

text \<open>The effect of the first mount when \<open>refreshSession\<close> has settled.\<close>

definition restore_session :: "(api_error, body) result \<Rightarrow> account_state \<Rightarrow> account_state" where
  "restore_session outcome st =
     (case outcome of
        Inr b \<Rightarrow> (storeAuth (data_user b) st)\<lparr>app_user := data_user b, app_token := True, session_ready := True\<rparr>
      | Inl _ \<Rightarrow> (clearAuth st)\<lparr>app_user := None, app_token := False, session_ready := True\<rparr>)"

text \<open>\<open>logout\<close>: the local state is cleared whatever became of the request. \<open>onAuth\<close> after the login form.\<close>

definition app_logout :: "(api_error, body) result \<Rightarrow> account_state \<Rightarrow> account_state" where
  "app_logout outcome st = (clearAuth st)\<lparr>app_user := None, app_token := False\<rparr>"

definition onAuth :: "js_object \<Rightarrow> account_state \<Rightarrow> account_state" where
  "onAuth u st = (let st = storeAuth (Some u) st in st\<lparr>app_user := Some u, app_token := getStoredToken st\<rparr>)"

definition account_consistent :: "account_state \<Rightarrow> bool" where
  "account_consistent st \<longleftrightarrow> app_user st = stored_user st \<and> (app_token st \<longleftrightarrow> app_user st \<noteq> None)"

datatype account_event = Restored "(api_error, body) result" | Signed_out "(api_error, body) result" | Signed_in js_object

fun account_step :: "account_state \<Rightarrow> account_event \<Rightarrow> account_state" where
  "account_step st (Restored res) = restore_session res st"
| "account_step st (Signed_out res) = app_logout res st"
| "account_step st (Signed_in u) = onAuth u st"

text \<open>A refresh that succeeds always answers with the user.\<close>

lemma refresh_body:
  assumes "response_ok (fst (refresh w now n raw d))"
  obtains u where "body (fst (refresh w now n raw d)) = User_body u"
proof (cases "raw = None \<or> raw = Some []")
  case True
  then show ?thesis
    using assms by (auto simp: refresh_def)
next
  case False
  then obtain x where x: "raw = Some x" "x \<noteq> []"
    by auto
  show ?thesis
    using assms that
    by (auto simp: x refresh_result setRefreshCookie_def setAccessCookie_def reply_of_def
        split: prod.splits sum.splits option.splits if_splits)
qed

lemma refreshSession_body:
  assumes "refreshSession w net clock n wd = (Inr b, wd')"
  obtains u where "b = User_body u"
proof -
  obtain r where "b = body r" "response_ok r" "\<exists>now raw d. r = fst (refresh w now n raw d)"
    using assms
    by (auto simp: refreshSession_def request_def needs_refresh_def fetch_def send_def refresh_endpoint_def parse_response_def
        split: if_splits prod.splits) (metis fst_conv)
  then show ?thesis
    using refresh_body that by metis
qed

text \<open>
  The component and the storage agree after every event: mounting with what \<open>refreshSession\<close>
  answered, signing out with or without a network, signing in.
\<close>

lemma restore_consistent:
  assumes "refreshSession w net clock n wd = (res, wd')"
  shows "account_consistent (restore_session res st)"
proof (cases res)
  case (Inr b)
  then obtain u where "b = User_body u"
    using assms refreshSession_body by blast
  then show ?thesis
    using Inr by (simp add: account_consistent_def restore_session_def storeAuth_def data_user_def)
qed (simp add: account_consistent_def restore_session_def clearAuth_def)

interpretation account: invariant_machine account_step
  "\<lambda>st. app_user st = stored_user st \<and> (app_user st \<noteq> None \<longrightarrow> app_token st)"
proof
  fix st e
  show "app_user (account_step st e) = stored_user (account_step st e) \<and> (app_user (account_step st e) \<noteq> None \<longrightarrow> app_token (account_step st e))"
    if "app_user st = stored_user st \<and> (app_user st \<noteq> None \<longrightarrow> app_token st)"
    by (cases e) (auto simp: restore_session_def app_logout_def onAuth_def storeAuth_def clearAuth_def getStoredToken_def
        Let_def split: sum.split)
qed

end
