(* ===== verification/MultiplayerClient.thy ===== *)
theory MultiplayerClient
  imports ChessGame GameSocket
begin

text \<open>
  The online game of the browser (hooks/useMultiplayer.js, components/OnlinePlay.js and the
  sending side of components/ChatPanel.js): the phase of the screen, the handlers of the
  server's messages, the messages the client emits, and the effect that reports a finished
  game. The server side is the model of GameSocket; the last sections put the two together.

  A handler maps the state of the hook to the next state and the emitted messages in order.
  The clock and the randomness of the browser are arguments. The effect on \<open>game.status\<close> runs
  after an event that changed the status, with the state the event left.
\<close>

section \<open>State\<close>

datatype phase = Phase_idle | Phase_waiting | Phase_playing | Phase_ended

type_synonym player = "string option \<times> string \<times> string \<times> nat option"

definition pl_name :: "player \<Rightarrow> string" where
  "pl_name p = fst (snd p)"

definition pl_color :: "player \<Rightarrow> string" where
  "pl_color p = fst (snd (snd p))"

record end_info =
  ei_result :: string
  ei_winner :: "string option"
  ei_moves :: nat
  ei_duration :: int
  ei_elo :: "settlement option"

record multiplayer =
  mp_game :: hook
  mp_phase :: phase
  mp_room :: "string option"
  mp_color :: "string option"
  mp_players :: "player list"
  mp_chat :: "(string \<times> string \<times> string \<times> int) list"
  mp_error :: string
  mp_away :: bool
  mp_end :: "end_info option"
  mp_requested :: bool
  mp_offered :: bool

definition init_multiplayer :: multiplayer where
  "init_multiplayer =
     \<lparr>mp_game = init_hook, mp_phase = Phase_idle, mp_room = None, mp_color = None, mp_players = [], mp_chat = [],
      mp_error = [], mp_away = False, mp_end = None, mp_requested = False, mp_offered = False\<rparr>"

datatype emission =
    Emit_create_room string
  | Emit_join_room string "string option"
  | Emit_make_move string request
  | Emit_game_over string string "string option"
  | Emit_resign "string option"
  | Emit_request_rematch "string option"
  | Emit_accept_rematch "string option"
  | Emit_send_message "string option" string
  | Emit_leave_room string

section \<open>What the client emits\<close>

text \<open>A move made on the board: sent as soon as it is played, the promotion as the letter of the piece.\<close>

definition onMoveCommitted :: "multiplayer \<Rightarrow> move_entry \<Rightarrow> emission list" where
  "onMoveCommitted mp m =
     (if truthy (mp_room mp)
      then [Emit_make_move (the (mp_room mp))
              \<lparr>q_from = Some (me_from m), q_to = Some (me_to m),
               q_promotion = map_option (\<lambda>t. [letter t]) (me_promotion m)\<rparr>]
      else [])"

definition committed :: "multiplayer \<Rightarrow> effect list \<Rightarrow> emission list" where
  "committed mp fx = concat (map (\<lambda>x. case x of MoveCommitted m s \<Rightarrow> onMoveCommitted mp m | _ \<Rightarrow> []) fx)"

text \<open>The effect on \<open>game.status\<close>: a mate or stalemate on the own board is reported.\<close>

definition status_effect :: "multiplayer \<Rightarrow> emission list" where
  "status_effect mp =
     (if \<not> truthy (mp_room mp) \<or> mp_phase mp \<noteq> Phase_playing then []
      else
        let winnerColor = turn_text (opp (s_turn (mp_game mp)));
            winnerPlayer = find (\<lambda>p. pl_color p = winnerColor) (mp_players mp) in
        case s_status (mp_game mp) of
          Some Checkmate \<Rightarrow> [Emit_game_over (the (mp_room mp)) ''checkmate'' (map_option pl_name winnerPlayer)]
        | Some Stalemate \<Rightarrow> [Emit_game_over (the (mp_room mp)) ''stalemate'' None]
        | _ \<Rightarrow> [])"

definition rendered :: "multiplayer \<Rightarrow> multiplayer \<times> emission list \<Rightarrow> multiplayer \<times> emission list" where
  "rendered old r =
     (let (mp, es) = r
      in (mp, es @ (if s_status (mp_game mp) = s_status (mp_game old) then [] else status_effect mp)))"

section \<open>Messages of the server\<close>

definition onConnect :: "multiplayer \<Rightarrow> emission list" where
  "onConnect mp = (if truthy (mp_room mp) then [Emit_join_room (the (mp_room mp)) None] else [])"

definition onRoomCreated :: "string \<Rightarrow> string \<Rightarrow> multiplayer \<Rightarrow> multiplayer" where
  "onRoomCreated rid color mp = mp\<lparr>mp_room := Some rid, mp_color := Some color, mp_phase := Phase_waiting\<rparr>"

text \<open>
  An entry of the history the server sends, as the client keeps it. Only its squares and its
  notation are read; the promotion letter of the server is read in either case here.
\<close>

definition entry_of_history :: "history_move \<Rightarrow> move_entry" where
  "entry_of_history h =
     \<lparr>me_color = None, me_from = hm_from h, me_to = hm_to h, me_piece = None, me_captured = None,
      me_promotion = (case hm_promotion h of Some [c] \<Rightarrow> promoMap (to_lower_char c) | _ \<Rightarrow> None),
      me_san = hm_san h\<rparr>"

text \<open>\<open>loadFEN\<close> inside a handler: where it throws, the game stays as it was and the handler ends.\<close>

definition load_board_state :: "int \<Rightarrow> string \<Rightarrow> history_move list \<Rightarrow> multiplayer \<Rightarrow> multiplayer option" where
  "load_board_state now boardState hist mp =
     map_option (\<lambda>g. mp\<lparr>mp_game := g\<rparr>) (loadFEN now boardState (map entry_of_history hist) (mp_game mp))"

definition onGameStart ::
  "int \<Rightarrow> string \<Rightarrow> string \<Rightarrow> player list \<Rightarrow> string \<Rightarrow> history_move list \<Rightarrow> multiplayer \<Rightarrow> multiplayer" where
  "onGameStart now myName rid pls boardState hist mp =
     (let mp1 = mp\<lparr>mp_room := Some rid, mp_players := pls, mp_phase := Phase_playing, mp_end := None,
                   mp_away := False, mp_offered := False, mp_requested := False\<rparr> in
      case (if boardState \<noteq> [] \<and> hist \<noteq> [] then load_board_state now boardState hist mp1
            else Some (mp1\<lparr>mp_game := reset_game now (mp_game mp1)\<rparr>)) of
        None \<Rightarrow> mp1
      | Some mp2 \<Rightarrow>
          (case find (\<lambda>p. pl_name p = myName) pls of
             None \<Rightarrow> mp2
           | Some me \<Rightarrow> mp2\<lparr>mp_color := Some (pl_color me)\<rparr>))"

definition onMoveMade :: "int \<Rightarrow> string \<Rightarrow> history_move list \<Rightarrow> multiplayer \<Rightarrow> multiplayer" where
  "onMoveMade now boardState hist mp =
     (if boardState \<noteq> [] then (case load_board_state now boardState hist mp of None \<Rightarrow> mp | Some mp' \<Rightarrow> mp')
      else mp)"

text \<open>
  The handlers by message. The server's \<open>room_rejoined\<close> has no handler in the client, and the
  acknowledgement of \<open>leave_room\<close> is an empty callback.
\<close>

fun receive :: "int \<Rightarrow> string \<Rightarrow> msg \<Rightarrow> multiplayer \<Rightarrow> multiplayer" where
  "receive now myName (Room_created rid color) mp = onRoomCreated rid color mp"
| "receive now myName (Game_start rid pls turn boardState hist) mp = onGameStart now myName rid pls boardState hist mp"
| "receive now myName (Move_made c boardState turn n hist) mp = onMoveMade now boardState hist mp"
| "receive now myName (Game_ended res winner n secs elo) mp =
     mp\<lparr>mp_end := Some \<lparr>ei_result = res, ei_winner = winner, ei_moves = n, ei_duration = secs, ei_elo = elo\<rparr>,
        mp_phase := Phase_ended\<rparr>"
| "receive now myName Opponent_disconnected mp = mp\<lparr>mp_away := True\<rparr>"
| "receive now myName (Chat_message n col text ts) mp = mp\<lparr>mp_chat := mp_chat mp @ [(n, col, text, ts)]\<rparr>"
| "receive now myName (Error message) mp = mp\<lparr>mp_error := message\<rparr>"
| "receive now myName Rematch_requested mp = mp\<lparr>mp_offered := True\<rparr>"
| "receive now myName (Room_rejoined rid color boardState turn) mp = mp"
| "receive now myName (Acknowledge m) mp = mp"

section \<open>What the player does\<close>

text \<open>
  The name the player enters the lobby with: the user name of a signed-in player, otherwise the
  typed name, at most twenty characters and not blank.
\<close>

definition online_name :: "string option \<Rightarrow> string \<Rightarrow> string option" where
  "online_name username typed =
     (if truthy username then username
      else let name = take 20 typed in if trim name \<noteq> [] then Some name else None)"

definition createRoom :: "string \<Rightarrow> multiplayer \<Rightarrow> multiplayer \<times> emission list" where
  "createRoom name mp = (mp\<lparr>mp_error := []\<rparr>, [Emit_create_room name])"

definition joinRoom :: "string \<Rightarrow> string \<Rightarrow> multiplayer \<Rightarrow> multiplayer \<times> emission list" where
  "joinRoom rid name mp = (mp\<lparr>mp_error := [], mp_room := Some rid\<rparr>, [Emit_join_room rid (Some name)])"

definition requestRematch :: "multiplayer \<Rightarrow> multiplayer \<times> emission list" where
  "requestRematch mp = (mp\<lparr>mp_requested := True\<rparr>, [Emit_request_rematch (mp_room mp)])"

text \<open>Leaving keeps the board and the last error; the server is told only over a live connection (\<open>online\<close>).\<close>

definition leaveRoom :: "bool \<Rightarrow> multiplayer \<Rightarrow> multiplayer \<times> emission list" where
  "leaveRoom online mp =
     (mp\<lparr>mp_phase := Phase_idle, mp_room := None, mp_color := None, mp_players := [], mp_chat := [], mp_end := None,
         mp_away := False, mp_offered := False, mp_requested := False\<rparr>,
      if truthy (mp_room mp) \<and> online then [Emit_leave_room (the (mp_room mp))] else [])"

definition my_turn :: "multiplayer \<Rightarrow> bool" where
  "my_turn mp \<longleftrightarrow> mp_color mp = Some (turn_text (s_turn (mp_game mp)))"

definition with_game :: "multiplayer \<Rightarrow> hook \<times> effect list \<Rightarrow> multiplayer \<times> emission list" where
  "with_game mp r = (mp\<lparr>mp_game := fst r\<rparr>, committed mp (snd r))"

text \<open>\<open>handleClick\<close> of OnlinePlay: the board answers only the player whose turn it is, in a running game.\<close>

definition handleClick :: "int \<Rightarrow> int \<Rightarrow> int \<Rightarrow> multiplayer \<Rightarrow> multiplayer \<times> emission list" where
  "handleClick now r c mp =
     (if mp_phase mp \<noteq> Phase_playing \<or> \<not> my_turn mp then (mp, [])
      else with_game mp (click now r c (mp_game mp)))"

text \<open>The promotion dialog is shown while a promotion is pending, in the screens with a board.\<close>

definition pick_promotion :: "int \<Rightarrow> ptype \<Rightarrow> multiplayer \<Rightarrow> multiplayer \<times> emission list" where
  "pick_promotion now t mp =
     (if mp_phase mp \<in> {Phase_idle, Phase_waiting} then (mp, [])
      else (case doPromo now t (mp_game mp) of None \<Rightarrow> (mp, []) | Some r \<Rightarrow> with_game mp r))"

text \<open>\<open>send\<close> of ChatPanel: the trimmed text, when there is any and the panel is enabled.\<close>

definition send_chat :: "string \<Rightarrow> multiplayer \<Rightarrow> emission list" where
  "send_chat text mp =
     (let clean = trim text
      in if clean = [] \<or> mp_phase mp = Phase_idle then [] else [Emit_send_message (mp_room mp) clean])"

text \<open>The events of the screen; a button acts only where it is rendered and enabled.\<close>

datatype online_event =
    Server_says int msg
  | Connected
  | Square_clicked int int int
  | Promotion_picked int ptype
  | Create_clicked
  | Join_clicked string
  | Resign_clicked
  | Request_clicked
  | Accept_clicked
  | Chat_sent string
  | Leave_clicked bool

fun online_event_step :: "string \<Rightarrow> multiplayer \<Rightarrow> online_event \<Rightarrow> multiplayer \<times> emission list" where
  "online_event_step name mp (Server_says now m) = (receive now name m mp, [])"
| "online_event_step name mp Connected = (mp, onConnect mp)"
| "online_event_step name mp (Square_clicked now r c) = handleClick now r c mp"
| "online_event_step name mp (Promotion_picked now t) = pick_promotion now t mp"
| "online_event_step name mp Create_clicked = (if mp_phase mp = Phase_idle then createRoom name mp else (mp, []))"
| "online_event_step name mp (Join_clicked code) =
     (let rid = trim (to_upper code)
      in if mp_phase mp = Phase_idle \<and> rid \<noteq> [] then joinRoom rid name mp else (mp, []))"
| "online_event_step name mp Resign_clicked =
     (mp, if mp_phase mp = Phase_playing then [Emit_resign (mp_room mp)] else [])"
| "online_event_step name mp Request_clicked =
     (if mp_phase mp = Phase_ended \<and> mp_end mp \<noteq> None \<and> \<not> mp_offered mp \<and> \<not> mp_requested mp
      then requestRematch mp else (mp, []))"
| "online_event_step name mp Accept_clicked =
     (mp, if mp_phase mp = Phase_ended \<and> mp_end mp \<noteq> None \<and> mp_offered mp then [Emit_accept_rematch (mp_room mp)] else [])"
| "online_event_step name mp (Chat_sent text) = (mp, send_chat text mp)"
| "online_event_step name mp (Leave_clicked online) = leaveRoom online mp"

definition online_step :: "string \<Rightarrow> multiplayer \<Rightarrow> online_event \<Rightarrow> multiplayer \<times> emission list" where
  "online_step name mp ev = rendered mp (online_event_step name mp ev)"

definition online_next :: "string \<Rightarrow> multiplayer \<Rightarrow> online_event \<Rightarrow> multiplayer" where
  "online_next name mp ev = fst (online_step name mp ev)"

section \<open>A client that waits for a board\<close>

text \<open>
  A client without a pending promotion whose turn it is not, or whose game is not running. Only
  a message that carries a board (or the colour of a new room) ends the wait.
\<close>

definition waits :: "multiplayer \<Rightarrow> bool" where
  "waits mp \<longleftrightarrow> h_promo (mp_game mp) = None \<and> (mp_phase mp = Phase_playing \<longrightarrow> \<not> my_turn mp)"

fun brings_board :: "online_event \<Rightarrow> bool" where
  "brings_board (Server_says now (Game_start rid pls turn b hist)) = True"
| "brings_board (Server_says now (Move_made c b turn n hist)) = True"
| "brings_board (Server_says now (Room_created rid color)) = True"
| "brings_board ev = False"

lemma rendered_fst [simp]: "fst (rendered old r) = fst r"
  by (simp add: rendered_def split: prod.split)

lemma waits_step:
  assumes "waits mp" and "\<not> brings_board ev"
  shows "waits (online_next name mp ev) \<and> mp_game (online_next name mp ev) = mp_game mp"
proof (cases ev)
  case (Server_says now m)
  then show ?thesis
    using assms by (cases m) (auto simp: online_next_def online_step_def waits_def my_turn_def)
next
  case (Promotion_picked now t)
  have "doPromo now t (mp_game mp) = None"
    using assms(1) by (simp add: waits_def doPromo_def)
  then show ?thesis
    using assms(1) Promotion_picked by (simp add: online_next_def online_step_def pick_promotion_def)
qed (use assms in \<open>auto simp: online_next_def online_step_def waits_def my_turn_def handleClick_def createRoom_def
      joinRoom_def requestRematch_def leaveRoom_def Let_def\<close>)

lemma waits_run:
  "waits mp \<Longrightarrow> list_all (\<lambda>ev. \<not> brings_board ev) evs \<Longrightarrow>
     mp_game (run_steps (online_next name) mp evs) = mp_game mp"
  by (induction evs arbitrary: mp) (simp_all add: waits_step)

section \<open>The board of the room on the screen\<close>

definition shows_board :: "multiplayer \<Rightarrow> string \<Rightarrow> bool" where
  "shows_board mp fen \<longleftrightarrow>
     parseFEN fen = Some (s_board (mp_game mp), s_turn (mp_game mp), s_cast (mp_game mp), s_ep (mp_game mp))"

lemma parseFEN_nonempty: "parseFEN fen = Some x \<Longrightarrow> fen \<noteq> []"
  by (auto simp: parseFEN_def)

lemma loadFEN_shows:
  assumes "parseFEN fen = Some (b, t, k, ep)"
  shows "\<exists>g. loadFEN now fen ms st = Some g \<and> s_board g = b \<and> s_turn g = t \<and> s_cast g = k \<and> s_ep g = ep \<and>
     s_status g = None \<and> s_captW g = [] \<and> s_captB g = [] \<and> h_promo g = None"
  using assms by (simp add: loadFEN_def)

lemma move_made_shows:
  assumes "parseFEN fen \<noteq> None"
  shows "shows_board (receive now name (Move_made c fen t n hist) mp) fen \<and>
     s_status (mp_game (receive now name (Move_made c fen t n hist) mp)) = None"
proof -
  obtain b t' k ep where p: "parseFEN fen = Some (b, t', k, ep)"
    using assms by (cases "parseFEN fen") auto
  obtain g where "loadFEN now fen (map entry_of_history hist) (mp_game mp) = Some g"
      "s_board g = b" "s_turn g = t'" "s_cast g = k" "s_ep g = ep" "s_status g = None"
    using loadFEN_shows [OF p] by blast
  then show ?thesis
    using p parseFEN_nonempty [OF p] by (simp add: onMoveMade_def load_board_state_def shows_board_def)
qed

lemma start_fen_parses: "parseFEN start_fen = Some (initBoard, White, all_castling, None)"
  by code_simp

lemma game_start_shows:
  assumes "parseFEN fen \<noteq> None" and "hist = [] \<Longrightarrow> fen = start_fen"
  shows "shows_board (receive now name (Game_start rid pls t fen hist) mp) fen \<and>
     mp_phase (receive now name (Game_start rid pls t fen hist) mp) = Phase_playing"
proof -
  obtain b t' k ep where p: "parseFEN fen = Some (b, t', k, ep)"
    using assms by (cases "parseFEN fen") auto
  show ?thesis
  proof (cases "hist = []")
    case True
    then show ?thesis
      using assms(2) start_fen_parses
      by (auto simp: onGameStart_def shows_board_def reset_game_def init_hook_def Let_def split: option.split)
  next
    case False
    obtain g where "loadFEN now fen (map entry_of_history hist) (mp_game mp) = Some g"
        "s_board g = b" "s_turn g = t'" "s_cast g = k" "s_ep g = ep"
      using loadFEN_shows [OF p] by blast
    then show ?thesis
      using p parseFEN_nonempty [OF p] False
      by (auto simp: onGameStart_def load_board_state_def shows_board_def Let_def split: option.split)
  qed
qed

lemma get_set_room [simp]: "get_room (r_id room) (set_room room sv) = Some room"
  by (simp add: get_room_def set_room_def update_conv')

definition same_board :: "'c room \<Rightarrow> 'c room \<Rightarrow> bool" where
  "same_board a b \<longleftrightarrow> r_board a = r_board b \<and> r_turn a = r_turn b \<and> r_moves a = r_moves b"

lemma finalize_room_keeps:
  assumes "finalize_room e live res w (set_room live sv) = (r, sv', outs)"
  shows "\<exists>room. get_room (r_id live) sv' = Some room \<and> same_board room live"
proof -
  obtain r' sv1 where tx: "run_tx e (finalizeGameAtomic (e_now e) live res w) (set_room live sv) = (r', sv1)"
    by (cases "run_tx e (finalizeGameAtomic (e_now e) live res w) (set_room live sv)")
  have live: "get_room (r_id live) sv1 = Some live"
    using tx get_set_room [of live sv] by (auto simp: run_tx_def run_q_def get_room_def split: if_splits prod.splits)
  have ended: "r_id (end_room res w live) = r_id live" "same_board (end_room res w live) live" "same_board live live"
    by (simp_all add: end_room_def same_board_def)
  show ?thesis
    using assms tx live ended get_set_room [of "end_room res w live" sv1]
    by (auto simp: finalize_room_def split: sum.splits if_splits)
qed

lemma finalize_room_says:
  "finalize_room e live res w sv = (r, sv', outs) \<Longrightarrow> To_room k (Move_made c fen t n hist) \<notin> set outs"
  by (auto simp: finalize_room_def endedPayload_def split: prod.splits sum.splits if_splits)

text \<open>What a recorded move announces: the board of the room that stays in the cache.\<close>

lemma make_move_announces:
  assumes "make_move cl e ck roomId req sv = (sv', outs)"
    and "To_room k (Move_made c fen t n hist) \<in> set outs"
  shows "\<exists>room x. get_room k sv' = Some room \<and> r_board room = fen \<and> r_turn room = t \<and>
     length (r_moves room) = n \<and> fen = cl_fen cl x"
proof (cases "getCachedRoom roomId sv")
  case None
  then show ?thesis
    using assms by (auto simp: make_move_def Let_def)
next
  case (Some room)
  obtain x sv1 where q: "refreshRoomFromDb cl e room sv = (x, sv1)"
    by (cases "refreshRoomFromDb cl e room sv")
  show ?thesis
  proof (cases "\<not> sv_draining sv \<and> (\<exists>live p. x = Some live \<and> r_status live = Playing \<and> my_seat ck live = Some p \<and>
      seat_color p = r_turn live)")
    case False
    then show ?thesis
      using assms Some q by (auto simp: make_move_def Let_def split: if_splits option.splits)
  next
    case True
    then obtain live p where h: "\<not> sv_draining sv" "x = Some live" "r_status live = Playing"
        "my_seat ck live = Some p" "seat_color p = r_turn live"
      by blast
    obtain r sv2 where tx: "run_tx e (persistMoveAtomic cl (r_game live) (seat_color p) req) sv1 = (r, sv2)"
      by (cases "run_tx e (persistMoveAtomic cl (r_game live) (seat_color p) req) sv1")
    show ?thesis
    proof (cases "\<exists>c' m. r = Inr (Some (c', m))")
      case False
      then show ?thesis
        using assms Some q h tx by (auto simp: make_move_def split: sum.splits option.splits)
    next
      case True
      then obtain chess can rec where r: "r = Inr (Some (chess, can, rec))"
        by auto
      define live' where "live' = live\<lparr>r_chess := chess, r_board := cl_fen cl chess, r_turn := cl_turn cl chess,
        r_moves := r_moves live @ [rec]\<rparr>"
      obtain res w where over: "over_result cl chess = (res, w)"
        by (cases "over_result cl chess")
      obtain f sv3 out where fin: "finalize_room e live' res w (set_room live' sv2) = (f, sv3, out)"
        by (cases "finalize_room e live' res w (set_room live' sv2)")
      let ?made = "To_room (r_id live') (Move_made can (r_board live') (r_turn live') (length (r_moves live')) (historyOf live'))"
      have sv': "sv' = (if cl_over cl chess then sv3 else set_room live' sv2)"
        and outs: "set outs \<subseteq> insert ?made (insert (To_socket (ck_socket ck) (Error ''Move recorded; unable to finalize game'')) (set out))"
        using assms(1) Some q h tx r over fin
        by (auto simp: make_move_def Let_def live'_def split: sum.splits if_splits)
      have "k = r_id live'" "fen = r_board live'" "t = r_turn live'" "n = length (r_moves live')"
        using outs assms(2) finalize_room_says [OF fin] by auto
      moreover have "\<exists>room. get_room (r_id live') sv' = Some room \<and> same_board room live'"
        using finalize_room_keeps [OF fin] get_set_room [of live' sv2] by (auto simp: sv' same_board_def)
      moreover have "r_board live' = cl_fen cl chess"
        by (simp add: live'_def)
      ultimately show ?thesis
        unfolding same_board_def by auto
    qed
  qed
qed

text \<open>
  C15. What the server announces is what the players see. If the rules package writes FEN texts
  the client can read, then every board the server announces after a move, handling
  \<open>make_move\<close>, is the board of the room it keeps, and a client that receives the
  announcement - in whatever state it was - shows exactly that position: pieces, side to move,
  castling rights and en-passant square.
\<close>

theorem announced_move_is_shown:
  assumes "\<And>x. parseFEN (cl_fen cl x) \<noteq> None"
    and "make_move cl e ck roomId req sv = (sv', outs)"
    and "To_room k (Move_made c fen t n hist) \<in> set outs"
  shows "\<exists>room. get_room k sv' = Some room \<and> r_board room = fen \<and> r_turn room = t \<and> length (r_moves room) = n \<and>
     shows_board (receive now name (Move_made c fen t n hist) mp) (r_board room)"
proof -
  obtain room x where r: "get_room k sv' = Some room" "r_board room = fen" "r_turn room = t" "length (r_moves room) = n"
      "fen = cl_fen cl x"
    using make_move_announces [OF assms(2,3)] by blast
  then have "parseFEN fen \<noteq> None"
    using assms(1) by simp
  then show ?thesis
    using r move_made_shows by auto
qed

text \<open>A rules package whose FEN texts are the start position and the one after 1. e4.\<close>

definition after_e4 :: string where
  "after_e4 = ''rnbqkbnr/pppppppp/8/8/4P3/8/PPPP1PPP/RNBQKBNR b KQkq e3 0 1''"

definition fen_lib :: "nat chess_lib" where
  "fen_lib = counting_lib\<lparr>cl_load := (\<lambda>fen. Some (if fen = start_fen then 0 else 1)),
     cl_fen := (\<lambda>n. if n = 0 then start_fen else after_e4)\<rparr>"

lemma fen_lib_move:
  "snd (make_move fen_lib demo_env \<lparr>ck_socket = ''s1'', ck_user = 1, ck_name = ''ann''\<rparr> ''room123'' demo_request demo_playing) =
   [To_room ''ROOM123'' (Move_made demo_canonical after_e4 ''b'' 1
     [\<lparr>hm_from = ''e2'', hm_to = ''e4'', hm_promotion = None, hm_san = Some ''e4''\<rparr>])]"
  by code_simp

theorem announced_move_is_shown_witness:
  "\<exists>room. get_room ''ROOM123'' (fst (make_move fen_lib demo_env \<lparr>ck_socket = ''s1'', ck_user = 1, ck_name = ''ann''\<rparr>
       ''room123'' demo_request demo_playing)) = Some room \<and>
     r_board room = after_e4 \<and> r_turn room = ''b'' \<and> length (r_moves room) = 1 \<and>
     shows_board (receive 0 ''bob'' (Move_made demo_canonical after_e4 ''b'' 1
       [\<lparr>hm_from = ''e2'', hm_to = ''e4'', hm_promotion = None, hm_san = Some ''e4''\<rparr>]) init_multiplayer) (r_board room)"
proof (rule announced_move_is_shown [OF _ prod.collapse [symmetric]])
  have "parseFEN start_fen \<noteq> None" "parseFEN after_e4 \<noteq> None"
    by code_simp+
  then show "parseFEN (cl_fen fen_lib x) \<noteq> None" for x
    by (simp add: fen_lib_def)
qed (simp add: fen_lib_move [simplified])

section \<open>A promotion in an online game\<close>

text \<open>
  What the documentation of the rules package says of a promotion: a pawn reaches the last rank
  only with \<open>promotion\<close> one of the lower-case letters q, r, b and n. The position is the one
  of the FEN text the package was loaded with.
\<close>

definition lower_case_promotions :: "'c chess_lib \<Rightarrow> bool" where
  "lower_case_promotions cl \<longleftrightarrow>
     (\<forall>fen x b t k ep fr fc tr tc req.
        cl_load cl fen = Some x \<longrightarrow> parseFEN fen = Some (b, t, k, ep) \<longrightarrow>
        q_from req = Some (sq fr fc) \<longrightarrow> q_to req = Some (sq tr tc) \<longrightarrow> inB fr fc \<longrightarrow> inB tr tc \<longrightarrow>
        cell b fr fc = Some (Piece t Pawn) \<longrightarrow> tr \<in> {0, 7} \<longrightarrow> cl_move cl x req \<noteq> None \<longrightarrow>
        q_promotion req \<in> {Some ''q'', Some ''r'', Some ''b'', Some ''n''})"

lemma letter_upper: "Some [letter t] \<notin> {Some ''q'', Some ''r'', Some ''b'', Some ''n''}"
  by (cases t) simp_all

text \<open>A move the rules package refuses: no message but errors to the sender, and no move recorded.\<close>

lemma make_move_refused:
  assumes step: "make_move cl e ck roomId req sv = (sv', outs)"
    and refused: "\<And>room g x. getCachedRoom roomId sv = Some room \<Longrightarrow> g \<in> set (games (sv_db sv)) \<Longrightarrow>
      g_room g = Some (r_id room) \<Longrightarrow> load_board cl (g_fen g) = Some x \<Longrightarrow> cl_move cl x req = None"
  shows "moves (sv_db sv') = moves (sv_db sv) \<and> (\<forall>out \<in> set outs. \<exists>m. out = To_socket (ck_socket ck) (Error m))"
proof (cases "getCachedRoom roomId sv")
  case None
  then show ?thesis
    using step by (auto simp: make_move_def Let_def)
next
  case (Some room)
  obtain x sv1 where q: "refreshRoomFromDb cl e room sv = (x, sv1)"
    by (cases "refreshRoomFromDb cl e room sv")
  note same = refresh_moves [OF q]
  show ?thesis
  proof (cases "\<not> sv_draining sv \<and> (\<exists>live p. x = Some live \<and> r_status live = Playing \<and> my_seat ck live = Some p \<and>
      seat_color p = r_turn live)")
    case False
    then show ?thesis
      using step same Some q by (auto simp: make_move_def Let_def split: if_splits option.splits)
  next
    case True
    then obtain live p where h: "\<not> sv_draining sv" "x = Some live" "r_status live = Playing"
        "my_seat ck live = Some p" "seat_color p = r_turn live"
      by blast
    obtain r sv2 where tx: "run_tx e (persistMoveAtomic cl (r_game live) (seat_color p) req) sv1 = (r, sv2)"
      by (cases "run_tx e (persistMoveAtomic cl (r_game live) (seat_color p) req) sv1")
    from refresh_Some [OF q [unfolded h(2)]] obtain g chess where
      g: "g \<in> set (games (sv_db sv))" "g_room g = Some (r_id room)" "r_game live = g_id g" "sv_db sv1 = sv_db sv"
      by (auto simp: reattach_def room_of_snapshot_def Let_def)
    have none: "r \<noteq> Inr (Some y)" for y
    proof
      assume "r = Inr (Some y)"
      then obtain c' c m d' where per: "persistMoveAtomic cl (g_id g) (seat_color p) req (sv_db sv) = (Inr (Some (c', c, m)), d')"
        using tx g(3,4) by (cases y) (auto simp: run_tx_def run_q_def split: if_splits prod.splits)
      from persist_Some [OF per] obtain g' y where y: "find_game (g_id g) (sv_db sv) = [g']"
          "load_board cl (g_fen g') = Some y" "cl_move cl y req \<noteq> None"
        by auto
      moreover have "g' = g"
        using y(1) g(1) by (force simp: find_game_def filter_eq_Cons_iff dest: arg_cong [where f = set])
      ultimately show False
        using refused [OF Some g(1,2)] by auto
    qed
    have "sv_db sv2 = sv_db sv"
    proof -
      obtain pr d where per: "persistMoveAtomic cl (r_game live) (seat_color p) req (sv_db sv1) = (pr, d)"
        by (cases "persistMoveAtomic cl (r_game live) (seat_color p) req (sv_db sv1)")
      have r: "e_tx e \<Longrightarrow> r = pr \<and> sv2 = sv1\<lparr>sv_db := d\<rparr>" "\<not> e_tx e \<Longrightarrow> sv2 = sv1"
        using tx per by (auto simp: run_tx_def run_q_def)
      have "d = sv_db sv1" if "e_tx e"
      proof (cases pr)
        case (Inl x)
        then show ?thesis
          using persist_Inl per by metis
      next
        case (Inr x)
        then have "x = None"
          using none r(1) that by (cases x) auto
        then show ?thesis
          using persist_None per Inr by metis
      qed
      then show ?thesis
        using r g(4) by (cases "e_tx e") auto
    qed
    then show ?thesis
      using step Some q h tx none by (cases r) (auto simp: make_move_def split: option.splits)
  qed
qed

lemma pick_effect:
  assumes "mp_phase mp = Phase_playing" and "mp_room mp = Some r" and "r \<noteq> []"
    and "h_promo (mp_game mp) = Some p" and "pr_from p = (fr, fc)" and "pr_to p = (tr, tc)"
  shows "\<exists>rest. snd (online_step name mp (Promotion_picked now t)) =
      Emit_make_move r \<lparr>q_from = Some (sq fr fc), q_to = Some (sq tr tc), q_promotion = Some [letter t]\<rparr> # rest"
    and "h_promo (mp_game (online_next name mp (Promotion_picked now t))) = None"
    and "s_turn (mp_game (online_next name mp (Promotion_picked now t))) = pr_nt p"
    and "mp_color (online_next name mp (Promotion_picked now t)) = mp_color mp"
  using assms
  by (simp_all add: online_next_def online_step_def pick_promotion_def doPromo_def with_game_def committed_def
      onMoveCommitted_def truthy_def finish_def Let_def rendered_def)


definition lower_case_lib :: "nat chess_lib" where
  "lower_case_lib = counting_lib\<lparr>cl_load := (\<lambda>fen. Some 0),
     cl_move := (\<lambda>n q. if q_promotion q \<in> {Some ''q'', Some ''r'', Some ''b'', Some ''n''}
       then Some (Suc n, demo_canonical) else None)\<rparr>"

definition promo_board :: board where
  "promo_board = [replicate 8 None, Some (Piece White Pawn) # replicate 7 None] @ replicate 5 (replicate 8 None) @
     [[Some (Piece Black King), None, Some (Piece White King), None, None, None, None, None]]"

definition no_castling :: castling where
  "no_castling = \<lparr>wK = False, wQ = False, bK = False, bQ = False\<rparr>"

definition pending_promo :: promo where
  "pending_promo = \<lparr>pr_from = (1, 0), pr_to = (0, 0), pr_col = White,
     pr_nb = moved_board promo_board 1 0 0 0 None White Pawn, pr_nt = Black, pr_nep = None,
     pr_nc = new_rights no_castling White Pawn 1 0 0 0, pr_captured = captured_by promo_board 1 0 0 0 None White Pawn\<rparr>"

definition promo_client :: multiplayer where
  "promo_client = init_multiplayer\<lparr>mp_phase := Phase_playing, mp_room := Some ''ROOM123'', mp_color := Some ''w'',
     mp_game := init_hook\<lparr>s_board := promo_board, s_cast := no_castling, h_promo := Some pending_promo\<rparr>\<rparr>"

definition promo_server :: "(nat, local_votes) server" where
  "promo_server = demo_playing\<lparr>sv_db := demo_live\<lparr>games := [demo_game\<lparr>g_fen := ''8/P7/8/8/8/8/8/k1K5 w - - 0 1''\<rparr>]\<rparr>\<rparr>"


end
