(* ===== verification/LocalPlay.thy ===== *)
theory LocalPlay
  imports ChessGame
begin

text \<open>
  Games on one device: the chess clock (hooks/useGameTimer.js) and the screen of a local game
  (components/GameScreen.js). The clock counts one second whenever its interval fires. React
  clears the interval and starts a new one whenever the screen is drawn again, because the
  \<open>onTimeout\<close> callback it depends on is a new function each time; the model therefore says for
  every event whether the screen is drawn again. Times are milliseconds since the screen was
  opened; an event carries the time that passed since the previous one.
\<close>

section \<open>The clock\<close>

text \<open>\<open>minutes ? minutes * 60 : null\<close>.\<close>

definition totalSeconds :: "nat option \<Rightarrow> int option" where
  "totalSeconds minutes = (case minutes of None \<Rightarrow> None | Some m \<Rightarrow> if m = 0 then None else Some (int m * 60))"

record timer =
  tm_total :: "int option"
  tm_white :: "int option"
  tm_black :: "int option"
  tm_fired :: bool
  tm_armed :: "int option"

definition mount_timer :: "nat option \<Rightarrow> timer" where
  "mount_timer minutes =
     (let total = totalSeconds minutes
      in \<lparr>tm_total = total, tm_white = total, tm_black = total, tm_fired = False, tm_armed = None\<rparr>)"

text \<open>The first effect: the clocks are set again when the time control changed.\<close>

definition set_minutes :: "nat option \<Rightarrow> timer \<Rightarrow> timer" where
  "set_minutes minutes tm =
     (let total = totalSeconds minutes in
      if total = tm_total tm then tm
      else tm\<lparr>tm_total := total, tm_white := total, tm_black := total, tm_fired := False\<rparr>)"

fun time_of :: "pcolor \<Rightarrow> timer \<Rightarrow> int option" where
  "time_of White tm = tm_white tm"
| "time_of Black tm = tm_black tm"

fun set_time :: "pcolor \<Rightarrow> int \<Rightarrow> timer \<Rightarrow> timer" where
  "set_time White t tm = tm\<lparr>tm_white := Some t\<rparr>"
| "set_time Black t tm = tm\<lparr>tm_black := Some t\<rparr>"

text \<open>The second effect, after every drawing of the screen: a new interval while the clock runs.\<close>

definition arm :: "int \<Rightarrow> bool \<Rightarrow> timer \<Rightarrow> timer" where
  "arm now running tm = tm\<lparr>tm_armed := (if running \<and> tm_total tm \<noteq> None then Some now else None)\<rparr>"

text \<open>One second of the player to move; the flag says that \<open>onTimeout\<close> is called.\<close>

definition tick :: "pcolor \<Rightarrow> timer \<Rightarrow> timer \<times> bool" where
  "tick turn tm =
     (case time_of turn tm of
        None \<Rightarrow> (tm, False)
      | Some t \<Rightarrow>
          let left = max 0 (t - 1); fire = (left = 0 \<and> \<not> tm_fired tm)
          in ((set_time turn left tm)\<lparr>tm_fired := tm_fired tm \<or> fire\<rparr>, fire))"

text \<open>\<open>format\<close>: minutes and two digits of seconds; the symbol for no limit is written inf.\<close>

definition format_time :: "int option \<Rightarrow> string" where
  "format_time s =
     (case s of
        None \<Rightarrow> ''inf''
      | Some t \<Rightarrow> let m = nat t div 60; sec = nat t mod 60
                  in show_nat m @ '':'' @ (if sec < 10 then ''0'' else []) @ show_nat sec)"

definition is_low :: "pcolor \<Rightarrow> timer \<Rightarrow> bool" where
  "is_low c tm \<longleftrightarrow> (case (tm_total tm, time_of c tm) of (Some _, Some t) \<Rightarrow> t \<le> 30 | _ \<Rightarrow> False)"

section \<open>The screen of a local game\<close>

type_synonym hint_squares = "(int option \<times> int) \<times> (int option \<times> int)"

record screen =
  sc_now :: int
  sc_game :: hook
  sc_timer :: timer
  sc_hint :: "hint_squares option"
  sc_thinking :: bool

definition isRunning :: "hook \<Rightarrow> bool" where
  "isRunning g \<longleftrightarrow> h_promo g = None \<and> s_status g = None"

definition draw :: "screen \<Rightarrow> screen" where
  "draw sc = sc\<lparr>sc_timer := arm (sc_now sc) (isRunning (sc_game sc)) (sc_timer sc)\<rparr>"

text \<open>\<open>playLocal\<close> of App.js: the time control, a new game, and the screen drawn for the first time.\<close>

definition mount_screen :: "nat option \<Rightarrow> hook \<Rightarrow> screen" where
  "mount_screen minutes g =
     draw \<lparr>sc_now = 0, sc_game = reset_game 0 g, sc_timer = mount_timer minutes, sc_hint = None, sc_thinking = False\<rparr>"

text \<open>Whether a click on the board sets any state of the game (a new selection is a new array).\<close>

definition click_draws :: "int \<Rightarrow> int \<Rightarrow> hook \<Rightarrow> bool" where
  "click_draws r c g \<longleftrightarrow>
     \<not> (s_status g \<in> {Some Checkmate, Some Stalemate, Some Timeout} \<or> h_promo g \<noteq> None) \<and>
     (s_sel g \<noteq> None \<or> pc (cell (s_board g) r c) = Some (s_turn g))"

datatype screen_action =
    Clock_runs
  | Board_clicked int int
  | Piece_picked ptype
  | Undo_clicked
  | New_game_clicked
  | Hint_clicked
  | Hint_answered "uci_move option"

definition run_clock :: "screen \<Rightarrow> screen" where
  "run_clock sc =
     (case tm_armed (sc_timer sc) of
        None \<Rightarrow> sc
      | Some a \<Rightarrow>
          if sc_now sc < a + 1000 then sc
          else
            let (tm, fire) = tick (s_turn (sc_game sc)) (sc_timer sc);
                g = (if fire then fst (forceEnd (sc_now sc) Timeout (sc_game sc)) else sc_game sc)
            in draw (sc\<lparr>sc_timer := tm, sc_game := g\<rparr>))"

definition click_board :: "int \<Rightarrow> int \<Rightarrow> screen \<Rightarrow> screen" where
  "click_board r c sc =
     (let sc' = sc\<lparr>sc_hint := None, sc_game := fst (click (sc_now sc) r c (sc_game sc))\<rparr>
      in if sc_hint sc \<noteq> None \<or> click_draws r c (sc_game sc) then draw sc' else sc')"

definition askHint :: "screen \<Rightarrow> screen" where
  "askHint sc =
     (if s_status (sc_game sc) \<noteq> None \<or> sc_thinking sc \<or> h_promo (sc_game sc) \<noteq> None then sc
      else draw (sc\<lparr>sc_thinking := True\<rparr>))"

text \<open>The answer of the engine: None when it failed or has no move.\<close>

definition hint_answer :: "uci_move option \<Rightarrow> screen \<Rightarrow> screen" where
  "hint_answer mv sc =
     (if \<not> sc_thinking sc then sc
      else draw (sc\<lparr>sc_thinking := False,
             sc_hint := (case mv of None \<Rightarrow> sc_hint sc
               | Some m \<Rightarrow> Some (squareToRC (um_from m), squareToRC (um_to m)))\<rparr>))"

fun screen_act :: "screen_action \<Rightarrow> screen \<Rightarrow> screen" where
  "screen_act Clock_runs sc = run_clock sc"
| "screen_act (Board_clicked r c) sc = click_board r c sc"
| "screen_act (Piece_picked t) sc =
     (case doPromo (sc_now sc) t (sc_game sc) of
        None \<Rightarrow> sc
      | Some (g, fx) \<Rightarrow> if t \<in> set promotion_choices then draw (sc\<lparr>sc_game := g\<rparr>) else sc)"
| "screen_act Undo_clicked sc =
     (if canUndo (sc_game sc) then draw (sc\<lparr>sc_game := undo (sc_game sc)\<rparr>) else sc)"
| "screen_act New_game_clicked sc = draw (sc\<lparr>sc_game := reset_game (sc_now sc) (sc_game sc)\<rparr>)"
| "screen_act Hint_clicked sc = askHint sc"
| "screen_act (Hint_answered mv) sc = hint_answer mv sc"

definition screen_step :: "screen \<Rightarrow> nat \<times> screen_action \<Rightarrow> screen" where
  "screen_step sc ev = screen_act (snd ev) (sc\<lparr>sc_now := sc_now sc + int (fst ev)\<rparr>)"

text \<open>The moves of the shared summary: \<open>1. e4 e5 2. Nf3\<close>.\<close>

definition pgnish :: "string list \<Rightarrow> string" where
  "pgnish hist = join_with '' ''
     (map (\<lambda>(i, m). if even i then show_nat (i div 2 + 1) @ ''. '' @ m else m) (zip [0 ..< length hist] hist))"

section \<open>What the clock guarantees\<close>

text \<open>
  The invariant, for a time control of T seconds: the clocks stay between 0 and T, a clock at 0
  is exactly what \<open>timeoutFired\<close> remembers, the status (now and after any undo) is a timeout only
  then, and the seconds both players lost fit into the time until the running interval began.
\<close>

definition used :: "int \<Rightarrow> timer \<Rightarrow> int" where
  "used T tm = (T - the (tm_white tm)) + (T - the (tm_black tm))"

definition left_ok :: "int \<Rightarrow> int option \<Rightarrow> bool" where
  "left_ok T t \<longleftrightarrow> t \<noteq> None \<and> 0 \<le> the t \<and> the t \<le> T"

definition no_timeout :: "hook \<Rightarrow> bool" where
  "no_timeout g \<longleftrightarrow> s_status g \<noteq> Some Timeout \<and> (\<forall>s \<in> set (h_past g). s_status s \<noteq> Some Timeout)"

definition clock_inv :: "int \<Rightarrow> screen \<Rightarrow> bool" where
  "clock_inv T sc \<longleftrightarrow>
     (let tm = sc_timer sc in
      tm_total tm = Some T \<and> left_ok T (tm_white tm) \<and> left_ok T (tm_black tm) \<and>
      (tm_fired tm \<longleftrightarrow> tm_white tm = Some 0 \<or> tm_black tm = Some 0) \<and>
      (\<not> tm_fired tm \<longrightarrow> no_timeout (sc_game sc)) \<and>
      1000 * used T tm \<le> (case tm_armed tm of None \<Rightarrow> sc_now sc | Some a \<Rightarrow> a) \<and>
      (\<forall>a. tm_armed tm = Some a \<longrightarrow> a \<le> sc_now sc))"

lemma timer_eta [simp]: "tm_total (arm now b tm) = tm_total tm" "tm_white (arm now b tm) = tm_white tm"
  "tm_black (arm now b tm) = tm_black tm" "tm_fired (arm now b tm) = tm_fired tm" "used T (arm now b tm) = used T tm"
  by (simp_all add: arm_def used_def)

lemma draw_inv:
  assumes "tm_total (sc_timer sc) = Some T" "left_ok T (tm_white (sc_timer sc))" "left_ok T (tm_black (sc_timer sc))"
    and "tm_fired (sc_timer sc) \<longleftrightarrow> tm_white (sc_timer sc) = Some 0 \<or> tm_black (sc_timer sc) = Some 0"
    and "\<not> tm_fired (sc_timer sc) \<Longrightarrow> no_timeout (sc_game sc)" and "1000 * used T (sc_timer sc) \<le> sc_now sc"
  shows "clock_inv T (draw sc)"
  using assms by (simp add: clock_inv_def draw_def arm_def used_def Let_def)

lemma clock_invD:
  assumes "clock_inv T sc"
  shows "tm_total (sc_timer sc) = Some T" "left_ok T (tm_white (sc_timer sc))" "left_ok T (tm_black (sc_timer sc))"
    and "tm_fired (sc_timer sc) \<longleftrightarrow> tm_white (sc_timer sc) = Some 0 \<or> tm_black (sc_timer sc) = Some 0"
    and "\<not> tm_fired (sc_timer sc) \<Longrightarrow> no_timeout (sc_game sc)" and "1000 * used T (sc_timer sc) \<le> sc_now sc"
  using assms by (auto simp: clock_inv_def Let_def split: option.splits)

lemma draw_same_clock:
  assumes "clock_inv T sc" and "sc_timer sc' = sc_timer sc" and "sc_now sc' = sc_now sc"
    and "no_timeout (sc_game sc) \<Longrightarrow> no_timeout (sc_game sc')"
  shows "clock_inv T (draw sc')"
  using assms by (intro draw_inv) (simp_all add: clock_invD)

lemma same_clock:
  assumes "clock_inv T sc" and "sc_timer sc' = sc_timer sc" and "sc_now sc' = sc_now sc"
    and "no_timeout (sc_game sc) \<Longrightarrow> no_timeout (sc_game sc')"
  shows "clock_inv T sc'"
  using assms unfolding clock_inv_def Let_def assms(2,3) by simp

lemma status_of_no_timeout [simp]: "status_of b t ep k \<noteq> Some Timeout"
  by (simp add: status_of_def Let_def)

lemma no_timeout_finish: "no_timeout st \<Longrightarrow> no_timeout (fst (finish now nb nt nep nc note entry silent st))"
  by (simp add: no_timeout_def)

lemma no_timeout_applyMove:
  assumes "no_timeout st"
  shows "no_timeout (fst (applyMove now fr fc tr tc p silent st))"
proof (cases "cell (s_board st) fr fc")
  case None
  then show ?thesis
    using assms by (simp add: applyMove_def)
next
  case (Some q)
  obtain col t where q: "q = Piece col t"
    by (cases q)
  show ?thesis
  proof (cases "t = Pawn \<and> (tr = 0 \<or> tr = 7) \<and> p = None")
    case True
    then show ?thesis
      using assms Some q by (auto simp: applyMove_pending no_timeout_def)
  next
    case False
    have "no_timeout (x\<lparr>s_lastMv := l, h_past := h_past st @ [snapshot st]\<rparr>)"
      if "s_status x = s_status st" for x :: hook and l
      using assms that by (auto simp: no_timeout_def)
    then show ?thesis
      unfolding applyMove_finished [OF Some [unfolded q] False] by (intro no_timeout_finish) simp
  qed
qed

lemma no_timeout_click: "no_timeout st \<Longrightarrow> no_timeout (fst (click now r c st))"
  by (auto simp: click_def Let_def select_def no_timeout_applyMove split: option.split)
    (auto simp: no_timeout_def)

lemma no_timeout_doPromo: "no_timeout st \<Longrightarrow> doPromo now k st = Some (st', es) \<Longrightarrow> no_timeout st'"
  by (auto simp: doPromo_def finish_def Let_def no_timeout_def split: option.splits prod.splits)

lemma no_timeout_undo: "no_timeout st \<Longrightarrow> no_timeout (undo st)"
  by (auto simp: undo_def no_timeout_def Let_def dest: in_set_butlastD)

lemma no_timeout_reset [simp]: "no_timeout (reset_game now st)"
  by (simp add: reset_game_def init_hook_def no_timeout_def)

lemma tick_inv:
  assumes "tm_white tm = Some w" "0 \<le> w" "w \<le> T" "tm_black tm = Some b" "0 \<le> b" "b \<le> T"
    and "tm_fired tm \<longleftrightarrow> w = 0 \<or> b = 0" and "tick c tm = (tm', fire)"
  shows "tm_total tm' = tm_total tm" "left_ok T (tm_white tm')" "left_ok T (tm_black tm')"
    and "tm_fired tm' \<longleftrightarrow> tm_white tm' = Some 0 \<or> tm_black tm' = Some 0"
    and "used T tm' \<le> used T tm + 1" and "tm_fired tm' \<longleftrightarrow> tm_fired tm \<or> fire"
proof -
  define l where "l = (if c = White then max 0 (w - 1) else max 0 (b - 1))"
  have l: "0 \<le> l" "l \<le> T"
    using assms(2,3,5,6) by (auto simp: l_def)
  have fire: "fire \<longleftrightarrow> l = 0 \<and> \<not> tm_fired tm" and tm': "tm' = (set_time c l tm)\<lparr>tm_fired := tm_fired tm \<or> fire\<rparr>"
    using assms(1,4,8) by (cases c; simp add: tick_def l_def Let_def)+
  show "tm_total tm' = tm_total tm" "left_ok T (tm_white tm')" "left_ok T (tm_black tm')"
    "tm_fired tm' \<longleftrightarrow> tm_fired tm \<or> fire"
    using l assms(1-6) by (cases c; simp add: tm' left_ok_def)+
  show "used T tm' \<le> used T tm + 1"
    using assms(1,4) by (cases c) (simp_all add: tm' used_def l_def)
  show "tm_fired tm' \<longleftrightarrow> tm_white tm' = Some 0 \<or> tm_black tm' = Some 0"
  proof (cases c)
    case White
    then show ?thesis
      using assms(1,2,4,7) by (auto simp: tm' fire l_def)
  next
    case Black
    then show ?thesis
      using assms(1,4,5,7) by (auto simp: tm' fire l_def)
  qed
qed

lemma run_clock_inv:
  assumes inv: "clock_inv T sc"
  shows "clock_inv T (run_clock sc)"
proof (cases "tm_armed (sc_timer sc)")
  case None
  then show ?thesis
    using inv by (simp add: run_clock_def)
next
  case (Some a)
  show ?thesis
  proof (cases "sc_now sc < a + 1000")
    case True
    then show ?thesis
      using inv Some by (simp add: run_clock_def)
  next
    case False
    let ?c = "s_turn (sc_game sc)"
    obtain tm fire where t: "tick ?c (sc_timer sc) = (tm, fire)"
      by (cases "tick ?c (sc_timer sc)")
    obtain w b where wb: "tm_white (sc_timer sc) = Some w" "0 \<le> w" "w \<le> T"
        "tm_black (sc_timer sc) = Some b" "0 \<le> b" "b \<le> T"
      using clock_invD(2,3) [OF inv] by (auto simp: left_ok_def)
    have "tm_fired (sc_timer sc) \<longleftrightarrow> w = 0 \<or> b = 0"
      using clock_invD(4) [OF inv] wb by simp
    note tm = tick_inv [OF wb this t]
    have "1000 * used T (sc_timer sc) \<le> a"
      using inv Some by (auto simp: clock_inv_def Let_def)
    then have bound: "1000 * used T tm \<le> sc_now sc"
      using tm(5) False by simp
    have total: "tm_total tm = Some T"
      using tm(1) clock_invD(1) [OF inv] by simp
    have quiet: "no_timeout (if fire then fst (forceEnd (sc_now sc) Timeout (sc_game sc)) else sc_game sc)"
      if "\<not> tm_fired tm"
      using clock_invD(5) [OF inv] tm(6) that by simp
    let ?sc = "sc\<lparr>sc_timer := tm, sc_game := (if fire then fst (forceEnd (sc_now sc) Timeout (sc_game sc)) else sc_game sc)\<rparr>"
    have "run_clock sc = draw ?sc"
      using Some False t by (simp add: run_clock_def)
    moreover have "clock_inv T (draw ?sc)"
    proof (rule draw_inv)
      show "no_timeout (sc_game ?sc)" if "\<not> tm_fired (sc_timer ?sc)"
        using quiet that by simp
    qed (use total tm(2-4) bound in simp_all)
    ultimately show ?thesis
      by simp
  qed
qed

lemma clock_inv_later: "clock_inv T sc \<Longrightarrow> clock_inv T (sc\<lparr>sc_now := sc_now sc + int d\<rparr>)"
  by (auto simp: clock_inv_def Let_def split: option.splits)

lemma screen_act_inv:
  assumes inv: "clock_inv T sc"
  shows "clock_inv T (screen_act a sc)"
proof (cases a)
  case (Board_clicked r c)
  let ?sc = "sc\<lparr>sc_hint := None, sc_game := fst (click (sc_now sc) r c (sc_game sc))\<rparr>"
  have "clock_inv T ?sc" "clock_inv T (draw ?sc)"
    by (rule same_clock [OF inv] draw_same_clock [OF inv]; simp add: no_timeout_click)+
  then show ?thesis
    using Board_clicked by (simp add: click_board_def Let_def)
next
  case (Piece_picked t)
  then show ?thesis
    using inv by (auto split: option.split intro!: draw_same_clock [OF inv] dest: no_timeout_doPromo)
qed (use inv in \<open>auto simp: run_clock_inv askHint_def hint_answer_def no_timeout_undo intro!: draw_same_clock [OF inv]\<close>)

lemma screen_step_inv: "clock_inv T sc \<Longrightarrow> clock_inv T (screen_step sc ev)"
  unfolding screen_step_def by (intro screen_act_inv clock_inv_later)

interpretation local_clock: invariant_machine screen_step "clock_inv T" for T
  by unfold_locales (rule screen_step_inv)

lemma mount_screen_inv: "clock_inv (60 * int (Suc m)) (mount_screen (Some (Suc m)) g)"
  unfolding mount_screen_def
  by (intro draw_inv) (simp_all add: mount_timer_def totalSeconds_def left_ok_def used_def Let_def)


section \<open>What the clock does not guarantee\<close>

text \<open>Clicking on the piece that is selected selects it again.\<close>

lemma click_again:
  assumes "hook_inv g" "isRunning g" "inB r c" "cell (s_board g) r c = Some (Piece (s_turn g) t)"
  shows "click now r c (select r c g) = (select r c g, [])"
proof -
  have "ep_inv (s_board g) (s_turn g) (s_ep g)"
    using assms(1) by (simp add: hook_inv_def snap_inv_def)
  then have "(r, c) \<notin> set (getLegal (s_board g) r c (s_ep g) (Some (s_cast g)))"
    using legal_target(3) [OF assms(3,4)] by blast
  then show ?thesis
    using assms(2,4) by (simp add: click_def select_def isRunning_def pc_def)
qed

lemma held_step:
  assumes "hook_inv g" "isRunning g" "inB r c" "cell (s_board g) r c = Some (Piece (s_turn g) t)"
    and "sc_game sc = select r c g" "sc_hint sc = None" "tm_armed (sc_timer sc) = Some (sc_now sc)" "tm_total (sc_timer sc) = Some T"
  shows "run_steps screen_step sc [(999, Clock_runs), (0, Board_clicked r c)] =
    sc\<lparr>sc_now := sc_now sc + 999, sc_timer := (sc_timer sc)\<lparr>tm_armed := Some (sc_now sc + 999)\<rparr>\<rparr>"
proof -
  let ?sc = "sc\<lparr>sc_now := sc_now sc + 999\<rparr>"
  have "screen_step sc (999, Clock_runs) = ?sc"
    using assms(7) by (simp add: screen_step_def run_clock_def)
  moreover have "click_draws r c (select r c g)" "isRunning (select r c g)"
    using assms(2) by (simp_all add: click_draws_def select_def isRunning_def)
  ultimately show ?thesis
    using assms(5-8) click_again [OF assms(1-4)]
    by (cases sc) (simp add: screen_step_def click_board_def draw_def arm_def Let_def)
qed

text \<open>
  The clock of a local game can be held. While the game runs, the player to move selects a
  piece and clicks on it again every 999 milliseconds: the clock stands still, however often
  this is repeated and however much time passes - each click draws the screen again, and every
  drawing starts the second anew.
\<close>

theorem clock_can_be_held:
  assumes "hook_inv g" "isRunning g" "inB r c" "cell (s_board g) r c = Some (Piece (s_turn g) t)"
    and "sc_game sc = select r c g" "sc_hint sc = None" "tm_armed (sc_timer sc) = Some (sc_now sc)" "tm_total (sc_timer sc) = Some T"
  shows "let sc' = run_steps screen_step sc (concat (replicate n [(999, Clock_runs), (0, Board_clicked r c)])) in
     sc_now sc' = sc_now sc + 999 * int n \<and> time_of col (sc_timer sc') = time_of col (sc_timer sc) \<and>
     isRunning (sc_game sc')"
  using assms(5-8)
proof (induction n arbitrary: sc)
  case 0
  then show ?case
    using assms(2) by (simp add: select_def isRunning_def)
next
  case (Suc n)
  let ?sc = "sc\<lparr>sc_now := sc_now sc + 999, sc_timer := (sc_timer sc)\<lparr>tm_armed := Some (sc_now sc + 999)\<rparr>\<rparr>"
  have "time_of col (sc_timer ?sc) = time_of col (sc_timer sc)"
    by (cases col) simp_all
  then show ?case
    using Suc.IH [of ?sc] Suc.prems held_step [OF assms(1-4) Suc.prems] by (simp add: Let_def algebra_simps)
qed

theorem clock_can_be_held_witness:
  "let sc = run_steps screen_step (mount_screen (Some 3) init_hook) [(500, Board_clicked 6 4)];
       sc' = run_steps screen_step sc (concat (replicate 1000 [(999, Clock_runs), (0, Board_clicked 6 4)])) in
     sc_now sc' = 999500 \<and> time_of White (sc_timer sc') = Some 180 \<and> isRunning (sc_game sc')"
proof -
  let ?g = "reset_game 0 init_hook"
  let ?sc = "run_steps screen_step (mount_screen (Some 3) init_hook) [(500, Board_clicked 6 4)]"
  have mine: "cell initBoard 6 4 = Some (Piece White Pawn)"
    by code_simp
  have g: "hook_inv ?g" "isRunning ?g" "inB 6 4" "cell (s_board ?g) 6 4 = Some (Piece (s_turn ?g) Pawn)"
    by (rule reset_game_inv) (simp_all add: isRunning_def reset_game_def init_hook_def inB_def mine)
  have "click 500 6 4 ?g = (select 6 4 ?g, [])"
    using mine by (simp add: click_def reset_game_def init_hook_def pc_def)
  then have "sc_game ?sc = select 6 4 ?g" "sc_hint ?sc = None" "sc_now ?sc = 500"
      "tm_armed (sc_timer ?sc) = Some (sc_now ?sc)" "tm_total (sc_timer ?sc) = Some 180"
      "time_of White (sc_timer ?sc) = Some 180"
    using g mine
    by (simp_all add: screen_step_def mount_screen_def draw_def arm_def click_board_def click_draws_def
        mount_timer_def totalSeconds_def isRunning_def Let_def) (simp_all add: reset_game_def init_hook_def pc_def select_def)
  then show ?thesis
    using clock_can_be_held [OF g, of ?sc 180 1000 White] by (simp only: Let_def) simp
qed

text \<open>
  Two more of the same kind: the clock stands while the side to move is in check, because
  \<open>isRunning\<close> asks for no status at all; and after a timeout \<open>timeoutFired\<close> stays set, so that
  in the next game on the same screen nobody can lose on time.
\<close>

lemma check_stops_the_clock:
  "tm_armed (arm now (isRunning (g\<lparr>s_status := Some Check\<rparr>)) tm) = None"
  by (simp add: arm_def isRunning_def)

lemma no_second_timeout:
  "tm_fired tm \<Longrightarrow> tick c tm = (tm', fire) \<Longrightarrow> tm_fired tm' \<and> \<not> fire"
  by (cases c) (auto simp: tick_def Let_def split: option.splits)

end
