(* ===== verification/VsComputer.thy ===== *)
theory VsComputer
  imports ChessGame
begin

text \<open>
  Playing against the engine (utils/stockfish.js, hooks/useStockfish.js, components/AIPlay.js).
  The engine itself is a third-party program: what it writes, and when, is an argument. The
  model follows the conversation with it (start-up, one request, the answer or the timeout), the
  effect of AIPlay that asks for a move whenever it becomes the engine's turn, and the way the
  answer is applied: by the functions of the game as it was when the question was asked.
\<close>

section \<open>Talking to the engine\<close>

text \<open>
  \<open>loadEngine\<close>: the lines the engine writes while starting, with their times in milliseconds.
  The engine is asked \<open>isready\<close> at every \<open>uciok\<close> and is loaded at the first \<open>readyok\<close> within
  fifteen seconds.
\<close>

type_synonym lines = "(nat \<times> string) list"

definition INIT_TIMEOUT_MS :: nat where
  "INIT_TIMEOUT_MS = 15000"

fun await_ready :: "lines \<Rightarrow> string list \<Rightarrow> (string, unit) result \<times> string list" where
  "await_ready [] sent = (Inl ''Engine init timed out'', sent)"
| "await_ready ((at_ms, l) # ls) sent =
     (if at_ms \<ge> INIT_TIMEOUT_MS then (Inl ''Engine init timed out'', sent)
      else if l = ''uciok'' then await_ready ls (sent @ [''isready''])
      else if l = ''readyok'' then (Inr (), sent)
      else await_ready ls sent)"

text \<open>What the browser finds when the engine is loaded: no script, no constructor, or an engine.\<close>

datatype engine_source = Script_missing | Not_a_function | Constructor_fails string | Writes lines

definition loadEngine :: "engine_source \<Rightarrow> (string, unit) result" where
  "loadEngine src =
     (case src of
        Script_missing \<Rightarrow> Inl ''Could not load the self-hosted chess engine''
      | Not_a_function \<Rightarrow> Inl ''Chess engine initialization failed''
      | Constructor_fails m \<Rightarrow> Inl m
      | Writes ls \<Rightarrow> fst (await_ready ls [''uci'']))"

text \<open>The promise is kept in a module variable, whatever it becomes.\<close>

definition getEngine :: "engine_source \<Rightarrow> (string, unit) result option \<Rightarrow> (string, unit) result \<times> (string, unit) result option" where
  "getEngine src enginePromise =
     (case enginePromise of
        Some p \<Rightarrow> (p, enginePromise)
      | None \<Rightarrow> let p = loadEngine src in (p, Some p))"

text \<open>The request: three commands, the skill level and the time brought into their ranges.\<close>

definition show_int :: "int \<Rightarrow> string" where
  "show_int i = (if i < 0 then ''-'' @ show_nat (nat (- i)) else show_nat (nat i))"

definition move_commands :: "string \<Rightarrow> int \<Rightarrow> int \<Rightarrow> string list" where
  "move_commands fen skillLevel movetimeMs =
     [''setoption name Skill Level value '' @ show_int (max 0 (min 20 skillLevel)),
      ''position fen '' @ fen,
      ''go movetime '' @ show_int (max 50 movetimeMs)]"

definition MOVE_GRACE_MS :: int where
  "MOVE_GRACE_MS = 10000"

text \<open>
  The listener: the second word of the first line that starts with \<open>bestmove\<close>, null for
  \<open>(none)\<close> (a line without a second word gives undefined, which the caller treats as null).
\<close>

definition best_of_line :: "string \<Rightarrow> string option" where
  "best_of_line l = (case split_on (CHR '' '') l of _ # uci # _ \<Rightarrow> if uci = ''(none)'' \<or> uci = [] then None else Some uci | _ \<Rightarrow> None)"

definition is_bestmove :: "string \<Rightarrow> bool" where
  "is_bestmove l \<longleftrightarrow> take 8 l = ''bestmove''"

fun await_move :: "int \<Rightarrow> lines \<Rightarrow> (string, string option) result" where
  "await_move limit [] = Inl ''Engine move timed out''"
| "await_move limit ((at_ms, l) # ls) =
     (if int at_ms \<ge> limit then Inl ''Engine move timed out''
      else if is_bestmove l then Inr (best_of_line l)
      else await_move limit ls)"

definition getBestMoveUci :: "int \<Rightarrow> lines \<Rightarrow> (string, string option) result" where
  "getBestMoveUci movetimeMs ls = await_move (movetimeMs + MOVE_GRACE_MS) ls"

text \<open>\<open>requestMove\<close> of useStockfish: the move or null, and the error text.\<close>

definition requestMove :: "(string, string option) result \<Rightarrow> uci_move option \<times> string" where
  "requestMove r =
     (case r of
        Inl m \<Rightarrow> (None, if m = [] then ''Engine error'' else m)
      | Inr None \<Rightarrow> (None, [])
      | Inr (Some uci) \<Rightarrow> (parseUciMove uci, []))"

section \<open>The game against the engine\<close>

record difficulty =
  df_key :: string
  df_skill :: int
  df_movetime :: int

definition DIFFICULTIES :: "difficulty list" where
  "DIFFICULTIES =
     [\<lparr>df_key = ''easy'', df_skill = 2, df_movetime = 400\<rparr>,
      \<lparr>df_key = ''medium'', df_skill = 8, df_movetime = 700\<rparr>,
      \<lparr>df_key = ''hard'', df_skill = 16, df_movetime = 1200\<rparr>]"

text \<open>
  \<open>ai_asked\<close> is the value of \<open>isAiTurn\<close> the effect last saw, \<open>ai_pending\<close> the games whose question
  the engine has not answered yet: the callbacks hold the game they were created in.
\<close>

record ai =
  ai_game :: hook
  ai_started :: bool
  ai_color :: pcolor
  ai_level :: difficulty
  ai_asked :: bool
  ai_pending :: "hook list"

definition init_ai :: ai where
  "init_ai = \<lparr>ai_game = init_hook, ai_started = False, ai_color = White, ai_level = DIFFICULTIES ! 1,
     ai_asked = False, ai_pending = []\<rparr>"

definition isAiTurn :: "ai \<Rightarrow> bool" where
  "isAiTurn x \<longleftrightarrow>
     ai_started x \<and> s_turn (ai_game x) = opp (ai_color x) \<and> h_promo (ai_game x) = None \<and>
     s_status (ai_game x) \<notin> {Some Checkmate, Some Stalemate, Some Timeout}"

text \<open>The question of the effect: the position on screen and the chosen level.\<close>

definition ai_question :: "ai \<Rightarrow> string list" where
  "ai_question x =
     (let g = ai_game x
      in move_commands (boardToFEN (s_board g) (s_turn g) (Some (s_cast g)) (s_ep g) (s_hist g))
           (df_skill (ai_level x)) (df_movetime (ai_level x)))"

definition ai_effect :: "ai \<Rightarrow> ai" where
  "ai_effect x =
     x\<lparr>ai_asked := isAiTurn x,
       ai_pending := ai_pending x @ (if isAiTurn x \<and> \<not> ai_asked x then [ai_game x] else [])\<rparr>"

text \<open>
  \<open>applyRemoteMove\<close> of the game \<open>asked\<close>, called while the game on screen is \<open>g\<close>. What the source
  sets outright comes from \<open>asked\<close> (board, turn, castling, en passant, status, last move); what it
  sets by a function of the present value (captures, notation, log, undo stack) is added to
  \<open>g\<close>. An unreadable move, or one from an empty square, changes nothing.
\<close>

definition added :: "(hook \<Rightarrow> 'a list) \<Rightarrow> hook \<Rightarrow> hook \<Rightarrow> hook \<Rightarrow> 'a list" where
  "added f asked moved g = f g @ drop (length (f asked)) (f moved)"

definition late_move :: "int \<Rightarrow> uci_move \<Rightarrow> hook \<Rightarrow> hook \<Rightarrow> hook" where
  "late_move now mv asked g =
     (case (rc_of (squareToRC (um_from mv)), rc_of (squareToRC (um_to mv))) of
        (Some (fr, fc), Some (tr, tc)) \<Rightarrow>
          (case cell (s_board asked) fr fc of
             None \<Rightarrow> g
           | Some (Piece col t) \<Rightarrow>
               let m = fst (applyMove now fr fc tr tc (um_promotion mv) True asked);
                   g1 = g\<lparr>s_lastMv := s_lastMv m, s_captW := added s_captW asked m g, s_captB := added s_captB asked m g,
                          h_past := added h_past asked m g\<rparr>
               in if t = Pawn \<and> (tr = 0 \<or> tr = 7) \<and> um_promotion mv = None then g1\<lparr>h_promo := h_promo m\<rparr>
                  else g1\<lparr>s_board := s_board m, s_turn := s_turn m, s_ep := s_ep m, s_cast := s_cast m,
                          s_status := s_status m, s_hist := added s_hist asked m g,
                          s_moveLog := added s_moveLog asked m g, s_sel := None, s_moves := []\<rparr>)
      | _ \<Rightarrow> g)"

datatype ai_event =
    Level_chosen difficulty
  | Game_started int "pcolor option" bool
  | Ai_square int int int
  | Ai_promotion int ptype
  | Ai_undo
  | Ai_new_game int
  | Engine_answers int "uci_move option"

text \<open>The colour chosen to play, a coin (\<open>heads\<close>) for the random one.\<close>

definition startGame :: "int \<Rightarrow> pcolor option \<Rightarrow> bool \<Rightarrow> ai \<Rightarrow> ai" where
  "startGame now choice heads x =
     x\<lparr>ai_color := (case choice of Some c \<Rightarrow> c | None \<Rightarrow> if heads then White else Black), ai_started := True,
       ai_game := reset_game now (ai_game x)\<rparr>"

text \<open>A line of the engine reaches every listener that waits.\<close>

definition answer_all :: "int \<Rightarrow> uci_move option \<Rightarrow> ai \<Rightarrow> ai" where
  "answer_all now mv x =
     x\<lparr>ai_pending := [],
       ai_game := (case mv of None \<Rightarrow> ai_game x
         | Some m \<Rightarrow> fold (\<lambda>asked g. late_move now m asked g) (ai_pending x) (ai_game x))\<rparr>"

fun ai_act :: "ai_event \<Rightarrow> ai \<Rightarrow> ai" where
  "ai_act (Level_chosen d) x = (if ai_started x \<or> d \<notin> set DIFFICULTIES then x else x\<lparr>ai_level := d\<rparr>)"
| "ai_act (Game_started now choice heads) x = (if ai_started x then x else startGame now choice heads x)"
| "ai_act (Ai_square now r c) x =
     (if \<not> ai_started x \<or> isAiTurn x then x else x\<lparr>ai_game := fst (click now r c (ai_game x))\<rparr>)"
| "ai_act (Ai_promotion now t) x =
     (case doPromo now t (ai_game x) of
        None \<Rightarrow> x
      | Some (g, fx) \<Rightarrow> if t \<in> set promotion_choices then x\<lparr>ai_game := g\<rparr> else x)"
| "ai_act Ai_undo x = (if canUndo (ai_game x) then x\<lparr>ai_game := undo (ai_game x)\<rparr> else x)"
| "ai_act (Ai_new_game now) x = (if ai_started x then x\<lparr>ai_game := reset_game now (ai_game x)\<rparr> else x)"
| "ai_act (Engine_answers now mv) x = answer_all now mv x"

definition ai_step :: "ai \<Rightarrow> ai_event \<Rightarrow> ai" where
  "ai_step x ev = ai_effect (ai_act ev x)"

section \<open>An answer in time\<close>

text \<open>Applied to the game it was asked for, the answer is the move of the other side.\<close>

lemma added_same: "\<exists>xs. f m = f g @ xs \<Longrightarrow> added f g m g = f m"
  by (auto simp: added_def)

lemma late_move_squares:
  assumes "inB fr fc" "inB tr tc" "um_from mv = sq fr fc" "um_to mv = sq tr tc" "cell (s_board asked) fr fc = Some (Piece col t)"
  shows "late_move now mv asked g =
    (let m = fst (applyMove now fr fc tr tc (um_promotion mv) True asked);
         g1 = g\<lparr>s_lastMv := s_lastMv m, s_captW := added s_captW asked m g, s_captB := added s_captB asked m g,
                h_past := added h_past asked m g\<rparr>
     in if t = Pawn \<and> (tr = 0 \<or> tr = 7) \<and> um_promotion mv = None then g1\<lparr>h_promo := h_promo m\<rparr>
        else g1\<lparr>s_board := s_board m, s_turn := s_turn m, s_ep := s_ep m, s_cast := s_cast m,
                s_status := s_status m, s_hist := added s_hist asked m g,
                s_moveLog := added s_moveLog asked m g, s_sel := None, s_moves := []\<rparr>)"
  using assms by (simp add: late_move_def rc_of_def)

lemma late_move_in_time:
  assumes sqs: "inB fr fc" "inB tr tc" "um_from mv = sq fr fc" "um_to mv = sq tr tc"
    and piece: "cell (s_board g) fr fc = Some (Piece col t)"
  shows "late_move now mv g g = fst (applyMove now fr fc tr tc (um_promotion mv) True g)"
proof (cases "t = Pawn \<and> (tr = 0 \<or> tr = 7) \<and> um_promotion mv = None")
  case True
  then have "cell (s_board g) fr fc = Some (Piece col Pawn)" "tr = 0 \<or> tr = 7" "um_promotion mv = None"
    using piece by auto
  note pending = applyMove_pending [OF this(1,2)] this(3)
  show ?thesis
    unfolding late_move_squares [OF sqs piece] pending
    by (cases g) (simp add: True added_def add_capture_def snapshot_def Let_def split: option.split pcolor.split)
next
  case False
  show ?thesis
    unfolding late_move_squares [OF sqs piece] if_not_P [OF False] applyMove_finished [OF piece False]
    by (cases g) (simp add: finish_def added_def add_capture_def snapshot_def Let_def split: option.split pcolor.split)
qed

text \<open>An answer the engine may give: a legal move, with a piece exactly for a pawn on its last step.\<close>

definition good_answer :: "hook \<Rightarrow> uci_move \<Rightarrow> bool" where
  "good_answer g mv \<longleftrightarrow>
     (\<exists>fr fc tr tc. um_from mv = sq fr fc \<and> um_to mv = sq tr tc \<and> legal_move g fr fc tr tc \<and>
        (um_promotion mv \<noteq> None \<longleftrightarrow> pt (cell (s_board g) fr fc) = Some Pawn \<and> (tr = 0 \<or> tr = 7)) \<and>
        um_promotion mv \<noteq> Some King)"

lemma late_move_good:
  assumes "hook_inv g" "h_promo g = None" "good_answer g mv"
  shows "hook_inv (late_move now mv g g)"
proof -
  obtain fr fc tr tc where mv: "um_from mv = sq fr fc" "um_to mv = sq tr tc" "legal_move g fr fc tr tc"
      "um_promotion mv \<noteq> None \<Longrightarrow> pt (cell (s_board g) fr fc) = Some Pawn \<and> (tr = 0 \<or> tr = 7) \<and> um_promotion mv \<noteq> Some King"
    using assms(3) by (auto simp: good_answer_def)
  have sqs: "inB fr fc" "inB tr tc"
    using legal_move_target [OF assms(1) mv(3)] by simp_all
  obtain t where "cell (s_board g) fr fc = Some (Piece (s_turn g) t)"
    using mv(3) by (auto simp: legal_move_def pc_Some_iff)
  from late_move_in_time [OF sqs mv(1,2) this, of now] applyMove_inv [OF assms(1,2) mv(3), of "um_promotion mv" now True] mv(4)
  show ?thesis
    by simp
qed

text \<open>
  The discipline under which the answer always meets its game: no undo and no new game while
  the engine thinks.
\<close>

definition calm :: "ai \<Rightarrow> ai_event \<Rightarrow> bool" where
  "calm x ev \<longleftrightarrow>
     (case ev of
        Ai_undo \<Rightarrow> ai_pending x = []
      | Ai_new_game now \<Rightarrow> ai_pending x = []
      | Engine_answers now (Some mv) \<Rightarrow> ai_pending x = [] \<or> good_answer (ai_game x) mv
      | _ \<Rightarrow> True)"

definition ai_ok :: "ai \<Rightarrow> bool" where
  "ai_ok x \<longleftrightarrow>
     hook_inv (ai_game x) \<and> ai_asked x = isAiTurn x \<and>
     (ai_pending x = [] \<or> ai_pending x = [ai_game x] \<and> isAiTurn x)"

lemma ai_effect_simps [simp]: "ai_game (ai_effect x) = ai_game x" "isAiTurn (ai_effect x) = isAiTurn x"
  by (simp_all add: ai_effect_def isAiTurn_def)

lemma ai_effect_ok:
  assumes "hook_inv (ai_game x)" and "ai_pending x = [] \<or> ai_pending x = [ai_game x] \<and> isAiTurn x \<and> ai_asked x"
  shows "ai_ok (ai_effect x)"
  using assms by (auto simp: ai_ok_def ai_effect_def isAiTurn_def)

lemma ai_same_ok: "ai_ok x \<Longrightarrow> ai_ok (ai_effect x)"
  by (rule ai_effect_ok) (auto simp: ai_ok_def)

lemma ai_move_ok: "ai_pending x = [] \<Longrightarrow> hook_inv g \<Longrightarrow> ai_ok (ai_effect (x\<lparr>ai_game := g\<rparr>))"
  by (rule ai_effect_ok) simp_all

lemma ai_step_ok:
  assumes ok: "ai_ok x" and "calm x ev"
  shows "ai_ok (ai_step x ev)"
proof (cases ev)
  case (Level_chosen d)
  have "isAiTurn x \<Longrightarrow> ai_started x"
    by (simp add: isAiTurn_def)
  then show ?thesis
    using ok Level_chosen by (auto simp: ai_step_def intro!: ai_same_ok ai_effect_ok) (auto simp: ai_ok_def isAiTurn_def)
next
  case (Game_started now choice heads)
  show ?thesis
  proof (cases "ai_started x")
    case True
    then show ?thesis
      using ok Game_started by (simp add: ai_step_def ai_same_ok)
  next
    case False
    then have "ai_pending x = []"
      using ok by (auto simp: ai_ok_def isAiTurn_def)
    then have "ai_ok (ai_effect (startGame now choice heads x))"
      by (intro ai_effect_ok) (simp_all add: startGame_def reset_game_inv)
    then show ?thesis
      using Game_started False by (simp add: ai_step_def)
  qed
next
  case (Ai_square now r c)
  show ?thesis
  proof (cases "\<not> ai_started x \<or> isAiTurn x")
    case True
    then show ?thesis
      using ok Ai_square by (auto simp: ai_step_def ai_same_ok)
  next
    case False
    then have "ai_pending x = []" "hook_inv (fst (click now r c (ai_game x)))"
      using ok by (auto simp: ai_ok_def click_inv)
    then show ?thesis
      using False Ai_square by (simp add: ai_step_def ai_move_ok)
  qed
next
  case (Ai_promotion now t)
  show ?thesis
  proof (cases "doPromo now t (ai_game x)")
    case None
    then show ?thesis
      using ok Ai_promotion by (simp add: ai_step_def ai_same_ok)
  next
    case (Some r)
    then obtain g fx where r: "doPromo now t (ai_game x) = Some (g, fx)"
      by (cases r) simp
    have "h_promo (ai_game x) \<noteq> None"
      using r by (auto simp: doPromo_def split: option.splits)
    then have none: "ai_pending x = []"
      using ok by (auto simp: ai_ok_def isAiTurn_def)
    have "t \<in> set promotion_choices \<Longrightarrow> hook_inv g"
      using ok r by (auto simp: ai_ok_def promotion_choices_def dest: doPromo_inv)
    then show ?thesis
      using ok Ai_promotion r none by (auto simp: ai_step_def ai_same_ok ai_move_ok)
  qed
next
  case Ai_undo
  then have none: "ai_pending x = []"
    using assms(2) by (simp add: calm_def)
  have "hook_inv (undo (ai_game x))"
    using ok by (simp add: ai_ok_def undo_inv)
  then show ?thesis
    using ok Ai_undo none by (simp add: ai_step_def ai_same_ok ai_move_ok)
next
  case (Ai_new_game now)
  then have none: "ai_pending x = []"
    using assms(2) by (simp add: calm_def)
  then show ?thesis
    using ok Ai_new_game by (simp add: ai_step_def ai_same_ok ai_move_ok reset_game_inv)
next
  case (Engine_answers now mv)
  have "hook_inv (ai_game (answer_all now mv x))"
  proof (cases mv)
    case None
    then show ?thesis
      using ok by (simp add: answer_all_def ai_ok_def)
  next
    case (Some m)
    show ?thesis
      using ok assms(2) late_move_good [of "ai_game x" m now]
      by (auto simp: answer_all_def ai_ok_def calm_def Engine_answers Some isAiTurn_def)
  qed
  then show ?thesis
    using Engine_answers by (auto simp: ai_step_def answer_all_def intro!: ai_effect_ok)
qed

inductive ai_run :: "ai \<Rightarrow> bool" where
  start: "ai_run init_ai"
| step: "ai_run x \<Longrightarrow> calm x ev \<Longrightarrow> ai_run (ai_step x ev)"

lemma ai_run_ok: "ai_run x \<Longrightarrow> ai_ok x"
proof (induction rule: ai_run.induct)
  case start
  show ?case
    by (simp add: ai_ok_def init_ai_def init_hook_inv isAiTurn_def)
next
  case (step x ev)
  then show ?case
    by (simp add: ai_step_ok)
qed

text \<open>
  Against the engine: as long as the player neither takes a move back nor starts a new game
  while the engine thinks, and the engine answers with legal moves (or fails), at most one
  question is open, it is about the position on screen, the player cannot move meanwhile, and
  the game keeps a log that replays to its board.
\<close>

theorem ai_game_sound:
  assumes "ai_run x"
  shows "(\<exists>bs. replayToSnapshots (s_moveLog (ai_game x)) = Some bs \<and> last bs = s_board (ai_game x)) \<and>
     s_turn (ai_game x) = turn_after (length (s_moveLog (ai_game x))) \<and>
     set (ai_pending x) \<subseteq> {ai_game x} \<and> length (ai_pending x) \<le> 1 \<and>
     (if ai_pending x = [] then True else ai_game (ai_step x (Ai_square now r c)) = ai_game x)"
proof -
  have inv: "hook_inv (ai_game x)" and pend: "ai_pending x = [] \<or> ai_pending x = [ai_game x] \<and> isAiTurn x"
    using ai_run_ok [OF assms] by (auto simp: ai_ok_def)
  show ?thesis
    using inv pend by (auto simp: hook_inv_def snap_inv_def replays_to_def ai_step_def)
qed

text \<open>The player opens with the king's pawn; the engine's answer is open.\<close>

definition opened :: hook where
  "opened = fst (click 0 4 4 (select 6 4 (reset_game 0 init_hook)))"

definition ai_opening :: ai where
  "ai_opening = run_steps ai_step init_ai [Game_started 0 (Some White) True, Ai_square 0 6 4, Ai_square 0 4 4]"

definition e4_board :: board where
  "e4_board = moved_board initBoard 6 4 4 4 None White Pawn"

lemma opened_facts: "s_board opened = e4_board" "s_turn opened = Black" "s_ep opened = Some (5, 4)" "s_cast opened = all_castling"
  "s_status opened = None" "h_promo opened = None"
proof -
  let ?g = "select 6 4 (reset_game 0 init_hook)"
  have sel: "(4, 4) \<in> set (getLegal initBoard 6 4 None (Some all_castling))" and cell: "cell initBoard 6 4 = Some (Piece White Pawn)"
    by code_simp+
  have status: "status_of e4_board Black (Some (5, 4)) all_castling = None"
    and rights: "new_rights all_castling White Pawn 6 4 4 4 = all_castling"
    by code_simp+
  have c: "click 0 4 4 ?g = applyMove 0 6 4 4 4 None False ?g"
    by (rule click_target) (simp_all add: select_def reset_game_def init_hook_def sel)
  have b: "cell (s_board ?g) 6 4 = Some (Piece White Pawn)"
    by (simp add: select_def reset_game_def init_hook_def cell)
  have "\<not> (Pawn = Pawn \<and> ((4::int) = 0 \<or> (4::int) = 7) \<and> (None :: ptype option) = None)"
    by simp
  note m = applyMove_finished [OF b this]
  show "s_board opened = e4_board" "s_turn opened = Black" "s_ep opened = Some (5, 4)" "s_cast opened = all_castling"
    "s_status opened = None" "h_promo opened = None"
    unfolding opened_def c m
    by (simp_all add: finish_def Let_def promoted_def select_def reset_game_def init_hook_def rights status e4_board_def [symmetric])
qed

lemma ai_opening_facts: "ai_game ai_opening = opened" "ai_color ai_opening = White" "ai_pending ai_opening = [opened]"
proof -
  let ?x1 = "ai_step init_ai (Game_started 0 (Some White) True)"
  let ?x2 = "ai_step ?x1 (Ai_square 0 6 4)"
  have 1: "ai_game ?x1 = reset_game 0 init_hook" "ai_started ?x1" "ai_color ?x1 = White" "\<not> isAiTurn ?x1" "ai_pending ?x1 = []"
    "\<not> ai_asked ?x1"
    by (simp_all add: ai_step_def startGame_def init_ai_def ai_effect_def isAiTurn_def reset_game_def init_hook_def)
  have "cell initBoard 6 4 = Some (Piece White Pawn)"
    by code_simp
  then have "click 0 6 4 (reset_game 0 init_hook) = (select 6 4 (reset_game 0 init_hook), [])"
    by (simp add: click_def reset_game_def init_hook_def pc_def)
  then have 2: "ai_game ?x2 = select 6 4 (reset_game 0 init_hook)" "ai_started ?x2" "ai_color ?x2 = White" "\<not> isAiTurn ?x2"
    "ai_pending ?x2 = []" "\<not> ai_asked ?x2"
    using 1 by (simp_all add: ai_step_def ai_effect_def isAiTurn_def) (simp_all add: select_def reset_game_def init_hook_def)
  have x: "ai_opening = ai_effect (?x2\<lparr>ai_game := opened\<rparr>)"
    using 2 by (simp add: ai_opening_def ai_step_def [of ?x2] opened_def)
  show "ai_game ai_opening = opened" "ai_color ai_opening = White" "ai_pending ai_opening = [opened]"
    using 2 opened_facts unfolding x by (simp_all add: ai_effect_def isAiTurn_def)
qed

lemma ai_opening_run: "ai_run ai_opening"
  unfolding ai_opening_def run_steps.simps by (intro ai_run.intros) (simp_all add: calm_def)

theorem ai_game_sound_witness:
  "ai_pending ai_opening = [ai_game ai_opening] \<and>
   (\<exists>bs. replayToSnapshots (s_moveLog (ai_game ai_opening)) = Some bs \<and> last bs = s_board (ai_game ai_opening)) \<and>
   ai_game (ai_step ai_opening (Ai_square 5 1 4)) = ai_game ai_opening"
  using ai_game_sound [OF ai_opening_run, of 5 1 4] ai_opening_facts by simp

text \<open>
  An answer that comes too late destroys the next game. The player has White and starts a
  new game while the engine thinks about a move; the answer, a legal move of the abandoned
  game, is played on the abandoned board. The new game then shows that board with one entry in
  its log, and White to move after White's "first" move: the log has lost the game.
\<close>

theorem late_answer_corrupts:
  assumes "ai_run x" and "ai_pending x = [g]" and "ai_color x = White" and "good_answer g mv"
  shows "let y = ai_game (run_steps ai_step x [Ai_new_game now, Engine_answers now' (Some mv)]) in
     s_board y = s_board (late_move now' mv g g) \<and> length (s_moveLog y) = 1 \<and> s_turn y = White \<and>
     s_turn y \<noteq> turn_after (length (s_moveLog y))"
proof -
  have g: "g = ai_game x" and turn: "isAiTurn x" and inv: "hook_inv g"
    using ai_run_ok [OF assms(1)] assms(2) by (auto simp: ai_ok_def)
  obtain fr fc tr tc where mv: "um_from mv = sq fr fc" "um_to mv = sq tr tc" "legal_move g fr fc tr tc"
      "um_promotion mv \<noteq> None \<longleftrightarrow> pt (cell (s_board g) fr fc) = Some Pawn \<and> (tr = 0 \<or> tr = 7)"
    using assms(4) by (auto simp: good_answer_def)
  have sqs: "inB fr fc" "inB tr tc"
    using legal_move_target [OF inv mv(3)] by simp_all
  obtain t where piece: "cell (s_board g) fr fc = Some (Piece (s_turn g) t)"
    using mv(3) by (auto simp: legal_move_def pc_Some_iff)
  have fin: "\<not> (t = Pawn \<and> (tr = 0 \<or> tr = 7) \<and> um_promotion mv = None)"
    using mv(4) piece by (auto simp: pt_def)
  let ?new = "reset_game now g"
  define m where "m = fst (applyMove now' fr fc tr tc (um_promotion mv) True g)"
  have m: "s_turn m = opp (s_turn g)" "length (s_moveLog m) = Suc (length (s_moveLog g))"
    unfolding m_def applyMove_finished [OF piece fin] by simp_all
  have same: "late_move now' mv g g = m"
    unfolding m_def by (rule late_move_in_time [OF sqs mv(1,2) piece])
  have late: "s_board (late_move now' mv g ?new) = s_board m" "s_turn (late_move now' mv g ?new) = s_turn m"
      "s_moveLog (late_move now' mv g ?new) = drop (length (s_moveLog g)) (s_moveLog m)"
    unfolding late_move_squares [OF sqs mv(1,2) piece] m_def [symmetric] Let_def if_not_P [OF fin]
    by (simp_all add: added_def reset_game_def init_hook_def)
  have x: "ai_started x" "s_turn g = Black"
    using turn assms(3) by (auto simp: isAiTurn_def g)
  have "run_steps ai_step x [Ai_new_game now, Engine_answers now' (Some mv)] =
      ai_effect (answer_all now' (Some mv) (ai_effect (x\<lparr>ai_game := ?new\<rparr>)))"
    using x(1) by (simp add: ai_step_def g)
  moreover have "ai_effect (x\<lparr>ai_game := ?new\<rparr>) = x\<lparr>ai_game := ?new, ai_asked := False\<rparr>"
    using assms(3) by (simp add: ai_effect_def isAiTurn_def reset_game_def init_hook_def)
  ultimately have "ai_game (run_steps ai_step x [Ai_new_game now, Engine_answers now' (Some mv)]) = late_move now' mv g ?new"
    using assms(2) by (simp add: answer_all_def)
  then show ?thesis
    using late m same x(2) by (simp add: Let_def turn_after_def)
qed

definition reply_e5 :: uci_move where
  "reply_e5 = \<lparr>um_from = ''e7'', um_to = ''e5'', um_promotion = None\<rparr>"

lemma reply_e5_good: "good_answer opened reply_e5"
proof -
  have l: "(3, 4) \<in> set (getLegal e4_board 1 4 (Some (5, 4)) (Some all_castling))"
    and c: "cell e4_board 1 4 = Some (Piece Black Pawn)" and q: "sq 1 4 = ''e7''" "sq 3 4 = ''e5''"
    by code_simp+
  show ?thesis
    unfolding good_answer_def
    by (rule exI [of _ 1], rule exI [of _ 4], rule exI [of _ 3], rule exI [of _ 4])
      (simp add: reply_e5_def legal_move_def opened_facts inB_def l c q pc_def)
qed

theorem late_answer_corrupts_witness:
  "let y = ai_game (run_steps ai_step ai_opening [Ai_new_game 1000, Engine_answers 1500 (Some reply_e5)]) in
     s_board y = s_board (late_move 1500 reply_e5 opened opened) \<and> length (s_moveLog y) = 1 \<and> s_turn y = White"
  using late_answer_corrupts [OF ai_opening_run ai_opening_facts(3,2) reply_e5_good, of 1000 1500] by (simp only: Let_def)

section \<open>Waiting for the engine\<close>

text \<open>The request ends: the answer is one of the lines, before the limit, or the timeout.\<close>

lemma await_move_Inr:
  "await_move limit ls = Inr r \<Longrightarrow> \<exists>at_ms l. (at_ms, l) \<in> set ls \<and> is_bestmove l \<and> int at_ms < limit \<and> r = best_of_line l"
proof (induction ls)
  case (Cons x ls)
  show ?case
  proof (cases "int (fst x) < limit \<and> is_bestmove (snd x)")
    case True
    then have "r = best_of_line (snd x)"
      using Cons.prems by (cases x) simp
    then show ?thesis
      using True by (intro exI [of _ "fst x"] exI [of _ "snd x"]) simp
  next
    case False
    then show ?thesis
      using Cons by (cases x) (auto split: if_splits)
  qed
qed simp

lemma failed_engine_stays_failed:
  assumes "getEngine src None = (Inl m, p)"
  shows "getEngine src' p = (Inl m, p)"
  using assms by (auto simp: getEngine_def Let_def)

end
