(* ===== verification/SocketGate.thy ===== *)
theory SocketGate
  imports AuthSafety GameSocket Shutdown
begin

text \<open>
  Who may talk to the game server: the handshake of a socket and the checks in front of each of
  its packets (\<open>socketAuthentication\<close> and the beginning of \<open>initSocket\<close> in
  socket/gameSocket.js, \<open>drainHandshakeGuard\<close> and \<open>drainPacketGuard\<close> of services/shutdown.js).
  The site puts the parts together: the account routes and the game handlers work on one
  database, and a connection keeps the payload of the access token it was opened with.
\<close>

section \<open>The checks\<close>

text \<open>
  The access cookie of the handshake (as the cookie package parsed it) and whether the user table
  can be read. Every failure, an exception included, is the same refusal.
\<close>

definition socketAuthentication :: "web \<Rightarrow> int \<Rightarrow> string option \<Rightarrow> bool \<Rightarrow> db \<Rightarrow> (string, payload) result" where
  "socketAuthentication w now cookie readable d =
     (case cookie of
        None \<Rightarrow> Inl ''Authentication required''
      | Some t \<Rightarrow>
          if t = [] then Inl ''Authentication required''
          else (case verifyAccessToken w now t of
                  None \<Rightarrow> Inl ''Authentication required''
                | Some p \<Rightarrow> if readable \<and> activeSession p d then Inr p else Inl ''Authentication required''))"

definition handshake :: "web \<Rightarrow> controller \<Rightarrow> int \<Rightarrow> string option \<Rightarrow> bool \<Rightarrow> db \<Rightarrow> (string, payload) result" where
  "handshake w k now cookie readable d =
     (case drainHandshakeGuard k of
        Pass \<Rightarrow> socketAuthentication w now cookie readable d
      | _ \<Rightarrow> Inl ''Server shutting down'')"

text \<open>The two middlewares in front of a packet: draining first, then the session of the socket's user.\<close>

definition packet_passes :: "controller \<Rightarrow> payload \<Rightarrow> bool list \<Rightarrow> bool \<Rightarrow> db \<Rightarrow> bool" where
  "packet_passes k p is_function readable d \<longleftrightarrow>
     drainPacketGuard k is_function = Pass \<and> readable \<and> activeSession p d"

text \<open>The handlers act for the user of the token, under its name.\<close>

definition client_of :: "string \<Rightarrow> payload \<Rightarrow> client" where
  "client_of sid p = \<lparr>ck_socket = sid, ck_user = p_id p, ck_name = p_username p\<rparr>"

fun as_client :: "client \<Rightarrow> socket_event \<Rightarrow> socket_event" where
  "as_client c (Create_room e _ name draws) = Create_room e c name draws"
| "as_client c (Join_room e _ r) = Join_room e c r"
| "as_client c (Make_move e _ r q) = Make_move e c r q"
| "as_client c (Game_over e _ r) = Game_over e c r"
| "as_client c (Resign e _ r) = Resign e c r"
| "as_client c (Request_rematch _ r) = Request_rematch c r"
| "as_client c (Accept_rematch e _ r) = Accept_rematch e c r"
| "as_client c (Send_message e _ r t) = Send_message e c r t"
| "as_client c (Leave_room e _ r) = Leave_room e c r"
| "as_client c (Disconnect _) = Disconnect c"
| "as_client c (Boot now) = Boot now"

section \<open>The site\<close>

record ('c, 'v) site =
  st_server :: "('c, 'v) server"
  st_conns :: "(string \<times> payload) list"
  st_control :: controller

datatype site_event =
    Web auth_event
  | Handshake string int "string option" bool
  | Packet string "bool list" bool socket_event
  | Hang_up string
  | Start_draining string nat

definition is_packet :: "socket_event \<Rightarrow> bool" where
  "is_packet ev \<longleftrightarrow> (case ev of Disconnect _ \<Rightarrow> False | Boot _ \<Rightarrow> False | _ \<Rightarrow> True)"

definition conn_of :: "string \<Rightarrow> ('c, 'v) site \<Rightarrow> payload option" where
  "conn_of sid s = map_of (st_conns s) sid"

definition deliver :: "'c chess_lib \<Rightarrow> 'v vote_ops \<Rightarrow> socket_event \<Rightarrow> ('c, 'v) site \<Rightarrow> ('c, 'v) site" where
  "deliver cl V ev s = s\<lparr>st_server := server_step cl V (st_server s) ev\<rparr>"

fun site_step :: "web \<Rightarrow> 'c chess_lib \<Rightarrow> 'v vote_ops \<Rightarrow> ('c, 'v) site \<Rightarrow> site_event \<Rightarrow> ('c, 'v) site" where
  "site_step w cl V s (Web ev) =
     s\<lparr>st_server := (st_server s)\<lparr>sv_db := auth_step w (sv_db (st_server s)) ev\<rparr>\<rparr>"
| "site_step w cl V s (Handshake sid now cookie readable) =
     (case handshake w (st_control s) now cookie readable (sv_db (st_server s)) of
        Inl err \<Rightarrow> s
      | Inr p \<Rightarrow> s\<lparr>st_conns := AList.update sid p (st_conns s)\<rparr>)"
| "site_step w cl V s (Packet sid is_function readable ev) =
     (case conn_of sid s of
        None \<Rightarrow> s
      | Some p \<Rightarrow>
          if is_packet ev \<and> packet_passes (st_control s) p is_function readable (sv_db (st_server s))
          then deliver cl V (as_client (client_of sid p) ev) s else s)"
| "site_step w cl V s (Hang_up sid) =
     (case conn_of sid s of
        None \<Rightarrow> s
      | Some p \<Rightarrow> (deliver cl V (Disconnect (client_of sid p)) s)\<lparr>st_conns := AList.delete sid (st_conns s)\<rparr>)"
| "site_step w cl V s (Start_draining src now) = s\<lparr>st_control := snd (enterDraining src now (st_control s))\<rparr>"

section \<open>The game server never turns a session back\<close>

text \<open>The only column of the users table the game server writes is the rating.\<close>

lemma session_update_games: "preserves (session_at_least i n) (update_games Q f)"
  by (auto simp: preserves_def update_games_def Let_def session_at_least_def find_user_def)

lemma session_set_elo: "preserves (session_at_least i n) (set_elo j elo)"
proof -
  have "session_at_least i n (d\<lparr>users := update_where (\<lambda>u. u_id u = j) (\<lambda>u. u\<lparr>u_elo := elo\<rparr>) (users d)\<rparr>)"
    if "session_at_least i n d" for d
    using that by (auto simp: session_at_least_def find_user_update split: option.splits)
  then show ?thesis
    unfolding set_elo_def by (intro preserve preserves_qput)
qed

lemma session_insert_score: "preserves (session_at_least i n) (insert_score now u nm c du w m g)"
  unfolding insert_score_def Let_def by (intro preserve session_fresh preserves_users_put) simp_all

lemma session_award: "preserves (session_at_least i n) (awardIfNew now u k)"
  unfolding awardIfNew_def by (intro preserve preserves_users_put) simp_all

lemma session_award_all: "preserves (session_at_least i n) (award_all now u ks)"
proof (induction ks)
  case Nil
  then show ?case unfolding award_all.simps by (intro preserve)
next
  case (Cons k ks)
  then show ?case unfolding award_all.simps by (intro preserves_qbind session_award preserves_qreturn)
qed

lemma session_finalize: "preserves (session_at_least i n) (finalizeGameAtomic now room res winner)"
  unfolding finalizeGameAtomic_def finish_row_def settle_finished_def settle_player_def Let_def
  by (intro preserve session_update_games session_set_elo session_insert_score session_award_all)

lemma session_insert_game: "preserves (session_at_least i n) (game_create now r wu wn mode)"
  unfolding game_create_def Let_def by (intro preserve session_fresh preserves_users_put) simp_all

lemma session_insert_move: "preserves (session_at_least i n) (insert_move m)"
  unfolding insert_move_def by (intro preserve preserves_users_put) simp_all

lemma session_persist: "preserves (session_at_least i n) (persistMoveAtomic cl gid col req)"
  unfolding persistMoveAtomic_def Let_def by (intro preserve session_update_games session_insert_move)

lemma session_join: "preserves (session_at_least i n) (joinBlackById gid u nm)" "preserves (session_at_least i n) (claimBlack gid u nm)"
  unfolding joinBlackById_def claimBlack_def by (intro preserve session_update_games)+

lemma session_rematch: "preserves (session_at_least i n) (rematch_tx now gid r wu wn bu bn)"
  unfolding rematch_tx_def release_room_def by (intro preserve session_update_games session_insert_game session_join)

lemma session_abandon: "preserves (session_at_least i n) (abandonMany now ids)"
  unfolding abandonMany_def by (intro preserve session_update_games)

interpretation socket_sessions: socket_property cl "session_at_least i n" for cl :: "'c chess_lib" and i n
  by unfold_locales (rule session_insert_game session_join session_persist session_finalize session_rematch session_abandon)+

definition site_session :: "nat \<Rightarrow> nat \<Rightarrow> ('c, 'v) site \<Rightarrow> bool" where
  "site_session i n s \<longleftrightarrow> session_at_least i n (sv_db (st_server s))"

lemma site_session_step:
  assumes s: "site_session i n s"
  shows "site_session i n (site_step w cl V s ev)"
proof -
  have web: "session_at_least i n (auth_step w (sv_db (st_server s)) e)" for e
    by (rule sessions.step_preserves) (use s in \<open>auto simp: site_session_def event_ok_def split: auth_event.split\<close>)
  show ?thesis
    using s web socket_sessions.server_step [of i n]
    by (cases ev) (auto simp: site_session_def deliver_def split: sum.split option.split)
qed

interpretation site_sessions: invariant_machine "site_step w cl V" "site_session i n" for w cl V i n
  by unfold_locales (rule site_session_step)

text \<open>
  C28. Logging out silences every open connection. After a successful logout, whatever the
  account routes and the sockets do next, in any order, a packet on a connection whose access
  token was issued for that user before the logout changes nothing: no move, no resignation,
  no rematch vote - although the socket itself is still open.
\<close>

theorem logout_silences_sockets:
  assumes "status (fst (logout w now token (sv_db (st_server s)))) = 204"
    and "authenticate w now token (sv_db (st_server s)) = Some p" "find_user (p_id p) (sv_db (st_server s)) = Some u"
    and "s' = run_steps (site_step w cl V) s (Web (Logout now token) # es)"
    and "conn_of sid s' = Some q" "p_id q = p_id p" "p_session q \<le> u_session u"
  shows "site_step w cl V s' (Packet sid is_function readable ev) = s'"
proof -
  have "site_session (p_id p) (u_session u + 1) (site_step w cl V s (Web (Logout now token)))"
    using logout_bumps [OF assms(1-3)] by (simp add: site_session_def auth_step_def)
  then have "site_session (p_id p) (u_session u + 1) s'"
    unfolding assms(4) run_steps.simps by (rule site_sessions.run_inv)
  then have "\<not> activeSession q (sv_db (st_server s'))"
    using stale_payload assms(6,7) by (fastforce simp: site_session_def)
  then show ?thesis
    using assms(5) by (simp add: packet_passes_def)
qed

text \<open>Ann is signed in with a socket open, and logs out.\<close>

definition demo_site :: "(nat, local_votes) site" where
  "demo_site = \<lparr>st_server = \<lparr>sv_rooms = [], sv_db = demo_login, sv_votes = (\<lambda>_. None), sv_draining = False\<rparr>,
     st_conns = [(''s1'', \<lparr>p_id = 1, p_username = ''ann'', p_email = ''ann@x'', p_session = 0\<rparr>)], st_control = boot\<rparr>"

theorem logout_silences_sockets_witness:
  "let s = run_steps (site_step demo_web counting_lib local_ops) demo_site [Web (Logout 50 (Some ''0''))];
       move = Create_room demo_env \<lparr>ck_socket = [], ck_user = 0, ck_name = []\<rparr> [] [0] in
     site_step demo_web counting_lib local_ops s (Packet ''s1'' [] True move) = s \<and>
     packet_passes (st_control demo_site) \<lparr>p_id = 1, p_username = ''ann'', p_email = ''ann@x'', p_session = 0\<rparr> [] True
       (sv_db (st_server demo_site))"
proof -
  let ?p = "\<lparr>p_id = 1, p_username = ''ann'', p_email = ''ann@x'', p_session = 0\<rparr>"
  have db: "sv_db (st_server demo_site) = demo_login"
    by (simp add: demo_site_def)
  have 1: "status (fst (logout demo_web 50 (Some ''0'') demo_login)) = 204"
    by code_simp
  have 2: "authenticate demo_web 50 (Some ''0'') demo_login = Some ?p" "find_user (p_id ?p) demo_login = Some demo_member"
    "p_session ?p \<le> u_session demo_member"
    by code_simp+
  let ?move = "Create_room demo_env \<lparr>ck_socket = [], ck_user = 0, ck_name = []\<rparr> [] [0]"
  let ?s = "run_steps (site_step demo_web counting_lib local_ops) demo_site [Web (Logout 50 (Some ''0''))]"
  have "conn_of ''s1'' ?s = Some ?p"
    by (simp add: demo_site_def conn_of_def)
  then have "site_step demo_web counting_lib local_ops ?s (Packet ''s1'' [] True ?move) = ?s"
    by (intro logout_silences_sockets [where s = demo_site and token = "Some ''0''" and now = 50 and p = ?p and u = demo_member
          and es = "[]" and q = ?p]) (simp_all add: db 1 2 2 [simplified])
  moreover have "activeSession ?p demo_login"
    by code_simp
  then have "packet_passes (st_control demo_site) ?p [] True (sv_db (st_server demo_site))"
    by (simp add: packet_passes_def demo_site_def drainPacketGuard_def boot_def)
  ultimately show ?thesis
    by (simp only: Let_def)
qed

end
