(* ===== verification/SeatOwnership.thy ===== *)
theory SeatOwnership
  imports SocketGate
begin

text \<open>
  Who a seat belongs to, over the whole site: the seats of the cached rooms
  (socket/gameSocket.js) are tied to sockets, the sockets to the payloads of access tokens
  (\<open>socketAuthentication\<close>), and the users of the seats to the game rows. The invariants here
  put the three together, and the account routes are shown to leave the game tables alone.
\<close>

section \<open>The account routes do not touch the games\<close>

lemma local_statements:
  assumes "game_local P"
  shows "preserves P (user_create c now u e p)" "preserves P (issueAccountToken c now raw i purpose ttl)"
    "preserves P (consume_row now i)" "preserves P (consume_others now purpose i tid)"
    "preserves P (insert_refresh now i fam h)" "preserves P (revoke_where now Q)" "preserves P (use_refresh now i h)"
    "preserves P (update_user i f)"
  unfolding user_create_def issueAccountToken_def consume_row_def consume_others_def insert_refresh_def revoke_where_def
    use_refresh_def update_user_def Let_def
  by (intro preserve preserves_other_tables; simp add: assms)+

lemma local_rotate: "game_local P \<Longrightarrow> preserves P (rotateRefreshToken c now raw m)"
  unfolding rotateRefreshToken_def exchange_def by (intro preserve local_statements) simp_all

interpretation account_games: account_property w game_inv "\<lambda>_. True" for w
  by unfold_locales (rule local_statements local_rotate; rule game_local_inv)+

interpretation account_moves: account_property w "\<lambda>d. moves d = ms" "\<lambda>_. True" for w ms
  by unfold_locales (rule local_statements local_rotate; rule game_local_moves)+

lemma web_step:
  shows "game_inv d \<Longrightarrow> game_inv (auth_step w d ev)" and "moves (auth_step w d ev) = moves d"
  using account_games.step_preserves [of ev d w] account_moves.step_preserves [of ev d "moves d" w]
  by (simp_all add: event_ok_def split: auth_event.split)

section \<open>The seats of the cached rooms\<close>

text \<open>A seat with a socket belongs to the user the socket was opened for.\<close>

definition seat_owned :: "(string \<Rightarrow> nat) \<Rightarrow> seat \<Rightarrow> bool" where
  "seat_owned owner p \<longleftrightarrow> (case seat_socket p of None \<Rightarrow> True | Some sid \<Rightarrow> seat_user p = Some (owner sid))"

definition room_owned :: "(string \<Rightarrow> nat) \<Rightarrow> 'c room \<Rightarrow> bool" where
  "room_owned owner room \<longleftrightarrow> list_all (seat_owned owner) (r_players room)"

definition rooms_owned :: "(string \<Rightarrow> nat) \<Rightarrow> ('c, 'v) server \<Rightarrow> bool" where
  "rooms_owned owner sv \<longleftrightarrow> list_all (room_owned owner) (map snd (sv_rooms sv))"

lemma room_owned_fields [simp]:
  "room_owned w (room\<lparr>r_chess := c\<rparr>) = room_owned w room" "room_owned w (room\<lparr>r_board := b\<rparr>) = room_owned w room"
  "room_owned w (room\<lparr>r_turn := b\<rparr>) = room_owned w room" "room_owned w (room\<lparr>r_moves := ms\<rparr>) = room_owned w room"
  by (simp_all add: room_owned_def)

named_theorems owned \<open>operations that keep the seats with their owners\<close>

lemma list_all_update: "list_all Q (map snd al) \<Longrightarrow> Q v \<Longrightarrow> list_all Q (map snd (AList.update k v al))"
  by (induction al) auto

lemma list_all_delete: "list_all Q (map snd al) \<Longrightarrow> list_all Q (map snd (AList.delete k al))"
  by (induction al) auto

lemma rooms_update [owned]: "rooms_owned w sv \<Longrightarrow> room_owned w room \<Longrightarrow> rooms_owned w (sv\<lparr>sv_rooms := AList.update k room (sv_rooms sv)\<rparr>)"
  by (simp add: rooms_owned_def list_all_update)

lemma rooms_set [owned]: "rooms_owned w sv \<Longrightarrow> room_owned w room \<Longrightarrow> rooms_owned w (set_room room sv)"
  by (simp add: set_room_def rooms_update)

lemma rooms_delete [owned]: "rooms_owned w sv \<Longrightarrow> rooms_owned w (delete_room k sv)"
  by (simp add: rooms_owned_def delete_room_def list_all_delete)

lemma rooms_other [simp]: "rooms_owned w (sv\<lparr>sv_db := d\<rparr>) = rooms_owned w sv" "rooms_owned w (sv\<lparr>sv_votes := v\<rparr>) = rooms_owned w sv"
  by (simp_all add: rooms_owned_def)

lemma rooms_small [owned]:
  "rooms_owned w sv \<Longrightarrow> rooms_owned w (evictIfSocketless k sv)"
  "rooms_owned w sv \<Longrightarrow> rooms_owned w (forget_vote V room p sv)"
  "rooms_owned w sv \<Longrightarrow> rooms_owned w (drop_if_done room sv)"
  by (simp_all add: evictIfSocketless_def forget_vote_def drop_if_done_def rooms_delete split: option.split)

lemma rooms_lookup: "rooms_owned w sv \<Longrightarrow> get_room k sv = Some room \<Longrightarrow> room_owned w room"
  by (force simp: rooms_owned_def get_room_def list_all_iff dest: map_of_SomeD)

lemma rooms_cached: "rooms_owned w sv \<Longrightarrow> getCachedRoom r sv = Some room \<Longrightarrow> room_owned w room"
  by (auto simp: getCachedRoom_def split: option.splits dest: rooms_lookup)

lemma rooms_query: "run_q q sv = (r, sv') \<Longrightarrow> rooms_owned w sv' = rooms_owned w sv"
  by (auto simp: run_q_def split: prod.splits)

lemma rooms_tx: "run_tx e q sv = (r, sv') \<Longrightarrow> rooms_owned w sv' = rooms_owned w sv"
  by (auto simp: run_tx_def rooms_query split: if_splits)

text \<open>A room built from its rows has no sockets, and the ones it gets back go to their users.\<close>

lemma snapshot_owned: "room_owned w (room_of_snapshot cl g ms chess)"
  by (simp add: room_owned_def seat_owned_def room_of_snapshot_def snapshot_players_def Let_def)

lemma socket_of_owned: "list_all (seat_owned w) ps \<Longrightarrow> socket_of ps u = Some sid \<Longrightarrow> u = Some (w sid)"
proof -
  assume ps: "list_all (seat_owned w) ps" and s: "socket_of ps u = Some sid"
  obtain p qs where f: "filter (\<lambda>p. seat_user p = u) ps = p # qs"
    using s by (cases "filter (\<lambda>p. seat_user p = u) ps") (simp_all add: socket_of_def)
  have "last (p # qs) \<in> set (filter (\<lambda>p. seat_user p = u) ps)"
    unfolding f by (rule last_in_set) simp
  moreover have "seat_socket (last (p # qs)) = Some sid"
    using s f by (simp add: socket_of_def)
  ultimately show ?thesis
    using ps by (auto simp: list_all_iff seat_owned_def)
qed

lemma reattach_owned: "list_all (seat_owned w) ps \<Longrightarrow> room_owned w (reattach ps room)"
  by (auto simp: room_owned_def reattach_def list_all_iff seat_owned_def split: option.split
      dest: socket_of_owned [unfolded list_all_iff seat_owned_def])

lemma detach_owned [owned]: "room_owned w room \<Longrightarrow> room_owned w (detach ck room)"
proof -
  have "list_all (seat_owned w) ps \<Longrightarrow> list_all (seat_owned w) (update_first Q (\<lambda>p. p\<lparr>seat_socket := None\<rparr>) ps)" for Q ps
    by (induction ps) (auto simp: seat_owned_def)
  then show "room_owned w room \<Longrightarrow> room_owned w (detach ck room)"
    by (simp add: room_owned_def detach_def)
qed

lemma end_owned [owned]: "room_owned w (end_room res c room) = room_owned w room"
  by (simp add: room_owned_def end_room_def)

lemma switch_owned: "list_all (seat_owned w) (switch_colors ps) = list_all (seat_owned w) ps"
  by (induction ps) (simp_all add: switch_colors_def seat_owned_def split: option.split)

section \<open>Every handler keeps the owners\<close>

lemma hydrate_owned: "hydrateRoom cl e k sv = (r, sv') \<Longrightarrow> rooms_owned w sv \<Longrightarrow> rooms_owned w sv' \<and> (\<forall>room. r = Some room \<longrightarrow> room_owned w room)"
  unfolding hydrateRoom_def
  by (auto simp: rooms_query intro: owned dest!: build_Some intro: snapshot_owned split: if_splits prod.splits sum.splits option.splits)

lemma get_owned: "getRoom cl e r sv = (x, sv') \<Longrightarrow> rooms_owned w sv \<Longrightarrow> rooms_owned w sv' \<and> (\<forall>room. x = Some room \<longrightarrow> room_owned w room)"
  by (auto simp: getRoom_def split: option.splits dest: rooms_lookup hydrate_owned)

lemma refresh_owned:
  assumes q: "refreshRoomFromDb cl e room sv = (x, sv')" and own: "rooms_owned w sv" "room_owned w room"
  shows "rooms_owned w sv'" and "x = Some live \<Longrightarrow> room_owned w live"
proof -
  have current: "list_all (seat_owned w) (r_players (case get_room (r_id room) sv of Some c \<Rightarrow> c | None \<Rightarrow> room))"
    using own rooms_lookup [OF own(1)] by (cases "get_room (r_id room) sv") (simp_all add: room_owned_def)
  have live: "room_owned w l" if "x = Some l" for l
    using refresh_Some [OF q [unfolded that]] reattach_owned [OF current] by blast
  then show "x = Some live \<Longrightarrow> room_owned w live"
    by blast
  show "rooms_owned w sv'"
  proof (cases x)
    case None
    then show ?thesis
      using q own(1) unfolding refreshRoomFromDb_def
      by (auto simp: Let_def rooms_query intro!: rooms_delete split: if_splits prod.splits sum.splits option.splits)
  next
    case (Some l)
    then show ?thesis
      using refresh_Some [OF q [unfolded Some]] live [OF Some] own(1) by (auto intro: owned)
  qed
qed

lemma finalize_owned:
  "finalize_room e live res c sv = (r, sv', out) \<Longrightarrow> rooms_owned w sv \<Longrightarrow> room_owned w live \<Longrightarrow> rooms_owned w sv'"
  unfolding finalize_room_def
  by (auto simp: rooms_tx owned intro!: rooms_set split: prod.splits sum.splits if_splits)

lemma update_first_owned:
  "list_all Q ps \<Longrightarrow> (\<And>p. R p \<Longrightarrow> Q (f p)) \<Longrightarrow> list_all Q (update_first R f ps)"
  by (induction ps) auto

lemma seat_taken_owned:
  assumes "take_seat e ck live sv = (r, sv')" "room_owned w live" "w (ck_socket ck) = ck_user ck"
  shows "rooms_owned w sv' = rooms_owned w sv" and "r = Inr live' \<Longrightarrow> room_owned w live'"
proof -
  show "rooms_owned w sv' = rooms_owned w sv"
    using assms(1) unfolding take_seat_def Let_def
    by (auto simp: rooms_tx split: if_splits prod.splits sum.splits option.splits)
  show "r = Inr live' \<Longrightarrow> room_owned w live'"
    using assms unfolding take_seat_def Let_def
    by (auto simp: room_owned_def seat_owned_def intro!: update_first_owned split: if_splits prod.splits sum.splits option.splits)
qed

lemma start_owned:
  assumes "start_rematch cl V e live sv = (r, sv')" "rooms_owned w sv" "room_owned w live"
  shows "rooms_owned w sv'"
proof -
  have "room_owned w (live\<lparr>r_game := g, r_players := switch_colors (r_players live), r_chess := c, r_board := b,
      r_turn := t, r_moves := ms, r_created := n, r_status := st, r_result := res, r_winner := win\<rparr>)" for g c b t ms n st res win
    using assms(3) by (simp add: room_owned_def switch_owned)
  then show ?thesis
    using assms(1,2) unfolding start_rematch_def Let_def
    by (auto simp: rooms_tx intro!: rooms_set split: prod.splits sum.splits option.splits)
qed

lemmas owned_rules = get_owned refresh_owned finalize_owned start_owned

text \<open>The beginning the handlers of a running room share: the cached room, the drain flag, the refresh.\<close>

lemma refreshed_owned:
  assumes own: "rooms_owned w sv"
    and none: "\<And>room sv1. rooms_owned w sv1 \<Longrightarrow> room_owned w room \<Longrightarrow> rooms_owned w (fst (none room sv1))"
    and act: "\<And>room live sv1. rooms_owned w sv1 \<Longrightarrow> room_owned w live \<Longrightarrow> rooms_owned w (fst (act room live sv1))"
  shows "rooms_owned w (fst (case getCachedRoom r sv of
       None \<Rightarrow> (sv, out1)
     | Some room \<Rightarrow>
         if sv_draining sv then (sv, out2)
         else (case refreshRoomFromDb cl e room sv of (None, sv1) \<Rightarrow> none room sv1 | (Some live, sv1) \<Rightarrow> act room live sv1)))"
proof (cases "getCachedRoom r sv")
  case (Some room)
  note room = rooms_cached [OF own Some]
  obtain x sv1 where q: "refreshRoomFromDb cl e room sv = (x, sv1)"
    by (cases "refreshRoomFromDb cl e room sv")
  note kept = refresh_owned [OF q own room]
  show ?thesis
    using own none [OF kept(1) room] act [OF kept(1) kept(2)] by (auto simp: Some q split: option.split)
qed (simp add: own)

text \<open>
  The client of a handler is the user its socket was opened for. Only taking a seat (\<open>create_room\<close>,
  \<open>join_room\<close>) uses it.
\<close>

lemma handlers_owned:
  assumes own: "rooms_owned w sv" and ck: "w (ck_socket ck) = ck_user ck"
  shows "rooms_owned w (fst (create_room cl e ck name draws sv))" and "rooms_owned w (fst (join_room cl e ck r sv))"
    and "rooms_owned w (fst (make_move cl e ck r q sv))" and "rooms_owned w (fst (game_over cl e ck r sv))"
    and "rooms_owned w (fst (resign cl e ck r sv))" and "rooms_owned w (fst (accept_rematch cl V e ck r sv))"
    and "rooms_owned w (fst (leave_room cl V e ck r sv))" and "rooms_owned w (fst (disconnect V ck sv))"
proof -
  show "rooms_owned w (fst (create_room cl e ck name draws sv))"
    using own ck unfolding create_room_def Let_def
    by (auto simp: rooms_tx room_owned_def seat_owned_def intro!: rooms_set split: prod.splits sum.splits option.splits)
  show "rooms_owned w (fst (join_room cl e ck r sv))"
    using own unfolding join_room_def Let_def
    by (auto intro!: owned split: prod.splits sum.splits option.splits
        dest!: get_owned [of _ _ _ _ _ _ w] dest: refresh_owned [of _ _ _ _ _ _ w] seat_taken_owned [of _ _ _ _ _ _ w, OF _ _ ck])
  show "rooms_owned w (fst (game_over cl e ck r sv))"
    unfolding game_over_def Let_def
    by (rule refreshed_owned [OF own]) (auto split: prod.splits sum.splits elim: finalize_owned)
  show "rooms_owned w (fst (resign cl e ck r sv))"
    unfolding resign_def Let_def
    by (rule refreshed_owned [OF own]) (auto split: prod.splits sum.splits option.splits elim: finalize_owned)
  show "rooms_owned w (fst (make_move cl e ck r q sv))"
    unfolding make_move_def Let_def
    by (rule refreshed_owned [OF own])
      (auto simp: rooms_tx intro!: rooms_set split: prod.splits sum.splits option.splits elim!: finalize_owned)
  show "rooms_owned w (fst (accept_rematch cl V e ck r sv))"
    unfolding accept_rematch_def Let_def
    by (rule refreshed_owned [OF own]) (auto split: prod.splits sum.splits option.splits elim!: start_owned)
  show "rooms_owned w (fst (leave_room cl V e ck r sv))"
    unfolding leave_room_def Let_def
    by (rule refreshed_owned [OF own])
      (auto simp: owned intro!: rooms_small rooms_set split: prod.splits sum.splits option.splits elim!: finalize_owned)
  have "room_owned w room" if "find (\<lambda>(k, room). my_seat ck room \<noteq> None) (sv_rooms sv) = Some (k, room)" for k room
    using find_Some_in [OF that] own by (auto simp: rooms_owned_def list_all_iff)
  then show "rooms_owned w (fst (disconnect V ck sv))"
    using own unfolding disconnect_def Let_def by (auto intro!: owned split: prod.splits option.splits)
qed

section \<open>The site\<close>

text \<open>
  Socket ids are chosen by socket.io and not given to another user: \<open>owner\<close> names the user of
  each id, and a handshake under an id carries a token of that user or of nobody.
\<close>

definition handshake_named :: "web \<Rightarrow> (string \<Rightarrow> nat) \<Rightarrow> site_event \<Rightarrow> bool" where
  "handshake_named w owner ev =
     (case ev of
        Handshake sid now (Some t) _ \<Rightarrow> (case verifyAccessToken w now t of None \<Rightarrow> True | Some p \<Rightarrow> p_id p = owner sid)
      | _ \<Rightarrow> True)"

definition site_owned :: "(string \<Rightarrow> nat) \<Rightarrow> ('c, 'v) site \<Rightarrow> bool" where
  "site_owned owner s \<longleftrightarrow>
     rooms_owned owner (st_server s) \<and> list_all (\<lambda>(sid, p). p_id p = owner sid) (st_conns s)"

lemma conn_owner: "site_owned w s \<Longrightarrow> conn_of sid s = Some p \<Longrightarrow> p_id p = w sid"
  by (auto simp: site_owned_def conn_of_def list_all_iff dest!: map_of_SomeD)

lemma handshake_payload:
  "handshake w k now cookie readable d = Inr p \<Longrightarrow> \<exists>t. cookie = Some t \<and> verifyAccessToken w now t = Some p"
  by (auto simp: handshake_def socketAuthentication_def split: gate.splits option.splits if_splits)

lemma conns_update: "list_all Q (st_conns s) \<Longrightarrow> Q (k, v) \<Longrightarrow> list_all Q (AList.update k v (st_conns s))"
  and conns_delete: "list_all Q (st_conns s) \<Longrightarrow> list_all Q (AList.delete k (st_conns s))"
proof -
  have "list_all Q al \<Longrightarrow> Q (k, v) \<Longrightarrow> list_all Q (AList.update k v al)" for al
    by (induction al) auto
  then show "list_all Q (st_conns s) \<Longrightarrow> Q (k, v) \<Longrightarrow> list_all Q (AList.update k v (st_conns s))" .
  have "list_all Q al \<Longrightarrow> list_all Q (AList.delete k al)" for al
    by (induction al) auto
  then show "list_all Q (st_conns s) \<Longrightarrow> list_all Q (AList.delete k (st_conns s))" .
qed

lemma packet_owned:
  assumes "rooms_owned w sv" "w sid = p_id p" "is_packet ev \<or> ev = Disconnect (client_of sid p)"
  shows "rooms_owned w (server_step cl V sv (as_client (client_of sid p) ev))"
  using assms by (cases ev) (simp_all add: server_step_def is_packet_def handlers_owned client_of_def)

lemma site_owned_step:
  assumes ok: "handshake_named w owner ev" and own: "site_owned owner s"
  shows "site_owned owner (site_step w cl V s ev)"
proof (cases ev)
  case (Handshake sid now cookie readable)
  show ?thesis
  proof (cases "handshake w (st_control s) now cookie readable (sv_db (st_server s))")
    case (Inr p)
    then have "p_id p = owner sid"
      using ok handshake_payload [OF Inr] by (auto simp: Handshake handshake_named_def)
    then show ?thesis
      using own by (simp add: Handshake Inr site_owned_def conns_update)
  qed (use own in \<open>simp add: Handshake\<close>)
next
  case (Packet sid fs readable e)
  show ?thesis
  proof (cases "conn_of sid s")
    case (Some p)
    have "owner sid = p_id p"
      using conn_owner [OF own Some] by simp
    then show ?thesis
      using own packet_owned [of owner "st_server s" sid p e cl V] by (auto simp: Packet Some site_owned_def deliver_def)
  qed (use own in \<open>simp add: Packet\<close>)
next
  case (Hang_up sid)
  show ?thesis
  proof (cases "conn_of sid s")
    case (Some p)
    have "owner sid = p_id p"
      using conn_owner [OF own Some] by simp
    then have "rooms_owned owner (server_step cl V (st_server s) (Disconnect (client_of sid p)))"
      using own by (simp add: server_step_def handlers_owned client_of_def site_owned_def)
    then show ?thesis
      using own by (simp add: Hang_up Some site_owned_def deliver_def conns_delete)
  qed (use own in \<open>simp add: Hang_up\<close>)
qed (use own in \<open>simp_all add: site_owned_def rooms_owned_def\<close>)

lemma site_owned_run: "list_all (handshake_named w owner) es \<Longrightarrow> site_owned owner s \<Longrightarrow> site_owned owner (run_steps (site_step w cl V) s es)"
  by (induction es arbitrary: s) (auto intro: site_owned_step)

lemma seats_of_game:
  assumes "refreshRoomFromDb cl e room sv = (Some live, sv1)" "my_seat ck live = Some p" "room_owned w live"
  shows "\<exists>g \<in> set (games (sv_db sv)). g_id g = r_game live \<and>
    (seat_color p = ''w'' \<and> g_white g = Some (w (ck_socket ck)) \<or> seat_color p = ''b'' \<and> g_black g = Some (w (ck_socket ck)))"
proof -
  have p: "p \<in> set (r_players live)" "seat_socket p = Some (ck_socket ck)"
    using find_Some_in [OF assms(2) [unfolded my_seat_def]] by auto
  have user: "seat_user p = Some (w (ck_socket ck))"
    using assms(3) p by (auto simp: room_owned_def list_all_iff seat_owned_def)
  obtain g chess ps where g: "g \<in> set (games (sv_db sv))"
    and live: "live = reattach ps (room_of_snapshot cl g (moves_of (g_id g) (sv_db sv)) chess)"
    using refresh_Some [OF assms(1)] by blast
  have "g_id g = r_game live"
    by (simp add: live reattach_def room_of_snapshot_def Let_def)
  moreover have "seat_color p = ''w'' \<and> seat_user p = g_white g \<or> seat_color p = ''b'' \<and> seat_user p = g_black g"
    using p(1) by (auto simp: live reattach_def room_of_snapshot_def snapshot_players_def Let_def split: if_splits)
  ultimately show ?thesis
    using g user by auto
qed

text \<open>The rooms of a freshly booted server have no sockets.\<close>

lemma rebuild_owned: "rebuild_rooms cl now gs sv = (r, sv') \<Longrightarrow> rooms_owned w sv \<Longrightarrow> rooms_owned w sv'"
proof (induction gs arbitrary: sv)
  case (Cons y gs)
  obtain g ms where y: "y = (g, ms)"
    by (cases y)
  obtain x sv1 where q: "run_q (buildRoomFromSnapshot cl now g ms) sv = (x, sv1)"
    by (cases "run_q (buildRoomFromSnapshot cl now g ms) sv")
  then show ?case
    using Cons rooms_query [OF q, of w] build_Some [of cl now g ms sv]
    by (auto simp: y intro!: rooms_set snapshot_owned split: sum.splits option.splits)
qed simp

lemma boot_owned: "rooms_owned w (snd (rebuildActiveRooms cl now sv))"
proof -
  have "rooms_owned w (sv\<lparr>sv_rooms := []\<rparr>)"
    by (simp add: rooms_owned_def)
  then show ?thesis
    unfolding rebuildActiveRooms_def Let_def by (auto simp: rooms_query split: prod.splits sum.splits elim: rebuild_owned)
qed

text \<open>
  C20. Only the owner of a seat moves for it. Start a site whose rooms and connections belong to
  their users (such as a freshly booted one without connections: \<open>boot_owned\<close>), and let the
  account routes, handshakes, packets, hang-ups and the drain switch happen in any order. Whenever the next
  event adds anything to the moves table, that event is a \<open>make_move\<close> packet on an open
  connection whose token is still a live session, the server is not draining, exactly one move is
  added, and it is recorded for the colour which the game's row gives to the user of that token.
\<close>

theorem moves_by_seat_owner:
  assumes "site_owned owner s0" and "list_all (handshake_named w owner) es"
    and "s = run_steps (site_step w cl V) s0 es"
    and "moves (sv_db (st_server (site_step w cl V s ev))) \<noteq> moves (sv_db (st_server s))"
  shows "\<exists>sid fs e ck roomId req p g m. ev = Packet sid fs True (Make_move e ck roomId req) \<and>
     conn_of sid s = Some p \<and> activeSession p (sv_db (st_server s)) \<and> drainPacketGuard (st_control s) fs = Pass \<and>
     moves (sv_db (st_server (site_step w cl V s ev))) = moves (sv_db (st_server s)) @ [m] \<and>
     g \<in> set (games (sv_db (st_server s))) \<and> g_id g = m_game m \<and>
     (m_color m = ''w'' \<and> g_white g = Some (p_id p) \<or> m_color m = ''b'' \<and> g_black g = Some (p_id p))"
proof -
  have own: "site_owned owner s"
    unfolding assms(3) by (rule site_owned_run [OF assms(2,1)])
  have other: "moves (sv_db (server_step cl V sv x)) = moves (sv_db sv)" if "\<forall>e ck r q. x \<noteq> Make_move e ck r q" for sv x
    by (rule move_table.other_step [OF refl that])
  have as: "as_client c x = Make_move e ck r q \<Longrightarrow> \<exists>ck'. x = Make_move e ck' r q" for c x e ck r q
    by (cases x) auto
  obtain sid fs readable x where ev: "ev = Packet sid fs readable x"
    using assms(4) by (cases ev) (auto simp: web_step deliver_def other split: sum.splits option.splits)
  obtain p where conn: "conn_of sid s = Some p"
    using assms(4) by (cases "conn_of sid s") (simp_all add: ev)
  have passes: "packet_passes (st_control s) p fs readable (sv_db (st_server s))"
    and next_moves: "moves (sv_db (server_step cl V (st_server s) (as_client (client_of sid p) x))) \<noteq> moves (sv_db (st_server s))"
    and step: "site_step w cl V s ev = deliver cl V (as_client (client_of sid p) x) s"
    using assms(4) by (auto simp: ev conn deliver_def split: if_splits)
  obtain e ck r q where x: "x = Make_move e ck r q"
    using other next_moves as by metis
  let ?ck = "client_of sid p"
  have "moves (sv_db (fst (make_move cl e ?ck r q (st_server s)))) \<noteq> moves (sv_db (st_server s))"
    using next_moves by (simp add: x server_step_def)
  from make_move_adds [OF this] obtain room live sv1 seat m where
    f: "getCachedRoom r (st_server s) = Some room" "refreshRoomFromDb cl e room (st_server s) = (Some live, sv1)"
       "my_seat ?ck live = Some seat"
    and m: "moves (sv_db (fst (make_move cl e ?ck r q (st_server s)))) = moves (sv_db (st_server s)) @ [m]"
       "m_game m = r_game live" "m_color m = seat_color seat"
    by blast
  have rooms: "rooms_owned owner (st_server s)"
    using own by (simp add: site_owned_def)
  have live: "room_owned owner live"
    by (rule refresh_owned(2) [OF f(2) rooms rooms_cached [OF rooms f(1)] refl])
  have "owner (ck_socket ?ck) = p_id p"
    using conn_owner [OF own conn] by (simp add: client_of_def)
  with seats_of_game [OF f(2,3) live] obtain g where
    "g \<in> set (games (sv_db (st_server s)))" "g_id g = m_game m"
    "m_color m = ''w'' \<and> g_white g = Some (p_id p) \<or> m_color m = ''b'' \<and> g_black g = Some (p_id p)"
    using m(2,3) by auto
  moreover have "moves (sv_db (st_server (site_step w cl V s ev))) = moves (sv_db (st_server s)) @ [m]"
    using m(1) by (simp add: step deliver_def x server_step_def)
  moreover have "readable" "activeSession p (sv_db (st_server s))" "drainPacketGuard (st_control s) fs = Pass"
    using passes by (simp_all add: packet_passes_def)
  ultimately show ?thesis
    using ev x conn by (intro exI conjI) (rule ev | assumption | simp)+
qed

text \<open>Ann is connected with the white seat and moves.\<close>

definition demo_table :: "(nat, local_votes) site" where
  "demo_table = \<lparr>st_server = demo_playing,
     st_conns = [(''s1'', \<lparr>p_id = 1, p_username = ''ann'', p_email = ''ann@x'', p_session = 0\<rparr>)], st_control = boot\<rparr>"

theorem moves_by_seat_owner_witness:
  "let move = Packet ''s1'' [] True (Make_move demo_env \<lparr>ck_socket = [], ck_user = 0, ck_name = []\<rparr> ''room123'' demo_request);
       d = sv_db (st_server demo_table);
       d' = sv_db (st_server (site_step demo_web counting_lib local_ops demo_table move)) in
   \<exists>m g. moves d' = moves d @ [m] \<and> g \<in> set (games d) \<and> g_id g = m_game m \<and>
     (m_color m = ''w'' \<and> g_white g = Some 1 \<or> m_color m = ''b'' \<and> g_black g = Some 1)"
proof -
  let ?p = "\<lparr>p_id = 1, p_username = ''ann'', p_email = ''ann@x'', p_session = 0\<rparr>"
  let ?move = "Packet ''s1'' [] True (Make_move demo_env \<lparr>ck_socket = [], ck_user = 0, ck_name = []\<rparr> ''room123'' demo_request)"
  let ?owner = "\<lambda>sid. if sid = ''s1'' then 1 else 2 :: nat"
  have conn: "conn_of ''s1'' demo_table = Some ?p"
    by (simp add: demo_table_def conn_of_def)
  have own: "site_owned ?owner demo_table"
    by (simp add: site_owned_def demo_table_def demo_playing_def rooms_owned_def room_owned_def demo_cached_def reattach_def
        room_of_snapshot_def demo_game_def snapshot_players_def truthy_def demo_room_def seat_owned_def socket_of_def Let_def)
  have "activeSession ?p demo_live"
    by code_simp
  then have "packet_passes boot ?p [] True (sv_db demo_playing)"
    by (simp add: packet_passes_def drainPacketGuard_def boot_def demo_playing_facts activeSession_def find_user_def)
  then have "moves (sv_db (st_server (site_step demo_web counting_lib local_ops demo_table ?move))) \<noteq> moves (sv_db (st_server demo_table))"
    using demo_move_adds conn
    by (simp add: deliver_def server_step_def client_of_def is_packet_def) (simp add: demo_table_def)
  from moves_by_seat_owner [where es = "[]", OF own _ _ this] show ?thesis
    unfolding Let_def by (auto simp: conn simp del: site_step.simps)
qed

end
