(* ===== verification/RoomTasks.thy ===== *)
theory RoomTasks
  imports Prelude
begin

text \<open>
  The order of the operations of one room: \<open>roomTask\<close> of socket/gameSocket.js links each
  operation to the tail of the promise chain kept in the room object, and \<open>refreshRoomFromDb\<close>
  replaces the object and carries the tail over. The handlers of \<open>GameSocket\<close> are modelled as
  running one after the other; here is why they do, and when they do not.

  The state is the cache entry of one room key, the room objects with their tails (objects
  stay reachable from the closures of pending operations after the entry has moved on), and
  the operations with what each one waits for.
\<close>

section \<open>Chains\<close>

datatype phase = Linked | Begun | Settled

record operation =
  op_object :: nat
  op_after :: "nat option"
  op_phase :: phase

text \<open>
  \<open>ch_tails ! i\<close> is the \<open>operation\<close> field of room object \<open>i\<close>: None for \<open>Promise.resolve()\<close>, the
  last linked operation otherwise. \<open>ch_live\<close> is the entry of \<open>activeRooms\<close>, \<open>ch_draining\<close> the
  shutdown flag, \<open>ch_rejected\<close> the number of operations refused with ShutdownDrainError.
\<close>

record chains =
  ch_tails :: "nat option list"
  ch_live :: "nat option"
  ch_ops :: "operation list"
  ch_draining :: bool
  ch_rejected :: nat

text \<open>
  \<open>room.operation.then(task, task)\<close>: the new operation waits for the tail of the object it was
  given and becomes its tail. While draining nothing is linked.
\<close>

definition roomTask :: "nat \<Rightarrow> chains \<Rightarrow> chains" where
  "roomTask object s =
     (if ch_draining s then s\<lparr>ch_rejected := Suc (ch_rejected s)\<rparr>
      else s\<lparr>ch_ops := ch_ops s @ [\<lparr>op_object = object, op_after = ch_tails s ! object, op_phase = Linked\<rparr>],
             ch_tails := (ch_tails s)[object := Some (length (ch_ops s))]\<rparr>)"

definition settled_at :: "chains \<Rightarrow> nat option \<Rightarrow> bool" where
  "settled_at s t \<longleftrightarrow> (case t of None \<Rightarrow> True | Some i \<Rightarrow> i < length (ch_ops s) \<and> op_phase (ch_ops s ! i) = Settled)"

definition set_phase :: "nat \<Rightarrow> phase \<Rightarrow> chains \<Rightarrow> chains" where
  "set_phase i ph s = s\<lparr>ch_ops := (ch_ops s)[i := (ch_ops s ! i)\<lparr>op_phase := ph\<rparr>]\<rparr>"

text \<open>
  The object swap of \<open>refreshRoomFromDb\<close>, called by operation \<open>i\<close>: the new object takes the tail of
  the live entry, or of the operation's own object when there is no entry.
\<close>

definition swap_object :: "nat \<Rightarrow> chains \<Rightarrow> chains" where
  "swap_object i s =
     (let current = (case ch_live s of Some c \<Rightarrow> c | None \<Rightarrow> op_object (ch_ops s ! i))
      in s\<lparr>ch_tails := ch_tails s @ [ch_tails s ! current], ch_live := Some (length (ch_tails s))\<rparr>)"

datatype chain_event =
    Request
  | Resume nat
  | Begin nat
  | Refresh nat
  | Finish nat
  | Drop
  | Hydrate
  | Drain

text \<open>
  \<open>Request\<close>: a handler looks the entry up and queues its operation, in one synchronous step.
  \<open>Resume\<close>: a join queues its operation on the object \<open>getRoom\<close> gave it earlier. \<open>Begin\<close>: the
  awaited operation has settled, well or not, and the next one runs. \<open>Drop\<close>: an eviction, the last player leaving
  an ended room, or a room whose game is gone. \<open>Hydrate\<close>: a cache miss builds a new object.
\<close>

fun chain_step :: "chains \<Rightarrow> chain_event \<Rightarrow> chains" where
  "chain_step s Request = (case ch_live s of None \<Rightarrow> s | Some object \<Rightarrow> roomTask object s)"
| "chain_step s (Resume object) = (if object < length (ch_tails s) then roomTask object s else s)"
| "chain_step s (Begin i) =
     (if i < length (ch_ops s) \<and> op_phase (ch_ops s ! i) = Linked \<and> settled_at s (op_after (ch_ops s ! i))
      then set_phase i Begun s else s)"
| "chain_step s (Refresh i) =
     (if i < length (ch_ops s) \<and> op_phase (ch_ops s ! i) = Begun then swap_object i s else s)"
| "chain_step s (Finish i) =
     (if i < length (ch_ops s) \<and> op_phase (ch_ops s ! i) = Begun then set_phase i Settled s else s)"
| "chain_step s Drop = s\<lparr>ch_live := None\<rparr>"
| "chain_step s Hydrate =
     (if ch_live s = None then s\<lparr>ch_tails := ch_tails s @ [None], ch_live := Some (length (ch_tails s))\<rparr> else s)"
| "chain_step s Drain = s\<lparr>ch_draining := True\<rparr>"

definition new_room :: chains where
  "new_room = \<lparr>ch_tails = [None], ch_live = Some 0, ch_ops = [], ch_draining = False, ch_rejected = 0\<rparr>"

section \<open>The queue behind the promises\<close>

text \<open>
  The abstract object is a queue: how many operations are finished, whether the first of the others
  is running, and how many have been queued.
\<close>

record queue =
  qu_finished :: nat
  qu_running :: bool
  qu_queued :: nat

fun queue_step :: "bool \<Rightarrow> queue \<Rightarrow> chain_event \<Rightarrow> queue" where
  "queue_step draining q Request = (if draining then q else q\<lparr>qu_queued := Suc (qu_queued q)\<rparr>)"
| "queue_step draining q (Resume object) = (if draining then q else q\<lparr>qu_queued := Suc (qu_queued q)\<rparr>)"
| "queue_step draining q (Begin i) =
     (if i = qu_finished q \<and> i < qu_queued q \<and> \<not> qu_running q then q\<lparr>qu_running := True\<rparr> else q)"
| "queue_step draining q (Finish i) =
     (if i = qu_finished q \<and> qu_running q then q\<lparr>qu_finished := Suc i, qu_running := False\<rparr> else q)"
| "queue_step draining q ev = q"

definition phase_in :: "queue \<Rightarrow> nat \<Rightarrow> phase" where
  "phase_in q i = (if i < qu_finished q then Settled else if i = qu_finished q \<and> qu_running q then Begun else Linked)"

definition before :: "nat \<Rightarrow> nat option" where
  "before n = (case n of 0 \<Rightarrow> None | Suc m \<Rightarrow> Some m)"

text \<open>The chains represent the queue: one line of operations, and the live object holds its end.\<close>

definition represents :: "chains \<Rightarrow> queue \<Rightarrow> bool" where
  "represents s q \<longleftrightarrow>
     (\<exists>live. ch_live s = Some live \<and> live < length (ch_tails s) \<and> ch_tails s ! live = before (length (ch_ops s))) \<and>
     length (ch_ops s) = qu_queued q \<and>
     (\<forall>i < qu_queued q. op_after (ch_ops s ! i) = before i \<and> op_phase (ch_ops s ! i) = phase_in q i) \<and>
     qu_finished q \<le> qu_queued q \<and> (qu_running q \<longrightarrow> qu_finished q < qu_queued q)"

text \<open>The entry stays in the cache, and a join resumes with the object that is the entry then.\<close>

definition in_order :: "chains \<Rightarrow> chain_event \<Rightarrow> bool" where
  "in_order s ev = (case ev of Drop \<Rightarrow> False | Resume object \<Rightarrow> ch_live s = Some object | _ \<Rightarrow> True)"

fun all_in_order :: "chains \<Rightarrow> chain_event list \<Rightarrow> bool" where
  "all_in_order s [] \<longleftrightarrow> True"
| "all_in_order s (ev # evs) \<longleftrightarrow> in_order s ev \<and> all_in_order (chain_step s ev) evs"

fun queue_run :: "chains \<Rightarrow> queue \<Rightarrow> chain_event list \<Rightarrow> queue" where
  "queue_run s q [] = q"
| "queue_run s q (ev # evs) = queue_run (chain_step s ev) (queue_step (ch_draining s) q ev) evs"

lemma before_simps [simp]: "before 0 = None" "before (Suc n) = Some n"
  by (simp_all add: before_def)

lemma settled_before:
  assumes "represents s q" "i < qu_queued q"
  shows "settled_at s (before i) \<longleftrightarrow> i \<le> qu_finished q"
  using assms by (cases i) (auto simp: settled_at_def represents_def phase_in_def)

lemma represents_task:
  assumes r: "represents s q" and live: "ch_live s = Some object"
  shows "represents (roomTask object s) (queue_step (ch_draining s) q Request)"
  using r live
  by (auto simp: represents_def roomTask_def nth_append phase_in_def less_Suc_eq)

lemma represents_step:
  assumes r: "represents s q" and ok: "in_order s ev"
  shows "represents (chain_step s ev) (queue_step (ch_draining s) q ev)"
proof (cases ev)
  case Request
  then show ?thesis
    using r represents_task [OF r] by (auto simp: represents_def)
next
  case (Resume object)
  then have "ch_live s = Some object"
    using ok by (simp add: in_order_def)
  then show ?thesis
    using r represents_task [OF r] by (auto simp: Resume represents_def)
next
  case (Begin i)
  show ?thesis
  proof (cases "i < qu_queued q")
    case True
    then show ?thesis
      using r settled_before [OF r True]
      by (auto simp: Begin represents_def set_phase_def nth_list_update phase_in_def split: if_splits)
  qed (use r in \<open>auto simp: Begin represents_def\<close>)
next
  case (Refresh i)
  then show ?thesis
    using r by (auto simp: represents_def swap_object_def nth_append Let_def)
next
  case (Finish i)
  then show ?thesis
    using r by (auto simp: represents_def set_phase_def nth_list_update phase_in_def split: if_splits)
next
  case Hydrate
  then show ?thesis
    using r by (auto simp: represents_def)
qed (use r ok in \<open>auto simp: in_order_def represents_def\<close>)

lemma represents_run: "represents s q \<Longrightarrow> all_in_order s evs \<Longrightarrow> represents (run_steps chain_step s evs) (queue_run s q evs)"
  by (induction evs arbitrary: s q) (auto intro: represents_step)

section \<open>What the handlers rely on\<close>

text \<open>
  C21. The operations of a room run one after the other. As long as the room stays in the cache, and
  every handler queues its operation on the entry it has just looked up, then whatever the
  interleaving of requests, refreshes that replace the room object, failing and succeeding operations and the drain switch:
  an operation has begun only when all queued before it have settled - so never two at a time -
  and the first one that has not begun can always begin, also after a failure. The chains of
  promises refine a queue.
\<close>

theorem room_tasks_serial:
  assumes "all_in_order new_room evs"
  defines "s \<equiv> run_steps chain_step new_room evs"
  shows "represents s (queue_run new_room \<lparr>qu_finished = 0, qu_running = False, qu_queued = 0\<rparr> evs) \<and>
     (\<forall>j < length (ch_ops s). op_phase (ch_ops s ! j) \<noteq> Linked \<longrightarrow> (\<forall>i < j. op_phase (ch_ops s ! i) = Settled)) \<and>
     (\<forall>i < length (ch_ops s). op_phase (ch_ops s ! i) = Linked \<and> (\<forall>j < i. op_phase (ch_ops s ! j) = Settled) \<longrightarrow>
        op_phase (ch_ops (chain_step s (Begin i)) ! i) = Begun)"
proof -
  let ?q0 = "\<lparr>qu_finished = 0, qu_running = False, qu_queued = 0\<rparr>"
  define q where "q = queue_run new_room ?q0 evs"
  have "represents new_room ?q0"
    by (simp add: represents_def new_room_def)
  then have r: "represents s q"
    unfolding s_def q_def using assms(1) by (rule represents_run)
  then have len: "length (ch_ops s) = qu_queued q" and ph: "\<forall>i < qu_queued q. op_phase (ch_ops s ! i) = phase_in q i"
    and after: "\<forall>i < qu_queued q. op_after (ch_ops s ! i) = before i"
    by (auto simp: represents_def)
  have order: "\<forall>j < length (ch_ops s). op_phase (ch_ops s ! j) \<noteq> Linked \<longrightarrow> (\<forall>i < j. op_phase (ch_ops s ! i) = Settled)"
    using ph by (auto simp: len phase_in_def split: if_splits)
  have start: "op_phase (ch_ops (chain_step s (Begin i)) ! i) = Begun"
    if i: "i < length (ch_ops s)" "op_phase (ch_ops s ! i) = Linked" and earlier: "\<forall>j < i. op_phase (ch_ops s ! j) = Settled" for i
  proof -
    have "settled_at s (before i)"
      using i earlier by (cases i) (auto simp: settled_at_def)
    then show ?thesis
      using i after by (simp add: set_phase_def len)
  qed
  show ?thesis
    using r order start unfolding q_def by blast
qed

theorem room_tasks_serial_witness:
  "let s = run_steps chain_step new_room [Request, Begin 0, Request, Refresh 0, Request, Finish 0, Begin 1] in
     map op_phase (ch_ops s) = [Settled, Begun, Linked] \<and> ch_live s = Some 1 \<and>
     (\<forall>j < length (ch_ops s). op_phase (ch_ops s ! j) \<noteq> Linked \<longrightarrow> (\<forall>i < j. op_phase (ch_ops s ! i) = Settled))"
proof -
  let ?evs = "[Request, Begin 0, Request, Refresh 0, Request, Finish 0, Begin 1]"
  have "all_in_order new_room ?evs"
    by (simp add: in_order_def)
  note serial = room_tasks_serial [OF this]
  have "map op_phase (ch_ops (run_steps chain_step new_room ?evs)) = [Settled, Begun, Linked] \<and>
      ch_live (run_steps chain_step new_room ?evs) = Some 1"
    by code_simp
  then show ?thesis
    using serial unfolding Let_def by blast
qed

text \<open>
  The order is lost when the entry is dropped while an operation runs on it. \<open>evictIfSocketless\<close> does
  so after a refused join: the next join builds a second object with a chain of its own,
  and its operation runs beside the one that has begun. Writes to the database still meet at
  the row locks; the seats of the cached room do not.
\<close>

theorem dropped_room_forks:
  assumes "i < length (ch_ops s)" "op_phase (ch_ops s ! i) = Begun" "\<not> ch_draining s"
  defines "n \<equiv> length (ch_ops s)"
  shows "let s' = run_steps chain_step s [Drop, Hydrate, Request, Begin n] in
     i \<noteq> n \<and> op_phase (ch_ops s' ! i) = Begun \<and> op_phase (ch_ops s' ! n) = Begun"
  using assms by (simp add: roomTask_def settled_at_def set_phase_def nth_append nth_list_update)

theorem dropped_room_forks_witness:
  "let s = run_steps chain_step new_room [Request, Request, Begin 0, Finish 0, Begin 1];
       s' = run_steps chain_step s [Drop, Hydrate, Request, Begin 2] in
     op_phase (ch_ops s' ! 1) = Begun \<and> op_phase (ch_ops s' ! 2) = Begun"
proof -
  define s where "s = run_steps chain_step new_room [Request, Request, Begin 0, Finish 0, Begin 1]"
  have "length (ch_ops s) = 2" "op_phase (ch_ops s ! 1) = Begun" "\<not> ch_draining s"
    unfolding s_def by code_simp+
  then show ?thesis
    using dropped_room_forks [of 1 s] unfolding s_def [symmetric] Let_def by (simp del: run_steps.simps)
qed

text \<open>A draining server links nothing: the snapshot \<open>drainRoomOperations\<close> takes of the tails is complete.\<close>

lemma draining_links_nothing:
  "ch_draining s \<Longrightarrow> ch_ops (chain_step s Request) = ch_ops s \<and> ch_ops (chain_step s (Resume object)) = ch_ops s"
  by (auto simp: roomTask_def split: option.split)

end
