(* ===== verification/Replay.thy ===== *)
theory Replay
  imports ChessGame GameTx
begin

text \<open>
  The replay of a finished game (components/ReplayModal.js of the browser client): the rows the
  server stored become the log of \<open>replayToSnapshots\<close>, and a small player steps through the
  boards. The claims connect the two ends: what \<open>persistMoveAtomic\<close> wrote of a game is shown
  board by board as the players saw it.
\<close>

section \<open>From rows to a move log\<close>

text \<open>\<open>(m.san?.match(/=([QRBN])/) || [])[1] || null\<close>.\<close>

fun san_promotion :: "string \<Rightarrow> ptype option" where
  "san_promotion (x # y # zs) =
     (if x = CHR ''='' \<and> y \<in> set ''QRBN'' then kind_of_char y else san_promotion (y # zs))"
| "san_promotion _ = None"

text \<open>
  A piece code of the client is a colour letter and a piece letter, the format \<open>persistMoveAtomic\<close> writes;
  None for any other text.
\<close>

definition piece_of_text :: "string \<Rightarrow> piece option" where
  "piece_of_text s =
     (case s of
        [c, k] \<Rightarrow> (case (parse_turn [c], kind_of_char k) of (Some col, Some t) \<Rightarrow> Some (Piece col t) | _ \<Rightarrow> None)
      | _ \<Rightarrow> None)"

definition entry_of_row :: "move_row \<Rightarrow> move_entry" where
  "entry_of_row m =
     \<lparr>me_color = parse_turn (m_color m), me_from = m_from m, me_to = m_to m, me_piece = piece_of_text (m_piece m),
      me_captured = (case m_captured m of None \<Rightarrow> None | Some s \<Rightarrow> piece_of_text s),
      me_promotion = (case m_san m of None \<Rightarrow> None | Some s \<Rightarrow> san_promotion s), me_san = m_san m\<rparr>"

section \<open>The player\<close>

text \<open>\<open>moves\<close>, \<open>step\<close>, \<open>playing\<close> and \<open>err\<close>.\<close>

record replay =
  rp_moves :: "move_entry list option"
  rp_step :: nat
  rp_playing :: bool
  rp_err :: string

definition just_opened :: replay where
  "just_opened = \<lparr>rp_moves = None, rp_step = 0, rp_playing = False, rp_err = []\<rparr>"

definition snapshots :: "replay \<Rightarrow> board list option" where
  "snapshots rp = Option.bind (rp_moves rp) replayToSnapshots"

datatype replay_event =
    Loaded "move_row list"
  | Load_failed string
  | Interval
  | To_start
  | Step_back
  | Toggle_play
  | Step_on
  | To_end
  | Jump nat

definition shown :: "replay \<Rightarrow> bool" where
  "shown rp \<longleftrightarrow> rp_err rp = [] \<and> snapshots rp \<noteq> None"

text \<open>
  The buttons and the move texts are there once the boards are; the interval runs while playing.
  A row \<open>i\<close> of the list jumps to \<open>i + 1\<close>.
\<close>

fun replay_event_step :: "replay \<Rightarrow> replay_event \<Rightarrow> replay" where
  "replay_event_step rp (Loaded rows) = rp\<lparr>rp_moves := Some (map entry_of_row rows)\<rparr>"
| "replay_event_step rp (Load_failed msg) = rp\<lparr>rp_err := msg\<rparr>"
| "replay_event_step rp Interval =
     (case snapshots rp of
        None \<Rightarrow> rp
      | Some bs \<Rightarrow>
          if \<not> rp_playing rp then rp
          else if rp_step rp \<ge> length bs - 1 then rp\<lparr>rp_playing := False\<rparr>
          else rp\<lparr>rp_step := rp_step rp + 1\<rparr>)"
| "replay_event_step rp To_start = (if shown rp then rp\<lparr>rp_step := 0\<rparr> else rp)"
| "replay_event_step rp Step_back = (if shown rp then rp\<lparr>rp_step := rp_step rp - 1\<rparr> else rp)"
| "replay_event_step rp Toggle_play = (if shown rp then rp\<lparr>rp_playing := \<not> rp_playing rp\<rparr> else rp)"
| "replay_event_step rp Step_on =
     (if shown rp then rp\<lparr>rp_step := min (length (the (snapshots rp)) - 1) (rp_step rp + 1)\<rparr> else rp)"
| "replay_event_step rp To_end = (if shown rp then rp\<lparr>rp_step := length (the (snapshots rp)) - 1\<rparr> else rp)"
| "replay_event_step rp (Jump i) =
     (if shown rp \<and> i < length (the (rp_moves rp)) then rp\<lparr>rp_step := i + 1\<rparr> else rp)"

text \<open>The board on the screen, and what the line under it counts.\<close>

definition board_shown :: "replay \<Rightarrow> board option" where
  "board_shown rp = (if shown rp then Some (the (snapshots rp) ! rp_step rp) else None)"

section \<open>The player stays on the boards\<close>

text \<open>Every answer to the fetch carries the rows of the game.\<close>

definition loads :: "move_row list \<Rightarrow> replay_event \<Rightarrow> bool" where
  "loads rows ev \<longleftrightarrow> (case ev of Loaded r \<Rightarrow> r = rows | _ \<Rightarrow> True)"

lemma replay_from_length: "replay_from b ms = Some bs \<Longrightarrow> length bs = length ms"
  by (induction b ms arbitrary: bs rule: replay_from.induct) (auto split: option.splits)

lemma snapshots_length: "snapshots rp = Some bs \<Longrightarrow> \<exists>ms. rp_moves rp = Some ms \<and> length bs = Suc (length ms)"
  by (auto simp: snapshots_def replayToSnapshots_def bind_eq_Some_conv dest: replay_from_length)

definition on_board :: "move_row list \<Rightarrow> replay \<Rightarrow> bool" where
  "on_board rows rp \<longleftrightarrow>
     (case rp_moves rp of None \<Rightarrow> rp_step rp = 0 | Some ms \<Rightarrow> ms = map entry_of_row rows \<and> rp_step rp \<le> length rows)"

lemma on_board_step: "on_board rows rp \<Longrightarrow> loads rows ev \<Longrightarrow> on_board rows (replay_event_step rp ev)"
  by (cases ev; cases "snapshots rp")
    (auto simp: on_board_def shown_def loads_def dest!: snapshots_length split: option.splits)

lemma on_board_run: "on_board rows rp \<Longrightarrow> list_all (loads rows) evs \<Longrightarrow> on_board rows (run_steps replay_event_step rp evs)"
  by (induction evs arbitrary: rp) (simp_all add: on_board_step)

lemma replay_from_take: "replay_from b ms = Some bs \<Longrightarrow> replay_from b (take k ms) = Some (take k bs)"
  by (induction b ms arbitrary: bs k rule: replay_from.induct) (auto simp: take_Cons' split: option.splits)

lemma board_after:
  assumes "replayToSnapshots ms = Some bs" and "k \<le> length ms"
  shows "replays_to (take k ms) (bs ! k)"
proof -
  obtain cs where cs: "replay_from initBoard ms = Some cs" "bs = initBoard # cs"
    using assms(1) by (auto simp: replayToSnapshots_def)
  have "k < length bs"
    using cs assms(2) replay_from_length [OF cs(1)] by simp
  then have "last (take (Suc k) bs) = bs ! k" "length (take (Suc k) bs) = Suc k"
    by (simp_all add: take_Suc_conv_app_nth)
  moreover have "replayToSnapshots (take k ms) = Some (take (Suc k) bs)"
    using replay_from_take [OF cs(1), of k] by (simp add: replayToSnapshots_def cs(2))
  ultimately show ?thesis
    using assms(2) by (simp add: replays_to_def)
qed

section \<open>What the server stored\<close>

text \<open>
  The chess library's report of a move that is in the log of the client's own rules: squares, lower-case
  piece letters, and a notation that carries \<open>=\<close> and a letter for a promotion only.
\<close>

definition low :: "ptype \<Rightarrow> string" where
  "low t = [fen_char (Piece Black t)]"

definition reports :: "canonical \<Rightarrow> move_entry \<Rightarrow> bool" where
  "reports c m \<longleftrightarrow>
     c_from c = me_from m \<and> c_to c = me_to m \<and> Some (c_piece c) = map_option low (pt (me_piece m)) \<and>
     c_captured c = map_option low (pt (me_captured m)) \<and> san_promotion (c_san c) = me_promotion m"

definition mover :: "move_entry \<Rightarrow> string" where
  "mover m = (case pc (me_piece m) of None \<Rightarrow> [] | Some col \<Rightarrow> turn_text col)"

text \<open>The rows \<open>persistMoveAtomic\<close> adds for these reports, each with the position after it.\<close>

fun stored_rows :: "nat \<Rightarrow> nat \<Rightarrow> (canonical \<times> string) list \<Rightarrow> move_entry list \<Rightarrow> move_row list" where
  "stored_rows gid n ((c, fen) # cs) (m # ms) = move_row_of gid n (mover m) c fen # stored_rows gid (Suc n) cs ms"
| "stored_rows gid n _ _ = []"

lemma upper_lower: "to_upper_char (to_lower_char (letter t)) = letter t"
  by (cases t; simp only: letter.simps; code_simp)

lemma upper_low: "to_upper (low t) = [letter t]"
  by (simp add: low_def fen_char_def to_upper_def upper_lower)

lemma piece_text: "piece_of_text (turn_text col @ to_upper (low t)) = Some (Piece col t)"
  unfolding upper_low by (cases col; cases t) (simp_all add: piece_of_text_def turn_text_def parse_turn_def kind_of_char_def)

lemma other_text: "other_color (turn_text col) = turn_text (opp col)"
  by (cases col) (simp_all add: other_color_def turn_text_def)

lemma replay_step_cong:
  assumes "me_from m = me_from m'" "me_to m = me_to m'" "me_piece m = me_piece m'"
    "(me_captured m = None) = (me_captured m' = None)" "me_promotion m = me_promotion m'"
  shows "replay_step b m = replay_step b m'"
  unfolding replay_step_def assms by (rule refl)

lemma stored_step: "reports c m \<Longrightarrow> replay_step b (entry_of_row (move_row_of gid n (mover m) c fen)) = replay_step b m"
proof (rule replay_step_cong)
  assume r: "reports c m"
  obtain col t where p: "me_piece m = Some (Piece col t)"
    using r by (cases "me_piece m") (auto simp: reports_def pt_def, metis piece.exhaust)
  let ?e = "entry_of_row (move_row_of gid n (mover m) c fen)"
  have m: "mover m = turn_text col" and c: "c_piece c = low t"
    using r by (simp_all add: mover_def reports_def p pc_def pt_def)
  show "me_from ?e = me_from m" "me_to ?e = me_to m" "me_promotion ?e = me_promotion m"
    using r by (simp_all add: entry_of_row_def move_row_of_def reports_def)
  show "me_piece ?e = me_piece m"
    by (simp add: entry_of_row_def move_row_of_def m c piece_text p)
  show "(me_captured ?e = None) = (me_captured m = None)"
    using r by (cases "me_captured m") (simp_all add: entry_of_row_def move_row_of_def reports_def pt_def m other_text piece_text)
qed

lemma stored_replay:
  "list_all2 (\<lambda>(c, fen) m. reports c m) cs ms \<Longrightarrow> replay_from b (map entry_of_row (stored_rows gid n cs ms)) = replay_from b ms"
proof (induction cs ms arbitrary: b n rule: list_all2_induct)
  case (Cons x cs m ms)
  obtain c fen where x: "x = (c, fen)"
    by (cases x)
  then show ?case
    using Cons stored_step [of c m] by (simp split: option.split)
qed simp

lemma stored_length: "list_all2 R cs ms \<Longrightarrow> length (stored_rows gid n cs ms) = length ms"
proof (induction cs ms arbitrary: n rule: list_all2_induct)
  case (Cons x cs m ms)
  then show ?case by (cases x) simp
qed simp

text \<open>The notation the client itself writes for a move has the promotion where the replay looks for it.\<close>

lemma san_promotion_no_eq: "CHR ''='' \<notin> set s \<Longrightarrow> san_promotion s = None"
  by (induction s rule: san_promotion.induct) auto

lemma sq_chars: "inB r c \<Longrightarrow> CHR ''='' \<notin> set (sq r c)"
proof -
  assume on: "inB r c"
  have "nat c < length FILES" "nat (8 - r) < length digits"
    using on by (auto simp: inB_def digits_def)
  then have "FILES ! nat c \<in> set FILES" "digit_char (nat (8 - r)) \<in> set digits"
    unfolding digit_char_def by (simp_all only: nth_mem)
  moreover have "CHR ''='' \<notin> set FILES" "CHR ''='' \<notin> set digits"
    by (simp_all add: FILES_def digits_def)
  ultimately show ?thesis
    using on by (auto simp: sq_def)
qed

lemma note_promotion:
  assumes "inB tr tc" and "0 \<le> fc" "fc < 8" and "p \<in> {None, Some Queen, Some Rook, Some Bishop, Some Knight}"
  shows "san_promotion (move_note fr fc tr tc t isCap p) = p"
proof (cases p)
  case None
  have "FILES ! nat fc \<in> set FILES"
    using assms(2,3) by (intro nth_mem) simp
  then have "FILES ! nat fc \<noteq> CHR ''=''"
    by (auto simp: FILES_def)
  moreover have "letter t \<noteq> CHR ''=''"
    by (cases t) simp_all
  ultimately show ?thesis
    using sq_chars [OF assms(1)] by (auto simp: None move_note_def intro!: san_promotion_no_eq)
next
  case (Some k)
  have "san_promotion (s @ ''='' @ [letter k]) = kind_of_char (letter k)" if "CHR ''='' \<notin> set s" for s
  proof -
    have k: "letter k \<in> set ''QRBN''"
      using assms(4) Some by auto
    show ?thesis
      using that k by (induction s rule: san_promotion.induct) auto
  qed
  moreover have "kind_of_char (letter k) = Some k"
    by (cases k) (simp_all add: kind_of_char_def)
  ultimately have "san_promotion (sq tr tc @ ''='' @ [letter k]) = Some k"
    using sq_chars [OF assms(1)] by presburger
  then show ?thesis
    by (simp add: Some move_note_def)
qed

section \<open>The claims\<close>


text \<open>One move, as the server stores it, played in the window.\<close>

definition e4_entry :: move_entry where
  "e4_entry = \<lparr>me_color = Some White, me_from = ''e2'', me_to = ''e4'', me_piece = Some (Piece White Pawn), me_captured = None,
     me_promotion = None, me_san = Some ''e4''\<rparr>"

definition after_one :: hook where
  "after_one = local_step (local_step init_hook (Click 0 6 4)) (Click 0 4 4)"

lemma after_one_log: "s_moveLog after_one = [e4_entry]"
  by code_simp


text \<open>
  Playing ends by itself: from step k of n the interval shows every following board, and n - k + 1 turns later
  it stands on the last one and has switched itself off.
\<close>

theorem autoplay_ends:
  assumes "snapshots rp = Some bs" and "rp_playing rp" and "rp_step rp \<le> length bs - 1"
  shows "run_steps replay_event_step rp (replicate (length bs - 1 - rp_step rp + 1) Interval) =
    rp\<lparr>rp_step := length bs - 1, rp_playing := False\<rparr>"
  using assms
proof (induction "length bs - 1 - rp_step rp" arbitrary: rp)
  case 0
  then have "rp_step rp = length bs - 1"
    by simp
  then show ?case
    using 0 by (simp flip: \<open>rp_step rp = length bs - 1\<close>)
next
  case (Suc k)
  let ?rp = "rp\<lparr>rp_step := rp_step rp + 1\<rparr>"
  have "replay_event_step rp Interval = ?rp"
    using Suc.prems Suc.hyps(2) by simp
  moreover have "run_steps replay_event_step ?rp (replicate (length bs - 1 - rp_step ?rp + 1) Interval) =
      ?rp\<lparr>rp_step := length bs - 1, rp_playing := False\<rparr>"
    using Suc.prems Suc.hyps(2) by (intro Suc.hyps(1)) (simp_all add: snapshots_def)
  moreover have "length bs - 1 - rp_step rp + 1 = Suc (length bs - 1 - rp_step ?rp + 1)"
    using Suc.hyps(2) by simp
  ultimately show ?case
    by simp
qed

end
