(* ===== verification/Screens.thy ===== *)
theory Screens
  imports PublicRoutes ClientSession
begin

text \<open>
  The windows of the browser over the server's lists: TournamentsModal.js and FriendsModal.js, with the
  names of constants/achievements.js. A window is a state; what the user does and what the server answers are
  its events, in any order, and a step gives the next state and the calls of api/client.js it makes.
  The texts of an answer are those of the server or of the network.
\<close>

section \<open>Windows\<close>

text \<open>A run of a window: the last state and every call, in order.\<close>

fun window_run :: "('s \<Rightarrow> 'e \<Rightarrow> 's \<times> 'c list) \<Rightarrow> 's \<Rightarrow> 'e list \<Rightarrow> 's \<times> 'c list" where
  "window_run wstep s [] = (s, [])"
| "window_run wstep s (e # es) =
     (let (s1, cs) = wstep s e; (s2, ds) = window_run wstep s1 es in (s2, cs @ ds))"

lemma window_run_Cons:
  "fst (window_run wstep s (e # es)) = fst (window_run wstep (fst (wstep s e)) es)"
  "snd (window_run wstep s (e # es)) = snd (wstep s e) @ snd (window_run wstep (fst (wstep s e)) es)"
  by (simp_all add: case_prod_beta Let_def)

text \<open>A window promises an invariant and a property of every call it makes.\<close>

locale window =
  fixes wstep :: "'s \<Rightarrow> 'e \<Rightarrow> 's \<times> 'c list"
    and inv :: "'s \<Rightarrow> bool"
    and fine :: "'c \<Rightarrow> bool"
  assumes step_inv: "inv s \<Longrightarrow> inv (fst (wstep s e))"
    and step_fine: "inv s \<Longrightarrow> list_all fine (snd (wstep s e))"
begin

lemma run_window: "inv s \<Longrightarrow> inv (fst (window_run wstep s es)) \<and> list_all fine (snd (window_run wstep s es))"
proof (induction es arbitrary: s)
  case (Cons e es)
  then show ?case
    unfolding window_run_Cons by (simp add: step_inv step_fine)
qed simp

lemma call_fine: "inv s \<Longrightarrow> c \<in> set (snd (window_run wstep s es)) \<Longrightarrow> fine c"
  using run_window [of s es] by (auto simp: list_all_iff)

end

section \<open>Tournaments\<close>

datatype window_view = List_view | Create_view | Detail_view

record tdetail =
  td_id :: nat
  td_name :: string
  td_players :: nat
  td_max :: nat

datatype tcall =
    List_tournaments
  | Get_tournament nat
  | Create_tournament string nat
  | Join_tournament nat
  | Start_tournament nat
  | Report_result nat nat

record twindow =
  tw_token :: bool
  tw_view :: window_view
  tw_list :: "tdetail list"
  tw_detail :: "tdetail option"
  tw_loading :: bool
  tw_err :: string
  tw_name :: string
  tw_size :: nat
  tw_search :: string

definition SIZES :: "nat list" where
  "SIZES = [4, 8, 16]"

text \<open>\<open>useState\<close>, and the effect of the first draw, which loads the list.\<close>

definition tournaments_opened :: "bool \<Rightarrow> twindow" where
  "tournaments_opened token = \<lparr>tw_token = token, tw_view = List_view, tw_list = [], tw_detail = None, tw_loading = True,
     tw_err = [], tw_name = [], tw_size = 8, tw_search = []\<rparr>"

definition loadDetail :: "nat \<Rightarrow> twindow \<Rightarrow> twindow \<times> tcall list" where
  "loadDetail i tw = (tw\<lparr>tw_loading := True\<rparr>, [Get_tournament i])"

definition openDetail :: "nat \<Rightarrow> twindow \<Rightarrow> twindow \<times> tcall list" where
  "openDetail i tw = loadDetail i (tw\<lparr>tw_view := Detail_view\<rparr>)"

text \<open>Showing the list again runs the effect on \<open>view\<close>.\<close>

definition show_list :: "twindow \<Rightarrow> twindow \<times> tcall list" where
  "show_list tw =
     (if tw_view tw = List_view then (tw, []) else (tw\<lparr>tw_view := List_view, tw_loading := True\<rparr>, [List_tournaments]))"

definition create_tournament :: "twindow \<Rightarrow> twindow \<times> tcall list" where
  "create_tournament tw =
     (if length (trim (tw_name tw)) < 3 then (tw\<lparr>tw_err := ''Name must be at least 3 characters''\<rparr>, [])
      else (tw\<lparr>tw_err := []\<rparr>, [Create_tournament (trim (tw_name tw)) (tw_size tw)]))"

text \<open>The tournaments of the list whose name holds the search text.\<close>

fun contains_text :: "string \<Rightarrow> string \<Rightarrow> bool" where
  "contains_text s [] = (s = [])"
| "contains_text s (x # xs) = (take (length s) (x # xs) = s \<or> contains_text s xs)"

definition filtered :: "twindow \<Rightarrow> tdetail list" where
  "filtered tw = filter (\<lambda>t. contains_text (to_lower (tw_search tw)) (to_lower (td_name t))) (tw_list tw)"

datatype tevent =
    Type_name string
  | Type_search string
  | Pick_size nat
  | New_tournament
  | Open_row nat
  | Back
  | Create_clicked
  | Join_clicked
  | Start_clicked
  | List_answer "string + tdetail list"
  | Detail_answer "string + tdetail"
  | Create_answer "string + nat"
  | Join_answer nat "string + unit"
  | Start_answer nat "string + unit"

text \<open>
  The buttons exist in their view only, and Join and Start act on the detail that is shown. The
  field for the name takes at most 80 characters, a size is one of the chips.
\<close>

fun twindow_step :: "twindow \<Rightarrow> tevent \<Rightarrow> twindow \<times> tcall list" where
  "twindow_step tw (Type_name s) = (if tw_view tw = Create_view then tw\<lparr>tw_name := take 80 s\<rparr> else tw, [])"
| "twindow_step tw (Type_search s) = (if tw_view tw = List_view then tw\<lparr>tw_search := s\<rparr> else tw, [])"
| "twindow_step tw (Pick_size n) = (if tw_view tw = Create_view \<and> List.member SIZES n then tw\<lparr>tw_size := n\<rparr> else tw, [])"
| "twindow_step tw New_tournament = (if tw_view tw = List_view \<and> tw_token tw then tw\<lparr>tw_view := Create_view\<rparr> else tw, [])"
| "twindow_step tw (Open_row i) = (if tw_view tw = List_view then openDetail i tw else (tw, []))"
| "twindow_step tw Back = show_list tw"
| "twindow_step tw Create_clicked = (if tw_view tw = Create_view then create_tournament tw else (tw, []))"
| "twindow_step tw Join_clicked =
     (case tw_detail tw of
        Some d \<Rightarrow> if tw_view tw = Detail_view \<and> \<not> tw_loading tw then (tw\<lparr>tw_err := []\<rparr>, [Join_tournament (td_id d)]) else (tw, [])
      | None \<Rightarrow> (tw, []))"
| "twindow_step tw Start_clicked =
     (case tw_detail tw of
        Some d \<Rightarrow> if tw_view tw = Detail_view \<and> \<not> tw_loading tw then (tw\<lparr>tw_err := []\<rparr>, [Start_tournament (td_id d)]) else (tw, [])
      | None \<Rightarrow> (tw, []))"
| "twindow_step tw (List_answer r) =
     (case r of Inl e \<Rightarrow> tw\<lparr>tw_loading := False\<rparr> | Inr ts \<Rightarrow> tw\<lparr>tw_list := ts, tw_loading := False\<rparr>, [])"
| "twindow_step tw (Detail_answer r) =
     (case r of Inl e \<Rightarrow> tw\<lparr>tw_loading := False\<rparr> | Inr d \<Rightarrow> tw\<lparr>tw_detail := Some d, tw_loading := False\<rparr>, [])"
| "twindow_step tw (Create_answer r) =
     (case r of Inl e \<Rightarrow> (tw\<lparr>tw_err := e\<rparr>, []) | Inr i \<Rightarrow> openDetail i (tw\<lparr>tw_name := []\<rparr>))"
| "twindow_step tw (Join_answer i r) = (case r of Inl e \<Rightarrow> (tw\<lparr>tw_err := e\<rparr>, []) | Inr _ \<Rightarrow> loadDetail i tw)"
| "twindow_step tw (Start_answer i r) = (case r of Inl e \<Rightarrow> (tw\<lparr>tw_err := e\<rparr>, []) | Inr _ \<Rightarrow> loadDetail i tw)"

definition form_inv :: "twindow \<Rightarrow> bool" where
  "form_inv tw \<longleftrightarrow> length (tw_name tw) \<le> 80 \<and> tw_size tw \<in> {4, 8, 16}"

definition form_call :: "tcall \<Rightarrow> bool" where
  "form_call c \<longleftrightarrow> (case c of Create_tournament name n \<Rightarrow> isLength 3 80 name \<and> trim name = name \<and> n \<in> {4, 8, 16} | _ \<Rightarrow> True)"

interpretation tournaments: window twindow_step form_inv form_call
proof
  fix tw ev
  assume inv: "form_inv tw"
  show "form_inv (fst (twindow_step tw ev))"
    using inv by (cases ev) (auto simp: form_inv_def openDetail_def loadDetail_def show_list_def create_tournament_def
        SIZES_def split: option.split sum.split)
  show "list_all form_call (snd (twindow_step tw ev))"
    using inv length_trim_le [of "tw_name tw"]
    by (cases ev) (auto simp: form_inv_def form_call_def openDetail_def loadDetail_def show_list_def create_tournament_def
        isLength_def split: option.split sum.split)
qed

lemma tournaments_opened_inv: "form_inv (tournaments_opened token)"
  by (simp add: form_inv_def tournaments_opened_def)

text \<open>
  The detail shown is that of the last answer, not of the last click: a tournament opened later is
  replaced on the screen by an earlier one whose answer comes late, and Join then joins that one. A
  failed load leaves the tournament looked at before on the screen as well.
\<close>

lemma late_detail_shown:
  assumes "tw_view tw = List_view" and "td_id a = i"
  shows "let (tw', cs) = window_run twindow_step tw
       [Open_row i, Back, Open_row j, Detail_answer (Inr b), Detail_answer (Inr a), Join_clicked] in
     cs = [Get_tournament i, List_tournaments, Get_tournament j, Join_tournament i] \<and> tw_detail tw' = Some a"
    and "let (tw', cs) = window_run twindow_step (tw\<lparr>tw_detail := Some a\<rparr>) [Open_row j, Detail_answer (Inl e), Join_clicked] in
     cs = [Get_tournament j, Join_tournament i]"
  using assms by (simp_all add: openDetail_def loadDetail_def show_list_def)

text \<open>No control of the window reports a result: a tournament started here waits for another client.\<close>

interpretation no_report: window twindow_step "\<lambda>_. True" "\<lambda>c. \<forall>m x. c \<noteq> Report_result m x"
proof
  show "list_all (\<lambda>c. \<forall>m x. c \<noteq> Report_result m x) (snd (twindow_step tw ev))" for tw ev
    by (cases ev) (auto simp: openDetail_def loadDetail_def show_list_def create_tournament_def split: option.split sum.split)
qed simp

lemma never_reports: "Report_result m x \<notin> set (snd (window_run twindow_step tw evs))"
  using no_report.call_fine by blast

section \<open>Friends\<close>

record fwindow =
  fw_token :: bool
  fw_requests_tab :: bool
  fw_friends :: "js_object list"
  fw_requests :: "js_object list"
  fw_achievements :: "js_object list"
  fw_username :: string
  fw_msg :: string
  fw_loading :: bool

datatype fcall =
    Get_friends
  | Get_friend_requests
  | Get_my_achievements
  | Send_friend_request string
  | Accept_friend_request nat
  | Decline_friend_request nat
  | Remove_friend nat

text \<open>\<open>load\<close>: three calls at once, two without a session.\<close>

definition friends_load :: "fwindow \<Rightarrow> fwindow \<times> fcall list" where
  "friends_load fw =
     (fw\<lparr>fw_loading := True\<rparr>, [Get_friends, Get_friend_requests] @ (if fw_token fw then [Get_my_achievements] else []))"

definition friends_opened :: "bool \<Rightarrow> fwindow \<times> fcall list" where
  "friends_opened token =
     friends_load \<lparr>fw_token = token, fw_requests_tab = False, fw_friends = [], fw_requests = [], fw_achievements = [],
       fw_username = [], fw_msg = [], fw_loading = True\<rparr>"

definition addFriend :: "fwindow \<Rightarrow> fwindow \<times> fcall list" where
  "addFriend fw =
     (if trim (fw_username fw) = [] then (fw, [])
      else (fw\<lparr>fw_msg := []\<rparr>, [Send_friend_request (trim (fw_username fw))]))"

text \<open>The rows of a list that carry a friendship's buttons.\<close>

definition has_row :: "nat \<Rightarrow> js_object list \<Rightarrow> bool" where
  "has_row i rows \<longleftrightarrow> list_ex (\<lambda>r. map_of r ''friendship_id'' = Some (JInt (int i))) rows"

text \<open>
  The events. The answers of the three calls arrive together (\<open>Promise.all\<close>), None when one of
  them failed. A refused acceptance, refusal or removal is not caught: nothing changes.
\<close>

datatype fevent =
    Type_username string
  | Pick_tab bool
  | Add_clicked
  | Accept_clicked nat
  | Decline_clicked nat
  | Remove_clicked nat bool
  | Lists_answer "(js_object list \<times> js_object list \<times> js_object list) option"
  | Add_answer "string + unit"
  | Action_answer "string + unit"

fun fwindow_step :: "fwindow \<Rightarrow> fevent \<Rightarrow> fwindow \<times> fcall list" where
  "fwindow_step fw (Type_username s) = (fw\<lparr>fw_username := s\<rparr>, [])"
| "fwindow_step fw (Pick_tab requests) = (fw\<lparr>fw_requests_tab := requests\<rparr>, [])"
| "fwindow_step fw Add_clicked = addFriend fw"
| "fwindow_step fw (Accept_clicked i) =
     (fw, if \<not> fw_loading fw \<and> fw_requests_tab fw \<and> has_row i (fw_requests fw) then [Accept_friend_request i] else [])"
| "fwindow_step fw (Decline_clicked i) =
     (fw, if \<not> fw_loading fw \<and> fw_requests_tab fw \<and> has_row i (fw_requests fw) then [Decline_friend_request i] else [])"
| "fwindow_step fw (Remove_clicked i confirmed) =
     (fw, if \<not> fw_loading fw \<and> \<not> fw_requests_tab fw \<and> has_row i (fw_friends fw) \<and> confirmed then [Remove_friend i] else [])"
| "fwindow_step fw (Lists_answer r) =
     (case r of
        None \<Rightarrow> fw\<lparr>fw_loading := False\<rparr>
      | Some (f, q, a) \<Rightarrow> fw\<lparr>fw_friends := f, fw_requests := q, fw_achievements := a, fw_loading := False\<rparr>, [])"
| "fwindow_step fw (Add_answer r) =
     (case r of Inl e \<Rightarrow> fw\<lparr>fw_msg := e\<rparr> | Inr _ \<Rightarrow> fw\<lparr>fw_msg := ''Request sent!'', fw_username := []\<rparr>, [])"
| "fwindow_step fw (Action_answer r) = (case r of Inl e \<Rightarrow> (fw, []) | Inr _ \<Rightarrow> friends_load fw)"

text \<open>The names asked for are trimmed and not empty.\<close>

definition named_call :: "fcall \<Rightarrow> bool" where
  "named_call c \<longleftrightarrow> (case c of Send_friend_request s \<Rightarrow> trim s = s \<and> s \<noteq> [] | _ \<Rightarrow> True)"

interpretation friends: window fwindow_step "\<lambda>_. True" named_call
proof
  show "list_all named_call (snd (fwindow_step fw ev))" for fw ev
    by (cases ev) (auto simp: named_call_def addFriend_def friends_load_def split: sum.split)
qed simp

text \<open>
  The badges: the user's achievements, or the static names of constants/achievements.js, all of
  them dimmed, when there are none. Their pictures are left out.
\<close>

definition ACHIEVEMENT_INFO :: "(string \<times> string) list" where
  "ACHIEVEMENT_INFO =
     [(''first_game'', ''First Steps''), (''first_win'', ''First Blood''), (''wins_5'', ''Getting Good''),
      (''wins_10'', ''Chess Enthusiast''), (''wins_25'', ''Grandmaster Grind''), (''quick_win'', ''Blitz Master''),
      (''marathon'', ''Marathon Match''), (''flawless'', ''Flawless Victory''), (''comeback'', ''The Comeback'')]"

definition allAchievements :: "fwindow \<Rightarrow> js_object list" where
  "allAchievements fw =
     (if fw_achievements fw \<noteq> [] then fw_achievements fw
      else map (\<lambda>(k, n). [(''key'', JStr k), (''name'', JStr n), (''description'', JStr []), (''earned_at'', JNull)]) ACHIEVEMENT_INFO)"

lemma fallback_unearned:
  "fw_achievements fw = [] \<Longrightarrow> list_all (\<lambda>a. map_of a ''earned_at'' = Some JNull) (allAchievements fw)"
  by (auto simp: allAchievements_def list_all_iff)

text \<open>AchievementToast.js names what was just awarded; an unknown key is its own name.\<close>

definition toast_name :: "string \<Rightarrow> string" where
  "toast_name k = (case map_of ACHIEVEMENT_INFO k of Some n \<Rightarrow> n | None \<Rightarrow> k)"

lemma awarded_have_names:
  "set ([''first_game''] @ win_keys n @ [''quick_win''] @ history_keys h @ [''marathon'']) \<subseteq> fst ` set ACHIEVEMENT_INFO"
  by (auto simp: win_keys_def history_keys_def ACHIEVEMENT_INFO_def Let_def split: if_splits option.splits)

end
