(* ===== verification/AccountScreens.thy ===== *)
theory AccountScreens
  imports Screens Friends
begin

text \<open>
  The windows of the browser about the account: AuthModal.js joined to the account state of App.js,
  AccountAction.js (the pages behind mailed links), ProfileModal.js and LeaderboardModal.js, and the
  settings of contexts/SettingsContext.js with the storage they live in. The last section joins the
  forms to the endpoints of the server: nothing they send is refused by its validation.
\<close>

section \<open>Signing in\<close>

datatype amode = Login_mode | Register_mode | Forgot_mode

datatype afield = Username_field | Email_field | Password_field

text \<open>\<open>aw_busy\<close> is \<open>loading\<close>, with the mode of the call that runs; a closed window is not drawn any more.\<close>

record awindow =
  aw_open :: bool
  aw_mode :: amode
  aw_username :: string
  aw_email :: string
  aw_password :: string
  aw_err :: string
  aw_busy :: "amode option"

datatype acall =
    Login_call string string
  | Register_call string string string
  | Forgot_call string

definition auth_opened :: awindow where
  "auth_opened = \<lparr>aw_open = True, aw_mode = Login_mode, aw_username = [], aw_email = [], aw_password = [], aw_err = [],
     aw_busy = None\<rparr>"

definition auth_call :: "awindow \<Rightarrow> acall" where
  "auth_call aw =
     (case aw_mode aw of
        Forgot_mode \<Rightarrow> Forgot_call (aw_email aw)
      | Login_mode \<Rightarrow> Login_call (aw_email aw) (aw_password aw)
      | Register_mode \<Rightarrow> Register_call (aw_username aw) (aw_email aw) (aw_password aw))"

text \<open>The message of an answer; undefined draws nothing.\<close>

definition data_message :: "body \<Rightarrow> string" where
  "data_message b = (case b of Message m \<Rightarrow> m | _ \<Rightarrow> [])"

text \<open>\<open>storeAuth\<close>, then \<open>onSuccess\<close>, which is \<open>onAuth\<close> of App.js, with the user of the answer if it has one.\<close>

definition sign_in :: "body \<Rightarrow> account_state \<Rightarrow> account_state" where
  "sign_in b st =
     (case data_user b of
        Some u \<Rightarrow> onAuth u st
      | None \<Rightarrow> (storeAuth None st)\<lparr>app_user := None, app_token := False\<rparr>)"

definition auth_settled :: "amode \<Rightarrow> (string, body) result \<Rightarrow> awindow \<Rightarrow> awindow" where
  "auth_settled m r aw =
     (let aw = aw\<lparr>aw_busy := None\<rparr> in
      case r of
        Inl e \<Rightarrow> aw\<lparr>aw_err := e\<rparr>
      | Inr b \<Rightarrow> (case m of
                     Forgot_mode \<Rightarrow> aw\<lparr>aw_err := data_message b\<rparr>
                   | Register_mode \<Rightarrow> aw\<lparr>aw_err := data_message b, aw_mode := Login_mode\<rparr>
                   | Login_mode \<Rightarrow> aw\<lparr>aw_open := False\<rparr>))"

datatype aevent =
    Type_field afield string
  | Submit
  | Auth_answer "(string, body) result"
  | Forgot_link
  | Switch_link
  | Close_window

definition shows_field :: "afield \<Rightarrow> amode \<Rightarrow> bool" where
  "shows_field f m \<longleftrightarrow> (case f of Username_field \<Rightarrow> m = Register_mode | Email_field \<Rightarrow> True | Password_field \<Rightarrow> m \<noteq> Forgot_mode)"

fun type_field :: "afield \<Rightarrow> string \<Rightarrow> awindow \<Rightarrow> awindow" where
  "type_field Username_field s aw = aw\<lparr>aw_username := s\<rparr>"
| "type_field Email_field s aw = aw\<lparr>aw_email := s\<rparr>"
| "type_field Password_field s aw = aw\<lparr>aw_password := s\<rparr>"

definition auth_answer :: "(string, body) result \<Rightarrow> awindow \<times> account_state \<Rightarrow> awindow \<times> account_state" where
  "auth_answer r s =
     (case s of (aw, st) \<Rightarrow>
      case aw_busy aw of
        None \<Rightarrow> s
      | Some m \<Rightarrow> (auth_settled m r aw, case r of Inr b \<Rightarrow> if m = Login_mode then sign_in b st else st | Inl _ \<Rightarrow> st))"

text \<open>The controls act while the window is open; an answer arrives even after it was closed.\<close>

fun awindow_step :: "awindow \<times> account_state \<Rightarrow> aevent \<Rightarrow> (awindow \<times> account_state) \<times> acall list" where
  "awindow_step s (Auth_answer r) = (auth_answer r s, [])"
| "awindow_step (aw, st) Submit =
     (if aw_open aw \<and> aw_busy aw = None
      then ((aw\<lparr>aw_err := [], aw_busy := Some (aw_mode aw)\<rparr>, st), [auth_call aw]) else ((aw, st), []))"
| "awindow_step (aw, st) (Type_field f s) =
     (if aw_open aw \<and> shows_field f (aw_mode aw) then ((type_field f s aw, st), []) else ((aw, st), []))"
| "awindow_step (aw, st) Forgot_link =
     (if aw_open aw \<and> aw_mode aw = Login_mode then ((aw\<lparr>aw_mode := Forgot_mode, aw_err := []\<rparr>, st), []) else ((aw, st), []))"
| "awindow_step (aw, st) Switch_link =
     (if aw_open aw
      then ((aw\<lparr>aw_mode := if aw_mode aw = Login_mode then Register_mode else Login_mode, aw_err := []\<rparr>, st), [])
      else ((aw, st), []))"
| "awindow_step (aw, st) Close_window = ((aw\<lparr>aw_open := False\<rparr>, st), [])"

text \<open>
  What the server signs in: the answer of a login that succeeded carries the public columns of a
  user whose address is verified, and the browser keeps exactly these.
\<close>

lemma login_body:
  assumes "parse_response f (fst (login w now raw fam e p d)) = Inr b"
  obtains u where "u \<in> set (users d)" and "u_verified u \<noteq> None" and "b = User_body (publicFields (user_star u))"
proof -
  have "response_ok r \<Longrightarrow> \<exists>u \<in> set (users d). u_verified u \<noteq> None \<and> body r = User_body (publicFields (user_star u))"
    if "r = fst (login w now raw fam e p d)" for r
    unfolding that
    by (auto simp: login_def findByEmail_def qbind_def try_reply_def qreturn_def qget_def establishSession_def
        setRefreshCookie_def setAccessCookie_def reply_of_def response_ok_def invalid_credentials_def Let_def
        split: prod.splits sum.splits option.splits if_splits dest!: find_Some_in)
  then show ?thesis
    using assms that by (fastforce simp: parse_response_def split: if_splits)
qed

lemma login_kept:
  assumes "parse_response f (fst (login w now raw fam e p d)) = Inr b"
  shows "\<exists>u \<in> set (users d). u_verified u \<noteq> None \<and> sign_in b st =
      st\<lparr>stored_user := Some (publicFields (user_star u)), app_user := Some (publicFields (user_star u)), app_token := True\<rparr>"
  using assms by (elim login_body [where f = f])
    (auto simp: sign_in_def data_user_def onAuth_def storeAuth_def getStoredToken_def Let_def)

interpretation signing: window awindow_step "\<lambda>(aw, st). app_user st = stored_user st \<and> (app_user st \<noteq> None \<longrightarrow> app_token st)"
  "\<lambda>_. True"
proof
  show "case fst (awindow_step s ev) of (aw, st) \<Rightarrow> app_user st = stored_user st \<and> (app_user st \<noteq> None \<longrightarrow> app_token st)"
    if "case s of (aw, st) \<Rightarrow> app_user st = stored_user st \<and> (app_user st \<noteq> None \<longrightarrow> app_token st)" for s ev
    using that
    by (cases s; cases ev) (auto simp: auth_answer_def sign_in_def onAuth_def storeAuth_def getStoredToken_def Let_def
        split: option.split sum.split)
qed (simp add: list_all_iff)

text \<open>Only an answer to a login changes the account state; registering and asking for a link do not.\<close>

lemma only_login_signs_in:
  assumes "snd (fst (awindow_step (aw, st) ev)) \<noteq> st"
  shows "aw_busy aw = Some Login_mode \<and> (\<exists>b. ev = Auth_answer (Inr b))"
  using assms by (cases ev) (auto simp: auth_answer_def split: option.splits sum.splits if_splits)

text \<open>
  "Continue as Guest" closes the window but not the call that runs: a login that succeeds after it
  signs the user in all the same.
\<close>

lemma guest_signed_in:
  assumes "aw_open aw" and "aw_busy aw = None" and "aw_mode aw = Login_mode"
  shows "fst (window_run awindow_step (aw, st) [Submit, Close_window, Auth_answer (Inr b)]) =
    (aw\<lparr>aw_open := False, aw_err := [], aw_busy := None\<rparr>, sign_in b st)"
  using assms by (simp add: auth_answer_def auth_settled_def Let_def)

section \<open>The pages behind mailed links\<close>

record rpage =
  rp_verification :: bool
  rp_token :: string
  rp_password :: string
  rp_message :: string
  rp_err :: string

datatype rcall = Verify_call string | Reset_call string string

definition page_opened :: "bool \<Rightarrow> string \<Rightarrow> rpage \<times> rcall list" where
  "page_opened verification token =
     (\<lparr>rp_verification = verification, rp_token = token, rp_password = [],
       rp_message = (if verification then ''Verifying your email...'' else ''Choose a new password''), rp_err = []\<rparr>,
      if verification then [Verify_call token] else [])"

definition form_shown :: "rpage \<Rightarrow> bool" where
  "form_shown rp \<longleftrightarrow> \<not> rp_verification rp \<and> \<not> contains_text ''complete'' (rp_message rp)"

datatype revent = Type_password string | Reset_clicked | Page_answer "string + string"

text \<open>The field takes at most 128 characters; the button needs ten.\<close>

fun rpage_step :: "rpage \<Rightarrow> revent \<Rightarrow> rpage \<times> rcall list" where
  "rpage_step rp (Type_password s) = (if form_shown rp then rp\<lparr>rp_password := take 128 s\<rparr> else rp, [])"
| "rpage_step rp Reset_clicked =
     (if form_shown rp \<and> \<not> length (rp_password rp) < 10
      then (rp\<lparr>rp_err := []\<rparr>, [Reset_call (rp_token rp) (rp_password rp)]) else (rp, []))"
| "rpage_step rp (Page_answer r) =
     (case r of
        Inl e \<Rightarrow> if rp_verification rp then rp\<lparr>rp_err := e, rp_message := []\<rparr> else rp\<lparr>rp_err := e\<rparr>
      | Inr m \<Rightarrow> if rp_verification rp then rp\<lparr>rp_message := m\<rparr> else rp\<lparr>rp_message := m, rp_password := []\<rparr>, [])"

definition sized_call :: "rcall \<Rightarrow> bool" where
  "sized_call c \<longleftrightarrow> (case c of Verify_call _ \<Rightarrow> True | Reset_call _ p \<Rightarrow> isLength 10 128 p)"

interpretation reset_page: window rpage_step "\<lambda>rp. length (rp_password rp) \<le> 128" sized_call
proof
  show "length (rp_password (fst (rpage_step rp ev))) \<le> 128" if "length (rp_password rp) \<le> 128" for rp ev
    using that by (cases ev) (auto split: sum.split)
  show "list_all sized_call (snd (rpage_step rp ev))" if "length (rp_password rp) \<le> 128" for rp ev
    using that by (cases ev) (auto simp: sized_call_def isLength_def)
qed

text \<open>
  Once the server has accepted the new password its message takes the form away, and the page
  sends nothing more, whatever late refusals arrive.
\<close>

lemma no_form_no_call:
  assumes "\<not> form_shown rp" and "\<not> rp_verification rp" and "list_all (\<lambda>ev. \<forall>m. ev \<noteq> Page_answer (Inr m)) evs"
  shows "snd (window_run rpage_step rp evs) = []"
  using assms
proof (induction evs arbitrary: rp)
  case (Cons ev evs)
  have "snd (rpage_step rp ev) = [] \<and> \<not> form_shown (fst (rpage_step rp ev)) \<and> \<not> rp_verification (fst (rpage_step rp ev))"
    using Cons.prems by (cases ev) (auto simp: form_shown_def split: sum.split)
  then show ?case
    unfolding window_run_Cons using Cons.IH Cons.prems(3) by simp
qed simp

lemma reset_accepted_once:
  assumes "\<not> rp_verification rp" and "list_all (\<lambda>ev. \<forall>m. ev \<noteq> Page_answer (Inr m)) evs"
  shows "snd (window_run rpage_step rp (Page_answer (Inr ''Password reset complete'') # evs)) = []"
proof -
  have "contains_text ''complete'' ''Password reset complete''"
    by code_simp
  then show ?thesis
    unfolding window_run_Cons using assms by (simp add: no_form_no_call form_shown_def)
qed

text \<open>
  The button is not disabled while a reset runs. Two clicks send the same link twice, the server
  refuses the second (a link works once), and the page shows success and failure together.
\<close>

lemma double_click_fails:
  assumes "form_shown rp" and "\<not> length (rp_password rp) < 10"
  shows "let (rp', cs) = window_run rpage_step rp [Reset_clicked, Reset_clicked,
       Page_answer (Inr ''Password reset complete''), Page_answer (Inl ''Invalid or expired token'')] in
     cs = [Reset_call (rp_token rp) (rp_password rp), Reset_call (rp_token rp) (rp_password rp)] \<and>
     rp_message rp' = ''Password reset complete'' \<and> rp_err rp' = ''Invalid or expired token''"
  using assms by (simp add: form_shown_def)

section \<open>The profile and the leaderboard\<close>

record pwindow =
  pw_profile :: "js_object option"
  pw_history :: "js_object list"
  pw_achievements :: "js_object list"
  pw_editing :: bool
  pw_bio :: string
  pw_loading :: bool
  pw_saving :: bool
  pw_uploading :: bool
  pw_err :: string
  pw_replay :: "nat option"

datatype pcall = Load_profile | Load_stats | Load_history | Load_achievements | Update_profile string | Upload_avatar

definition profile_opened :: "pwindow \<times> pcall list" where
  "profile_opened =
     (\<lparr>pw_profile = None, pw_history = [], pw_achievements = [], pw_editing = False, pw_bio = [], pw_loading = True,
       pw_saving = False, pw_uploading = False, pw_err = [], pw_replay = None\<rparr>,
      [Load_profile, Load_stats, Load_history, Load_achievements])"

text \<open>
  The four answers come together, None when one failed; the statistics are only drawn and left
  out. The picked file is not looked at.
\<close>

datatype pevent =
    Profile_loaded "(js_object \<times> js_object list \<times> js_object list) option"
  | Edit_clicked
  | Type_bio string
  | Cancel_clicked
  | Save_clicked
  | Save_answer "string + js_object"
  | Avatar_picked
  | Upload_answer "string + js_object"
  | Replay_clicked nat
  | Replay_closed

definition on_page :: "pwindow \<Rightarrow> bool" where
  "on_page pw \<longleftrightarrow> \<not> pw_loading pw \<and> pw_profile pw \<noteq> None"

fun pwindow_step :: "pwindow \<Rightarrow> pevent \<Rightarrow> pwindow \<times> pcall list" where
  "pwindow_step pw (Profile_loaded r) =
     (case r of
        None \<Rightarrow> pw\<lparr>pw_loading := False\<rparr>
      | Some (p, h, a) \<Rightarrow> pw\<lparr>pw_profile := Some p, pw_history := h, pw_achievements := a, pw_bio := js_str p ''bio'',
          pw_loading := False\<rparr>, [])"
| "pwindow_step pw Edit_clicked = (if on_page pw then pw\<lparr>pw_editing := True\<rparr> else pw, [])"
| "pwindow_step pw (Type_bio s) = (if on_page pw \<and> pw_editing pw then pw\<lparr>pw_bio := take 160 s\<rparr> else pw, [])"
| "pwindow_step pw Cancel_clicked = (pw\<lparr>pw_editing := False\<rparr>, [])"
| "pwindow_step pw Save_clicked =
     (if on_page pw \<and> pw_editing pw \<and> \<not> pw_saving pw
      then (pw\<lparr>pw_saving := True, pw_err := []\<rparr>, [Update_profile (pw_bio pw)]) else (pw, []))"
| "pwindow_step pw (Save_answer r) =
     (let pw = pw\<lparr>pw_saving := False\<rparr> in
      case r of Inl e \<Rightarrow> pw\<lparr>pw_err := e\<rparr> | Inr u \<Rightarrow> pw\<lparr>pw_profile := Some u, pw_editing := False\<rparr>, [])"
| "pwindow_step pw Avatar_picked =
     (if on_page pw then (pw\<lparr>pw_uploading := True, pw_err := []\<rparr>, [Upload_avatar]) else (pw, []))"
| "pwindow_step pw (Upload_answer r) =
     (let pw = pw\<lparr>pw_uploading := False\<rparr> in
      case r of Inl e \<Rightarrow> pw\<lparr>pw_err := e\<rparr> | Inr u \<Rightarrow> pw\<lparr>pw_profile := Some u\<rparr>, [])"
| "pwindow_step pw (Replay_clicked i) = (if on_page pw then pw\<lparr>pw_replay := Some i\<rparr> else pw, [])"
| "pwindow_step pw Replay_closed = (pw\<lparr>pw_replay := None\<rparr>, [])"

text \<open>
  A profile that was loaded keeps its place until the window closes; with one, and biographies the
  server has accepted before, what is sent is short enough.
\<close>

definition bio_inv :: "pwindow \<Rightarrow> bool" where
  "bio_inv pw \<longleftrightarrow> length (pw_bio pw) \<le> 160"

definition short_answer :: "pevent \<Rightarrow> bool" where
  "short_answer ev \<longleftrightarrow> (case ev of Profile_loaded (Some (p, _, _)) \<Rightarrow> length (js_str p ''bio'') \<le> 160 | _ \<Rightarrow> True)"

lemma bio_step:
  assumes "bio_inv pw" and "short_answer ev"
  shows "bio_inv (fst (pwindow_step pw ev))" and "Update_profile b \<in> set (snd (pwindow_step pw ev)) \<Longrightarrow> length b \<le> 160"
  using assms
  by (cases ev; simp add: bio_inv_def short_answer_def Let_def split: option.splits prod.splits sum.split if_splits)+

lemma bio_short:
  assumes "bio_inv pw" and "list_all short_answer evs" and "Update_profile b \<in> set (snd (window_run pwindow_step pw evs))"
  shows "length b \<le> 160"
  using assms
proof (induction evs arbitrary: pw)
  case (Cons ev evs)
  have "short_answer ev" "list_all short_answer evs"
    using Cons.prems(2) by simp_all
  then show ?case
    using Cons.prems(3) bio_step [OF Cons.prems(1), of ev] Cons.IH by (auto simp only: window_run_Cons set_append Un_iff)
qed simp

text \<open>Cancelling keeps the text: it is offered again, and sent, the next time.\<close>

lemma cancelled_bio_kept:
  assumes "on_page pw" and "pw_editing pw" and "\<not> pw_saving pw"
  shows "snd (window_run pwindow_step pw [Type_bio s, Cancel_clicked, Edit_clicked, Save_clicked]) = [Update_profile (take 160 s)]"
  using assms by (auto simp: on_page_def)

record lwindow =
  lw_elo_tab :: bool
  lw_scores :: "js_object list"
  lw_players :: "js_object list"
  lw_loading :: bool

datatype lcall = Get_leaderboard | Get_elo_leaderboard

definition leaderboard_fetch :: "lwindow \<Rightarrow> lwindow \<times> lcall list" where
  "leaderboard_fetch lw = (lw\<lparr>lw_loading := True\<rparr>, [if lw_elo_tab lw then Get_elo_leaderboard else Get_leaderboard])"

text \<open>An answer carries the tab its fetch was made for.\<close>

datatype levent = Pick_board bool | Board_answer bool "js_object list option"

fun lwindow_step :: "lwindow \<Rightarrow> levent \<Rightarrow> lwindow \<times> lcall list" where
  "lwindow_step lw (Pick_board elo) = (if elo = lw_elo_tab lw then (lw, []) else leaderboard_fetch (lw\<lparr>lw_elo_tab := elo\<rparr>))"
| "lwindow_step lw (Board_answer elo r) =
     ((case r of
        None \<Rightarrow> lw
      | Some rows \<Rightarrow> if elo then lw\<lparr>lw_players := rows\<rparr> else lw\<lparr>lw_scores := rows\<rparr>)\<lparr>lw_loading := False\<rparr>, [])"

text \<open>A late answer fills its own list, but it also ends the "Loading" of the other one, which is drawn as empty.\<close>

lemma late_board:
  "fst (window_run lwindow_step \<lparr>lw_elo_tab = False, lw_scores = [], lw_players = [], lw_loading = True\<rparr>
     [Pick_board True, Board_answer False (Some rows)]) =
   \<lparr>lw_elo_tab = True, lw_scores = rows, lw_players = [], lw_loading = False\<rparr>"
  by (simp add: leaderboard_fetch_def)

section \<open>Settings\<close>

datatype setting_value = S_text string | S_flag bool | S_null

record settings =
  s_mode :: setting_value
  s_board :: setting_value
  s_pieces :: setting_value
  s_sound :: setting_value

text \<open>JavaScript's \<open>a || b\<close> and \<open>a ?? b\<close> on a property that may be missing.\<close>

definition is_truthy :: "setting_value \<Rightarrow> bool" where
  "is_truthy v \<longleftrightarrow> (case v of S_text s \<Rightarrow> s \<noteq> [] | S_flag b \<Rightarrow> b | S_null \<Rightarrow> False)"

definition js_or :: "setting_value option \<Rightarrow> setting_value \<Rightarrow> setting_value" where
  "js_or a b = (case a of Some v \<Rightarrow> if is_truthy v then v else b | None \<Rightarrow> b)"

definition js_coalesce :: "setting_value option \<Rightarrow> setting_value \<Rightarrow> setting_value" where
  "js_coalesce a b = (case a of Some v \<Rightarrow> if v = S_null then b else v | None \<Rightarrow> b)"

text \<open>
  The stored item as \<open>JSON.parse\<close> reads it: the properties of an object; none when the item is
  missing, is not JSON or is not an object.
\<close>

type_synonym saved_item = "(string \<times> setting_value) list"

definition loadSettings :: "saved_item \<Rightarrow> settings" where
  "loadSettings saved =
     \<lparr>s_mode = js_or (map_of saved ''mode'') (S_text ''dark''),
      s_board = js_or (map_of saved ''boardThemeKey'') (S_text ''classic''),
      s_pieces = js_or (map_of saved ''pieceStyleKey'') (S_text ''classic''),
      s_sound = js_coalesce (map_of saved ''soundOn'') (S_flag True)\<rparr>"

definition to_item :: "settings \<Rightarrow> saved_item" where
  "to_item s = [(''mode'', s_mode s), (''boardThemeKey'', s_board s), (''pieceStyleKey'', s_pieces s), (''soundOn'', s_sound s)]"

definition persist :: "settings \<Rightarrow> settings \<times> saved_item \<Rightarrow> settings \<times> saved_item" where
  "persist nxt st = (nxt, to_item nxt)"

text \<open>The choices of SettingsPanel.js: the keys of the theme tables, and the switch of the sound.\<close>

datatype choice = Choose_mode string | Choose_board string | Choose_pieces string | Toggle_sound

definition APP_THEMES :: "string list" where "APP_THEMES = [''dark'', ''light'']"
definition BOARD_THEMES :: "string list" where "BOARD_THEMES = [''classic'', ''emerald'', ''sapphire'', ''slate'']"
definition PIECE_STYLES :: "string list" where "PIECE_STYLES = [''classic'', ''minimal'']"

fun settings_step :: "settings \<times> saved_item \<Rightarrow> choice \<Rightarrow> settings \<times> saved_item" where
  "settings_step (s, saved) (Choose_mode k) = (if List.member APP_THEMES k then persist (s\<lparr>s_mode := S_text k\<rparr>) (s, saved) else (s, saved))"
| "settings_step (s, saved) (Choose_board k) = (if List.member BOARD_THEMES k then persist (s\<lparr>s_board := S_text k\<rparr>) (s, saved) else (s, saved))"
| "settings_step (s, saved) (Choose_pieces k) = (if List.member PIECE_STYLES k then persist (s\<lparr>s_pieces := S_text k\<rparr>) (s, saved) else (s, saved))"
| "settings_step (s, saved) Toggle_sound = persist (s\<lparr>s_sound := S_flag (\<not> is_truthy (s_sound s))\<rparr>) (s, saved)"

text \<open>The key whose colours are drawn: an unknown one falls back to the first.\<close>

definition theme_drawn :: "string list \<Rightarrow> string \<Rightarrow> setting_value \<Rightarrow> string" where
  "theme_drawn themes fallback v = (case v of S_text k \<Rightarrow> if List.member themes k then k else fallback | _ \<Rightarrow> fallback)"

lemma theme_drawn_known: "List.member themes fallback \<Longrightarrow> List.member themes (theme_drawn themes fallback v)"
  by (simp add: theme_drawn_def split: setting_value.split)

text \<open>Settings that have a value each are read back as they were written.\<close>

definition settings_set :: "settings \<Rightarrow> bool" where
  "settings_set s \<longleftrightarrow> is_truthy (s_mode s) \<and> is_truthy (s_board s) \<and> is_truthy (s_pieces s) \<and> s_sound s \<noteq> S_null"

lemma load_set: "settings_set (loadSettings saved)"
proof -
  have "is_truthy (js_or a (S_text ''dark''))" "is_truthy (js_or a (S_text ''classic''))" "js_coalesce a (S_flag True) \<noteq> S_null" for a
    by (simp_all add: js_or_def js_coalesce_def is_truthy_def split: option.split)
  then show ?thesis
    by (simp add: settings_set_def loadSettings_def)
qed

lemma load_item: "settings_set s \<Longrightarrow> loadSettings (to_item s) = s"
  by (simp add: settings_set_def loadSettings_def to_item_def js_or_def js_coalesce_def)

lemma chosen_set:
  "settings_set s \<Longrightarrow> k \<noteq> [] \<Longrightarrow> settings_set (s\<lparr>s_mode := S_text k\<rparr>)"
  "settings_set s \<Longrightarrow> k \<noteq> [] \<Longrightarrow> settings_set (s\<lparr>s_board := S_text k\<rparr>)"
  "settings_set s \<Longrightarrow> k \<noteq> [] \<Longrightarrow> settings_set (s\<lparr>s_pieces := S_text k\<rparr>)"
  "settings_set s \<Longrightarrow> settings_set (s\<lparr>s_sound := S_flag b\<rparr>)"
  by (simp_all add: settings_set_def is_truthy_def)

lemma theme_keys: "List.member APP_THEMES k \<or> List.member BOARD_THEMES k \<or> List.member PIECE_STYLES k \<Longrightarrow> k \<noteq> []"
  by (auto simp: APP_THEMES_def BOARD_THEMES_def PIECE_STYLES_def)

text \<open>Whatever was stored and whatever is chosen, reloading the page gives the settings on the screen.\<close>

interpretation settings: invariant_machine settings_step "\<lambda>(s, saved). loadSettings saved = s"
proof
  fix st c
  assume inv: "case st of (s, saved) \<Rightarrow> loadSettings saved = s"
  obtain s saved where st: "st = (s, saved)"
    by fastforce
  have "settings_set s"
    using inv load_set by (auto simp: st)
  then show "case settings_step st c of (s, saved) \<Rightarrow> loadSettings saved = s"
    using inv theme_keys by (cases c) (simp_all add: st persist_def load_item chosen_set)
qed

lemma settings_survive_reload:
  "case run_steps settings_step (loadSettings saved, saved) cs of (s, item) \<Rightarrow> loadSettings item = s"
  by (rule settings.run_inv) simp

section \<open>The forms and the server\<close>

interpretation own_link: window rpage_step "\<lambda>rp. rp_token rp = t0" "\<lambda>c. \<forall>t p. c = Reset_call t p \<longrightarrow> t = t0" for t0
proof
  show "rp_token (fst (rpage_step rp ev)) = t0" if "rp_token rp = t0" for rp ev
    using that by (cases ev) (auto split: sum.split)
  show "list_all (\<lambda>c. \<forall>t p. c = Reset_call t p \<longrightarrow> t = t0) (snd (rpage_step rp ev))" if "rp_token rp = t0" for rp ev
    using that by (cases ev) auto
qed

lemma tournament_form:
  assumes "Create_tournament name n \<in> set (snd (window_run twindow_step (tournaments_opened tok) evs))"
  shows "fst (fst (tournaments_post w now token name n d)) \<noteq> 400"
  using tournaments.call_fine [OF tournaments_opened_inv assms]
  by (auto simp: form_call_def tournaments_post_def guarded_def split: prod.split sum.split option.split)

lemma reset_form:
  assumes "Reset_call t q \<in> set (snd (window_run rpage_step (fst (page_opened False t0)) evs))" and "isLength 20 200 t0"
  shows "body (fst (reset_password w now t q d)) \<noteq> Error ''Invalid request''"
proof -
  have "isLength 10 128 q"
    using reset_page.call_fine [OF _ assms(1)] by (simp add: sized_call_def page_opened_def)
  moreover have "t = t0"
    using own_link.call_fine [OF _ assms(1)] by (simp add: page_opened_def)
  ultimately show ?thesis
    using assms(2) by (auto simp: reset_password_def try_reply_def qbind_def qreturn_def clearAuthCookies_def reply_of_def
        split: prod.split sum.split)
qed

lemma friend_form:
  assumes "Send_friend_request name \<in> set (snd (window_run fwindow_step fw evs))"
  shows "body (fst (post_request w now token name d)) \<noteq> Error ''Invalid request''"
proof -
  have "trim name \<noteq> []"
    using friends.call_fine [OF TrueI assms] by (simp add: named_call_def)
  moreover have "fst (sendRequest now i (trim name) d) \<noteq> Inr (F_error ''Invalid request'')" for i
    by (auto simp: sendRequest_def request_check_def qbind_def qreturn_def qget_def split: prod.split sum.split option.split)
  then have "sendRequest now i (trim name) d \<noteq> (Inr (F_error ''Invalid request''), d')" for i d'
    by (metis fst_conv)
  ultimately show ?thesis
    by (auto simp: post_request_def authMiddleware_def try_reply_def qbind_def qreturn_def reply_of_def auth_required_def
        split: option.split prod.split sum.split friend_reply.split)
qed



end
