(* ===== verification/AppShell.thy ===== *)
theory AppShell
  imports ClientSession
begin

text \<open>
  The frame of the browser application: which screen App.js shows, with the account state of
  ClientSession, and which windows HomeScreen.js opens. The screens themselves are other theories
  (LocalPlay, MultiplayerClient, VsComputer) and so are the windows (Screens, AccountScreens).
\<close>

section \<open>Screens\<close>

datatype app_screen = Home | Local_game | Online_game | Engine_game

datatype window_kind = Auth_window | Leaderboard_window | Settings_window | Profile_window | Friends_window | Tournaments_window

record app =
  ap_account :: account_state
  ap_screen :: app_screen
  ap_minutes :: "nat option"
  ap_control :: "nat option"
  ap_windows :: "window_kind list"

text \<open>\<open>TIME_CONTROLS\<close>: the minutes on offer; None is no limit, the first choice.\<close>

definition TIME_CONTROLS :: "nat option list" where
  "TIME_CONTROLS = [Some 3, Some 5, Some 10, None]"

definition app_mounted :: "account_state \<Rightarrow> app" where
  "app_mounted st = \<lparr>ap_account = st, ap_screen = Home, ap_minutes = None, ap_control = None, ap_windows = []\<rparr>"

text \<open>Nothing is drawn before the first refresh of the session is over.\<close>

definition drawn :: "app \<Rightarrow> app_screen option" where
  "drawn ap = (if session_ready (ap_account ap) then Some (ap_screen ap) else None)"

definition signed_in :: "app \<Rightarrow> bool" where
  "signed_in ap \<longleftrightarrow> app_user (ap_account ap) \<noteq> None"

definition open_window :: "window_kind \<Rightarrow> app \<Rightarrow> app" where
  "open_window k ap = ap\<lparr>ap_windows := if List.member (ap_windows ap) k then ap_windows ap else k # ap_windows ap\<rparr>"

text \<open>Leaving the home screen unmounts it: its windows and its choice of a clock are gone.\<close>

definition leave_home :: "app_screen \<Rightarrow> app \<Rightarrow> app" where
  "leave_home s ap = ap\<lparr>ap_screen := s, ap_windows := [], ap_control := None\<rparr>"

datatype app_event =
    Account_event account_event
  | Pick_control "nat option"
  | Play_local
  | Play_online
  | Play_engine
  | Exit_screen
  | Show_window window_kind
  | Hide_window window_kind

text \<open>
  \<open>playLocal\<close> also resets the game (the second component). The profile button is drawn for a user
  only; the friends and the online game ask a guest to sign in.
\<close>

fun app_step :: "app \<Rightarrow> app_event \<Rightarrow> app \<times> bool" where
  "app_step ap (Account_event ev) = (ap\<lparr>ap_account := account_step (ap_account ap) ev\<rparr>, False)"
| "app_step ap (Pick_control c) =
     (if drawn ap = Some Home \<and> List.member TIME_CONTROLS c then ap\<lparr>ap_control := c\<rparr> else ap, False)"
| "app_step ap Play_local =
     (if drawn ap = Some Home then ((leave_home Local_game ap)\<lparr>ap_minutes := ap_control ap\<rparr>, True) else (ap, False))"
| "app_step ap Play_online =
     (if drawn ap \<noteq> Some Home then ap
      else if signed_in ap then leave_home Online_game ap else open_window Auth_window ap, False)"
| "app_step ap Play_engine = (if drawn ap = Some Home then leave_home Engine_game ap else ap, False)"
| "app_step ap Exit_screen = (if ap_screen ap = Home then ap else ap\<lparr>ap_screen := Home\<rparr>, False)"
| "app_step ap (Show_window k) =
     (if drawn ap \<noteq> Some Home then ap
      else case k of
          Profile_window \<Rightarrow> if signed_in ap then open_window k ap else ap
        | Friends_window \<Rightarrow> if signed_in ap then open_window k ap else open_window Auth_window ap
        | Auth_window \<Rightarrow> if signed_in ap then ap else open_window k ap
        | _ \<Rightarrow> open_window k ap, False)"
| "app_step ap (Hide_window k) = (ap\<lparr>ap_windows := filter (\<lambda>x. x \<noteq> k) (ap_windows ap)\<rparr>, False)"

text \<open>
  Windows are open on the home screen only, each at most once, and a clock is one of those on offer.
\<close>

definition app_inv :: "app \<Rightarrow> bool" where
  "app_inv ap \<longleftrightarrow> distinct (ap_windows ap) \<and> (ap_screen ap \<noteq> Home \<longrightarrow> ap_windows ap = []) \<and>
     ap_control ap \<in> set TIME_CONTROLS \<and> ap_minutes ap \<in> set TIME_CONTROLS"

lemma no_limit_offered: "None \<in> set TIME_CONTROLS"
  by (simp add: TIME_CONTROLS_def)

lemma open_window_inv: "app_inv ap \<Longrightarrow> ap_screen ap = Home \<Longrightarrow> app_inv (open_window k ap)"
  by (simp add: app_inv_def open_window_def)

lemma leave_home_inv: "app_inv ap \<Longrightarrow> app_inv (leave_home s ap)"
  by (simp add: app_inv_def leave_home_def no_limit_offered)

lemma drawn_home: "drawn ap = Some s \<Longrightarrow> ap_screen ap = s"
  by (simp add: drawn_def split: if_splits)

interpretation app_shell: invariant_machine "\<lambda>ap ev. fst (app_step ap ev)" app_inv
proof
  fix ap ev
  assume inv: "app_inv ap"
  show "app_inv (fst (app_step ap ev))"
  proof (cases ev)
    case (Show_window k)
    then show ?thesis
      using inv by (cases k) (simp_all add: open_window_inv drawn_home)
  next
    case Play_local
    then show ?thesis
      using leave_home_inv [OF inv, of Local_game] inv by (simp add: app_inv_def)
  next
    case Play_online
    then show ?thesis
      using inv by (simp add: open_window_inv leave_home_inv drawn_home)
  qed (use inv leave_home_inv [OF inv] in \<open>auto simp: app_inv_def\<close>)
qed

text \<open>A guest never gets to the online game, and the only way there is the button.\<close>

lemma guest_stays_offline:
  assumes "ap_screen ap \<noteq> Online_game" and "ap_screen (fst (app_step ap ev)) = Online_game"
  shows "ev = Play_online \<and> signed_in ap \<and> drawn ap = Some Home"
  using assms by (cases ev) (auto simp: leave_home_def open_window_def split: if_splits window_kind.splits)

text \<open>The game is reset exactly when a local game starts.\<close>

lemma reset_iff_local: "snd (app_step ap ev) \<longleftrightarrow> ev = Play_local \<and> drawn ap = Some Home"
  by (cases ev) auto

end
