(* ===== verification/ApiRoutes.thy ===== *)
theory ApiRoutes
  imports Server
begin

text \<open>
  The contract of the HTTP interface: the calls of api/client.js as method and path, the routers
  server.js mounts with their routes (routes/*.js) in the order of the code, and the matching of
  Express as it documents it: fixed text without regard to case, a parameter is one segment that is
  not empty, a trailing slash does not count, the first route that matches serves. Answering HEAD
  by GET and percent-decoding are left out.
\<close>

section \<open>The routes of the server\<close>

datatype segment = Fixed string | Param | Number_param

fun segment_matches :: "segment \<Rightarrow> string \<Rightarrow> bool" where
  "segment_matches (Fixed t) s \<longleftrightarrow> to_lower s = to_lower t"
| "segment_matches Param s \<longleftrightarrow> s \<noteq> []"
| "segment_matches Number_param s \<longleftrightarrow> s \<noteq> [] \<and> list_all is_digit s"

text \<open>What serves a call: the handlers of the five routers.\<close>

datatype handler =
    Register_route | Verify_route | Resend_route | Login_route | Refresh_route | Logout_route
  | Forgot_route | Reset_route | Profile_route | Patch_profile_route | Avatar_route
  | Scores_route | Elo_route | Save_route | My_stats_route | My_history_route | My_achievements_route
  | Active_route | Stats_route | Game_route | Game_moves_route
  | Friends_route | Requests_route | Request_route | Accept_route | Decline_route | Remove_route
  | Tournaments_route | Create_route | Tournament_route | Join_route | Start_route | Report_route

type_synonym router = "(string \<times> segment list \<times> handler) list"

definition auth_router :: router where
  "auth_router =
     [(''POST'', [Fixed ''register''], Register_route), (''POST'', [Fixed ''verify-email''], Verify_route),
      (''POST'', [Fixed ''resend-verification''], Resend_route), (''POST'', [Fixed ''login''], Login_route),
      (''POST'', [Fixed ''refresh''], Refresh_route), (''POST'', [Fixed ''logout''], Logout_route),
      (''POST'', [Fixed ''forgot-password''], Forgot_route), (''POST'', [Fixed ''reset-password''], Reset_route),
      (''GET'', [Fixed ''profile''], Profile_route), (''PATCH'', [Fixed ''profile''], Patch_profile_route),
      (''POST'', [Fixed ''avatar''], Avatar_route)]"

definition leaderboard_router :: router where
  "leaderboard_router =
     [(''GET'', [], Scores_route), (''GET'', [Fixed ''elo''], Elo_route), (''POST'', [Fixed ''save''], Save_route),
      (''GET'', [Fixed ''me''], My_stats_route), (''GET'', [Fixed ''history''], My_history_route),
      (''GET'', [Fixed ''achievements''], My_achievements_route)]"

definition game_router :: router where
  "game_router =
     [(''GET'', [Fixed ''active''], Active_route), (''GET'', [Fixed ''stats''], Stats_route),
      (''GET'', [Number_param], Game_route), (''GET'', [Number_param, Fixed ''moves''], Game_moves_route)]"

definition friends_router :: router where
  "friends_router =
     [(''GET'', [], Friends_route), (''GET'', [Fixed ''requests''], Requests_route), (''POST'', [Fixed ''request''], Request_route),
      (''POST'', [Param, Fixed ''accept''], Accept_route), (''POST'', [Param, Fixed ''decline''], Decline_route),
      (''DELETE'', [Param], Remove_route)]"

definition tournaments_router :: router where
  "tournaments_router =
     [(''GET'', [], Tournaments_route), (''POST'', [], Create_route), (''GET'', [Param], Tournament_route),
      (''POST'', [Param, Fixed ''join''], Join_route), (''POST'', [Param, Fixed ''start''], Start_route),
      (''POST'', [Fixed ''matches'', Param, Fixed ''report''], Report_route)]"

definition mounts :: "(string \<times> router) list" where
  "mounts =
     [(''/api/auth'', auth_router), (''/api/leaderboard'', leaderboard_router), (''/api/game'', game_router),
      (''/api/friends'', friends_router), (''/api/tournaments'', tournaments_router)]"

text \<open>The segments below a mount path.\<close>

definition segments_of :: "string \<Rightarrow> string list" where
  "segments_of rest =
     (let ps = tl (split_on (CHR ''/'') rest) in if ps \<noteq> [] \<and> last ps = [] then butlast ps else ps)"

definition route_in :: "router \<Rightarrow> string \<Rightarrow> string list \<Rightarrow> handler option" where
  "route_in routes m ss =
     map_option (snd \<circ> snd) (List.find (\<lambda>(m', pat, _). m' = m \<and> list_all2 segment_matches pat ss) routes)"

fun dispatch_in :: "(string \<times> router) list \<Rightarrow> string \<Rightarrow> string \<Rightarrow> handler option" where
  "dispatch_in [] m path = None"
| "dispatch_in ((base, routes) # ms) m path =
     (if mounted base path then
        (case route_in routes m (segments_of (drop (length base) path)) of
           Some h \<Rightarrow> Some h
         | None \<Rightarrow> dispatch_in ms m path)
      else dispatch_in ms m path)"

text \<open>None is the 404 of \<open>Route not found\<close>.\<close>

definition dispatch :: "string \<Rightarrow> string \<Rightarrow> handler option" where
  "dispatch = dispatch_in mounts"

section \<open>The calls of the client\<close>

datatype api_call =
    Login | Register | Logout | RefreshSession | VerifyEmail | ForgotPassword | ResetPassword
  | GetProfile | UpdateProfile | UploadAvatar
  | GetLeaderboard | GetEloLeaderboard | GetMyStats | GetMyHistory | GetMyAchievements | SaveScore
  | GetGame nat | GetGameMoves nat
  | GetFriends | GetFriendRequests | SendFriendRequest | AcceptFriendRequest nat | DeclineFriendRequest nat | RemoveFriend nat
  | ListTournaments | GetTournament nat | CreateTournament | JoinTournament nat | StartTournament nat | ReportMatchResult nat

fun api_request :: "api_call \<Rightarrow> string \<times> string" where
  "api_request Login = (''POST'', ''/api/auth/login'')"
| "api_request Register = (''POST'', ''/api/auth/register'')"
| "api_request Logout = (''POST'', ''/api/auth/logout'')"
| "api_request RefreshSession = (''POST'', ''/api/auth/refresh'')"
| "api_request VerifyEmail = (''POST'', ''/api/auth/verify-email'')"
| "api_request ForgotPassword = (''POST'', ''/api/auth/forgot-password'')"
| "api_request ResetPassword = (''POST'', ''/api/auth/reset-password'')"
| "api_request GetProfile = (''GET'', ''/api/auth/profile'')"
| "api_request UpdateProfile = (''PATCH'', ''/api/auth/profile'')"
| "api_request UploadAvatar = (''POST'', ''/api/auth/avatar'')"
| "api_request GetLeaderboard = (''GET'', ''/api/leaderboard'')"
| "api_request GetEloLeaderboard = (''GET'', ''/api/leaderboard/elo'')"
| "api_request GetMyStats = (''GET'', ''/api/leaderboard/me'')"
| "api_request GetMyHistory = (''GET'', ''/api/leaderboard/history'')"
| "api_request GetMyAchievements = (''GET'', ''/api/leaderboard/achievements'')"
| "api_request SaveScore = (''POST'', ''/api/leaderboard/save'')"
| "api_request (GetGame i) = (''GET'', ''/api/game/'' @ show_nat i)"
| "api_request (GetGameMoves i) = (''GET'', ''/api/game/'' @ show_nat i @ ''/moves'')"
| "api_request GetFriends = (''GET'', ''/api/friends'')"
| "api_request GetFriendRequests = (''GET'', ''/api/friends/requests'')"
| "api_request SendFriendRequest = (''POST'', ''/api/friends/request'')"
| "api_request (AcceptFriendRequest i) = (''POST'', ''/api/friends/'' @ show_nat i @ ''/accept'')"
| "api_request (DeclineFriendRequest i) = (''POST'', ''/api/friends/'' @ show_nat i @ ''/decline'')"
| "api_request (RemoveFriend i) = (''DELETE'', ''/api/friends/'' @ show_nat i)"
| "api_request ListTournaments = (''GET'', ''/api/tournaments'')"
| "api_request (GetTournament i) = (''GET'', ''/api/tournaments/'' @ show_nat i)"
| "api_request CreateTournament = (''POST'', ''/api/tournaments'')"
| "api_request (JoinTournament i) = (''POST'', ''/api/tournaments/'' @ show_nat i @ ''/join'')"
| "api_request (StartTournament i) = (''POST'', ''/api/tournaments/'' @ show_nat i @ ''/start'')"
| "api_request (ReportMatchResult i) = (''POST'', ''/api/tournaments/matches/'' @ show_nat i @ ''/report'')"

text \<open>The handler a call is written for.\<close>

fun intended :: "api_call \<Rightarrow> handler" where
  "intended Login = Login_route" | "intended Register = Register_route" | "intended Logout = Logout_route"
| "intended RefreshSession = Refresh_route" | "intended VerifyEmail = Verify_route"
| "intended ForgotPassword = Forgot_route" | "intended ResetPassword = Reset_route"
| "intended GetProfile = Profile_route" | "intended UpdateProfile = Patch_profile_route" | "intended UploadAvatar = Avatar_route"
| "intended GetLeaderboard = Scores_route" | "intended GetEloLeaderboard = Elo_route" | "intended GetMyStats = My_stats_route"
| "intended GetMyHistory = My_history_route" | "intended GetMyAchievements = My_achievements_route" | "intended SaveScore = Save_route"
| "intended (GetGame _) = Game_route" | "intended (GetGameMoves _) = Game_moves_route"
| "intended GetFriends = Friends_route" | "intended GetFriendRequests = Requests_route" | "intended SendFriendRequest = Request_route"
| "intended (AcceptFriendRequest _) = Accept_route" | "intended (DeclineFriendRequest _) = Decline_route"
| "intended (RemoveFriend _) = Remove_route"
| "intended ListTournaments = Tournaments_route" | "intended (GetTournament _) = Tournament_route" | "intended CreateTournament = Create_route"
| "intended (JoinTournament _) = Join_route" | "intended (StartTournament _) = Start_route" | "intended (ReportMatchResult _) = Report_route"

section \<open>Every call reaches its handler\<close>

lemma show_nat_no_slash [simp]: "CHR ''/'' \<notin> set (show_nat i)"
proof
  assume "CHR ''/'' \<in> set (show_nat i)"
  then have "is_digit (CHR ''/'')"
    using show_nat_digits by blast
  then show False
    by (simp add: is_digit_def digits_def)
qed

lemma show_nat_all_digits [simp]: "list_all is_digit (show_nat i)"
  using show_nat_digits by (simp add: list_all_iff)

lemma to_lower_digits: "list_all is_digit s \<Longrightarrow> to_lower s = s"
  by (induction s) (auto simp: to_lower_def to_lower_char_def is_digit_def digits_def)

lemma show_nat_lower [simp]: "to_lower (show_nat i) = show_nat i"
  by (simp add: to_lower_digits)

text \<open>A number is none of the fixed words of a route.\<close>

lemma show_nat_not_word: "\<not> is_digit c \<Longrightarrow> show_nat i \<noteq> c # s"
  by (metis list.set_intros(1) show_nat_digits)

text \<open>Calls without a number.\<close>

definition plain_calls :: "api_call list" where
  "plain_calls =
     [Login, Register, Logout, RefreshSession, VerifyEmail, ForgotPassword, ResetPassword, GetProfile, UpdateProfile, UploadAvatar,
      GetLeaderboard, GetEloLeaderboard, GetMyStats, GetMyHistory, GetMyAchievements, SaveScore, GetFriends, GetFriendRequests,
      SendFriendRequest, ListTournaments, CreateTournament]"

lemma plain_dispatch: "list_all (\<lambda>c. dispatch (fst (api_request c)) (snd (api_request c)) = Some (intended c)) plain_calls"
  by code_simp

text \<open>A path with a number goes to the router of its mount, with the number as one segment.\<close>

lemma number_segments:
  "segments_of (CHR ''/'' # show_nat i) = [show_nat i]"
  "CHR ''/'' \<notin> set w \<Longrightarrow> w \<noteq> [] \<Longrightarrow> segments_of (CHR ''/'' # show_nat i @ CHR ''/'' # w) = [show_nat i, w]"
  "CHR ''/'' \<notin> set v \<Longrightarrow> CHR ''/'' \<notin> set w \<Longrightarrow> w \<noteq> [] \<Longrightarrow>
     segments_of (CHR ''/'' # v @ CHR ''/'' # show_nat i @ CHR ''/'' # w) = [v, show_nat i, w]"
  by (simp_all add: segments_of_def split_on_append_sep split_on_no_sep)

lemma to_lower_below: "to_lower (a @ CHR ''/'' # b) = to_lower a @ CHR ''/'' # to_lower b"
proof -
  have "to_lower_char (CHR ''/'') = CHR ''/''"
    by code_simp
  then show ?thesis
    by (simp add: to_lower_def)
qed

lemma mounted_below: "mounted r (r @ CHR ''/'' # rest)"
  unfolding mounted_def Let_def to_lower_below by simp

text \<open>Lower-case mount paths of which the one is no beginning of the other are told apart.\<close>

lemma mounted_other:
  assumes "to_lower r = r" and "to_lower b = b" and "take (length r + 1) (b @ ''/'') \<noteq> r @ ''/''" and "length r \<le> length b"
  shows "\<not> mounted r (b @ CHR ''/'' # x)"
proof -
  have "take (length r + 1) (b @ CHR ''/'' # y) = take (length r + 1) (b @ ''/'')" for y
    using assms(4) by (simp add: take_Cons')
  moreover have "b @ CHR ''/'' # y \<noteq> r" for y
    using assms(4) by (auto simp: list_eq_iff_nth_eq)
  ultimately show ?thesis
    using assms(1,2,3) unfolding mounted_def Let_def to_lower_below by metis
qed

lemma mounted_longer:
  assumes "to_lower r = r" and "to_lower b = b" and "take (length b + 1) r \<noteq> b @ ''/''" and "length b < length r"
  shows "\<not> mounted r (b @ CHR ''/'' # x)"
proof -
  have "take (length b + 1) (b @ CHR ''/'' # y) = b @ ''/''" for y
    by simp
  then have "take (length b + 1) (take (length r + 1) (b @ CHR ''/'' # y)) = b @ ''/''" "take (length b + 1) (b @ CHR ''/'' # y) = b @ ''/''" for y
    using assms(4) by (simp_all add: min_def)
  moreover have "take (length b + 1) (r @ ''/'') = take (length b + 1) r"
    using assms(4) by simp
  ultimately show ?thesis
    using assms(1,2,3) unfolding mounted_def Let_def to_lower_below by metis
qed

text \<open>The three mounts whose paths carry numbers.\<close>

lemma mounts_apart:
  "b \<in> {''/api/game'', ''/api/friends'', ''/api/tournaments''} \<Longrightarrow> r \<in> fst ` set mounts \<Longrightarrow> r \<noteq> b \<Longrightarrow>
     \<not> mounted r (b @ CHR ''/'' # x)"
proof -
  have "\<forall>b \<in> {''/api/game'', ''/api/friends'', ''/api/tournaments''}. \<forall>r \<in> fst ` set mounts. r \<noteq> b \<longrightarrow>
      to_lower r = r \<and> to_lower b = b \<and>
      (if length r \<le> length b then take (length r + 1) (b @ ''/'') \<noteq> r @ ''/'' else take (length b + 1) r \<noteq> b @ ''/'')"
    by code_simp
  then show "\<not> mounted r (b @ CHR ''/'' # x)"
    if "b \<in> {''/api/game'', ''/api/friends'', ''/api/tournaments''}" "r \<in> fst ` set mounts" "r \<noteq> b"
    using that mounted_other [of r b x] mounted_longer [of r b x] by (metis not_le)
qed

lemma dispatch_below:
  "dispatch m (''/api/game/'' @ x) = route_in game_router m (segments_of (CHR ''/'' # x))"
  "dispatch m (''/api/friends/'' @ x) = route_in friends_router m (segments_of (CHR ''/'' # x))"
  "dispatch m (''/api/tournaments/'' @ x) = route_in tournaments_router m (segments_of (CHR ''/'' # x))"
proof -
  note apart = mounts_apart [of "''/api/game''" _ x] mounts_apart [of "''/api/friends''" _ x] mounts_apart [of "''/api/tournaments''" _ x]
  note below = mounted_below [of "''/api/game''" x] mounted_below [of "''/api/friends''" x] mounted_below [of "''/api/tournaments''" x]
  show "dispatch m (''/api/game/'' @ x) = route_in game_router m (segments_of (CHR ''/'' # x))"
    using apart below by (simp add: dispatch_def mounts_def split: option.split)
  show "dispatch m (''/api/friends/'' @ x) = route_in friends_router m (segments_of (CHR ''/'' # x))"
    using apart below by (simp add: dispatch_def mounts_def split: option.split)
  show "dispatch m (''/api/tournaments/'' @ x) = route_in tournaments_router m (segments_of (CHR ''/'' # x))"
    using apart below by (simp add: dispatch_def mounts_def split: option.split)
qed

lemma find_Cons_if: "List.find P (x # xs) = (if P x then Some x else List.find P xs)"
  by simp

text \<open>In the three routers a number is matched by the parameter it stands for only.\<close>

lemma number_not_word:
  "show_nat i \<noteq> to_lower w" if "w \<in> {''active'', ''stats'', ''requests'', ''request'', ''matches''}" for w
proof -
  have "to_lower w = w \<and> w \<noteq> [] \<and> \<not> is_digit (hd w)"
    using that by (elim insertE emptyE; hypsubst; code_simp)
  then show ?thesis
    using show_nat_not_word [of "hd w" i "tl w"] by (metis list.collapse)
qed

lemma route_numbers:
  "route_in game_router ''GET'' [show_nat i] = Some Game_route"
  "route_in game_router ''GET'' [show_nat i, ''moves''] = Some Game_moves_route"
  "route_in friends_router ''POST'' [show_nat i, ''accept''] = Some Accept_route"
  "route_in friends_router ''POST'' [show_nat i, ''decline''] = Some Decline_route"
  "route_in friends_router ''DELETE'' [show_nat i] = Some Remove_route"
  "route_in tournaments_router ''GET'' [show_nat i] = Some Tournament_route"
  "route_in tournaments_router ''POST'' [show_nat i, ''join''] = Some Join_route"
  "route_in tournaments_router ''POST'' [show_nat i, ''start''] = Some Start_route"
  "route_in tournaments_router ''POST'' [''matches'', show_nat i, ''report''] = Some Report_route"
proof -
  have words: "to_lower ''accept'' = ''accept''" "to_lower ''decline'' = ''decline''" "to_lower ''join'' = ''join''" "to_lower ''start'' = ''start''"
    by code_simp+
  show "route_in game_router ''GET'' [show_nat i] = Some Game_route"
    "route_in game_router ''GET'' [show_nat i, ''moves''] = Some Game_moves_route"
    "route_in friends_router ''POST'' [show_nat i, ''accept''] = Some Accept_route"
    "route_in friends_router ''POST'' [show_nat i, ''decline''] = Some Decline_route"
    "route_in friends_router ''DELETE'' [show_nat i] = Some Remove_route"
    "route_in tournaments_router ''GET'' [show_nat i] = Some Tournament_route"
    "route_in tournaments_router ''POST'' [show_nat i, ''join''] = Some Join_route"
    "route_in tournaments_router ''POST'' [show_nat i, ''start''] = Some Start_route"
    "route_in tournaments_router ''POST'' [''matches'', show_nat i, ''report''] = Some Report_route"
    using number_not_word
    by (simp_all add: route_in_def game_router_def friends_router_def tournaments_router_def words)
qed

lemma word_segments:
  "segments_of (''/'' @ show_nat i @ ''/moves'') = [show_nat i, ''moves'']"
  "segments_of (''/'' @ show_nat i @ ''/accept'') = [show_nat i, ''accept'']"
  "segments_of (''/'' @ show_nat i @ ''/decline'') = [show_nat i, ''decline'']"
  "segments_of (''/'' @ show_nat i @ ''/join'') = [show_nat i, ''join'']"
  "segments_of (''/'' @ show_nat i @ ''/start'') = [show_nat i, ''start'']"
  "segments_of (''/matches/'' @ show_nat i @ ''/report'') = [''matches'', show_nat i, ''report'']"
  using number_segments(2) [of "''moves''" i] number_segments(2) [of "''accept''" i] number_segments(2) [of "''decline''" i]
    number_segments(2) [of "''join''" i] number_segments(2) [of "''start''" i] number_segments(3) [of "''matches''" "''report''" i]
  by simp_all

text \<open>The paths with a number, seen as a mount path and the rest.\<close>

lemma number_dispatch:
  "dispatch ''GET'' (''/api/game/'' @ show_nat i) = Some Game_route"
  "dispatch ''GET'' (''/api/game/'' @ show_nat i @ ''/moves'') = Some Game_moves_route"
  "dispatch ''POST'' (''/api/friends/'' @ show_nat i @ ''/accept'') = Some Accept_route"
  "dispatch ''POST'' (''/api/friends/'' @ show_nat i @ ''/decline'') = Some Decline_route"
  "dispatch ''DELETE'' (''/api/friends/'' @ show_nat i) = Some Remove_route"
  "dispatch ''GET'' (''/api/tournaments/'' @ show_nat i) = Some Tournament_route"
  "dispatch ''POST'' (''/api/tournaments/'' @ show_nat i @ ''/join'') = Some Join_route"
  "dispatch ''POST'' (''/api/tournaments/'' @ show_nat i @ ''/start'') = Some Start_route"
  "dispatch ''POST'' (''/api/tournaments/matches/'' @ show_nat i @ ''/report'') = Some Report_route"
  using dispatch_below(1) [of "''GET''" "show_nat i"] dispatch_below(1) [of "''GET''" "show_nat i @ ''/moves''"]
    dispatch_below(2) [of "''POST''" "show_nat i @ ''/accept''"] dispatch_below(2) [of "''POST''" "show_nat i @ ''/decline''"]
    dispatch_below(2) [of "''DELETE''" "show_nat i"] dispatch_below(3) [of "''GET''" "show_nat i"]
    dispatch_below(3) [of "''POST''" "show_nat i @ ''/join''"] dispatch_below(3) [of "''POST''" "show_nat i @ ''/start''"]
    dispatch_below(3) [of "''POST''" "''matches/'' @ show_nat i @ ''/report''"]
    word_segments [of i] number_segments(1) [of i] route_numbers [of i]
  by simp_all

theorem every_call_served: "dispatch (fst (api_request c)) (snd (api_request c)) = Some (intended c)"
  using plain_dispatch number_dispatch
  by (cases c) (simp_all add: plain_calls_def)

text \<open>
  The wrapper \<open>updateProfile\<close> also sends an \<open>avatarUrl\<close> when its caller gives one; the route refuses
  every key but \<open>bio\<close>, so such a call can only fail.
\<close>

lemma avatar_url_refused:
  "authenticate w now token d = Some p \<Longrightarrow>
     patch_profile w now token [(''bio'', JStr b), (''avatarUrl'', v)] d = (validationFailure, d)"
  by (simp add: patch_profile_def authMiddleware_def)

end
