(* ===== verification/Connections.thy ===== *)
theory Connections
  imports Startup Metrics
begin

text \<open>
  What the server connects to the outside with: the pool of config/db.js and its start probe, the
  SMTP transport of services/mail.js, and the parts of the metrics that are attached once:
  the collectors of the pool (metrics/db.js) and of the socket server (metrics/socket.js) and the
  sampler of metrics/runtime.js. The libraries themselves (pg, nodemailer, Socket.IO) get these options.
\<close>

section \<open>The database pool\<close>

text \<open>\<open>process.env.K || text\<close> and \<open>Number(process.env.K || n)\<close>; None is a number that is not an integer.\<close>

definition env_or :: "environment \<Rightarrow> string \<Rightarrow> string \<Rightarrow> string" where
  "env_or env k dflt = (case env_value env k of None \<Rightarrow> dflt | Some v \<Rightarrow> v)"

definition env_number :: "environment \<Rightarrow> string \<Rightarrow> int \<Rightarrow> int option" where
  "env_number env k dflt = (case env_value env k of None \<Rightarrow> Some dflt | Some v \<Rightarrow> js_integer v)"

record pool_options =
  pg_host :: string
  pg_port :: "int option"
  pg_database :: string
  pg_user :: string
  pg_password :: string
  pg_ssl :: "ssl_options option"
  pg_max :: "int option"
  idleTimeoutMillis :: int
  connectionTimeoutMillis :: "int option"
  statement_timeout :: "int option"
  application_name :: string

text \<open>Loading the module fails when the TLS settings are incomplete.\<close>

definition pool_of :: "environment \<Rightarrow> pool_options startup" where
  "pool_of env = bind_result (sslConfiguration env) (\<lambda>ssl.
     Inr \<lparr>pg_host = env_or env ''DB_HOST'' ''chess-postgres'', pg_port = env_number env ''DB_PORT'' 5432,
          pg_database = env_or env ''DB_NAME'' ''chess_db'', pg_user = env_or env ''DB_USER'' ''chess_user'',
          pg_password = env_or env ''DB_PASSWORD'' ''chess_password'', pg_ssl = ssl,
          pg_max = env_number env ''DB_POOL_MAX'' 10, idleTimeoutMillis = 30000,
          connectionTimeoutMillis = env_number env ''DB_CONNECT_TIMEOUT_MS'' 5000,
          statement_timeout = env_number env ''DB_STATEMENT_TIMEOUT_MS'' 10000, application_name = ''chess-backend''\<rparr>)"

text \<open>In production the validated environment leaves no default credential in the pool.\<close>

lemma production_credentials:
  assumes "validateEnvironment parse_url env = Inr c" and "in_production env" and "pool_of env = Inr opts"
  shows "Some (pg_host opts) = env ''DB_HOST'' \<and> Some (pg_database opts) = env ''DB_NAME'' \<and>
    Some (pg_user opts) = env ''DB_USER'' \<and> Some (pg_password opts) = env ''DB_PASSWORD''"
proof -
  have "\<not> missing_any env [''DB_HOST'', ''DB_NAME'', ''DB_USER'', ''DB_PASSWORD'']"
    using assms(1,2) by (auto simp: validateEnvironment_def bind_result_def split: sum.splits if_splits)
  then show ?thesis
    using assms(3)
    by (auto simp: missing_any_def pool_of_def env_or_def env_value_def bind_result_def split: sum.splits option.splits if_splits)
qed

text \<open>Asking for TLS gives a verified connection or no pool.\<close>

lemma pool_verified:
  "env ''DB_SSL'' = Some ''true'' \<Longrightarrow> pool_of env = Inr opts \<Longrightarrow> \<exists>s. pg_ssl opts = Some s \<and> Startup.rejectUnauthorized s"
  by (auto simp: pool_of_def sslConfiguration_def bind_result_def split: sum.splits option.splits if_splits)

text \<open>
  \<open>connectDB\<close>: the clients of the pool that are checked out before and after, what \<open>connect\<close> and the
  probe answer. The client goes back in \<open>finally\<close>.
\<close>

definition connectDB :: "string startup \<Rightarrow> string startup \<Rightarrow> nat \<Rightarrow> unit startup \<times> nat" where
  "connectDB got probed out =
     (case got of
        Inl e \<Rightarrow> (Inl e, out)
      | Inr _ \<Rightarrow>
          let out = out + 1 in
          (case probed of Inl e \<Rightarrow> (Inl e, out - 1) | Inr _ \<Rightarrow> (Inr (), out - 1)))"

lemma connectDB_returns_client:
  "snd (connectDB c p out) = out \<and> (fst (connectDB c p out) = Inr () \<longleftrightarrow> (\<exists>x y. c = Inr x \<and> p = Inr y))"
  by (simp add: connectDB_def Let_def split: sum.split)

section \<open>Mail\<close>

record mail_transport =
  smtp_host :: string
  smtp_port :: "int option"
  smtp_secure :: bool
  requireTLS :: bool
  smtp_auth :: "(string \<times> string option) option"
  verify_certificate :: bool
  minVersion :: string
  connectionTimeout :: "int option"
  greetingTimeout :: "int option"
  socketTimeout :: "int option"
  disableFileAccess :: bool
  disableUrlAccess :: bool

text \<open>The transport is made on first use and kept.\<close>

definition getTransport :: "environment \<Rightarrow> mail_transport option \<Rightarrow> mail_transport startup \<times> mail_transport option" where
  "getTransport env transport =
     (case transport of
        Some t \<Rightarrow> (Inr t, transport)
      | None \<Rightarrow>
          (case env_value env ''SMTP_HOST'' of
             None \<Rightarrow> (Inl ''SMTP_HOST is required to deliver account emails'', None)
           | Some h \<Rightarrow>
               let p = env_number env ''SMTP_PORT'' 587;
                   t = \<lparr>smtp_host = h, smtp_port = p, smtp_secure = (p = Some 465),
                        requireTLS = (p \<noteq> Some 465 \<and> env ''SMTP_REQUIRE_TLS'' \<noteq> Some ''false''),
                        smtp_auth = map_option (\<lambda>u. (u, env ''SMTP_PASSWORD'')) (env_value env ''SMTP_USER''),
                        verify_certificate = (env ''SMTP_TLS_REJECT_UNAUTHORIZED'' \<noteq> Some ''false''), minVersion = ''TLSv1.2'',
                        connectionTimeout = env_number env ''SMTP_CONNECTION_TIMEOUT_MS'' 10000,
                        greetingTimeout = env_number env ''SMTP_GREETING_TIMEOUT_MS'' 10000,
                        socketTimeout = env_number env ''SMTP_SOCKET_TIMEOUT_MS'' 15000,
                        disableFileAccess = True, disableUrlAccess = True\<rparr>
               in (Inr t, Some t)))"

text \<open>\<open>verifyMailTransport\<close>, with what the server it connects to answers.\<close>

definition verifyMailTransport :: "environment \<Rightarrow> unit startup \<Rightarrow> mail_transport option \<Rightarrow> unit startup \<times> mail_transport option" where
  "verifyMailTransport env verified transport =
     (case getTransport env transport of (Inl e, t) \<Rightarrow> (Inl e, t) | (Inr _, t) \<Rightarrow> (verified, t))"

text \<open>Account links leave the server encrypted and to a verified peer unless the environment turns it off.\<close>

lemma mail_encrypted:
  assumes "getTransport env None = (Inr t, kept)"
  shows "env ''SMTP_REQUIRE_TLS'' \<noteq> Some ''false'' \<Longrightarrow> smtp_secure t \<noteq> requireTLS t"
    and "env ''SMTP_TLS_REJECT_UNAUTHORIZED'' \<noteq> Some ''false'' \<Longrightarrow> verify_certificate t"
  using assms by (auto simp: getTransport_def Let_def split: option.splits)

lemma transport_kept: "getTransport env tr = (Inr t, kept) \<Longrightarrow> getTransport env' kept = (Inr t, kept)"
  by (auto simp: getTransport_def Let_def split: option.splits)

text \<open>In production a validated environment always has a transport.\<close>

lemma production_transport:
  assumes "validateEnvironment parse_url env = Inr c" and "in_production env"
  shows "\<exists>t. fst (getTransport env None) = Inr t"
proof -
  have "\<not> missing_any env [''SMTP_HOST'', ''EMAIL_FROM'']"
    using assms by (auto simp: validateEnvironment_def bind_result_def split: sum.splits if_splits)
  then show ?thesis
    by (auto simp: missing_any_def getTransport_def Let_def)
qed

section \<open>Attached once\<close>

text \<open>
  \<open>instrumentPool\<close> marks the pool and attaches the collectors of its three gauges (what they will
  answer is an argument); a marked pool is left alone. \<open>attach\<close> does the same for the connections of
  the socket server and its rooms.
\<close>

definition instrumentPool :: "number \<Rightarrow> number \<Rightarrow> number \<Rightarrow> bool \<times> gauge \<Rightarrow> (string, bool \<times> gauge) result" where
  "instrumentPool all_n idle_n waiting_n st =
     (let (instrumented, g) = st in
      if instrumented then Inr st
      else
        bind_result (gauge_collect [(''state'', ''total'')] (Some all_n) g) (\<lambda>g.
        bind_result (gauge_collect [(''state'', ''idle'')] (Some idle_n) g) (\<lambda>g.
        bind_result (gauge_collect [(''state'', ''waiting'')] (Some waiting_n) g) (\<lambda>g. Inr (True, g)))))"

definition attach :: "nat \<Rightarrow> nat \<Rightarrow> bool \<times> gauge \<times> gauge \<Rightarrow> (string, bool \<times> gauge \<times> gauge) result" where
  "attach clients rooms st =
     (let (attached, connections, active) = st in
      if attached then Inr st
      else
        bind_result (gauge_collect [] (Some (Fin (real clients))) connections) (\<lambda>connections.
        bind_result (gauge_collect [] (Some (Fin (real rooms))) active) (\<lambda>active. Inr (True, connections, active))))"

lemma attached_once:
  "instrumentPool a b c st = Inr st' \<Longrightarrow> instrumentPool a' b' c' st' = Inr st'"
  "attach n m so = Inr so' \<Longrightarrow> attach n' m' so' = Inr so'"
  by (auto simp: instrumentPool_def attach_def bind_result_def split: prod.splits if_splits sum.splits)

text \<open>\<open>onReconnecting\<close> of metrics/redis.js.\<close>

definition onReconnecting :: "string \<Rightarrow> counter \<Rightarrow> counter" where
  "onReconnecting clientName = attempt (counter_inc [(''client'', safeClient clientName)] (Fin 1))"

text \<open>The sampler: its timer, with the time of the last tick, and the gauge.\<close>

definition startRuntimeSampler :: "int \<Rightarrow> int option \<times> gauge \<Rightarrow> int option \<times> gauge" where
  "startRuntimeSampler now st = (case st of (Some _, _) \<Rightarrow> st | (None, g) \<Rightarrow> (Some now, g))"

definition stopRuntimeSampler :: "int option \<times> gauge \<Rightarrow> int option \<times> gauge" where
  "stopRuntimeSampler st = (None, snd st)"

definition sampler_timer :: "int \<Rightarrow> int option \<times> gauge \<Rightarrow> int option \<times> gauge" where
  "sampler_timer now st =
     (case st of
        (None, _) \<Rightarrow> st
      | (Some prev, g) \<Rightarrow> (let (t, g) = sampler_tick now (prev, g) in (Some t, g)))"

text \<open>A second start does not reset the first one; a stopped sampler writes nothing.\<close>

lemma sampler_started_once: "startRuntimeSampler now' (startRuntimeSampler now st) = startRuntimeSampler now st"
  by (simp add: startRuntimeSampler_def split: prod.split option.split)

lemma sampler_stopped: "sampler_timer now (stopRuntimeSampler st) = stopRuntimeSampler st"
  by (simp add: sampler_timer_def stopRuntimeSampler_def)

end
