(* ===== verification/EngineHints.thy ===== *)
theory EngineHints
  imports VsComputer
begin

text \<open>
  The hints of components/AIPlay.js. They ask the same engine as the game does, through the same
  \<open>requestMove\<close>: a line of the engine reaches every request that waits, whichever it belongs to.
  The state is the game of VsComputer with the hint on the board, the number of hint
  requests that wait and the flag \<open>thinking\<close>.
\<close>

record ai_screen =
  as_ai :: ai
  as_hint :: "((int option \<times> int) \<times> (int option \<times> int)) option"
  as_waiting :: nat
  as_thinking :: bool

definition ai_screen_opened :: ai_screen where
  "ai_screen_opened = \<lparr>as_ai = init_ai, as_hint = None, as_waiting = 0, as_thinking = False\<rparr>"

datatype as_event = Play ai_event | Ask_hint

text \<open>The handlers that take the hint away: starting, clicking on the board in one's turn, a new game.\<close>

definition clears_hint :: "ai \<Rightarrow> ai_event \<Rightarrow> bool" where
  "clears_hint x ev \<longleftrightarrow>
     (case ev of
        Game_started _ _ _ \<Rightarrow> \<not> ai_started x
      | Ai_square _ _ _ \<Rightarrow> ai_started x \<and> \<not> isAiTurn x
      | Ai_new_game _ \<Rightarrow> ai_started x
      | _ \<Rightarrow> False)"

text \<open>The question of \<open>askHint\<close>: full strength, 600 ms.\<close>

definition hint_question :: "ai \<Rightarrow> string list" where
  "hint_question x =
     (let g = ai_game x
      in move_commands (boardToFEN (s_board g) (s_turn g) (Some (s_cast g)) (s_ep g) (s_hist g)) 20 600)"

definition hint_of :: "uci_move \<Rightarrow> (int option \<times> int) \<times> (int option \<times> int)" where
  "hint_of mv = (squareToRC (um_from mv), squareToRC (um_to mv))"

text \<open>The button is disabled out of turn, while a request runs and while a promotion is chosen.\<close>

definition can_ask :: "ai_screen \<Rightarrow> bool" where
  "can_ask s \<longleftrightarrow> ai_started (as_ai s) \<and> s_turn (ai_game (as_ai s)) = ai_color (as_ai s) \<and> \<not> as_thinking s \<and>
     h_promo (ai_game (as_ai s)) = None"

text \<open>One answer ends every request; the effect may then ask for the next move.\<close>

fun as_step :: "ai_screen \<Rightarrow> as_event \<Rightarrow> ai_screen" where
  "as_step s (Play (Engine_answers now mv)) =
     (let x = ai_step (as_ai s) (Engine_answers now mv) in
      s\<lparr>as_ai := x, as_waiting := 0, as_thinking := (ai_pending x \<noteq> []),
        as_hint := (if as_waiting s = 0 then as_hint s else case mv of None \<Rightarrow> as_hint s | Some m \<Rightarrow> Some (hint_of m))\<rparr>)"
| "as_step s (Play ev) =
     (let x = ai_step (as_ai s) ev in
      s\<lparr>as_ai := x, as_thinking := (as_thinking s \<or> length (ai_pending (as_ai s)) < length (ai_pending x)),
        as_hint := (if clears_hint (as_ai s) ev then None else as_hint s)\<rparr>)"
| "as_step s Ask_hint = (if can_ask s then s\<lparr>as_waiting := Suc (as_waiting s), as_thinking := True\<rparr> else s)"

section \<open>Asking does not touch the game\<close>

fun plays_of :: "as_event list \<Rightarrow> ai_event list" where
  "plays_of [] = []"
| "plays_of (Play ev # es) = ev # plays_of es"
| "plays_of (Ask_hint # es) = plays_of es"

lemma as_step_play: "as_ai (as_step s (Play ev)) = ai_step (as_ai s) ev"
  by (cases ev) (simp_all add: Let_def)

lemma hints_refine_game: "as_ai (run_steps as_step s es) = run_steps ai_step (as_ai s) (plays_of es)"
proof (induction es arbitrary: s)
  case (Cons e es)
  show ?case
    using Cons.IH by (cases e) (simp_all add: as_step_play del: as_step.simps(1-8), simp_all)
qed simp

text \<open>While a hint is awaited the screen is busy, and no second one is asked for.\<close>

interpretation hints: invariant_machine as_step "\<lambda>s. (as_waiting s \<noteq> 0 \<longrightarrow> as_thinking s) \<and> as_waiting s \<le> 1"
proof
  show "(as_waiting (as_step s e) \<noteq> 0 \<longrightarrow> as_thinking (as_step s e)) \<and> as_waiting (as_step s e) \<le> 1"
    if "(as_waiting s \<noteq> 0 \<longrightarrow> as_thinking s) \<and> as_waiting s \<le> 1" for s e
  proof (cases e)
    case (Play ev)
    then show ?thesis
      using that by (cases ev) (auto simp: Let_def)
  qed (use that in \<open>auto simp: can_ask_def\<close>)
qed

section \<open>The engine plays the hint\<close>

text \<open>A screen on which the engine is to move, was asked, and nobody waits for its answer.\<close>

definition stalled :: "ai_screen \<Rightarrow> bool" where
  "stalled s \<longleftrightarrow> isAiTurn (as_ai s) \<and> ai_asked (as_ai s) \<and> ai_pending (as_ai s) = []"

definition restarts :: "as_event \<Rightarrow> bool" where
  "restarts e \<longleftrightarrow> (case e of Play Ai_undo \<Rightarrow> True | Play (Ai_new_game _) \<Rightarrow> True | _ \<Rightarrow> False)"

lemma stalled_effect: "isAiTurn x \<Longrightarrow> ai_asked x \<Longrightarrow> ai_pending x = [] \<Longrightarrow> ai_effect x = x"
  by (cases x) (simp add: ai_effect_def)

lemma stalled_step:
  assumes "stalled s" and "\<not> restarts e"
  shows "as_ai (as_step s e) = as_ai s"
proof (cases e)
  case (Play ev)
  have turn: "isAiTurn (as_ai s)" "ai_asked (as_ai s)" "ai_pending (as_ai s) = []" "ai_started (as_ai s)" "h_promo (ai_game (as_ai s)) = None"
    using assms(1) by (auto simp: stalled_def isAiTurn_def)
  have "ai_act ev (as_ai s) = as_ai s"
    using assms(2) turn by (cases ev) (auto simp: Play restarts_def answer_all_def doPromo_def split: option.split)
  then show ?thesis
    using stalled_effect [OF turn(1-3)] by (simp add: Play as_step_play ai_step_def)
qed simp

lemma stalled_run: "stalled s \<Longrightarrow> list_all (\<lambda>e. \<not> restarts e) es \<Longrightarrow> as_ai (run_steps as_step s es) = as_ai s"
proof (induction es arbitrary: s)
  case (Cons e es)
  have "as_ai (as_step s e) = as_ai s"
    using Cons.prems by (intro stalled_step) simp_all
  moreover have "stalled (as_step s e)"
    using Cons.prems(1) \<open>as_ai (as_step s e) = as_ai s\<close> by (simp add: stalled_def)
  ultimately show ?case
    using Cons.IH Cons.prems(2) by (simp del: as_step.simps)
qed simp


text \<open>The player asks at the start, plays the king's pawn, and the hint was the queen's pawn.\<close>

definition asked_screen :: ai_screen where
  "asked_screen = run_steps as_step ai_screen_opened
     [Play (Game_started 0 (Some White) True), Ask_hint, Play (Ai_square 0 6 4), Play (Ai_square 0 4 4)]"

definition hint_d4 :: uci_move where
  "hint_d4 = \<lparr>um_from = ''d2'', um_to = ''d4'', um_promotion = None\<rparr>"

lemma waiting_play: "\<forall>now mv. ev \<noteq> Engine_answers now mv \<Longrightarrow> as_waiting (as_step s (Play ev)) = as_waiting s"
  by (cases ev) (simp_all add: Let_def)

lemma asked_screen_facts: "as_ai asked_screen = ai_opening" "as_waiting asked_screen = 1"
proof -
  show "as_ai asked_screen = ai_opening"
    by (simp add: asked_screen_def hints_refine_game ai_opening_def ai_screen_opened_def del: as_step.simps run_steps.simps) 
  let ?s1 = "as_step ai_screen_opened (Play (Game_started 0 (Some White) True))"
  have "can_ask ?s1" "as_waiting ?s1 = 0"
    by (simp_all add: can_ask_def ai_screen_opened_def Let_def ai_step_def startGame_def init_ai_def ai_effect_def isAiTurn_def
        reset_game_def init_hook_def)
  then have "as_waiting (as_step ?s1 Ask_hint) = 1"
    by simp
  then show "as_waiting asked_screen = 1"
    unfolding asked_screen_def run_steps.simps by (simp add: waiting_play del: as_step.simps)
qed


end
