(* ===== verification/Spec2Isabelle.thy ===== *)
theory Spec2Isabelle
  imports ChessGame Openings GameSocket Shutdown Tournament AuthSafety Friends PublicRoutes Server LogSanitize Metrics ClientSession MultiplayerClient LocalPlay VsComputer SeatOwnership RoomTasks Replay AccountScreens AppShell ApiRoutes Connections EngineHints
begin

text \<open>
  Verification library of the chess application: a React client (Chess-Frontend/src) and an
  Express and Socket.IO server (Chess-Backend/src) over PostgreSQL, with Redis where there is more
  than one replica. The definitions are translations of the JavaScript functions they are named
  after; the theorems labelled C1, C2, \<dots> are the properties of the program, each
  after a text block that says what it states.

  \<^bold>\<open>The program and its parts.\<close> The client plays a game by its own rules engine (Engine, MoveText, Position,
  ChessGame, Openings), on one device with a clock (LocalPlay), against the Stockfish engine (VsComputer) or online
  (MultiplayerClient); it keeps a session (ClientSession) and replays stored games (Replay). The server
  keeps accounts and sessions (Accounts, AuthRoutes, Avatars), rooms and games (GameDB, GameTx,
  GameSocket, RoomTasks, RematchVotes, Elo), friends and tournaments (Friends, Tournament), public statistics
  (PublicRoutes), and runs as a process that starts (Startup, RedisClients, RateLimits,
  Migrations, Server), logs and counts (LogSanitize, MetricsRegistry, Metrics) and stops (Shutdown).
  The parts meet in four places: the sockets and the account routes work on one database
  (SocketGate, SeatOwnership and the last section here), the client and the server exchange the
  messages of GameSocket (MultiplayerClient), the rows a game leaves are read by Replay, and the
  shutdown drives the gates of the server and of the sockets (Server, SocketGate).

  \<^bold>\<open>State.\<close> Database is the PostgreSQL state, one list of records per table, and a query is a
  function from it to an error or a result and the database afterwards; \<open>transaction\<close> takes every change
  back on an error. Everything else is explicit state passing: \<open>hook\<close> is the state of
  useChessGame.js, \<open>server\<close> the room cache, votes and drain flag of gameSocket.js, \<open>controller\<close> the
  module state of services/shutdown.js, \<open>site\<close> a server with its open connections, \<open>chains\<close> the promise chains of a
  room. Each component has a step function over a datatype of events, and \<open>run_steps\<close> (Prelude) runs a
  list of events; the statements about all histories quantify over that list.

  \<^bold>\<open>Theories and sources.\<close>
  \<^item> Prelude: JavaScript strings and numbers, results, \<open>run_steps\<close> and the two locales of state machines.
    Timeouts: a promise against a timer. Database: the tables and transactions.
  \<^item> Engine, MoveText, Position: engine/chessEngine.js and the board part of \<open>applyMove\<close>. \<open>rawMoves\<close> and
    \<open>inChk\<close> are shown equal to declarative rules of movement and check (C1, C2), \<open>getLegal\<close> to keep the king
    safe (C3), and the FEN text to be readable back (C5).
  \<^item> ChessGame: hooks/useChessGame.js and \<open>replayToSnapshots\<close>. One invariant over every reachable state gives the
    soundness of a local game, the replay of its log, and undo. Openings: constants/openings.js.
  \<^item> Replay: components/ReplayModal.js against the rows \<open>persistMoveAtomic\<close> writes.
  \<^item> LocalPlay, VsComputer, MultiplayerClient: hooks/useGameTimer.js and components/GameScreen.js; utils/stockfish.js, hooks/useStockfish.js
    and components/AIPlay.js, whose hints are in EngineHints; hooks/useMultiplayer.js, components/OnlinePlay.js and ChatPanel.js.
  \<^item> ClientSession: \<open>request\<close> of api/client.js, utils/authStorage.js and the account state of App.js, against the account
    routes. AppShell: the screens of App.js and the windows of HomeScreen.js. Screens: TournamentsModal, FriendsModal and
    AchievementToast. AccountScreens: AuthModal, AccountAction, ProfileModal, LeaderboardModal and contexts/SettingsContext.js;
    its last section joins the forms to the endpoints (C40). ApiRoutes: the calls of api/client.js against the routers
    server.js mounts, every call reaching the handler it is written for.
  \<^item> Elo: utils/elo.js. GameDB: models/Game.js, Move.js, the writes of Score.js and Achievement.js. GameTx:
    the transactions of socket/gameSocket.js. GameSocket: its room cache and handlers. RoomTasks:
    \<open>roomTask\<close>. RematchVotes: services/rematchVotes.js, both backends behind \<open>vote_store\<close>.
  \<^item> Accounts, AuthRoutes, AuthSafety: models/User.js, models/AuthToken.js, services/tokens.js, middleware/auth.js,
    routes/auth.js, and what holds of them over all request sequences. Avatars: middleware/upload.js and services/avatarStore.js.
  \<^item> SocketGate: the handshake and the packet gates, and the site. SeatOwnership: who moves.
  \<^item> Tournament, Friends, PublicRoutes: the models and routes of the same names.
  \<^item> Startup, RedisClients, RateLimits, Migrations, Server, Shutdown: config/, services/redis.js, services/rateLimit.js,
    Database/migrations/run.js, server.js and services/shutdown.js. Connections: the pool of config/db.js, the transport of
    services/mail.js and what metrics/ attaches once.
  \<^item> LogSanitize, MetricsRegistry, Metrics: config/logSanitize.js and the metrics/ directory.

  \<^bold>\<open>Interfaces.\<close> \<open>invariant_machine\<close> and \<open>ranked_machine\<close> (Prelude) turn a step lemma into a
  statement about all runs; \<open>chess_game\<close>, \<open>local_clock\<close>, \<open>game_tables\<close>, \<open>game_server\<close>, \<open>tournament_tables\<close>,
  \<open>stuck_bracket\<close>, \<open>friend_table\<close>, \<open>controller\<close>, \<open>serving\<close>, \<open>site_sessions\<close>, \<open>site_history\<close>, \<open>account\<close>, \<open>settings\<close> and \<open>app_shell\<close> are their
  interpretations, as is \<open>hints\<close>. \<open>window\<close> (Screens) carries an invariant and a property of every call through the runs of a window:
  \<open>tournaments\<close>, \<open>no_report\<close>, \<open>friends\<close>, \<open>signing\<close>, \<open>reset_page\<close> and \<open>own_link\<close>. \<open>account_property\<close> (AuthRoutes) carries a property of the database from the statements of
  the account models to every endpoint: \<open>sessions\<close>, \<open>used_tokens\<close>, \<open>dead_families\<close>, \<open>used_links\<close>, \<open>account_games\<close> and
  \<open>account_moves\<close>. \<open>socket_frame\<close> and its extension \<open>socket_property\<close> (GameSocket) do the same for the socket
  handlers: \<open>socket_tables\<close>, \<open>socket_sessions\<close>, \<open>move_table\<close>. \<open>vote_store\<close>, \<open>avatar_store\<close> and \<open>summary_metric\<close> state what a backend
  promises and are interpreted on each backend of the code.

  \<^bold>\<open>Parameters.\<close> Code that is not in the repository is an argument, with what is relied on as a
  hypothesis of the statement that needs it: chess.js (\<open>chess_lib\<close>), bcrypt, SHA-256, JWT and the
  random source (\<open>crypto\<close>, \<open>web\<close>), sharp, multer and S3 (Avatars), express-validator's address syntax and the URL
  class (\<open>web\<close>), the counting of express-rate-limit, the SQL of a migration, the Stockfish
  process, Redis commands, the decimal text of a number in the metrics. Socket.IO is
  the list of messages a handler sends and delivers in order; React applies the state updates of a handler in
  the order of the source and a handler reads the state it was rendered with.

  \<^bold>\<open>Time, bounds and fuel.\<close> Clocks are arguments: milliseconds as integers in the server and the client,
  nanoseconds in Metrics. A promise beats a timer when it settles strictly earlier; one that never
  settles is None. Ids are unbounded naturals. Ratings are integers, the expected score a real
  number without rounding. \<open>slide\<close> (Engine) has fuel 8, the width of the board, and \<open>ray_target\<close> shows it is
  enough; \<open>generateRoomId\<close> consumes a list of draws and returns None when it is used up, since the
  source draws until an id is free; the walks of LogSanitize are bounded by the depth limit of the
  source. Every other recursion is structural or has a termination proof.

  \<^bold>\<open>Not modelled.\<close> The drawing of the screens (layout, themes, sounds and icons), components without state
  (MeetTheCreator, ChessBoard, CapturedPieces, PieceGlyph, the ui/ widgets, StatsChart, ErrorBoundary), the
  generated report under coverage/, the vendored engine under public/stockfish, and the wiring of libraries: helmet, cors, the mounting
  of Express routers, winston's transports, the Web Audio calls of utils/sound.js. Statements of one database
  operation are not interleaved with those of another where the code holds a lock or a transaction; where it holds none
  (Friends), the statements are separate steps. The handlers of one room are single steps of GameSocket; RoomTasks shows
  what makes them so, and when the chains of a room fork.
\<close>

section \<open>The whole site\<close>

definition site_inv :: "('c, 'v) site \<Rightarrow> bool" where
  "site_inv s \<longleftrightarrow> game_inv (sv_db (st_server s))"

lemma site_inv_step: "site_inv s \<Longrightarrow> site_inv (site_step w cl V s ev)"
  by (cases ev) (auto simp: site_inv_def deliver_def web_step socket_tables.server_step split: sum.split option.split)

interpretation site_history: invariant_machine "site_step w cl V" site_inv for w cl V
  by unfold_locales (rule site_inv_step)

text \<open>
  C12. Whatever the site does - account requests, handshakes, packets of any kind, hang-ups, draining,
  in any order, for every behaviour of the chess library, the crypto library and the votes backend -
  the game tables stay sound. From a database without games: the moves of a game are numbered 1, 2, 3, \<dots> without gaps,
  the stored board of a game is the one after its last move (the initial one before the first),
  every move belongs to a stored game, and no two games hold the same room.
\<close>

theorem site_history_sound:
  fixes cl :: "'c chess_lib" and s0 :: "('c, 'v) site"
  shows "let d = sv_db (st_server (run_steps (site_step w cl V)
                   (s0\<lparr>st_server := (st_server s0)\<lparr>sv_db := base\<lparr>games := [], moves := []\<rparr>\<rparr>\<rparr>) es)) in
     (\<forall>gid. map m_number (moves_in d gid) = [1 ..< Suc (length (moves_in d gid))]) \<and>
     list_all (\<lambda>g. Some (g_fen g) =
        (if moves_in d (g_id g) = [] then Some start_fen else m_fen (last (moves_in d (g_id g))))) (games d) \<and>
     list_all (\<lambda>m. m_game m \<in> g_id ` set (games d)) (moves d) \<and>
     (\<forall>room. length (filter (\<lambda>g. g_room g = Some room) (games d)) \<le> 1)"
proof -
  have "site_inv (run_steps (site_step w cl V) (s0\<lparr>st_server := (st_server s0)\<lparr>sv_db := base\<lparr>games := [], moves := []\<rparr>\<rparr>\<rparr>) es)"
    by (rule site_history.run_inv) (simp add: site_inv_def game_inv_no_games)
  then show ?thesis
    unfolding Let_def site_inv_def by (rule game_inv_meaning)
qed

end
